(* ===== verification/Prelude.thy ===== *)
theory Prelude
  imports Main "HOL-Library.Word" "HOL-Library.Product_Lexorder"
    "HOL-Library.List_Lexorder" "HOL-Library.Char_ord"
begin

text \<open>
  What every component of the Philharmonic model shares: the Go base types, 64-bit wrap-around,
  error values with the sentinels that \<open>errors.Is\<close> looks for, the parts of \<open>strings\<close>,
  \<open>strconv\<close> and \<open>fmt\<close> the program calls, and the theorem collections the component
  theories add to.

  Conventions. A Go \<open>string\<close> is a sequence of bytes, here a \<open>char list\<close>. An \<open>int\<close> or
  \<open>int64\<close> is an \<open>int\<close> whose arithmetic is wrapped by \<open>wrap64\<close> wherever the source can
  overflow. A \<open>uuid.UUID\<close> (16 bytes, most significant first) is a \<open>128 word\<close>, so that
  \<open>bytes.Compare\<close> is the order of words. A \<open>time.Time\<close> is the number of nanoseconds since
  Go's zero time, so \<open>IsZero\<close> is \<open>t = 0\<close>. A \<open>float64\<close> is its 64-bit pattern; float
  arithmetic is a parameter where it is used.
\<close>

named_theorems frame_simps \<open>fields an operation leaves as they were\<close>

named_theorems inv_intros \<open>operations that keep an invariant\<close>

named_theorems branch_simps \<open>one equation per branch of an operation\<close>

section \<open>Base types\<close>

type_synonym uuid = "128 word"
type_synonym i64 = int
type_synonym gotime = int
type_synonym duration = int
type_synonym float64 = "64 word"

definition uuid_Nil :: uuid where
  "uuid_Nil = 0"

definition time_IsZero :: "gotime \<Rightarrow> bool" where
  "time_IsZero t \<longleftrightarrow> t = 0"

definition second :: duration where
  "second = 1000000000"

section \<open>Machine integers\<close>

definition in_i64 :: "int \<Rightarrow> bool" where
  "in_i64 x \<longleftrightarrow> - (2 ^ 63) \<le> x \<and> x < 2 ^ 63"

definition wrap64 :: "int \<Rightarrow> int" where
  "wrap64 x = (x + 2 ^ 63) mod 2 ^ 64 - 2 ^ 63"

lemma wrap64_in_i64: "in_i64 (wrap64 x)"
  by (simp add: wrap64_def in_i64_def)

lemma wrap64_id: "in_i64 x \<Longrightarrow> wrap64 x = x"
  by (simp add: wrap64_def in_i64_def)

lemma wrap64_small [simp]: "\<bar>x\<bar> < 2 ^ 62 \<Longrightarrow> wrap64 x = x"
  by (rule wrap64_id) (auto simp: in_i64_def)

text \<open>Twice a non-negative 64-bit value either fits or comes out negative.\<close>

lemma wrap64_double:
  assumes "0 \<le> d" "d < 2 ^ 63"
  shows "wrap64 (d * 2) = (if d < 2 ^ 62 then 2 * d else 2 * d - 2 ^ 64)"
proof (cases "d < 2 ^ 62")
  case True
  with assms show ?thesis by (simp add: wrap64_id in_i64_def)
next
  case False
  have "(d * 2 + 2 ^ 63) mod 2 ^ 64 = (d * 2 + 2 ^ 63 - 2 ^ 64) mod 2 ^ 64"
    by (rule minus_mod_self2 [symmetric])
  also have "\<dots> = d * 2 + 2 ^ 63 - 2 ^ 64"
    using assms False by simp
  finally show ?thesis using False by (simp add: wrap64_def)
qed

definition clampToUint16 :: "int \<Rightarrow> 16 word" where
  "clampToUint16 i =
     (if i < 0 then 0 else if i > 65535 then 65535 else word_of_int i)"

lemma uint_clampToUint16: "0 \<le> i \<Longrightarrow> i \<le> 65535 \<Longrightarrow> uint (clampToUint16 i) = i"
  by (simp add: clampToUint16_def uint_word_of_int)

lemma clampToUint16_inj:
  assumes "0 \<le> i" "i \<le> 65535" "0 \<le> j" "j \<le> 65535"
  shows "clampToUint16 i = clampToUint16 j \<longleftrightarrow> i = j"
  using assms uint_clampToUint16 by metis

section \<open>Errors\<close>

text \<open>
  An error value is its message and the sentinels in its \<open>%w\<close> chain, which is all the program
  looks at (\<open>errors.Is\<close>, \<open>err.Error()\<close>).
\<close>

datatype sentinel = ErrNotFound | ErrClusterUnreachable | ErrStatsNotCollected

datatype gerror = GErr (err_msg: string) (err_wraps: "sentinel list")

definition errorf :: "string \<Rightarrow> gerror" where
  "errorf m = GErr m []"

definition wrapf :: "string \<Rightarrow> gerror \<Rightarrow> gerror" where
  "wrapf m e = GErr (m @ err_msg e) (err_wraps e)"

definition errors_Is :: "gerror \<Rightarrow> sentinel \<Rightarrow> bool" where
  "errors_Is e s \<longleftrightarrow> s \<in> set (err_wraps e)"

fun str_join :: "string \<Rightarrow> string list \<Rightarrow> string" where
  "str_join sep [] = []"
| "str_join sep [x] = x"
| "str_join sep (x # xs) = x @ sep @ str_join sep xs"

text \<open>\<open>errors.Join\<close>: nil when nothing went wrong.\<close>

definition errors_Join :: "gerror list \<Rightarrow> gerror option" where
  "errors_Join es =
     (if es = [] then None
      else Some (GErr (str_join [CHR 0x0A] (map err_msg es)) (concat (map err_wraps es))))"

lemma errors_Is_errorf [simp]: "\<not> errors_Is (errorf m) s"
  by (simp add: errors_Is_def errorf_def)

lemma errors_Is_wrapf [simp]: "errors_Is (wrapf m e) s = errors_Is e s"
  by (simp add: errors_Is_def wrapf_def)

lemma errors_Is_GErr [simp]: "errors_Is (GErr m ss) s \<longleftrightarrow> s \<in> set ss"
  by (simp add: errors_Is_def)

lemma errors_Join_None [simp]: "errors_Join es = None \<longleftrightarrow> es = []"
  by (simp add: errors_Join_def)

section \<open>Decimal numbers\<close>

definition digit :: "nat \<Rightarrow> char" where
  "digit d = char_of (48 + d)"

fun nat_digits :: "nat \<Rightarrow> string" where
  "nat_digits n = (if n < 10 then [digit n] else nat_digits (n div 10) @ [digit (n mod 10)])"

declare nat_digits.simps [simp del]

text \<open>\<open>strconv.Itoa\<close> and the \<open>%d\<close> verb.\<close>

definition itoa :: "int \<Rightarrow> string" where
  "itoa i = (if i < 0 then CHR ''-'' # nat_digits (nat (- i)) else nat_digits (nat i))"

definition char_digit :: "char \<Rightarrow> nat option" where
  "char_digit c = (if (48::nat) \<le> of_char c \<and> of_char c \<le> (57::nat) then Some (of_char c - 48) else None)"

fun string_val :: "nat \<Rightarrow> string \<Rightarrow> nat option" where
  "string_val acc [] = Some acc"
| "string_val acc (c # cs) =
     (case char_digit c of None \<Rightarrow> None | Some d \<Rightarrow> string_val (10 * acc + d) cs)"

text \<open>
  \<open>strconv.Atoi\<close>: an optional sign, at least one digit, digits only, and a value that fits an
  \<open>int\<close>; \<open>None\<close> stands for its error.
\<close>

definition atoi :: "string \<Rightarrow> int option" where
  "atoi s =
     (let neg = (case s of c # _ \<Rightarrow> c = CHR ''-'' | [] \<Rightarrow> False);
          body = (case s of c # cs \<Rightarrow> if c = CHR ''-'' \<or> c = CHR ''+'' then cs else s | [] \<Rightarrow> [])
      in if body = [] then None
         else (case string_val 0 body of
                 None \<Rightarrow> None
               | Some n \<Rightarrow>
                   (let v = (if neg then - int n else int n)
                    in if in_i64 v then Some v else None)))"

lemma of_char_digit: "d < 10 \<Longrightarrow> of_char (digit d) = 48 + d"
  by (simp add: digit_def)

lemma char_digit_digit [simp]: "d < 10 \<Longrightarrow> char_digit (digit d) = Some d"
  by (simp add: char_digit_def of_char_digit)

lemma string_val_append:
  "string_val acc (xs @ ys) =
     (case string_val acc xs of None \<Rightarrow> None | Some a \<Rightarrow> string_val a ys)"
  by (induction xs arbitrary: acc) (auto split: option.splits)

lemma string_val_nat_digits: "string_val 0 (nat_digits n) = Some n"
proof (induction n rule: nat_digits.induct)
  case (1 n)
  show ?case
  proof (cases "n < 10")
    case True
    then show ?thesis by (subst nat_digits.simps) simp
  next
    case False
    with 1 have "string_val 0 (nat_digits (n div 10)) = Some (n div 10)" by simp
    with False show ?thesis
      by (subst nat_digits.simps) (simp add: string_val_append)
  qed
qed

lemma nat_digits_inj: "nat_digits m = nat_digits n \<longleftrightarrow> m = n"
  using string_val_nat_digits by (metis option.inject)

lemma nat_digits_nonempty [simp]: "nat_digits n \<noteq> []"
  by (subst nat_digits.simps) simp

lemma nat_digits_set: "set (nat_digits n) \<subseteq> digit ` {..<10}"
proof (induction n rule: nat_digits.induct)
  case (1 n)
  then show ?case by (subst nat_digits.simps) auto
qed

lemma digit_neq:
  assumes "d < 10" "of_char c < (48::nat) \<or> (57::nat) < of_char c"
  shows "digit d \<noteq> c"
proof
  assume "digit d = c"
  with of_char_digit [OF assms(1)] have "of_char c = 48 + d" by (simp only:)
  with assms show False by linarith
qed

lemma digit_not_sign:
  assumes "d < 10"
  shows "digit d \<noteq> CHR ''-'' \<and> digit d \<noteq> CHR ''+'' \<and> digit d \<noteq> CHR '':''"
  by (intro conjI; rule digit_neq [OF assms]; simp)

lemma nat_digits_Cons: "\<exists>d cs. d < 10 \<and> nat_digits n = digit d # cs"
proof (cases "nat_digits n")
  case (Cons c cs)
  then have "c \<in> digit ` {..<10}" using nat_digits_set [of n] by auto
  with Cons show ?thesis by auto
qed simp

lemma itoa_inj: "itoa i = itoa j \<longleftrightarrow> i = j"
proof
  assume eq: "itoa i = itoa j"
  obtain c cs where c: "c < 10" "nat_digits (nat i) = digit c # cs" using nat_digits_Cons by blast
  obtain d ds where d: "d < 10" "nat_digits (nat j) = digit d # ds" using nat_digits_Cons by blast
  note signs = digit_not_sign [OF c(1)] digit_not_sign [OF d(1)]
  show "i = j"
  proof (cases "i < 0 \<or> j < 0")
    case True
    with eq signs c d have "i < 0" "j < 0" by (auto simp: itoa_def split: if_splits)
    with eq show ?thesis by (simp add: itoa_def nat_digits_inj)
  next
    case False
    with eq have "nat i = nat j" by (simp add: itoa_def nat_digits_inj)
    with False show ?thesis by (simp add: eq_nat_nat_iff)
  qed
qed simp

lemma atoi_itoa:
  assumes "in_i64 i"
  shows "atoi (itoa i) = Some i"
proof (cases "i < 0")
  case True
  with assms show ?thesis by (simp add: itoa_def atoi_def string_val_nat_digits Let_def)
next
  case False
  obtain c cs where c: "c < 10" "nat_digits (nat i) = digit c # cs" using nat_digits_Cons by blast
  have "string_val 0 (digit c # cs) = Some (nat i)"
    using string_val_nat_digits [of "nat i"] c by simp
  with False assms c digit_not_sign [OF c(1)] show ?thesis
    by (simp add: itoa_def atoi_def Let_def)
qed

section \<open>Strings\<close>

text \<open>\<open>strings.Cut\<close> with a one-byte separator.\<close>

fun str_cut :: "char \<Rightarrow> string \<Rightarrow> string \<times> string \<times> bool" where
  "str_cut c [] = ([], [], False)"
| "str_cut c (x # xs) =
     (if x = c then ([], xs, True)
      else (case str_cut c xs of (b, a, f) \<Rightarrow> if f then (x # b, a, True) else (x # xs, [], False)))"

lemma str_cut_absent [simp]: "c \<notin> set s \<Longrightarrow> str_cut c s = (s, [], False)"
  by (induction s) auto

lemma str_cut_present [simp]: "c \<notin> set b \<Longrightarrow> str_cut c (b @ c # a) = (b, a, True)"
  by (induction b) auto

lemma str_cut_found: "str_cut c s = (b, a, True) \<longleftrightarrow> s = b @ c # a \<and> c \<notin> set b"
proof (cases "c \<in> set s")
  case True
  then obtain b' a' where s: "s = b' @ c # a'" "c \<notin> set b'"
    using split_list_first by metis
  show ?thesis
  proof
    assume "str_cut c s = (b, a, True)"
    with s show "s = b @ c # a \<and> c \<notin> set b" by simp
  next
    assume "s = b @ c # a \<and> c \<notin> set b"
    then show "str_cut c s = (b, a, True)" by simp
  qed
next
  case False
  then show ?thesis by auto
qed

lemma str_cut_not_found: "str_cut c s = (b, a, False) \<longleftrightarrow> b = s \<and> a = [] \<and> c \<notin> set s"
proof (cases "c \<in> set s")
  case True
  then obtain b' a' where "s = b' @ c # a'" "c \<notin> set b'"
    using split_list_first by metis
  then show ?thesis by auto
next
  case False
  then show ?thesis by auto
qed

lemma cut_unique:
  fixes c :: char
  assumes "c \<notin> set k"
  shows "(\<exists>k' v'. k @ c # v = k' @ c # v' \<and> P k' v' \<and> c \<notin> set k') \<longleftrightarrow> P k v"
proof
  assume "\<exists>k' v'. k @ c # v = k' @ c # v' \<and> P k' v' \<and> c \<notin> set k'"
  then obtain k' v' where *: "k @ c # v = k' @ c # v'" "P k' v'" "c \<notin> set k'" by blast
  have "(k, v, True) = str_cut c (k @ c # v)" by (rule str_cut_present [OF assms, symmetric])
  also have "\<dots> = str_cut c (k' @ c # v')" by (simp only: *(1))
  also have "\<dots> = (k', v', True)" by (rule str_cut_present [OF *(3)])
  finally show "P k v" using * by simp
qed (use assms in blast)

text \<open>\<open>strings.Split\<close> with a one-byte separator.\<close>

fun str_split :: "char \<Rightarrow> string \<Rightarrow> string list" where
  "str_split c [] = [[]]"
| "str_split c (x # xs) =
     (if x = c then [] # str_split c xs
      else (case str_split c xs of p # ps \<Rightarrow> (x # p) # ps | [] \<Rightarrow> [[x]]))"

lemma str_split_nonempty [simp]: "str_split c s \<noteq> []"
  by (induction s) (auto split: list.splits)

lemma str_split_join: "str_join [c] (str_split c s) = s"
proof (induction s)
  case Nil
  then show ?case by simp
next
  case (Cons x xs)
  obtain p ps where p: "str_split c xs = p # ps" by (cases "str_split c xs") auto
  with Cons show ?case by (cases ps) auto
qed

lemma str_split_no_sep: "p \<in> set (str_split c s) \<Longrightarrow> c \<notin> set p"
  by (induction s arbitrary: p) (auto split: if_splits list.splits)

lemma str_split_absent [simp]: "c \<notin> set s \<Longrightarrow> str_split c s = [s]"
  by (induction s) auto

lemma str_split_present [simp]: "c \<notin> set p \<Longrightarrow> str_split c (p @ c # q) = p # str_split c q"
  by (induction p) auto

lemma split_single: "str_split c s = [p] \<longleftrightarrow> s = p \<and> c \<notin> set p"
  using str_split_join [of c s] str_split_no_sep [of p c s] by auto

lemma split_pair: "str_split c s = [p, q] \<longleftrightarrow> s = p @ c # q \<and> c \<notin> set p \<and> c \<notin> set q"
  using str_split_join [of c s] str_split_no_sep [of p c s] str_split_no_sep [of q c s] by auto

definition has_prefix :: "string \<Rightarrow> string \<Rightarrow> bool" where
  "has_prefix p s \<longleftrightarrow> take (length p) s = p"

definition trim_prefix :: "string \<Rightarrow> string \<Rightarrow> string" where
  "trim_prefix p s = (if has_prefix p s then drop (length p) s else s)"

lemma has_prefix_iff: "has_prefix p s \<longleftrightarrow> (\<exists>r. s = p @ r)"
  unfolding has_prefix_def by (metis append_eq_conv_conj append_take_drop_id)

lemma has_prefix_append [simp]: "has_prefix p (p @ r)"
  by (simp add: has_prefix_def)

fun str_contains :: "string \<Rightarrow> string \<Rightarrow> bool" where
  "str_contains sub [] = (sub = [])"
| "str_contains sub (x # xs) = (has_prefix sub (x # xs) \<or> str_contains sub xs)"

text \<open>\<open>strings.ContainsAny\<close> for a set of ASCII characters.\<close>

definition contains_any :: "string \<Rightarrow> string \<Rightarrow> bool" where
  "contains_any s cs \<longleftrightarrow> list_ex (\<lambda>c. c \<in> set cs) s"

definition whitespace :: string where
  "whitespace = [CHR '' '', CHR 0x09, CHR 0x0A]"

definition ascii_lower :: "char \<Rightarrow> char" where
  "ascii_lower c = (if (65::nat) \<le> of_char c \<and> of_char c \<le> (90::nat) then char_of (of_char c + (32::nat)) else c)"

definition to_lower :: "string \<Rightarrow> string" where
  "to_lower s = map ascii_lower s"

text \<open>
  \<open>strings.TrimSpace\<close>: the UTF-8 encodings of Unicode's \<open>White_Space\<close> characters are cut off
  both ends.
\<close>

definition space_runes :: "string list" where
  "space_runes =
     [[CHR '' ''], [CHR 0x09], [CHR 0x0A], [CHR 0x0B], [CHR 0x0C], [CHR 0x0D],
      [CHR 0xC2, CHR 0x85], [CHR 0xC2, CHR 0xA0], [CHR 0xE1, CHR 0x9A, CHR 0x80],
      [CHR 0xE2, CHR 0x80, CHR 0x80], [CHR 0xE2, CHR 0x80, CHR 0x81], [CHR 0xE2, CHR 0x80, CHR 0x82],
      [CHR 0xE2, CHR 0x80, CHR 0x83], [CHR 0xE2, CHR 0x80, CHR 0x84], [CHR 0xE2, CHR 0x80, CHR 0x85],
      [CHR 0xE2, CHR 0x80, CHR 0x86], [CHR 0xE2, CHR 0x80, CHR 0x87], [CHR 0xE2, CHR 0x80, CHR 0x88],
      [CHR 0xE2, CHR 0x80, CHR 0x89], [CHR 0xE2, CHR 0x80, CHR 0x8A], [CHR 0xE2, CHR 0x80, CHR 0xA8],
      [CHR 0xE2, CHR 0x80, CHR 0xA9], [CHR 0xE2, CHR 0x80, CHR 0xAF], [CHR 0xE2, CHR 0x81, CHR 0x9F],
      [CHR 0xE3, CHR 0x80, CHR 0x80]]"

function trim_left :: "string list \<Rightarrow> string \<Rightarrow> string" where
  "trim_left ps s =
     (case find (\<lambda>p. p \<noteq> [] \<and> has_prefix p s) ps of
        None \<Rightarrow> s
      | Some p \<Rightarrow> trim_left ps (drop (length p) s))"
  by pat_completeness auto
termination
proof (relation "measure (\<lambda>(ps, s). length s)")
  show "wf (measure (\<lambda>(ps :: string list, s :: string). length s))" by simp
next
  fix ps :: "string list" and s p :: string
  assume "find (\<lambda>p. p \<noteq> [] \<and> has_prefix p s) ps = Some p"
  then have "p \<noteq> []" "has_prefix p s" by (auto simp: find_Some_iff)
  then show "((ps, drop (length p) s), (ps, s)) \<in> measure (\<lambda>(ps, s). length s)"
    by (auto simp: has_prefix_iff)
qed

declare trim_left.simps [simp del]

definition trim_space :: "string \<Rightarrow> string" where
  "trim_space s = rev (trim_left (map rev space_runes) (rev (trim_left space_runes s)))"

lemma trim_left_length: "length (trim_left ps s) \<le> length s"
proof (induction ps s rule: trim_left.induct)
  case (1 ps s)
  then show ?case
    by (subst trim_left.simps) (force split: option.splits)
qed

lemma trim_left_fixed: "p \<in> set ps \<Longrightarrow> p \<noteq> [] \<Longrightarrow> \<not> has_prefix p (trim_left ps s)"
proof (induction ps s rule: trim_left.induct)
  case (1 ps s)
  then show ?case
    by (subst trim_left.simps) (auto split: option.splits simp: find_None_iff)
qed

text \<open>
  The \<open>%q\<close> verb: quotes around the text, quotes, backslashes and control characters escaped,
  other bytes as they are (the verb's treatment of unprintable non-ASCII runes is not modelled;
  it shows in messages only).
\<close>

definition hex_digit :: "nat \<Rightarrow> char" where
  "hex_digit d = (if d < 10 then digit d else char_of (87 + d))"

definition quote_char :: "char \<Rightarrow> string" where
  "quote_char c =
     (let n = of_char c :: nat in
      if c = CHR 0x22 \<or> c = CHR 0x5C then [CHR 0x5C, c]
      else if n = 7 then [CHR 0x5C, CHR ''a''] else if n = 8 then [CHR 0x5C, CHR ''b'']
      else if n = 9 then [CHR 0x5C, CHR ''t''] else if n = 10 then [CHR 0x5C, CHR ''n'']
      else if n = 11 then [CHR 0x5C, CHR ''v''] else if n = 12 then [CHR 0x5C, CHR ''f'']
      else if n = 13 then [CHR 0x5C, CHR ''r'']
      else if n < 32 \<or> n = 127 then [CHR 0x5C, CHR ''x'', hex_digit (n div 16), hex_digit (n mod 16)]
      else [c])"

definition go_quote :: "string \<Rightarrow> string" where
  "go_quote s = CHR 0x22 # concat (map quote_char s) @ [CHR 0x22]"

section \<open>Lists and maps\<close>

lemma if_Some_eq_None [simp]:
  "((if b then Some x else None) = None) = (\<not> b)" "((if b then None else Some x) = None) = b"
  by simp_all

lemma find_cong_Some: "find P xs = Some x \<Longrightarrow> x \<in> set xs \<and> P x"
  by (auto simp: find_Some_iff)

lemma list_cases3:
  assumes "xs \<noteq> []"
  obtains p where "xs = [p]" | p q where "xs = [p, q]" | p q r rs where "xs = p # q # r # rs"
  using assms by (metis list.exhaust)

lemma distinct_map_eq:
  "distinct (map f xs) \<Longrightarrow> x \<in> set xs \<Longrightarrow> y \<in> set xs \<Longrightarrow> f x = f y \<Longrightarrow> x = y"
  by (auto simp: distinct_map inj_on_def)

text \<open>Sorting by a key with no ties depends on the set of elements only.\<close>

lemma sort_key_set_unique:
  assumes "set xs = set ys" "distinct (map f xs)" "distinct (map f ys)"
  shows "sort_key f xs = sort_key f ys"
proof (rule map_sorted_distinct_set_unique [where f = f])
  show "inj_on f (set (sort_key f xs) \<union> set (sort_key f ys))"
    using assms by (simp add: distinct_map)
  show "sorted (map f (sort_key f xs))" "sorted (map f (sort_key f ys))"
    by simp_all
  show "distinct (map f (sort_key f xs))" "distinct (map f (sort_key f ys))"
    using assms by (simp_all add: distinct_map)
  show "set (sort_key f xs) = set (sort_key f ys)"
    using assms by simp
qed

end
