(* ===== verification/Queues.thy ===== *)
theory Queues
  imports Prelude
begin

text \<open>
  The small building blocks under the manager and the worker: the FIFO queue of
  \<open>queue/queue.go\<close>, the wake-up channel of \<open>wake/wake.go\<close> and the retry loop of
  \<open>utils/retry.go\<close>. The queue's contract is the locale \<open>fifo_queue\<close>, interpreted on the
  model of the Go slice.
\<close>

section \<open>The queue contract\<close>

locale fifo_queue =
  fixes items_of :: "'q \<Rightarrow> 'a list"
    and new :: "'q"
    and enq :: "'q \<Rightarrow> 'a \<Rightarrow> 'q"
    and deq :: "'q \<Rightarrow> 'a option \<times> 'q"
    and size_of :: "'q \<Rightarrow> nat"
    and drop_if :: "'q \<Rightarrow> ('a \<Rightarrow> bool) \<Rightarrow> nat \<times> 'q"
  assumes items_new: "items_of new = []"
    and items_enq: "items_of (enq q a) = items_of q @ [a]"
    and deq_empty: "items_of q = [] \<Longrightarrow> deq q = (None, q)"
    and deq_first: "items_of q = a # as \<Longrightarrow> \<exists>q'. deq q = (Some a, q') \<and> items_of q' = as"
    and size_items: "size_of q = length (items_of q)"
    and items_drop_if: "items_of (snd (drop_if q P)) = filter (\<lambda>a. \<not> P a) (items_of q)"
    and count_drop_if: "fst (drop_if q P) = length (filter P (items_of q))"
begin

lemma items_enq_list: "items_of (foldl enq q as) = items_of q @ as"
  by (induction as arbitrary: q) (simp_all add: items_enq)

text \<open>Dequeuing \<open>n\<close> times.\<close>

lemma deq_times:
  "items_of q = as @ bs \<Longrightarrow> length as = n \<Longrightarrow>
     items_of (((\<lambda>q. snd (deq q)) ^^ n) q) = bs"
proof (induction n arbitrary: q as)
  case (Suc n)
  then obtain a as' where as: "as = a # as'" "length as' = n" by (cases as) auto
  with Suc.prems obtain q' where q': "deq q = (Some a, q')" "items_of q' = as' @ bs"
    using deq_first [of q a "as' @ bs"] by auto
  have "items_of (((\<lambda>q. snd (deq q)) ^^ n) q') = bs" by (rule Suc.IH [OF q'(2) as(2)])
  with q'(1) show ?case by (simp add: funpow_Suc_right del: funpow.simps)
qed simp

text \<open>First in, first out: what is queued last comes out after everything before it.\<close>

lemma fifo_order:
  "fst (deq (((\<lambda>q. snd (deq q)) ^^ length (items_of q)) (enq q a))) = Some a"
proof -
  have "items_of (((\<lambda>q. snd (deq q)) ^^ length (items_of q)) (enq q a)) = [a]"
    by (rule deq_times [OF items_enq refl])
  then show ?thesis using deq_first [of _ a "[]"] by fastforce
qed

lemma size_drop_if: "size_of (snd (drop_if q P)) + fst (drop_if q P) = size_of q"
  unfolding size_items items_drop_if count_drop_if using sum_length_filter_compl [of P "items_of q"]
  by simp

lemma drop_if_none_left: "\<forall>a \<in> set (items_of (snd (drop_if q P))). \<not> P a"
  by (simp add: items_drop_if)

end

section \<open>The slice\<close>

record 'a queue =
  q_items :: "'a list"

definition queue_New :: "'a queue" where
  "queue_New = \<lparr>q_items = []\<rparr>"

definition Enqueue :: "'a queue \<Rightarrow> 'a \<Rightarrow> 'a queue" where
  "Enqueue q item = q\<lparr>q_items := q_items q @ [item]\<rparr>"

definition Dequeue :: "'a queue \<Rightarrow> 'a option \<times> 'a queue" where
  "Dequeue q =
     (if length (q_items q) = 0 then (None, q)
      else (Some (q_items q ! 0), q\<lparr>q_items := drop 1 (q_items q)\<rparr>))"

definition queue_Len :: "'a queue \<Rightarrow> nat" where
  "queue_Len q = length (q_items q)"

text \<open>
  The in-place compaction of \<open>RemoveAllFunc\<close>: \<open>i\<close> runs over the slice, kept items are written
  back at \<open>n\<close>; then the slice is cut at \<open>n\<close>.
\<close>

function compact :: "('a \<Rightarrow> bool) \<Rightarrow> nat \<Rightarrow> nat \<Rightarrow> 'a list \<Rightarrow> nat \<times> 'a list" where
  "compact match i n items =
     (if i < length items
      then (let item = items ! i in
            if \<not> match item then compact match (Suc i) (Suc n) (items[n := item])
            else compact match (Suc i) n items)
      else (n, items))"
  by pat_completeness auto
termination
  by (relation "measure (\<lambda>(match, i, n, items). length items - i)") auto

declare compact.simps [simp del]

definition RemoveAllFunc :: "'a queue \<Rightarrow> ('a \<Rightarrow> bool) \<Rightarrow> nat \<times> 'a queue" where
  "RemoveAllFunc q match =
     (case compact match 0 0 (q_items q) of
        (n, items) \<Rightarrow> (length (q_items q) - n, q\<lparr>q_items := take n items\<rparr>))"

lemma compact_filter:
  "n \<le> i \<Longrightarrow> i \<le> length items \<Longrightarrow>
     (case compact match i n items of
        (k, items') \<Rightarrow>
          k = n + length (filter (\<lambda>a. \<not> match a) (drop i items)) \<and> length items' = length items
          \<and> take k items' = take n items @ filter (\<lambda>a. \<not> match a) (drop i items))"
proof (induction match i n items rule: compact.induct)
  case (1 match i n items)
  show ?case
  proof (cases "i < length items")
    case True
    then have drop: "drop i items = items ! i # drop (Suc i) items" by (simp add: Cons_nth_drop_Suc)
    show ?thesis
    proof (cases "match (items ! i)")
      case False
      have "take (Suc n) (items[n := items ! i]) = take n items @ [items ! i]"
        using 1(3) True by (simp add: take_Suc_conv_app_nth)
      with 1(1) [OF True refl False] 1(3) True False drop show ?thesis
        by (subst compact.simps) (auto simp: Let_def drop_update_cancel split: prod.splits)
    next
      case True
      with 1(2) [OF \<open>i < length items\<close> refl] 1(3) \<open>i < length items\<close> drop show ?thesis
        by (subst compact.simps) (auto simp: Let_def split: prod.splits)
    qed
  next
    case False
    then show ?thesis by (subst compact.simps) simp
  qed
qed

lemma RemoveAllFunc_eq:
  "RemoveAllFunc q match =
     (length (filter match (q_items q)), q\<lparr>q_items := filter (\<lambda>a. \<not> match a) (q_items q)\<rparr>)"
  using compact_filter [of 0 0 "q_items q" match] sum_length_filter_compl [of match "q_items q"]
  by (auto simp: RemoveAllFunc_def split: prod.splits)

interpretation slice: fifo_queue q_items queue_New Enqueue Dequeue queue_Len RemoveAllFunc
  by unfold_locales
    (auto simp: queue_New_def Enqueue_def Dequeue_def queue_Len_def RemoveAllFunc_eq)

lemmas queue_simps = Enqueue_def RemoveAllFunc_eq queue_Len_def

section \<open>Wake-ups\<close>

text \<open>
  A waker's channel of capacity one: \<open>None\<close> for a nil channel, otherwise whether a signal is
  pending. \<open>receive\<close> is what a \<open>select\<close> case on the channel sees.
\<close>

record waker =
  wakeC :: "bool option"

definition NewWaker :: waker where
  "NewWaker = \<lparr>wakeC = Some False\<rparr>"

definition Wake :: "waker \<Rightarrow> waker" where
  "Wake w = (case wakeC w of None \<Rightarrow> w | Some pending \<Rightarrow> w\<lparr>wakeC := Some True\<rparr>)"

definition receive :: "waker \<Rightarrow> bool \<times> waker" where
  "receive w = (if wakeC w = Some True then (True, w\<lparr>wakeC := Some False\<rparr>) else (False, w))"

lemma Wake_idem [simp]: "Wake (Wake w) = Wake w"
  by (simp add: Wake_def split: option.splits)

section \<open>HTTP retries\<close>

text \<open>
  \<open>f i\<close> is the outcome of the \<open>i\<close>-th call. The loop returns the last outcome, the number of
  calls and the number of pauses.
\<close>

function retry_loop :: "(nat \<Rightarrow> gerror + 'r) \<Rightarrow> nat \<Rightarrow> nat \<Rightarrow> nat \<Rightarrow> (gerror + 'r) \<times> nat \<times> nat" where
  "retry_loop f maxTries i sleeps =
     (case f i of
        Inr r \<Rightarrow> (Inr r, Suc i, sleeps)
      | Inl e \<Rightarrow>
          (if Suc i \<ge> maxTries then (Inl e, Suc i, sleeps)
           else retry_loop f maxTries (Suc i) (Suc sleeps)))"
  by pat_completeness auto
termination
  by (relation "measure (\<lambda>(f, maxTries, i, sleeps). maxTries - i)") auto

declare retry_loop.simps [simp del]

definition HTTPWithRetry ::
  "(nat \<Rightarrow> gerror + 'r) \<Rightarrow> int \<Rightarrow> duration \<Rightarrow> (gerror + 'r) \<times> nat \<times> nat" where
  "HTTPWithRetry f maxTries period =
     (if maxTries \<le> 0 \<or> period \<le> 0
      then (Inl (errorf ''invalid argument, needs to be positive''), 0, 0)
      else retry_loop f (nat maxTries) 0 0)"

lemma retry_loop_spec:
  "retry_loop f maxTries i sleeps = (r, calls, sl) \<Longrightarrow> i < maxTries \<Longrightarrow>
     i < calls \<and> calls \<le> maxTries \<and> sl + Suc i = sleeps + calls \<and> r = f (calls - 1)
     \<and> (\<forall>j. i \<le> j \<longrightarrow> j < calls - 1 \<longrightarrow> isl (f j)) \<and> (isl r \<longrightarrow> calls = maxTries)"
proof (induction f maxTries i sleeps rule: retry_loop.induct)
  case (1 f maxTries i sleeps)
  show ?case
  proof (cases "f i")
    case (Inr y)
    with 1 have "r = Inr y \<and> calls = Suc i \<and> sl = sleeps" by (simp add: retry_loop.simps [of f maxTries i])
    with Inr 1(3) show ?thesis by simp
  next
    case (Inl e)
    show ?thesis
    proof (cases "Suc i \<ge> maxTries")
      case True
      with Inl 1 have "r = Inl e \<and> calls = Suc i \<and> sl = sleeps" by (simp add: retry_loop.simps [of f maxTries i])
      with Inl True 1(3) show ?thesis by simp
    next
      case False
      with Inl 1(2) have rec: "retry_loop f maxTries (Suc i) (Suc sleeps) = (r, calls, sl)"
        by (simp add: retry_loop.simps [of f maxTries i])
      from False have lt: "Suc i < maxTries" by simp
      note IH = 1(1) [OF Inl False rec lt]
      have "isl (f j)" if "i \<le> j" "j < calls - 1" for j
      proof (cases "j = i")
        case True
        with Inl show ?thesis by simp
      next
        case False
        with that have "Suc i \<le> j" by simp
        with IH that show ?thesis by blast
      qed
      moreover have "i < calls" "sl + Suc i = sleeps + calls" using IH by linarith+
      ultimately show ?thesis using IH by blast
    qed
  qed
qed

section \<open>Properties\<close>

text \<open>
  The in-place compaction of the queue is a filter, and together with the queue's FIFO order:
  after \<open>as\<close> are queued and the events matching \<open>P\<close> are dropped, what is left comes out in
  order, the others never do, and the reported count is the number dropped.
\<close>

theorem queue_removal_fifo:
  "q_items (snd (RemoveAllFunc (foldl Enqueue q as) P)) = filter (\<lambda>a. \<not> P a) (q_items q @ as)
   \<and> fst (RemoveAllFunc (foldl Enqueue q as) P) + queue_Len (snd (RemoveAllFunc (foldl Enqueue q as) P))
       = queue_Len q + length as
   \<and> fst (Dequeue (((\<lambda>q. snd (Dequeue q)) ^^ length (q_items q)) (Enqueue q a))) = Some a"
proof (intro conjI)
  show "q_items (snd (RemoveAllFunc (foldl Enqueue q as) P)) = filter (\<lambda>a. \<not> P a) (q_items q @ as)"
    by (simp only: slice.items_drop_if slice.items_enq_list)
  show "fst (RemoveAllFunc (foldl Enqueue q as) P) + queue_Len (snd (RemoveAllFunc (foldl Enqueue q as) P))
       = queue_Len q + length as"
    using slice.size_drop_if [of "foldl Enqueue q as" P]
    by (simp add: slice.size_items slice.items_enq_list)
  show "fst (Dequeue (((\<lambda>q. snd (Dequeue q)) ^^ length (q_items q)) (Enqueue q a))) = Some a"
    by (rule slice.fifo_order)
qed

text \<open>
  With positive arguments the retry loop calls at least once and at most \<open>maxTries\<close> times,
  pauses once between two calls, stops at the first success, and returns an error only after the
  last permitted call failed.
\<close>

theorem HTTPWithRetry_bounded:
  assumes "0 < maxTries" "0 < period" "HTTPWithRetry f maxTries period = (r, calls, sleeps)"
  shows "1 \<le> calls \<and> int calls \<le> maxTries \<and> sleeps = calls - 1 \<and> r = f (calls - 1)
    \<and> (\<forall>j < calls - 1. isl (f j)) \<and> (isl r \<longrightarrow> int calls = maxTries)"
proof -
  have "retry_loop f (nat maxTries) 0 0 = (r, calls, sleeps)" "0 < nat maxTries"
    using assms by (simp_all add: HTTPWithRetry_def)
  note spec = retry_loop_spec [OF this]
  then have "1 \<le> calls" "int calls \<le> maxTries" "sleeps = calls - 1" using assms(1) by linarith+
  moreover have "int calls = maxTries" if "isl r" using spec that assms(1) by simp
  ultimately show ?thesis using spec by blast
qed

theorem HTTPWithRetry_bounded_witness:
  "HTTPWithRetry (\<lambda>i. if i < 2 then Inl (errorf ''down'') else Inr (7::int)) 3 1 = (Inr 7, 3, 2)
   \<and> isl ((\<lambda>i::nat. if i < 2 then Inl (errorf ''down'') else Inr (7::int)) 1)"
proof -
  have *: "HTTPWithRetry (\<lambda>i. if i < 2 then Inl (errorf ''down'') else Inr (7::int)) 3 1 = (Inr 7, 3, 2)"
    by (simp add: HTTPWithRetry_def retry_loop.simps)
  have "\<forall>j < (3::nat) - 1. isl ((\<lambda>i::nat. if i < 2 then Inl (errorf ''down'') else Inr (7::int)) j)"
    using HTTPWithRetry_bounded [OF _ _ *] by simp
  then have "isl ((\<lambda>i::nat. if i < 2 then Inl (errorf ''down'') else Inr (7::int)) 1)" by fastforce
  with * show ?thesis by blast
qed

end
