(* ===== verification/Tasks.thy ===== *)
theory Tasks
  imports Prelude "HOL-Library.Multiset"
begin

text \<open>
  The data model of \<open>task/task.go\<close>, the state machine of \<open>task/state_machine.go\<close> and the
  reference resolution of \<open>task/resolve.go\<close>: tasks, events, logs, container configurations,
  restart policies and caps, health-check defaults, the conversions to the Docker API's types that
  need no daemon.

  A struct is a record whose field names carry the struct's initials (\<open>Task.State\<close> is
  \<open>tState\<close>); a nil pointer is \<open>None\<close>, a nil slice is the empty list (the code only asks for
  lengths), an enum over \<open>int\<close> is a datatype with a constructor \<open>Unknown\<close> for the other
  integers, which JSON can carry.
\<close>

section \<open>Task states and their transitions\<close>

datatype task_state = Pending | Scheduled | Running | Completed | Failed | Unknown int

definition state_String :: "task_state \<Rightarrow> string" where
  "state_String s =
     (case s of
        Pending \<Rightarrow> ''Pending''
      | Scheduled \<Rightarrow> ''Scheduled''
      | Running \<Rightarrow> ''Running''
      | Completed \<Rightarrow> ''Completed''
      | Failed \<Rightarrow> ''Failed''
      | Unknown n \<Rightarrow> ''Unknown('' @ itoa n @ '')'')"

definition state_of_int :: "int \<Rightarrow> task_state" where
  "state_of_int n =
     (if n = 0 then Pending else if n = 1 then Scheduled else if n = 2 then Running
      else if n = 3 then Completed else if n = 4 then Failed else Unknown n)"

fun stateTransitionMap :: "task_state \<Rightarrow> task_state list" where
  "stateTransitionMap Pending = [Scheduled]"
| "stateTransitionMap Scheduled = [Scheduled, Running, Failed]"
| "stateTransitionMap Running = [Running, Scheduled, Completed, Failed]"
| "stateTransitionMap Completed = [Scheduled, Completed]"
| "stateTransitionMap Failed = [Scheduled, Completed]"
| "stateTransitionMap (Unknown n) = []"

definition ValidStateTransition :: "task_state \<Rightarrow> task_state \<Rightarrow> bool" where
  "ValidStateTransition from_st to_st \<longleftrightarrow> to_st \<in> set (stateTransitionMap from_st)"

text \<open>Runs of the state machine: what a task can become from a state.\<close>

inductive state_run :: "task_state \<Rightarrow> task_state \<Rightarrow> bool" where
  run_refl: "state_run s s"
| run_step: "state_run s t \<Longrightarrow> ValidStateTransition t u \<Longrightarrow> state_run s u"

lemma valid_from_Pending: "ValidStateTransition Pending s \<longleftrightarrow> s = Scheduled"
  by (simp add: ValidStateTransition_def)

lemma valid_to_Running: "ValidStateTransition s Running \<longleftrightarrow> s = Scheduled \<or> s = Running"
  by (cases s) (auto simp: ValidStateTransition_def)

lemma valid_known: "ValidStateTransition s t \<Longrightarrow> t \<noteq> Pending \<and> (\<forall>n. t \<noteq> Unknown n)"
  by (cases s) (auto simp: ValidStateTransition_def)

lemma state_run_trans: "state_run t u \<Longrightarrow> state_run s t \<Longrightarrow> state_run s u"
  by (induction rule: state_run.induct) (auto intro: state_run.intros)

lemma state_run_single: "ValidStateTransition s t \<Longrightarrow> state_run s t"
  by (blast intro: state_run.intros)

section \<open>Task records\<close>

text \<open>
  \<open>PortMapping\<close> is a datatype with the struct's fields as selectors, so that the order
  \<open>PortMappingsFromPortMap\<close> sorts by can be its \<open>linorder\<close> instance.
\<close>

datatype port_mapping = PortMapping (ContainerPort: int) (HostPort: int) (Protocol: string)

definition proto_TCP :: string where
  "proto_TCP = ''tcp''"

definition proto_UDP :: string where
  "proto_UDP = ''udp''"

definition proto_SCTP :: string where
  "proto_SCTP = ''sctp''"

definition cmp_key :: "port_mapping \<Rightarrow> int \<times> int \<times> string" where
  "cmp_key p = (ContainerPort p, HostPort p, Protocol p)"

lemma cmp_key_inj: "cmp_key a = cmp_key b \<longleftrightarrow> a = b"
  by (cases a; cases b) (simp add: cmp_key_def)

instantiation port_mapping :: linorder
begin

definition less_eq_port_mapping :: "port_mapping \<Rightarrow> port_mapping \<Rightarrow> bool" where
  "less_eq_port_mapping a b \<longleftrightarrow> cmp_key a \<le> cmp_key b"

definition less_port_mapping :: "port_mapping \<Rightarrow> port_mapping \<Rightarrow> bool" where
  "less_port_mapping a b \<longleftrightarrow> cmp_key a < cmp_key b"

instance
  by standard
    (auto simp: less_eq_port_mapping_def less_port_mapping_def cmp_key_inj less_le_not_le
      dest: antisym)

end

record health_check =
  hcType :: string
  hcPort :: int
  hcPath :: string
  hcCommand :: "string list"
  hcInterval :: int
  hcTimeout :: int
  hcRetries :: int
  hcStartPeriod :: int

text \<open>The package variables \<open>HealthCheckDefault*\<close>, which the configuration may replace.\<close>

record hc_defaults =
  HealthCheckDefaultInterval :: int
  HealthCheckDefaultTimeout :: int
  HealthCheckDefaultRetries :: int
  HealthCheckDefaultStartPeriod :: int

definition hc_defaults0 :: hc_defaults where
  "hc_defaults0 =
     \<lparr>HealthCheckDefaultInterval = 30, HealthCheckDefaultTimeout = 5,
      HealthCheckDefaultRetries = 3, HealthCheckDefaultStartPeriod = 0\<rparr>"

definition zero_health_check :: health_check where
  "zero_health_check =
     \<lparr>hcType = [], hcPort = 0, hcPath = [], hcCommand = [], hcInterval = 0, hcTimeout = 0,
      hcRetries = 0, hcStartPeriod = 0\<rparr>"

definition Normalized :: "hc_defaults \<Rightarrow> health_check option \<Rightarrow> health_check" where
  "Normalized d h =
     (let n = (case h of None \<Rightarrow> zero_health_check | Some x \<Rightarrow> x);
          n = (if hcInterval n \<le> 0 then n\<lparr>hcInterval := HealthCheckDefaultInterval d\<rparr> else n);
          n = (if hcTimeout n \<le> 0 then n\<lparr>hcTimeout := HealthCheckDefaultTimeout d\<rparr> else n);
          n = (if hcRetries n \<le> 0 then n\<lparr>hcRetries := HealthCheckDefaultRetries d\<rparr> else n);
          n = (if hcStartPeriod n < 0 then n\<lparr>hcStartPeriod := HealthCheckDefaultStartPeriod d\<rparr> else n)
      in n)"

record ulimit =
  ulName :: string
  ulSoft :: i64
  ulHard :: i64

record security =
  secUser :: string
  secGroupAdd :: "string list"
  secCapAdd :: "string list"
  secCapDrop :: "string list"
  secTmpfs :: "string list"
  secReadOnlyRootfs :: bool
  secNoNewPrivileges :: bool
  secPrivileged :: bool
  secPidsLimit :: i64
  secUlimits :: "ulimit list"
  secIpcMode :: string
  secUsernsMode :: string

record task =
  tID :: uuid
  tContainerID :: string
  tName :: string
  tState :: task_state
  tImage :: string
  tCpu :: float64
  tMemory :: i64
  tDisk :: i64
  tPorts :: "port_mapping list"
  tCmd :: "string list"
  tEnv :: "string list"
  tRestartPolicy :: string
  tHostPorts :: "port_mapping list"
  tHealthCheck :: "health_check option"
  tSecurity :: "security option"
  tRestartCount :: int
  tMaxRestarts :: int
  tFailureReason :: string
  tManuallyStopped :: bool
  tNextRetryAt :: gotime
  tStartTime :: gotime
  tFinishTime :: gotime
  tTimeout :: i64

definition zero_task :: task where
  "zero_task =
     \<lparr>tID = uuid_Nil, tContainerID = [], tName = [], tState = Pending, tImage = [], tCpu = 0,
      tMemory = 0, tDisk = 0, tPorts = [], tCmd = [], tEnv = [], tRestartPolicy = [],
      tHostPorts = [], tHealthCheck = None, tSecurity = None, tRestartCount = 0, tMaxRestarts = 0,
      tFailureReason = [], tManuallyStopped = False, tNextRetryAt = 0, tStartTime = 0,
      tFinishTime = 0, tTimeout = 0\<rparr>"

record task_logs =
  lTaskID :: uuid
  lExitCode :: "int option"
  lLogs :: string
  lCapturedAt :: gotime
  lSource :: string

record task_event =
  eID :: uuid
  eState :: task_state
  eTimestamp :: gotime
  eTask :: task

record config =
  cfgName :: string
  cfgPorts :: "port_mapping list"
  cfgCmd :: "string list"
  cfgImage :: string
  cfgCpu :: float64
  cfgMemory :: i64
  cfgDisk :: i64
  cfgEnv :: "string list"
  cfgRestartPolicy :: string
  cfgHealthCheck :: "health_check option"
  cfgSecurity :: "security option"

definition NewConfig :: "task \<Rightarrow> config" where
  "NewConfig t =
     \<lparr>cfgName = tName t, cfgPorts = tPorts t, cfgCmd = tCmd t, cfgImage = tImage t,
      cfgCpu = tCpu t, cfgMemory = tMemory t, cfgDisk = tDisk t, cfgEnv = tEnv t,
      cfgRestartPolicy = tRestartPolicy t, cfgHealthCheck = tHealthCheck t,
      cfgSecurity = tSecurity t\<rparr>"

section \<open>Restart policies and caps\<close>

definition RestartPolicyNone :: string where "RestartPolicyNone = ''no''"

definition RestartPolicyAlways :: string where "RestartPolicyAlways = ''always''"

definition RestartPolicyOnFailure :: string where "RestartPolicyOnFailure = ''on-failure''"

definition RestartPolicyUnlessStopped :: string where
  "RestartPolicyUnlessStopped = ''unless-stopped''"

lemmas restart_policy_defs =
  RestartPolicyNone_def RestartPolicyAlways_def RestartPolicyOnFailure_def
  RestartPolicyUnlessStopped_def

definition ShouldRestart :: "string \<Rightarrow> bool" where
  "ShouldRestart policy \<longleftrightarrow>
     policy \<in> set [[], RestartPolicyOnFailure, RestartPolicyAlways, RestartPolicyUnlessStopped]"

definition ShouldRestartOnSuccess :: "string \<Rightarrow> bool" where
  "ShouldRestartOnSuccess policy \<longleftrightarrow>
     policy \<in> set [RestartPolicyAlways, RestartPolicyUnlessStopped]"

definition EffectiveMaxRestarts :: "task \<Rightarrow> int \<Rightarrow> int" where
  "EffectiveMaxRestarts t defaultMaxRestarts =
     (if tMaxRestarts t > 0 then tMaxRestarts t else defaultMaxRestarts)"

definition AtRestartCap :: "task \<Rightarrow> int \<Rightarrow> bool" where
  "AtRestartCap t clusterMaxRestarts \<longleftrightarrow>
     tRestartCount t \<ge> EffectiveMaxRestarts t clusterMaxRestarts"

definition IsTerminal :: "task \<Rightarrow> bool" where
  "IsTerminal t \<longleftrightarrow> tState t = Failed \<and> \<not> time_IsZero (tFinishTime t)"

lemma restart_on_success_imp: "ShouldRestartOnSuccess p \<Longrightarrow> ShouldRestart p"
  by (auto simp: ShouldRestartOnSuccess_def ShouldRestart_def)

section \<open>Conversions for the Docker API\<close>

definition dockerTmpfs :: "security option \<Rightarrow> (string \<rightharpoonup> string) option" where
  "dockerTmpfs s =
     (case s of
        None \<Rightarrow> None
      | Some sec \<Rightarrow>
          (if secTmpfs sec = [] then None
           else Some (foldl (\<lambda>m e. case str_cut CHR '':'' e of (path, opts, _) \<Rightarrow> m(path \<mapsto> opts))
                        Map.empty (secTmpfs sec))))"

definition dockerSecurityOpts :: "security option \<Rightarrow> string list" where
  "dockerSecurityOpts s =
     (case s of
        None \<Rightarrow> []
      | Some sec \<Rightarrow> (if secNoNewPrivileges sec then [''no-new-privileges:true''] else []))"

definition dockerUlimits :: "security option \<Rightarrow> ulimit list" where
  "dockerUlimits s =
     (case s of
        None \<Rightarrow> []
      | Some sec \<Rightarrow>
          map (\<lambda>u. \<lparr>ulName = ulName u, ulSoft = ulSoft u, ulHard = ulHard u\<rparr>) (secUlimits sec))"

definition dockerPidsLimit :: "security option \<Rightarrow> i64 option" where
  "dockerPidsLimit s =
     (case s of
        None \<Rightarrow> None
      | Some sec \<Rightarrow> (if secPidsLimit sec \<le> 0 then None else Some (secPidsLimit sec)))"

text \<open>
  A \<open>network.Port\<close> is what its accessors \<open>Num\<close> and \<open>Proto\<close> return. A port map is the list
  of its entries in the order a \<open>range\<close> happens to visit them.
\<close>

type_synonym dport = "16 word \<times> string"
type_synonym port_map = "(dport \<times> string list) list"

definition binding_mappings :: "dport \<times> string list \<Rightarrow> port_mapping list" where
  "binding_mappings e =
     (case e of
        ((num, proto), hostPorts) \<Rightarrow>
          List.map_filter
            (\<lambda>hp. case atoi hp of
                     None \<Rightarrow> None
                   | Some n \<Rightarrow> Some (PortMapping (uint num) n proto))
            hostPorts)"

definition PortMappingsFromPortMap :: "port_map \<Rightarrow> port_mapping list" where
  "PortMappingsFromPortMap ports = remdups_adj (sort (concat (map binding_mappings ports)))"

record health_config =
  hTest :: "string list"
  hInterval :: duration
  hTimeout :: duration
  hStartPeriod :: duration
  hRetries :: int

text \<open>\<open>time.Duration(n) * time.Second\<close> multiplies 64-bit integers.\<close>

definition seconds :: "int \<Rightarrow> duration" where
  "seconds n = wrap64 (n * second)"

definition HealthCheckHTTP :: string where "HealthCheckHTTP = ''http''"

definition HealthCheckTCP :: string where "HealthCheckTCP = ''tcp''"

definition HealthCheckExec :: string where "HealthCheckExec = ''exec''"

definition dockerHealthcheck :: "hc_defaults \<Rightarrow> config \<Rightarrow> health_config option" where
  "dockerHealthcheck d c =
     (case cfgHealthCheck c of
        None \<Rightarrow> None
      | Some hc \<Rightarrow>
          (if hcType hc \<noteq> HealthCheckExec \<or> hcCommand hc = [] then None
           else (let n = Normalized d (Some hc)
                 in Some \<lparr>hTest = ''CMD'' # hcCommand n, hInterval = seconds (hcInterval n),
                           hTimeout = seconds (hcTimeout n),
                           hStartPeriod = seconds (hcStartPeriod n), hRetries = hcRetries n\<rparr>)))"

section \<open>Resolving a task by UUID or name\<close>

text \<open>
  Third-party code the task layer calls: \<open>uuid.Parse\<close> of google/uuid and
  \<open>network.PortFrom\<close> of the moby API, as arguments of the definitions that use them.
\<close>

record ext =
  uuid_Parse :: "string \<Rightarrow> uuid option"
  network_PortFrom :: "16 word \<Rightarrow> string \<Rightarrow> dport \<times> bool"

text \<open>
  What the moby documentation says of \<open>PortFrom\<close>: for a protocol it knows it returns the port
  with that number and protocol.
\<close>

definition ext_ok :: "ext \<Rightarrow> bool" where
  "ext_ok x \<longleftrightarrow> (\<forall>n p. p = proto_TCP \<or> p = proto_UDP \<longrightarrow> network_PortFrom x n p = ((n, p), True))"

text \<open>The loop over names: the last match so far and the number of matches.\<close>

definition name_matches :: "task list \<Rightarrow> string \<Rightarrow> task \<times> nat" where
  "name_matches tasks ref =
     foldl (\<lambda>(m, cnt) t. if tName t = ref then (t, Suc cnt) else (m, cnt)) (zero_task, 0) tasks"

definition ResolveRef :: "ext \<Rightarrow> task list \<Rightarrow> string \<Rightarrow> task \<times> bool \<times> bool" where
  "ResolveRef x tasks ref =
     (case uuid_Parse x ref of
        Some uid \<Rightarrow>
          (case find (\<lambda>t. tID t = uid) tasks of
             Some t \<Rightarrow> (t, True, False)
           | None \<Rightarrow> (zero_task, False, False))
      | None \<Rightarrow>
          (case name_matches tasks ref of
             (m, cnt) \<Rightarrow> (m, cnt = 1, cnt > 1)))"

section \<open>Lemmas\<close>

text \<open>The port list does not depend on the map's iteration order.\<close>

lemma sort_mset_cong: "mset xs = mset ys \<Longrightarrow> sort xs = sort ys"
  by (simp add: properties_for_sort)

lemma mset_concat_map_cong: "mset xs = mset ys \<Longrightarrow> mset (concat (map f xs)) = mset (concat (map f ys))"
proof -
  have *: "mset (concat (map f zs)) = \<Sum>\<^sub># (image_mset (\<lambda>z. mset (f z)) (mset zs))" for zs
    by (induction zs) auto
  assume "mset xs = mset ys"
  then show ?thesis unfolding * by simp
qed

lemma remdups_adj_strict: "sorted xs \<Longrightarrow> sorted (remdups_adj xs) \<and> distinct (remdups_adj xs)"
proof (induction xs rule: remdups_adj.induct)
  case (3 x y xs)
  show ?case
  proof (cases "x = y")
    case False
    with 3 have IH: "sorted (remdups_adj (y # xs)) \<and> distinct (remdups_adj (y # xs))" by simp
    have "x < z" if "z \<in> set (y # xs)" for z
      using 3 False that by (auto simp: less_le)
    then have "x \<notin> set (remdups_adj (y # xs))" "\<forall>z \<in> set (remdups_adj (y # xs)). x \<le> z"
      by (auto simp: less_le)
    with IH False show ?thesis by simp
  qed (use 3 in simp)
qed simp_all

lemma name_matches_count:
  "snd (foldl (\<lambda>(m, cnt) t. if tName t = ref then (t, Suc cnt) else (m, cnt)) (m0, c0) tasks)
     = c0 + length (filter (\<lambda>t. tName t = ref) tasks)"
  by (induction tasks arbitrary: m0 c0) auto

lemma name_matches_last:
  "fst (foldl (\<lambda>(m, cnt) t. if tName t = ref then (t, Suc cnt) else (m, cnt)) (m0, c0) tasks)
     = last (m0 # filter (\<lambda>t. tName t = ref) tasks)"
  by (induction tasks arbitrary: m0 c0) auto

lemma name_matches_eq:
  "name_matches tasks ref =
     (last (zero_task # filter (\<lambda>t. tName t = ref) tasks),
      length (filter (\<lambda>t. tName t = ref) tasks))"
  unfolding name_matches_def
  by (rule prod_eqI) (simp_all add: name_matches_count name_matches_last)

lemma Normalized_simps [simp]:
  "hcType (Normalized d (Some h)) = hcType h" "hcPort (Normalized d (Some h)) = hcPort h"
  "hcPath (Normalized d (Some h)) = hcPath h" "hcCommand (Normalized d (Some h)) = hcCommand h"
  "hcInterval (Normalized d (Some h)) =
     (if hcInterval h \<le> 0 then HealthCheckDefaultInterval d else hcInterval h)"
  "hcTimeout (Normalized d (Some h)) =
     (if hcTimeout h \<le> 0 then HealthCheckDefaultTimeout d else hcTimeout h)"
  "hcRetries (Normalized d (Some h)) =
     (if hcRetries h \<le> 0 then HealthCheckDefaultRetries d else hcRetries h)"
  "hcStartPeriod (Normalized d (Some h)) =
     (if hcStartPeriod h < 0 then HealthCheckDefaultStartPeriod d else hcStartPeriod h)"
  by (simp_all add: Normalized_def Let_def)

lemma binding_mappings_set:
  "pm \<in> set (binding_mappings ((num, proto), hps)) \<longleftrightarrow>
     (\<exists>hp \<in> set hps. \<exists>n. atoi hp = Some n \<and> pm = PortMapping (uint num) n proto)"
  by (induction hps) (auto simp: binding_mappings_def map_filter_simps split: option.splits)

section \<open>Properties\<close>

text \<open>
  No step of the task state machine leads back to \<open>Pending\<close> or to an undefined state, and a
  task that is not scheduled or running can only become \<open>Running\<close> by way of \<open>Scheduled\<close>: a run
  of the machine that ends in \<open>Running\<close> passes through a \<open>Scheduled\<close> state.
\<close>

theorem state_machine_runs:
  assumes "state_run s t"
  shows "(t = s \<or> t \<in> {Scheduled, Running, Completed, Failed})
    \<and> (t = Running \<and> s \<noteq> Running \<longrightarrow> state_run s Scheduled \<and> ValidStateTransition Scheduled t)"
  using assms
proof (induction rule: state_run.induct)
  case (run_refl s)
  then show ?case by simp
next
  case (run_step s t u)
  have "u \<in> {Scheduled, Running, Completed, Failed}"
    using valid_known [OF run_step.hyps(2)] by (cases u) auto
  moreover have "state_run s Scheduled \<and> ValidStateTransition Scheduled u" if "u = Running" "s \<noteq> Running"
    using run_step that valid_to_Running by (auto simp: ValidStateTransition_def)
  ultimately show ?case by blast
qed

theorem state_machine_runs_witness:
  "state_run Completed Running \<and> state_run Completed Scheduled"
proof -
  have "state_run Completed Running"
    by (rule run_step [OF run_step [OF run_refl]]) (auto simp: ValidStateTransition_def)
  from state_machine_runs [OF this] this show ?thesis by simp
qed

text \<open>
  The host ports reported for a container do not depend on the random iteration order of the
  daemon's port map: two orders of the same map give the same list, which is sorted by container
  port, host port and protocol, has no duplicates, and holds exactly the bindings whose host port
  is a number.
\<close>

theorem port_mappings_canonical:
  assumes "mset ports = mset ports'"
  shows "PortMappingsFromPortMap ports = PortMappingsFromPortMap ports'
    \<and> sorted (PortMappingsFromPortMap ports) \<and> distinct (PortMappingsFromPortMap ports)
    \<and> set (PortMappingsFromPortMap ports)
        = {PortMapping (uint num) n proto | num proto hps hp n.
             ((num, proto), hps) \<in> set ports \<and> hp \<in> set hps \<and> atoi hp = Some n}"
proof (intro conjI)
  show "PortMappingsFromPortMap ports = PortMappingsFromPortMap ports'"
    unfolding PortMappingsFromPortMap_def
    by (rule arg_cong [OF sort_mset_cong [OF mset_concat_map_cong [OF assms]]])
  show "sorted (PortMappingsFromPortMap ports)" "distinct (PortMappingsFromPortMap ports)"
    using remdups_adj_strict [of "sort (concat (map binding_mappings ports))"]
    by (simp_all add: PortMappingsFromPortMap_def)
  show "set (PortMappingsFromPortMap ports)
      = {PortMapping (uint num) n proto | num proto hps hp n.
           ((num, proto), hps) \<in> set ports \<and> hp \<in> set hps \<and> atoi hp = Some n}"
    by (force simp: PortMappingsFromPortMap_def binding_mappings_set)
qed

theorem port_mappings_canonical_witness:
  "PortMappingsFromPortMap [((80, ''tcp''), [''8080'', ''x'']), ((53, ''udp''), [''53''])]
     = PortMappingsFromPortMap [((53, ''udp''), [''53'']), ((80, ''tcp''), [''8080'', ''x''])]"
proof -
  have "mset [((80 :: 16 word, ''tcp''), [''8080'', ''x'']), ((53, ''udp''), [''53''])]
      = mset [((53, ''udp''), [''53'']), ((80, ''tcp''), [''8080'', ''x''])]"
    by simp
  from port_mappings_canonical [OF this] show ?thesis by blast
qed

text \<open>
  Resolving a reference. A reference that parses as a UUID finds a task exactly when one has
  that ID and is never ambiguous; any other reference finds the task that alone carries it as its
  name, and is ambiguous exactly when several do.
\<close>

theorem ResolveRef_correct:
  assumes "ResolveRef x tasks ref = (m, found, ambiguous)"
  shows "case uuid_Parse x ref of
      Some uid \<Rightarrow>
        \<not> ambiguous \<and> (found \<longleftrightarrow> uid \<in> tID ` set tasks) \<and> (found \<longrightarrow> m \<in> set tasks \<and> tID m = uid)
    | None \<Rightarrow>
        (found \<longleftrightarrow> filter (\<lambda>t. tName t = ref) tasks = [m])
        \<and> (ambiguous \<longleftrightarrow> length (filter (\<lambda>t. tName t = ref) tasks) \<ge> 2)"
proof (cases "uuid_Parse x ref")
  case None
  with assms have "m = last (zero_task # filter (\<lambda>t. tName t = ref) tasks)"
    "found \<longleftrightarrow> length (filter (\<lambda>t. tName t = ref) tasks) = 1"
    "ambiguous \<longleftrightarrow> length (filter (\<lambda>t. tName t = ref) tasks) > 1"
    by (auto simp: ResolveRef_def name_matches_eq)
  with None show ?thesis by (auto simp: length_Suc_conv)
next
  case (Some uid)
  with assms show ?thesis
    by (auto simp: ResolveRef_def find_None_iff split: option.splits dest: find_cong_Some)
qed

theorem ResolveRef_correct_witness:
  "ResolveRef \<lparr>uuid_Parse = (\<lambda>s. None), network_PortFrom = (\<lambda>n p. ((n, p), True))\<rparr>
     [zero_task\<lparr>tName := ''web''\<rparr>, zero_task\<lparr>tName := ''db''\<rparr>] ''db''
     = (zero_task\<lparr>tName := ''db''\<rparr>, True, False)
   \<and> filter (\<lambda>t. tName t = ''db'') [zero_task\<lparr>tName := ''web''\<rparr>, zero_task\<lparr>tName := ''db''\<rparr>]
     = [zero_task\<lparr>tName := ''db''\<rparr>]"
proof -
  have *: "ResolveRef \<lparr>uuid_Parse = (\<lambda>s. None), network_PortFrom = (\<lambda>n p. ((n, p), True))\<rparr>
     [zero_task\<lparr>tName := ''web''\<rparr>, zero_task\<lparr>tName := ''db''\<rparr>] ''db''
     = (zero_task\<lparr>tName := ''db''\<rparr>, True, False)"
    by (simp add: ResolveRef_def name_matches_def)
  show ?thesis using * ResolveRef_correct [OF *] by simp
qed

text \<open>
  A normalized health check has a positive interval, timeout and retry count and a start period
  that is not negative, for every task and every configuration the program accepts as defaults;
  normalizing it again changes nothing.
\<close>

theorem Normalized_positive:
  assumes "0 < HealthCheckDefaultInterval d" "0 < HealthCheckDefaultTimeout d"
    "0 < HealthCheckDefaultRetries d" "0 \<le> HealthCheckDefaultStartPeriod d"
  shows "0 < hcInterval (Normalized d h) \<and> 0 < hcTimeout (Normalized d h)
    \<and> 0 < hcRetries (Normalized d h) \<and> 0 \<le> hcStartPeriod (Normalized d h)
    \<and> Normalized d (Some (Normalized d h)) = Normalized d h"
proof -
  obtain h' where h': "Normalized d h = Normalized d (Some h')"
    by (cases h) (auto simp: Normalized_def)
  show ?thesis unfolding h' using assms by (auto intro: health_check.equality)
qed

theorem Normalized_positive_witness:
  "hcInterval (Normalized hc_defaults0 None) = 30 \<and> 0 < hcRetries (Normalized hc_defaults0 None)"
  using Normalized_positive [of hc_defaults0 None]
  by (simp add: hc_defaults0_def Normalized_def zero_health_check_def)

text \<open>
  The units of a health check are multiplied out in 64-bit nanoseconds. Below 292 years the
  interval handed to the daemon or to a ticker is the requested number of seconds; one second more
  than \<open>9223372036\<close> turns it negative, and validation does not bound the field.
\<close>

theorem seconds_exact_or_wrapped:
  "(\<forall>n. 0 \<le> n \<longrightarrow> n \<le> 9223372036 \<longrightarrow> seconds n = n * second) \<and> seconds 9223372037 < 0"
  by (auto simp: seconds_def second_def wrap64_def)

theorem seconds_exact_or_wrapped_witness: "seconds 30 = 30 * second"
  using seconds_exact_or_wrapped by simp

end
