(* ===== verification/Stores.thy ===== *)
theory Stores
  imports Tasks "HOL-Library.AList" "HOL-Library.Multiset"
begin

text \<open>
  The stores of \<open>store/\<close>. The Go interface \<open>Store[T]\<close> is the locale \<open>kv_store\<close>. Its
  specification, \<open>store\<close>, is what the manager and the worker run on: records under UUIDs, in key
  order, with a script of faults that decides which of the next operations fail (and with which
  message) without touching the records. \<open>InMemoryStore\<close> never fails; \<open>BoltStore\<close> is modelled
  over the bbolt transactions and the JSON codec as parameters. Both refine the specification.
\<close>

section \<open>The store contract\<close>

locale kv_store =
  fixes view :: "'s \<Rightarrow> uuid \<rightharpoonup> 'v"
    and wf :: "'s \<Rightarrow> bool"
    and put :: "uuid \<Rightarrow> 'v \<Rightarrow> 's \<Rightarrow> gerror option \<times> 's"
    and get :: "uuid \<Rightarrow> 's \<Rightarrow> (gerror + 'v) \<times> 's"
    and listing :: "'s \<Rightarrow> (gerror + 'v list) \<times> 's"
    and del :: "uuid \<Rightarrow> 's \<Rightarrow> gerror option \<times> 's"
  assumes put_ok: "wf s \<Longrightarrow> put k v s = (None, s') \<Longrightarrow> view s' = (view s)(k \<mapsto> v)"
    and put_err: "wf s \<Longrightarrow> put k v s = (Some e, s') \<Longrightarrow> view s' = view s"
    and put_wf: "wf s \<Longrightarrow> wf (snd (put k v s))"
    and get_view: "wf s \<Longrightarrow> view (snd (get k s)) = view s"
    and get_wf: "wf s \<Longrightarrow> wf (snd (get k s))"
    and get_ok: "wf s \<Longrightarrow> fst (get k s) = Inr v \<Longrightarrow> view s k = Some v"
    and get_missing: "wf s \<Longrightarrow> fst (get k s) = Inl e \<Longrightarrow> errors_Is e ErrNotFound \<Longrightarrow> view s k = None"
    and list_view: "wf s \<Longrightarrow> view (snd (listing s)) = view s"
    and list_wf: "wf s \<Longrightarrow> wf (snd (listing s))"
    and list_ok: "wf s \<Longrightarrow> fst (listing s) = Inr vs \<Longrightarrow> set vs = ran (view s)"
    and del_ok: "wf s \<Longrightarrow> del k s = (None, s') \<Longrightarrow> view s' = (view s)(k := None)"
    and del_err: "wf s \<Longrightarrow> del k s = (Some e, s') \<Longrightarrow> view s' = view s"
    and del_wf: "wf s \<Longrightarrow> wf (snd (del k s))"
begin

lemma get_after_put:
  assumes "wf s" "put k v s = (None, s')" "fst (get k' s') = Inr w"
  shows "w = v \<or> k' \<noteq> k" "k' \<noteq> k \<Longrightarrow> view s k' = Some w"
proof -
  have "wf s'" using put_wf [OF assms(1), of k v] assms(2) by simp
  from get_ok [OF this assms(3)] put_ok [OF assms(1,2)] show "w = v \<or> k' \<noteq> k"
    by (cases "k' = k") auto
  from get_ok [OF \<open>wf s'\<close> assms(3)] put_ok [OF assms(1,2)] show "view s k' = Some w" if "k' \<noteq> k"
    using that by simp
qed

lemma get_after_del:
  assumes "wf s" "del k s = (None, s')"
  shows "fst (get k s') \<noteq> Inr v"
proof
  assume "fst (get k s') = Inr v"
  moreover have "wf s'" using del_wf [OF assms(1), of k] assms(2) by simp
  ultimately have "view s' k = Some v" by (rule get_ok [rotated])
  with del_ok [OF assms] show False by simp
qed

text \<open>Putting back what was there undoes a write: the rollback of a failed commit.\<close>

lemma put_restores:
  assumes "wf s" "view s k = Some old" "put k v s = (r, s1)" "put k old s1 = (None, s2)"
  shows "view s2 = view s"
proof -
  have "wf s1" using put_wf [OF assms(1), of k v] assms(3) by simp
  have "view s2 = (view s1)(k \<mapsto> old)" by (rule put_ok [OF \<open>wf s1\<close> assms(4)])
  moreover have "view s1 = view s \<or> view s1 = (view s)(k \<mapsto> v)"
    using put_ok [OF assms(1), of k v] put_err [OF assms(1), of k v] assms(3) by (cases r) auto
  ultimately show ?thesis using assms(2) by (auto simp: fun_upd_idem)
qed

lemma del_restores:
  assumes "wf s" "view s k = None" "put k v s = (r, s1)" "del k s1 = (None, s2)"
  shows "view s2 = view s"
proof -
  have "wf s1" using put_wf [OF assms(1), of k v] assms(3) by simp
  have "view s2 = (view s1)(k := None)" by (rule del_ok [OF \<open>wf s1\<close> assms(4)])
  moreover have "view s1 = view s \<or> view s1 = (view s)(k \<mapsto> v)"
    using put_ok [OF assms(1), of k v] put_err [OF assms(1), of k v] assms(3) by (cases r) auto
  ultimately show ?thesis using assms(2) by (auto simp: fun_upd_idem)
qed

end

section \<open>Key-ordered association lists\<close>

fun al_put :: "uuid \<Rightarrow> 'v \<Rightarrow> (uuid \<times> 'v) list \<Rightarrow> (uuid \<times> 'v) list" where
  "al_put k v [] = [(k, v)]"
| "al_put k v ((a, b) # xs) =
     (if k < a then (k, v) # (a, b) # xs
      else if k = a then (k, v) # xs
      else (a, b) # al_put k v xs)"

definition al_del :: "uuid \<Rightarrow> (uuid \<times> 'v) list \<Rightarrow> (uuid \<times> 'v) list" where
  "al_del k xs = filter (\<lambda>p. fst p \<noteq> k) xs"

definition al_wf :: "(uuid \<times> 'v) list \<Rightarrow> bool" where
  "al_wf xs \<longleftrightarrow> sorted (map fst xs) \<and> distinct (map fst xs)"

lemma map_of_al_put [simp]: "map_of (al_put k v xs) = (map_of xs)(k \<mapsto> v)"
  by (induction k v xs rule: al_put.induct) (auto simp: fun_eq_iff)

lemma map_of_al_del [simp]: "map_of (al_del k xs) = (map_of xs)(k := None)"
  by (induction xs) (auto simp: al_del_def fun_eq_iff)

lemma fst_set_al_put [simp]: "fst ` set (al_put k v xs) = insert k (fst ` set xs)"
  by (induction k v xs rule: al_put.induct) auto

lemma al_wf_put [simp]: "al_wf xs \<Longrightarrow> al_wf (al_put k v xs)"
  by (induction k v xs rule: al_put.induct) (auto simp: al_wf_def)

lemma al_wf_del [simp]: "al_wf xs \<Longrightarrow> al_wf (al_del k xs)"
  unfolding al_wf_def al_del_def by (auto simp: distinct_map_filter intro: sorted_filter)

lemma al_wf_values: "al_wf xs \<Longrightarrow> set (map snd xs) = ran (map_of xs)"
  by (simp add: al_wf_def ran_distinct)

section \<open>The specification store\<close>

record 'v store =
  st_data :: "(uuid \<times> 'v) list"
  st_faults :: "string option list"

definition new_store :: "'v store" where
  "new_store = \<lparr>st_data = [], st_faults = []\<rparr>"

definition store_view :: "'v store \<Rightarrow> uuid \<rightharpoonup> 'v" where
  "store_view s = map_of (st_data s)"

definition store_wf :: "'v store \<Rightarrow> bool" where
  "store_wf s \<longleftrightarrow> al_wf (st_data s)"

text \<open>The next operation's fault, taken off the script.\<close>

definition next_fault :: "'v store \<Rightarrow> string option" where
  "next_fault s = (case st_faults s of [] \<Rightarrow> None | f # _ \<Rightarrow> f)"

definition tick :: "'v store \<Rightarrow> 'v store" where
  "tick s = s\<lparr>st_faults := drop 1 (st_faults s)\<rparr>"

definition not_found :: gerror where
  "not_found = GErr ''store: key not found'' [ErrNotFound]"

definition store_Put :: "uuid \<Rightarrow> 'v \<Rightarrow> 'v store \<Rightarrow> gerror option \<times> 'v store" where
  "store_Put k v s =
     (case next_fault s of
        Some m \<Rightarrow> (Some (errorf m), tick s)
      | None \<Rightarrow> (None, (tick s)\<lparr>st_data := al_put k v (st_data s)\<rparr>))"

definition store_Get :: "uuid \<Rightarrow> 'v store \<Rightarrow> (gerror + 'v) \<times> 'v store" where
  "store_Get k s =
     (case next_fault s of
        Some m \<Rightarrow> (Inl (errorf m), tick s)
      | None \<Rightarrow>
          (case store_view s k of
             None \<Rightarrow> (Inl not_found, tick s)
           | Some v \<Rightarrow> (Inr v, tick s)))"

definition store_List :: "'v store \<Rightarrow> (gerror + 'v list) \<times> 'v store" where
  "store_List s =
     (case next_fault s of
        Some m \<Rightarrow> (Inl (errorf m), tick s)
      | None \<Rightarrow> (Inr (map snd (st_data s)), tick s))"

definition store_Count :: "'v store \<Rightarrow> (gerror + int) \<times> 'v store" where
  "store_Count s =
     (case next_fault s of
        Some m \<Rightarrow> (Inl (errorf m), tick s)
      | None \<Rightarrow> (Inr (int (length (st_data s))), tick s))"

definition store_Delete :: "uuid \<Rightarrow> 'v store \<Rightarrow> gerror option \<times> 'v store" where
  "store_Delete k s =
     (case next_fault s of
        Some m \<Rightarrow> (Some (errorf m), tick s)
      | None \<Rightarrow> (None, (tick s)\<lparr>st_data := al_del k (st_data s)\<rparr>))"

lemmas store_op_defs =
  store_Put_def store_Get_def store_List_def store_Count_def store_Delete_def

lemma data_tick [simp]: "st_data (tick s) = st_data s"
  by (simp add: tick_def)

lemma view_tick [simp]: "store_view (tick s) = store_view s"
  by (simp add: store_view_def tick_def)

lemma wf_tick [simp]: "store_wf (tick s) = store_wf s"
  by (simp add: store_wf_def tick_def)

lemma view_update [simp]: "store_view (s\<lparr>st_data := d\<rparr>) = map_of d"
  by (simp add: store_view_def)

lemma wf_update [simp]: "store_wf (s\<lparr>st_data := d\<rparr>) = al_wf d"
  by (simp add: store_wf_def)

lemma view_new [simp]: "store_view new_store = Map.empty"
  by (simp add: new_store_def store_view_def)

lemma wf_new [simp]: "store_wf new_store"
  by (simp add: new_store_def store_wf_def al_wf_def)

lemma not_found_Is [simp]: "errors_Is not_found ErrNotFound"
  by (simp add: not_found_def)

text \<open>Each operation in terms of the contents, by outcome.\<close>

lemma store_Put_view:
  "store_view (snd (store_Put k v s))
     = (if fst (store_Put k v s) = None then (store_view s)(k \<mapsto> v) else store_view s)"
  by (simp add: store_Put_def store_view_def [symmetric] split: option.splits)

lemma store_Delete_view:
  "store_view (snd (store_Delete k s))
     = (if fst (store_Delete k s) = None then (store_view s)(k := None) else store_view s)"
  by (simp add: store_Delete_def store_view_def [symmetric] split: option.splits)

lemma store_Get_view [simp]: "store_view (snd (store_Get k s)) = store_view s"
  by (simp add: store_Get_def split: option.splits)

lemma store_List_view [simp]: "store_view (snd (store_List s)) = store_view s"
  by (simp add: store_List_def split: option.splits)

lemma store_Count_view [simp]: "store_view (snd (store_Count s)) = store_view s"
  by (simp add: store_Count_def split: option.splits)

lemma store_Get_Inr: "fst (store_Get k s) = Inr v \<Longrightarrow> store_view s k = Some v"
  by (auto simp: store_Get_def split: option.splits)

lemma store_Get_Inl:
  "fst (store_Get k s) = Inl e \<Longrightarrow> errors_Is e ErrNotFound \<longleftrightarrow> store_view s k = None \<and> next_fault s = None"
  by (auto simp: store_Get_def split: option.splits)

lemma store_ops_wf [simp]:
  "store_wf s \<Longrightarrow> store_wf (snd (store_Put k v s))"
  "store_wf (snd (store_Get k s)) = store_wf s"
  "store_wf (snd (store_List s)) = store_wf s"
  "store_wf (snd (store_Count s)) = store_wf s"
  "store_wf s \<Longrightarrow> store_wf (snd (store_Delete k s))"
  by (auto simp: store_op_defs store_wf_def tick_def split: option.splits)

lemma store_List_Inr:
  "store_wf s \<Longrightarrow> fst (store_List s) = Inr vs \<Longrightarrow> set vs = ran (store_view s)"
  using al_wf_values [of "st_data s"]
  by (auto simp: store_List_def store_wf_def store_view_def split: option.splits)

interpretation spec: kv_store store_view store_wf store_Put store_Get store_List store_Delete
proof unfold_locales
  fix s :: "'b store" and s' k v e
  show "store_Put k v s = (None, s') \<Longrightarrow> store_view s' = (store_view s)(k \<mapsto> v)"
    using store_Put_view [of k v s] by simp
  show "store_Put k v s = (Some e, s') \<Longrightarrow> store_view s' = store_view s"
    using store_Put_view [of k v s] by simp
  show "store_Delete k s = (None, s') \<Longrightarrow> store_view s' = (store_view s)(k := None)"
    using store_Delete_view [of k s] by simp
  show "store_Delete k s = (Some e, s') \<Longrightarrow> store_view s' = store_view s"
    using store_Delete_view [of k s] by simp
  show "fst (store_Get k s) = Inl e \<Longrightarrow> errors_Is e ErrNotFound \<Longrightarrow> store_view s k = None"
    using store_Get_Inl by blast
qed (auto intro: store_Get_Inr dest: store_List_Inr)

section \<open>InMemoryStore\<close>

text \<open>
  The Go map, as the list of its entries; a nil map is \<open>None\<close>. The order in which \<open>range\<close> visits the
  entries is the runtime's, the argument \<open>visit\<close> of \<open>mem_List\<close>, of which a Go map promises only that
  each entry comes exactly once. \<open>keyf\<close> is the element type's \<open>Key()\<close>.
\<close>

record 'v mem_store =
  mem_db :: "(uuid \<times> 'v) list option"

definition NewInMemoryStore :: "'v mem_store" where
  "NewInMemoryStore = \<lparr>mem_db = Some []\<rparr>"

definition mem_entries :: "'v mem_store \<Rightarrow> (uuid \<times> 'v) list" where
  "mem_entries s = (case mem_db s of None \<Rightarrow> [] | Some db \<Rightarrow> db)"

definition mem_Put :: "uuid \<Rightarrow> 'v option \<Rightarrow> 'v mem_store \<Rightarrow> gerror option \<times> 'v mem_store" where
  "mem_Put key value s =
     (case value of
        None \<Rightarrow> (Some (errorf ''store: cannot put nil''), s)
      | Some v \<Rightarrow> (None, s\<lparr>mem_db := Some (AList.update key v (mem_entries s))\<rparr>))"

definition mem_Get :: "uuid \<Rightarrow> 'v mem_store \<Rightarrow> gerror + 'v" where
  "mem_Get key s = (case map_of (mem_entries s) key of None \<Rightarrow> Inl not_found | Some v \<Rightarrow> Inr v)"

definition mem_List ::
  "('v \<Rightarrow> uuid) \<Rightarrow> ((uuid \<times> 'v) list \<Rightarrow> (uuid \<times> 'v) list) \<Rightarrow> 'v mem_store \<Rightarrow> gerror + 'v list" where
  "mem_List keyf visit s = Inr (sort_key keyf (map snd (visit (mem_entries s))))"

definition mem_Count :: "'v mem_store \<Rightarrow> gerror + int" where
  "mem_Count s = Inr (int (length (mem_entries s)))"

definition mem_Delete :: "uuid \<Rightarrow> 'v mem_store \<Rightarrow> gerror option \<times> 'v mem_store" where
  "mem_Delete key s = (None, s\<lparr>mem_db := map_option (AList.delete key) (mem_db s)\<rparr>)"

definition mem_wf :: "('v \<Rightarrow> uuid) \<Rightarrow> 'v mem_store \<Rightarrow> bool" where
  "mem_wf keyf s \<longleftrightarrow> distinct (map fst (mem_entries s)) \<and> (\<forall>(k, v)\<in>set (mem_entries s). keyf v = k)"

definition go_range :: "((uuid \<times> 'v) list \<Rightarrow> (uuid \<times> 'v) list) \<Rightarrow> bool" where
  "go_range visit \<longleftrightarrow> (\<forall>xs. mset (visit xs) = mset xs)"

text \<open>The abstraction: the same contents as the specification store, in key order, and no faults.\<close>

definition mem_abs :: "'v mem_store \<Rightarrow> 'v store \<Rightarrow> bool" where
  "mem_abs m s \<longleftrightarrow> store_wf s \<and> st_faults s = [] \<and> map_of (mem_entries m) = store_view s"

lemma mem_entries_simps [simp]:
  "mem_entries (s\<lparr>mem_db := Some db\<rparr>) = db"
  "mem_entries (s\<lparr>mem_db := map_option (AList.delete k) (mem_db s)\<rparr>) = AList.delete k (mem_entries s)"
  "mem_entries NewInMemoryStore = []"
  by (auto simp: mem_entries_def NewInMemoryStore_def split: option.splits)

lemma mem_wf_map_of:
  "mem_wf keyf s \<longleftrightarrow> distinct (map fst (mem_entries s))
     \<and> (\<forall>k v. map_of (mem_entries s) k = Some v \<longrightarrow> keyf v = k)"
  unfolding mem_wf_def by (auto simp: map_of_eq_Some_iff)

lemma mem_wf_new [simp]: "mem_wf keyf NewInMemoryStore"
  by (simp add: mem_wf_def)

lemma mem_wf_Put: "mem_wf keyf s \<Longrightarrow> keyf v = k \<Longrightarrow> mem_wf keyf (snd (mem_Put k (Some v) s))"
  by (auto simp: mem_wf_map_of mem_Put_def update_conv' distinct_update)

lemma mem_wf_Delete: "mem_wf keyf s \<Longrightarrow> mem_wf keyf (snd (mem_Delete k s))"
  by (auto simp: mem_wf_map_of mem_Delete_def delete_conv' distinct_delete split: if_splits)

lemma mem_keys: "mem_wf keyf s \<Longrightarrow> map (keyf \<circ> snd) (mem_entries s) = map fst (mem_entries s)"
  by (auto simp: mem_wf_def)

lemma visit_keys:
  assumes "mem_wf keyf s" "go_range visit"
  shows "distinct (map keyf (map snd (visit (mem_entries s))))"
    and "set (visit (mem_entries s)) = set (mem_entries s)"
    and "length (visit (mem_entries s)) = length (mem_entries s)"
proof -
  have m: "mset (visit (mem_entries s)) = mset (mem_entries s)" using assms(2) by (simp add: go_range_def)
  then show st: "set (visit (mem_entries s)) = set (mem_entries s)" by (rule mset_eq_setD)
  from m show "length (visit (mem_entries s)) = length (mem_entries s)" by (rule mset_eq_length)
  have "mset (map (keyf \<circ> snd) (visit (mem_entries s))) = mset (map (keyf \<circ> snd) (mem_entries s))"
    by (simp only: mset_map m)
  then have "distinct (map (keyf \<circ> snd) (visit (mem_entries s)))"
    using assms(1) by (metis mem_keys mem_wf_def mset_eq_imp_distinct_iff)
  then show "distinct (map keyf (map snd (visit (mem_entries s))))" by simp
qed

text \<open>Two well-formed key-ordered stores with the same contents are the same list.\<close>

lemma mem_List_sorted:
  assumes "mem_wf keyf m" "mem_abs m s" "go_range visit"
  shows "mem_List keyf visit m = Inr (map snd (st_data s))"
proof -
  have data: "al_wf (st_data s)" "map_of (mem_entries m) = map_of (st_data s)"
    using assms(2) by (auto simp: mem_abs_def store_wf_def store_view_def)
  have dm: "distinct (map fst (mem_entries m))" "distinct (map fst (st_data s))"
    using assms(1) data(1) by (auto simp: mem_wf_def al_wf_def)
  have same: "set (mem_entries m) = set (st_data s)"
    using data(2) dm by (simp add: map_of_inject_set)
  have keys: "map keyf (map snd (st_data s)) = map fst (st_data s)"
    using assms(1) same by (auto simp: mem_wf_def)
  note vis = visit_keys [OF assms(1,3)]
  have "sort_key keyf (map snd (visit (mem_entries m))) = map snd (st_data s)"
  proof (rule map_sorted_distinct_set_unique [where f = keyf])
    have "set (map snd (visit (mem_entries m))) = set (map snd (st_data s))"
      using vis(2) same by simp
    then show eq: "set (sort_key keyf (map snd (visit (mem_entries m)))) = set (map snd (st_data s))"
      by simp
    have "distinct (map keyf (map snd (st_data s)))" unfolding keys by (rule dm(2))
    then show "inj_on keyf (set (sort_key keyf (map snd (visit (mem_entries m)))) \<union> set (map snd (st_data s)))"
      unfolding eq Un_absorb by (simp only: distinct_map)
    show "distinct (map keyf (map snd (st_data s)))" by fact
    show "sorted (map keyf (map snd (st_data s)))"
      unfolding keys using data(1) by (simp add: al_wf_def)
    show "distinct (map keyf (sort_key keyf (map snd (visit (mem_entries m)))))"
    proof -
      have "mset (map keyf (sort_key keyf (map snd (visit (mem_entries m)))))
          = mset (map keyf (map snd (visit (mem_entries m))))" by (simp only: mset_map mset_sort)
      then show ?thesis using vis(1) mset_eq_imp_distinct_iff by blast
    qed
  qed simp
  then show ?thesis by (simp add: mem_List_def)
qed

lemma mem_Count_abs:
  assumes "mem_wf keyf m" "mem_abs m s"
  shows "length (mem_entries m) = length (st_data s)"
proof -
  have "set (mem_entries m) = set (st_data s)" "distinct (mem_entries m)" "distinct (st_data s)"
    using assms
    by (auto simp: mem_abs_def store_wf_def store_view_def al_wf_def mem_wf_def map_of_inject_set
        distinct_map)
  then show ?thesis by (metis distinct_card)
qed

text \<open>A client program is a list of operations; its answers are what the client sees.\<close>

datatype 'v store_op = OpPut 'v | OpGet uuid | OpList | OpCount | OpDelete uuid

datatype 'v store_ans = ADone "gerror option" | AVal "gerror + 'v" | AVals "gerror + 'v list" | ACount "gerror + int"

fun spec_step :: "('v \<Rightarrow> uuid) \<Rightarrow> 'v store_op \<Rightarrow> 'v store \<Rightarrow> 'v store_ans \<times> 'v store" where
  "spec_step keyf (OpPut v) s = apfst ADone (store_Put (keyf v) v s)"
| "spec_step keyf (OpGet k) s = apfst AVal (store_Get k s)"
| "spec_step keyf OpList s = apfst AVals (store_List s)"
| "spec_step keyf OpCount s = apfst ACount (store_Count s)"
| "spec_step keyf (OpDelete k) s = apfst ADone (store_Delete k s)"

fun mem_step ::
  "('v \<Rightarrow> uuid) \<Rightarrow> ((uuid \<times> 'v) list \<Rightarrow> (uuid \<times> 'v) list) \<Rightarrow> 'v store_op \<Rightarrow> 'v mem_store
     \<Rightarrow> 'v store_ans \<times> 'v mem_store" where
  "mem_step keyf visit (OpPut v) m = apfst ADone (mem_Put (keyf v) (Some v) m)"
| "mem_step keyf visit (OpGet k) m = (AVal (mem_Get k m), m)"
| "mem_step keyf visit OpList m = (AVals (mem_List keyf visit m), m)"
| "mem_step keyf visit OpCount m = (ACount (mem_Count m), m)"
| "mem_step keyf visit (OpDelete k) m = apfst ADone (mem_Delete k m)"

fun run_ops :: "('op \<Rightarrow> 's \<Rightarrow> 'ans \<times> 's) \<Rightarrow> 'op list \<Rightarrow> 's \<Rightarrow> 'ans list" where
  "run_ops step [] s = []"
| "run_ops step (op # ops) s = (let (a, s') = step op s in a # run_ops step ops s')"

lemma run_ops_simulates:
  assumes step: "\<And>op m s. R m s \<Longrightarrow> fst (f op m) = fst (g op s) \<and> R (snd (f op m)) (snd (g op s))"
    and "R m s"
  shows "run_ops f ops m = run_ops g ops s"
  using \<open>R m s\<close>
proof (induction ops arbitrary: m s)
  case (Cons op ops)
  from step [OF Cons.prems, of op] Cons.IH show ?case by (simp add: case_prod_beta)
qed simp

lemma mem_step_simulates:
  assumes "go_range visit" "mem_wf keyf m" "mem_abs m s"
  shows "fst (mem_step keyf visit op m) = fst (spec_step keyf op s)"
    and "mem_wf keyf (snd (mem_step keyf visit op m))"
    and "mem_abs (snd (mem_step keyf visit op m)) (snd (spec_step keyf op s))"
proof -
  have f: "next_fault s = None" "st_faults (tick s) = []"
    using assms(3) by (auto simp: mem_abs_def next_fault_def tick_def)
  have v: "map_of (mem_entries m) = store_view s" "store_wf s"
    using assms(3) by (auto simp: mem_abs_def)
  show "fst (mem_step keyf visit op m) = fst (spec_step keyf op s)"
    by (cases op)
       (auto simp: f v store_op_defs mem_Put_def mem_Get_def mem_List_sorted [OF assms(2,3,1)]
         mem_Count_def mem_Count_abs [OF assms(2,3)] mem_Delete_def split: option.split)
  show "mem_wf keyf (snd (mem_step keyf visit op m))"
    by (cases op) (simp_all add: assms(2) mem_wf_Put mem_wf_Delete)
  show "mem_abs (snd (mem_step keyf visit op m)) (snd (spec_step keyf op s))"
    using f v
    by (cases op)
       (auto simp: store_op_defs mem_abs_def mem_Put_def mem_Delete_def update_conv' delete_conv'
         store_view_def store_wf_def [of s] split: option.split)
qed

text \<open>
  Every program of store operations sees on \<open>InMemoryStore\<close>, whatever order the runtime
  iterates its map in, exactly the answers of the fault-free specification store; in particular
  \<open>List\<close> is deterministic and in key order.
\<close>

theorem InMemoryStore_refines:
  assumes "go_range visit"
  shows "run_ops (mem_step keyf visit) ops NewInMemoryStore = run_ops (spec_step keyf) ops new_store"
proof (rule run_ops_simulates [where R = "\<lambda>m s. mem_wf keyf m \<and> mem_abs m s"])
  fix op m s
  assume "mem_wf keyf m \<and> mem_abs m s"
  then show "fst (mem_step keyf visit op m) = fst (spec_step keyf op s)
      \<and> mem_wf keyf (snd (mem_step keyf visit op m))
      \<and> mem_abs (snd (mem_step keyf visit op m)) (snd (spec_step keyf op s))"
    using mem_step_simulates [OF assms] by blast
next
  show "mem_wf keyf NewInMemoryStore \<and> mem_abs NewInMemoryStore new_store"
    by (simp add: mem_abs_def) (simp add: new_store_def)
qed

theorem InMemoryStore_refines_witness:
  "run_ops (mem_step fst rev) [OpPut (2, True), OpPut (1, False), OpList, OpDelete 2, OpGet 2] NewInMemoryStore
     = [ADone None, ADone None, AVals (Inr [(1, False), (2, True)]), ADone None, AVal (Inl not_found)]"
proof -
  have "go_range rev" by (simp add: go_range_def)
  from InMemoryStore_refines [OF this, of fst
      "[OpPut (2, True), OpPut (1, False), OpList, OpDelete 2, OpGet 2]"]
  show ?thesis
    by (simp add: store_op_defs next_fault_def tick_def new_store_def store_view_def al_del_def)
qed

lemma mem_kv_store:
  assumes "go_range visit"
  shows "kv_store (\<lambda>s. map_of (mem_entries s)) (\<lambda>s. distinct (map fst (mem_entries s)))
    (\<lambda>k v. mem_Put k (Some v)) (\<lambda>k s. (mem_Get k s, s)) (\<lambda>s. (mem_List keyf visit s, s)) mem_Delete"
proof -
  have "set (visit xs) = set xs" for xs using assms by (auto simp: go_range_def dest: mset_eq_setD)
  then show ?thesis
    by unfold_locales
       (auto 4 4 simp: mem_Put_def mem_Get_def mem_List_def mem_Delete_def update_conv' delete_conv'
         distinct_update distinct_delete ran_distinct image_iff Bex_def split: option.splits)
qed

interpretation mem: kv_store "\<lambda>s. map_of (mem_entries s)" "\<lambda>s. distinct (map fst (mem_entries s))"
  "\<lambda>k v. mem_Put k (Some v)" "\<lambda>k s. (mem_Get k s, s)" "\<lambda>s. (mem_List keyf (\<lambda>es. es) s, s)" mem_Delete
  for keyf
  by (rule mem_kv_store) (simp add: go_range_def)

section \<open>BoltStore\<close>

text \<open>
  bbolt and \<open>encoding/json\<close> are not part of the repository: the record \<open>bolt\<close> holds what the code
  calls. \<open>'d\<close> is the database file, \<open>'x\<close> a transaction, \<open>'b\<close> the bytes of a value.
  \<open>b_update\<close> is \<open>DB.Update\<close>, which runs a function in a read-write transaction and commits or
  rolls back; \<open>b_view\<close> opens the snapshot that \<open>DB.View\<close> passes to its function; the \<open>x_\<close>
  fields are \<open>tx.Bucket(b)\<close> followed by the bucket's method. \<open>bucket_of\<close> and \<open>x_contents\<close> are the
  key-value pairs a database or a transaction holds in a bucket, \<open>None\<close> when it does not exist.
\<close>

record ('d, 'x, 'b, 'v) bolt =
  b_update :: "('x \<Rightarrow> gerror option \<times> 'x) \<Rightarrow> 'd \<Rightarrow> gerror option \<times> 'd"
  b_view :: "'d \<Rightarrow> gerror + 'x"
  b_close :: "'d \<Rightarrow> gerror option \<times> 'd"
  x_create :: "string \<Rightarrow> 'x \<Rightarrow> gerror option \<times> 'x"
  x_put :: "string \<Rightarrow> uuid \<Rightarrow> 'b \<Rightarrow> 'x \<Rightarrow> gerror option \<times> 'x"
  x_get :: "string \<Rightarrow> uuid \<Rightarrow> 'x \<Rightarrow> 'b option"
  x_foreach :: "string \<Rightarrow> 'x \<Rightarrow> (uuid \<times> 'b) list"
  x_delete :: "string \<Rightarrow> uuid \<Rightarrow> 'x \<Rightarrow> gerror option \<times> 'x"
  json_Marshal :: "'v \<Rightarrow> gerror + 'b"
  json_Unmarshal :: "'b \<Rightarrow> gerror + 'v"
  uuid_String :: "uuid \<Rightarrow> string"
  bucket_of :: "string \<Rightarrow> 'd \<Rightarrow> (uuid \<rightharpoonup> 'b) option"
  x_contents :: "string \<Rightarrow> 'x \<Rightarrow> (uuid \<rightharpoonup> 'b) option"

definition wrap_create :: "string \<Rightarrow> gerror option \<times> 'x \<Rightarrow> gerror option \<times> 'x" where
  "wrap_create bucket =
     apfst (map_option (wrapf (''create bucket '' @ bucket @ '': '')))"

definition CreateBucket :: "('d, 'x, 'b, 'v) bolt \<Rightarrow> string \<Rightarrow> 'd \<Rightarrow> gerror option \<times> 'd" where
  "CreateBucket B bucket = b_update B (\<lambda>tx. wrap_create bucket (x_create B bucket tx))"

definition bolt_Put :: "('d, 'x, 'b, 'v) bolt \<Rightarrow> string \<Rightarrow> uuid \<Rightarrow> 'v \<Rightarrow> 'd \<Rightarrow> gerror option \<times> 'd" where
  "bolt_Put B bucket key value =
     b_update B (\<lambda>tx.
       case json_Marshal B value of
         Inl err \<Rightarrow> (Some err, tx)
       | Inr buf \<Rightarrow> x_put B bucket key buf tx)"

definition bolt_Get :: "('d, 'x, 'b, 'v) bolt \<Rightarrow> string \<Rightarrow> uuid \<Rightarrow> 'd \<Rightarrow> gerror + 'v" where
  "bolt_Get B bucket key d =
     (case b_view B d of
        Inl err \<Rightarrow> Inl err
      | Inr tx \<Rightarrow>
          (case x_get B bucket key tx of
             None \<Rightarrow> Inl (GErr (err_msg not_found @ '': '' @ uuid_String B key) [ErrNotFound])
           | Some raw \<Rightarrow>
               (case json_Unmarshal B raw of
                  Inl err \<Rightarrow> Inl (wrapf ''unable to unmarshal: '' err)
                | Inr out \<Rightarrow> Inr out)))"

fun unmarshal_all :: "('b \<Rightarrow> gerror + 'v) \<Rightarrow> (uuid \<times> 'b) list \<Rightarrow> 'v list \<Rightarrow> gerror + 'v list" where
  "unmarshal_all unm [] out = Inr out"
| "unmarshal_all unm ((k, v) # kvs) out =
     (case unm v of Inl err \<Rightarrow> Inl err | Inr item \<Rightarrow> unmarshal_all unm kvs (out @ [item]))"

definition bolt_List :: "('d, 'x, 'b, 'v) bolt \<Rightarrow> string \<Rightarrow> 'd \<Rightarrow> gerror + 'v list" where
  "bolt_List B bucket d =
     (case b_view B d of
        Inl err \<Rightarrow> Inl err
      | Inr tx \<Rightarrow> unmarshal_all (json_Unmarshal B) (x_foreach B bucket tx) [])"

definition bolt_Count :: "('d, 'x, 'b, 'v) bolt \<Rightarrow> string \<Rightarrow> 'd \<Rightarrow> gerror + int" where
  "bolt_Count B bucket d =
     (case b_view B d of
        Inl err \<Rightarrow> Inl err
      | Inr tx \<Rightarrow> Inr (foldl (\<lambda>n _. n + 1) 0 (x_foreach B bucket tx)))"

definition bolt_Delete :: "('d, 'x, 'b, 'v) bolt \<Rightarrow> string \<Rightarrow> uuid \<Rightarrow> 'd \<Rightarrow> gerror option \<times> 'd" where
  "bolt_Delete B bucket key = b_update B (x_delete B bucket key)"

text \<open>A store with its own file closes it; a bucket view of a shared file leaves it to the owner.\<close>

definition bolt_Close :: "('d, 'x, 'b, 'v) bolt \<Rightarrow> bool \<Rightarrow> 'd \<Rightarrow> gerror option \<times> 'd" where
  "bolt_Close B shared d = (if shared then (None, d) else b_close B d)"

definition Bucket :: "('d, 'x, 'b, 'v) bolt \<Rightarrow> string \<Rightarrow> 'd \<Rightarrow> (gerror + string \<times> bool) \<times> 'd" where
  "Bucket B bucket d =
     (case CreateBucket B bucket d of
        (Some err, d') \<Rightarrow> (Inl err, d')
      | (None, d') \<Rightarrow> (Inr (bucket, True), d'))"

definition NewBoltStore ::
  "('d, 'x, 'b, 'v) bolt \<Rightarrow> string \<Rightarrow> string \<Rightarrow> gerror + 'd \<Rightarrow> (gerror option + string \<times> bool) \<times> 'd option" where
  "NewBoltStore B file bucket opened =
     (case opened of
        Inl err \<Rightarrow> (Inl (Some (wrapf (''unable to open '' @ file @ '': '') err)), None)
      | Inr db \<Rightarrow>
          (case CreateBucket B bucket db of
             (Some err, db1) \<Rightarrow>
               (case b_close B db1 of
                  (None, db2) \<Rightarrow> (Inl (errors_Join [err]), Some db2)
                | (Some cerr, db2) \<Rightarrow> (Inl (errors_Join [err, cerr]), Some db2))
           | (None, db1) \<Rightarrow> (Inr (bucket, False), Some db1)))"

text \<open>
  The documented behaviour the code relies on: an \<open>Update\<close> that fails leaves the file as it was
  and one that succeeds has run its function on the file's contents; a snapshot has the file's
  contents; the bucket methods read and write the bucket as a map, iterating it in key order; what
  JSON has encoded it decodes; neither library returns an error that wraps \<open>ErrNotFound\<close>.
\<close>

definition txn_laws :: "('d, 'x, 'b, 'v) bolt \<Rightarrow> bool" where
  "txn_laws B \<longleftrightarrow>
     (\<forall>f d e d'. b_update B f d = (Some e, d') \<longrightarrow> (\<forall>b. bucket_of B b d' = bucket_of B b d))
   \<and> (\<forall>f d d'. b_update B f d = (None, d') \<longrightarrow>
        (\<exists>tx tx'. (\<forall>b. x_contents B b tx = bucket_of B b d) \<and> f tx = (None, tx')
           \<and> (\<forall>b. bucket_of B b d' = x_contents B b tx')))
   \<and> (\<forall>d tx. b_view B d = Inr tx \<longrightarrow> (\<forall>b. x_contents B b tx = bucket_of B b d))
   \<and> (\<forall>d e. b_view B d = Inl e \<longrightarrow> \<not> errors_Is e ErrNotFound)"

definition bucket_laws :: "('d, 'x, 'b, 'v) bolt \<Rightarrow> bool" where
  "bucket_laws B \<longleftrightarrow>
     (\<forall>b tx tx'. x_create B b tx = (None, tx') \<longrightarrow>
        x_contents B b tx' = Some (case x_contents B b tx of None \<Rightarrow> Map.empty | Some m \<Rightarrow> m))
   \<and> (\<forall>b k v tx tx' m. x_contents B b tx = Some m \<longrightarrow> x_put B b k v tx = (None, tx') \<longrightarrow>
        x_contents B b tx' = Some (m(k \<mapsto> v)))
   \<and> (\<forall>b k tx tx' m. x_contents B b tx = Some m \<longrightarrow> x_delete B b k tx = (None, tx') \<longrightarrow>
        x_contents B b tx' = Some (m(k := None)))
   \<and> (\<forall>b k tx m. x_contents B b tx = Some m \<longrightarrow> x_get B b k tx = m k)
   \<and> (\<forall>b tx m. x_contents B b tx = Some m \<longrightarrow>
        map_of (x_foreach B b tx) = m \<and> al_wf (x_foreach B b tx))"

definition json_laws :: "('d, 'x, 'b, 'v) bolt \<Rightarrow> bool" where
  "json_laws B \<longleftrightarrow>
     (\<forall>v buf. json_Marshal B v = Inr buf \<longrightarrow> json_Unmarshal B buf = Inr v)
   \<and> (\<forall>buf e. json_Unmarshal B buf = Inl e \<longrightarrow> \<not> errors_Is e ErrNotFound)"

definition bolt_laws :: "('d, 'x, 'b, 'v) bolt \<Rightarrow> bool" where
  "bolt_laws B \<longleftrightarrow> txn_laws B \<and> bucket_laws B \<and> json_laws B"

lemma create_law:
  "bucket_laws B \<Longrightarrow> x_create B b tx = (None, tx') \<Longrightarrow>
     x_contents B b tx' = Some (case x_contents B b tx of None \<Rightarrow> Map.empty | Some m \<Rightarrow> m)"
proof -
  assume "bucket_laws B" and c: "x_create B b tx = (None, tx')"
  then have "\<forall>b tx tx'. x_create B b tx = (None, tx') \<longrightarrow>
      x_contents B b tx' = Some (case x_contents B b tx of None \<Rightarrow> Map.empty | Some m \<Rightarrow> m)"
    unfolding bucket_laws_def by (elim conjE)
  then show ?thesis using c by blast
qed

lemma put_law:
  "bucket_laws B \<Longrightarrow> x_contents B b tx = Some m \<Longrightarrow> x_put B b k v tx = (None, tx') \<Longrightarrow>
     x_contents B b tx' = Some (m(k \<mapsto> v))"
  unfolding bucket_laws_def by blast

lemma delete_law:
  "bucket_laws B \<Longrightarrow> x_contents B b tx = Some m \<Longrightarrow> x_delete B b k tx = (None, tx') \<Longrightarrow>
     x_contents B b tx' = Some (m(k := None))"
  unfolding bucket_laws_def by blast

lemma get_law: "bucket_laws B \<Longrightarrow> x_contents B b tx = Some m \<Longrightarrow> x_get B b k tx = m k"
  unfolding bucket_laws_def by blast

lemma foreach_law:
  "bucket_laws B \<Longrightarrow> x_contents B b tx = Some m \<Longrightarrow>
     map_of (x_foreach B b tx) = m \<and> al_wf (x_foreach B b tx)"
  unfolding bucket_laws_def by blast

text \<open>A bucket represents a specification store when its bytes decode to the store's records.\<close>

definition bolt_rel :: "('d, 'x, 'b, 'v) bolt \<Rightarrow> string \<Rightarrow> 'd \<Rightarrow> 'v store \<Rightarrow> bool" where
  "bolt_rel B bucket d s \<longleftrightarrow> store_wf s \<and>
     (\<exists>m. bucket_of B bucket d = Some m
        \<and> (\<forall>k. map_option (json_Unmarshal B) (m k) = map_option Inr (store_view s k)))"

fun bolt_step ::
  "('d, 'x, 'b, 'v) bolt \<Rightarrow> ('v \<Rightarrow> uuid) \<Rightarrow> string \<Rightarrow> 'v store_op \<Rightarrow> 'd \<Rightarrow> 'v store_ans \<times> 'd" where
  "bolt_step B keyf bucket (OpPut v) d = apfst ADone (bolt_Put B bucket (keyf v) v d)"
| "bolt_step B keyf bucket (OpGet k) d = (AVal (bolt_Get B bucket k d), d)"
| "bolt_step B keyf bucket OpList d = (AVals (bolt_List B bucket d), d)"
| "bolt_step B keyf bucket OpCount d = (ACount (bolt_Count B bucket d), d)"
| "bolt_step B keyf bucket (OpDelete k) d = apfst ADone (bolt_Delete B bucket k d)"

text \<open>Equal answers up to the wording of errors, \<open>ErrNotFound\<close> kept apart from the others.\<close>

fun same_ans :: "'v store_ans \<Rightarrow> 'v store_ans \<Rightarrow> bool" where
  "same_ans (ADone a) (ADone b) = (a = None \<longleftrightarrow> b = None)"
| "same_ans (AVal (Inr a)) (AVal (Inr b)) = (a = b)"
| "same_ans (AVal (Inl a)) (AVal (Inl b)) = (errors_Is a ErrNotFound = errors_Is b ErrNotFound)"
| "same_ans (AVals (Inr a)) (AVals (Inr b)) = (a = b)"
| "same_ans (AVals (Inl a)) (AVals (Inl b)) = True"
| "same_ans (ACount (Inr a)) (ACount (Inr b)) = (a = b)"
| "same_ans (ACount (Inl a)) (ACount (Inl b)) = True"
| "same_ans _ _ = False"

text \<open>The specification store with its next operation's fault prescribed.\<close>

definition with_fault :: "string option \<Rightarrow> 'v store \<Rightarrow> 'v store" where
  "with_fault f s = s\<lparr>st_faults := [f]\<rparr>"

lemma with_fault_simps [simp]:
  "next_fault (with_fault f s) = f" "store_view (with_fault f s) = store_view s"
  "st_data (with_fault f s) = st_data s" "store_wf (with_fault f s) = store_wf s"
  by (simp_all add: with_fault_def next_fault_def store_view_def store_wf_def)

lemma al_wf_unique: "al_wf xs \<Longrightarrow> al_wf ys \<Longrightarrow> map_of xs = map_of ys \<Longrightarrow> xs = ys"
proof (rule map_sorted_distinct_set_unique [where f = fst])
  assume a: "al_wf xs" "al_wf ys" "map_of xs = map_of ys"
  then show eq: "set xs = set ys" by (simp add: al_wf_def map_of_inject_set)
  show "inj_on fst (set xs \<union> set ys)"
    using a(2) unfolding eq by (simp add: al_wf_def distinct_map)
qed (simp_all add: al_wf_def)

lemma foldl_count: "foldl (\<lambda>n _. n + 1) (a :: int) xs = a + int (length xs)"
  by (induction xs arbitrary: a) simp_all

lemma unmarshal_all_Inr:
  "\<forall>(k, b)\<in>set kvs. unm b = Inr (g b) \<Longrightarrow> unmarshal_all unm kvs out = Inr (out @ map (g \<circ> snd) kvs)"
  by (induction kvs arbitrary: out) auto

text \<open>The records of a bucket, decoded in key order, are the specification store's.\<close>

lemma bolt_decoded:
  assumes "bucket_laws B" "x_contents B b tx = Some m" "al_wf data"
    and "\<And>k. map_option (json_Unmarshal B) (m k) = map_option Inr (map_of data k)"
  shows "unmarshal_all (json_Unmarshal B) (x_foreach B b tx) [] = Inr (map snd data)"
    and "length (x_foreach B b tx) = length data"
proof -
  define kvs where "kvs = x_foreach B b tx"
  have kvs: "map_of kvs = m" "al_wf kvs" 
    using foreach_law [OF assms(1,2)] unfolding kvs_def by blast+
  define g where "g raw = projr (json_Unmarshal B raw)" for raw
  have dec: "\<forall>(k, raw)\<in>set kvs. json_Unmarshal B raw = Inr (g raw)"
  proof clarify
    fix k raw assume "(k, raw) \<in> set kvs"
    then have "m k = Some raw" using kvs by (simp add: al_wf_def map_of_is_SomeI flip: kvs(1))
    then show "json_Unmarshal B raw = Inr (g raw)" using assms(4) [of k] by (cases "map_of data k") (auto simp: g_def)
  qed
  have "map (\<lambda>(k, raw). (k, g raw)) kvs = data"
  proof (rule al_wf_unique [OF _ assms(3)])
    show "al_wf (map (\<lambda>(k, raw). (k, g raw)) kvs)"
      using kvs(2) by (simp add: al_wf_def comp_def case_prod_beta)
    show "map_of (map (\<lambda>(k, raw). (k, g raw)) kvs) = map_of data"
    proof
      fix k
      have "map_option g (m k) = map_of data k"
        using assms(4) [of k] by (cases "m k"; cases "map_of data k") (auto simp: g_def)
      then show "map_of (map (\<lambda>(k, raw). (k, g raw)) kvs) k = map_of data k"
        by (simp add: map_of_map kvs(1))
    qed
  qed
  then have "map snd data = map snd (map (\<lambda>(k, raw). (k, g raw)) kvs)" "length data = length kvs"
    by (simp, metis length_map)
  then have "map snd data = map (g \<circ> snd) kvs" "length data = length kvs"
    by (simp_all only: map_map comp_def case_prod_beta snd_conv)
  note eqs = this
  show "unmarshal_all (json_Unmarshal B) (x_foreach B b tx) [] = Inr (map snd data)"
    using unmarshal_all_Inr [OF dec, of "[]"] unfolding eqs(1) kvs_def by simp
  show "length (x_foreach B b tx) = length data" unfolding eqs(2) kvs_def ..
qed

lemma update_rollback:
  assumes "txn_laws B" "b_update B f d = (Some e, d')"
  shows "bucket_of B b d' = bucket_of B b d"
  using assms unfolding txn_laws_def by blast

lemma update_commit:
  assumes "txn_laws B" "b_update B f d = (None, d')"
  obtains tx tx' where "x_contents B b tx = bucket_of B b d" "f tx = (None, tx')"
    "bucket_of B b d' = x_contents B b tx'"
proof -
  have "\<exists>tx tx'. (\<forall>b. x_contents B b tx = bucket_of B b d) \<and> f tx = (None, tx')
      \<and> (\<forall>b. bucket_of B b d' = x_contents B b tx')"
    using assms unfolding txn_laws_def by blast
  then show thesis by (elim exE conjE) (rule that; blast)
qed

lemma bolt_rel_with_fault [simp]: "bolt_rel B b d (with_fault f s) = bolt_rel B b d s"
  by (simp add: bolt_rel_def)

lemma bolt_rel_cong:
  "bucket_of B b d' = bucket_of B b d \<Longrightarrow> bolt_rel B b d' s = bolt_rel B b d s"
  by (simp add: bolt_rel_def)

lemma bolt_rel_tick [simp]: "bolt_rel B b d (tick s) = bolt_rel B b d s"
  by (simp add: bolt_rel_def)

text \<open>
  A writing operation either fails, the bucket unchanged, and is the specification's operation with
  a fault; or succeeds and is the specification's operation.
\<close>

lemma bolt_Put_simulates:
  assumes "bolt_laws B" "bolt_rel B b d s"
  shows "\<exists>f. (fst (bolt_Put B b k v d) = None \<longleftrightarrow> fst (store_Put k v (with_fault f s)) = None)
    \<and> bolt_rel B b (snd (bolt_Put B b k v d)) (snd (store_Put k v (with_fault f s)))"
proof -
  have laws: "txn_laws B" "bucket_laws B" "json_laws B" using assms(1) by (simp_all add: bolt_laws_def)
  obtain r d' where u: "bolt_Put B b k v d = (r, d')" by (cases "bolt_Put B b k v d")
  obtain m where m: "bucket_of B b d = Some m" "store_wf s"
      "\<And>i. map_option (json_Unmarshal B) (m i) = map_option Inr (store_view s i)"
    using assms(2) by (auto simp: bolt_rel_def)
  show ?thesis
  proof (cases r)
    case (Some e)
    have "bucket_of B b d' = bucket_of B b d"
      by (rule update_rollback [OF laws(1) u [unfolded bolt_Put_def Some]])
    then have "bolt_rel B b d' s" using assms(2) by (rule bolt_rel_cong [THEN iffD2])
    then show ?thesis using Some by (intro exI [of _ "Some []"]) (simp add: u store_Put_def)
  next
    case None
    obtain tx tx' where up: "x_contents B b tx = bucket_of B b d"
        "(case json_Marshal B v of Inl err \<Rightarrow> (Some err, tx) | Inr buf \<Rightarrow> x_put B b k buf tx) = (None, tx')"
        "bucket_of B b d' = x_contents B b tx'"
      by (rule update_commit [OF laws(1) u [unfolded bolt_Put_def None]])
    note tx = up(1) [unfolded m(1)] up(3,2)
    from tx(3)
    obtain buf where buf: "json_Marshal B v = Inr buf" "x_put B b k buf tx = (None, tx')"
      by (cases "json_Marshal B v") auto
    then have "bucket_of B b d' = Some (m(k \<mapsto> buf))" "json_Unmarshal B buf = Inr v"
      using put_law [OF laws(2) tx(1)] tx(2) laws(3) by (auto simp: json_laws_def)
    then have "bolt_rel B b d' (snd (store_Put k v (with_fault None s)))"
      using m by (simp add: bolt_rel_def store_Put_def store_wf_def store_view_def)
    then show ?thesis using None by (intro exI [of _ None]) (simp add: u store_Put_def)
  qed
qed

lemma bolt_Delete_simulates:
  assumes "bolt_laws B" "bolt_rel B b d s"
  shows "\<exists>f. (fst (bolt_Delete B b k d) = None \<longleftrightarrow> fst (store_Delete k (with_fault f s)) = None)
    \<and> bolt_rel B b (snd (bolt_Delete B b k d)) (snd (store_Delete k (with_fault f s)))"
proof -
  have laws: "txn_laws B" "bucket_laws B" using assms(1) by (simp_all add: bolt_laws_def)
  obtain r d' where u: "bolt_Delete B b k d = (r, d')" by (cases "bolt_Delete B b k d")
  obtain m where m: "bucket_of B b d = Some m" "store_wf s"
      "\<And>i. map_option (json_Unmarshal B) (m i) = map_option Inr (store_view s i)"
    using assms(2) by (auto simp: bolt_rel_def)
  show ?thesis
  proof (cases r)
    case (Some e)
    have "bucket_of B b d' = bucket_of B b d"
      by (rule update_rollback [OF laws(1) u [unfolded bolt_Delete_def Some]])
    then have "bolt_rel B b d' s" using assms(2) by (rule bolt_rel_cong [THEN iffD2])
    then show ?thesis using Some by (intro exI [of _ "Some []"]) (simp add: u store_Delete_def)
  next
    case None
    obtain tx tx' where up: "x_contents B b tx = bucket_of B b d" "x_delete B b k tx = (None, tx')"
        "bucket_of B b d' = x_contents B b tx'"
      by (rule update_commit [OF laws(1) u [unfolded bolt_Delete_def None]])
    note tx = up(1) [unfolded m(1)] up(3,2)
    have "bucket_of B b d' = Some (m(k := None))" using delete_law [OF laws(2) tx(1,3)] tx(2) by simp
    then have "bolt_rel B b d' (snd (store_Delete k (with_fault None s)))"
      using m by (simp add: bolt_rel_def store_Delete_def store_wf_def store_view_def)
    then show ?thesis using None by (intro exI [of _ None]) (simp add: u store_Delete_def)
  qed
qed

text \<open>The reading operations: the file stays, the answers are the specification's.\<close>

lemma bolt_snapshot:
  assumes "bolt_laws B" "bolt_rel B b d s" "b_view B d = Inr tx"
  obtains m where "x_contents B b tx = Some m" "al_wf (st_data s)"
    "\<And>k. map_option (json_Unmarshal B) (m k) = map_option Inr (map_of (st_data s) k)"
proof -
  have "x_contents B b tx = bucket_of B b d"
    using assms(1,3) unfolding bolt_laws_def txn_laws_def by blast
  with assms(2) that show thesis by (auto simp: bolt_rel_def store_wf_def store_view_def)
qed

lemma bolt_Get_same:
  assumes "bolt_laws B" "bolt_rel B b d s"
  shows "\<exists>f. same_ans (AVal (bolt_Get B b k d)) (AVal (fst (store_Get k (with_fault f s))))"
proof (cases "b_view B d")
  case (Inl e)
  then have "\<not> errors_Is e ErrNotFound" using assms(1) unfolding bolt_laws_def txn_laws_def by blast
  then show ?thesis
    by (intro exI [of _ "Some []"]) (simp add: bolt_Get_def Inl store_Get_def)
next
  case (Inr tx)
  then obtain m where m: "x_contents B b tx = Some m"
      "\<And>i. map_option (json_Unmarshal B) (m i) = map_option Inr (map_of (st_data s) i)"
    using bolt_snapshot [OF assms] by blast
  have "x_get B b k tx = m k" using get_law [OF _ m(1)] assms(1) by (simp add: bolt_laws_def)
  then show ?thesis
    using m(2) [of k]
    by (intro exI [of _ None], cases "m k"; cases "map_of (st_data s) k")
       (auto simp: bolt_Get_def Inr store_Get_def store_view_def)
qed

lemma bolt_List_same:
  assumes "bolt_laws B" "bolt_rel B b d s"
  shows "\<exists>f. same_ans (AVals (bolt_List B b d)) (AVals (fst (store_List (with_fault f s))))"
    and "\<exists>f. same_ans (ACount (bolt_Count B b d)) (ACount (fst (store_Count (with_fault f s))))"
proof -
  have "bucket_laws B" using assms(1) by (simp add: bolt_laws_def)
  show "\<exists>f. same_ans (AVals (bolt_List B b d)) (AVals (fst (store_List (with_fault f s))))"
  proof (cases "b_view B d")
    case (Inl e)
    then show ?thesis by (intro exI [of _ "Some []"]) (simp add: bolt_List_def store_List_def)
  next
    case (Inr tx)
    with bolt_snapshot [OF assms] bolt_decoded(1) [OF \<open>bucket_laws B\<close>]
    have "unmarshal_all (json_Unmarshal B) (x_foreach B b tx) [] = Inr (map snd (st_data s))" by metis
    then show ?thesis by (intro exI [of _ None]) (simp add: bolt_List_def Inr store_List_def)
  qed
  show "\<exists>f. same_ans (ACount (bolt_Count B b d)) (ACount (fst (store_Count (with_fault f s))))"
  proof (cases "b_view B d")
    case (Inl e)
    then show ?thesis by (intro exI [of _ "Some []"]) (simp add: bolt_Count_def store_Count_def)
  next
    case (Inr tx)
    with bolt_snapshot [OF assms] bolt_decoded(2) [OF \<open>bucket_laws B\<close>]
    have "length (x_foreach B b tx) = length (st_data s)" by metis
    then show ?thesis
      by (intro exI [of _ None]) (simp add: bolt_Count_def Inr foldl_count store_Count_def)
  qed
qed

lemma bolt_step_simulates:
  assumes "bolt_laws B" "bolt_rel B b d s"
  shows "\<exists>f. same_ans (fst (bolt_step B keyf b op d)) (fst (spec_step keyf op (with_fault f s)))
    \<and> bolt_rel B b (snd (bolt_step B keyf b op d)) (snd (spec_step keyf op (with_fault f s)))"
proof (cases op)
  case (OpPut v)
  then show ?thesis using bolt_Put_simulates [OF assms, of "keyf v" v] by simp
next
  case (OpGet k)
  have "bolt_rel B b d (snd (store_Get k (with_fault f s)))" for f
    using assms(2) by (simp add: store_Get_def split: option.split)
  then show ?thesis using OpGet bolt_Get_same [OF assms, of k] by simp
next
  case OpList
  have "bolt_rel B b d (snd (store_List (with_fault f s)))" for f
    using assms(2) by (simp add: store_List_def split: option.split)
  then show ?thesis using OpList bolt_List_same(1) [OF assms] by simp
next
  case OpCount
  have "bolt_rel B b d (snd (store_Count (with_fault f s)))" for f
    using assms(2) by (simp add: store_Count_def split: option.split)
  then show ?thesis using OpCount bolt_List_same(2) [OF assms] by simp
next
  case (OpDelete k)
  then show ?thesis using bolt_Delete_simulates [OF assms, of k] by simp
qed

text \<open>One step of the specification consumes one entry of the fault script.\<close>

lemma spec_step_script:
  "spec_step keyf op (s\<lparr>st_faults := f # fs\<rparr>)
     = (fst (spec_step keyf op (with_fault f s)), (snd (spec_step keyf op (with_fault f s)))\<lparr>st_faults := fs\<rparr>)"
  by (cases op)
     (simp_all add: store_op_defs next_fault_def with_fault_def tick_def store_view_def split: option.split)

lemma bolt_rel_faults [simp]: "bolt_rel B b d (s\<lparr>st_faults := fs\<rparr>) = bolt_rel B b d s"
  by (simp add: bolt_rel_def store_wf_def store_view_def)

lemma bolt_runs:
  assumes "bolt_laws B" "bolt_rel B b d s"
  shows "\<exists>fs. list_all2 same_ans (run_ops (bolt_step B keyf b) ops d)
    (run_ops (spec_step keyf) ops (s\<lparr>st_faults := fs\<rparr>))"
  using assms(2)
proof (induction ops arbitrary: d s)
  case (Cons op ops)
  obtain f where f: "same_ans (fst (bolt_step B keyf b op d)) (fst (spec_step keyf op (with_fault f s)))"
      "bolt_rel B b (snd (bolt_step B keyf b op d)) (snd (spec_step keyf op (with_fault f s)))"
    using bolt_step_simulates [OF assms(1) Cons.prems] by blast
  from Cons.IH [OF f(2)] obtain fs where
    "list_all2 same_ans (run_ops (bolt_step B keyf b) ops (snd (bolt_step B keyf b op d)))
       (run_ops (spec_step keyf) ops ((snd (spec_step keyf op (with_fault f s)))\<lparr>st_faults := fs\<rparr>))" ..
  with f(1) have "list_all2 same_ans (run_ops (bolt_step B keyf b) (op # ops) d)
      (run_ops (spec_step keyf) (op # ops) (s\<lparr>st_faults := f # fs\<rparr>))"
    by (simp add: spec_step_script case_prod_beta)
  then show ?case ..
qed simp

lemma CreateBucket_creates:
  assumes "bolt_laws B" "CreateBucket B bucket d = (None, d')" "bucket_of B bucket d = None"
  shows "bolt_rel B bucket d' new_store"
proof -
  have laws: "txn_laws B" "bucket_laws B" using assms(1) by (simp_all add: bolt_laws_def)
  obtain tx tx' where tx: "x_contents B bucket tx = bucket_of B bucket d"
      "wrap_create bucket (x_create B bucket tx) = (None, tx')"
      "bucket_of B bucket d' = x_contents B bucket tx'"
    by (rule update_commit [OF laws(1) assms(2) [unfolded CreateBucket_def]])
  from tx(2) have "x_create B bucket tx = (None, tx')"
    by (cases "x_create B bucket tx") (simp add: wrap_create_def)
  from create_law [OF laws(2) this] show ?thesis
    using tx(1,3) assms(3) by (simp add: bolt_rel_def)
qed

text \<open>A bbolt in memory, with values as their own encoding, satisfies the laws.\<close>

definition memory_bolt :: "(string \<Rightarrow> (uuid \<times> 'v) list option, string \<Rightarrow> (uuid \<times> 'v) list option, 'v, 'v) bolt" where
  "memory_bolt =
     \<lparr>b_update = (\<lambda>f d. case f d of (Some e, _) \<Rightarrow> (Some e, d) | (None, d') \<Rightarrow> (None, d')),
      b_view = Inr, b_close = Pair None,
      x_create = (\<lambda>b d. (None, d(b := Some (case d b of None \<Rightarrow> [] | Some kvs \<Rightarrow> kvs)))),
      x_put = (\<lambda>b k v d. (None, d(b := map_option (\<lambda>kvs. (k, v) # kvs) (d b)))),
      x_get = (\<lambda>b k d. case d b of None \<Rightarrow> None | Some kvs \<Rightarrow> map_of kvs k),
      x_foreach = (\<lambda>b d. case d b of None \<Rightarrow> [] | Some kvs \<Rightarrow> foldr (\<lambda>(k, v). al_put k v) kvs []),
      x_delete = (\<lambda>b k d. (None, d(b := map_option (al_del k) (d b)))),
      json_Marshal = Inr, json_Unmarshal = Inr, uuid_String = (\<lambda>k. itoa (uint k)),
      bucket_of = (\<lambda>b d. map_option map_of (d b)), x_contents = (\<lambda>b d. map_option map_of (d b))\<rparr>"

lemma foldr_al_put:
  "map_of (foldr (\<lambda>(k, v). al_put k v) kvs []) = map_of kvs \<and> al_wf (foldr (\<lambda>(k, v). al_put k v) kvs [])"
  by (induction kvs) (auto simp: al_wf_def [of "[]"])

lemma memory_bolt_laws: "bolt_laws memory_bolt"
proof -
  have "txn_laws memory_bolt"
    by (fastforce simp: txn_laws_def memory_bolt_def split: prod.splits option.splits)
  moreover have "bucket_laws memory_bolt"
    using foldr_al_put by (auto simp: bucket_laws_def memory_bolt_def split: option.splits)
  moreover have "json_laws memory_bolt" by (simp add: json_laws_def memory_bolt_def)
  ultimately show ?thesis by (simp add: bolt_laws_def)
qed

text \<open>
  C36: every program of store operations on a freshly created bucket of a bbolt file sees, up to the
  wording of errors, the answers of the specification store under some script of faults: an
  operation that fails changes nothing, every other one reads or writes the records, and
  \<open>ErrNotFound\<close> is returned for missing keys only.
\<close>

theorem BoltStore_refines:
  assumes "bolt_laws B" "Bucket B bucket d = (Inr h, d')" "bucket_of B bucket d = None"
  shows "\<exists>fs. list_all2 same_ans (run_ops (bolt_step B keyf bucket) ops d')
    (run_ops (spec_step keyf) ops (new_store\<lparr>st_faults := fs\<rparr>))"
proof -
  have "CreateBucket B bucket d = (None, d')"
    using assms(2) by (auto simp: Bucket_def split: prod.splits option.splits)
  from CreateBucket_creates [OF assms(1) this assms(3)] show ?thesis by (rule bolt_runs [OF assms(1)])
qed

theorem BoltStore_refines_witness:
  "\<exists>fs. list_all2 same_ans
     (run_ops (bolt_step memory_bolt fst ''tasks'') [OpPut (1, True), OpGet 1, OpList, OpDelete 1, OpGet 1]
        (Map.empty(''tasks'' := Some [])))
     (run_ops (spec_step fst) [OpPut (1, True), OpGet 1, OpList, OpDelete 1, OpGet 1]
        (new_store\<lparr>st_faults := fs\<rparr>))"
proof (rule BoltStore_refines [OF memory_bolt_laws])
  show "Bucket memory_bolt ''tasks'' Map.empty = (Inr (''tasks'', True), Map.empty(''tasks'' := Some []))"
    by (simp add: Bucket_def CreateBucket_def wrap_create_def memory_bolt_def)
  show "bucket_of memory_bolt ''tasks'' Map.empty = None" by (simp add: memory_bolt_def)
qed

end
