(* ===== verification/Ownership.thy ===== *)
theory Ownership
  imports Stores
begin

text \<open>
  Who runs a task and who watches it: \<open>manager/assignment.go\<close> (the persisted owner of each task,
  with the reads and rollbacks the dispatch and restart code use) and \<open>manager/checkers.go\<close> (the
  registry of health-check goroutines). A store that \<open>Close\<close> has set to nil is \<open>None\<close>.
\<close>

section \<open>Assignments\<close>

record assignment =
  asTaskID :: uuid
  asWorker :: string

definition assignment_Key :: "assignment \<Rightarrow> uuid" where
  "assignment_Key a = asTaskID a"

type_synonym 'v db = "'v store option"

definition db_view :: "'v db \<Rightarrow> uuid \<rightharpoonup> 'v" where
  "db_view d = (case d of None \<Rightarrow> Map.empty | Some s \<Rightarrow> store_view s)"

definition db_wf :: "'v db \<Rightarrow> bool" where
  "db_wf d = (case d of None \<Rightarrow> True | Some s \<Rightarrow> store_wf s)"

text \<open>
  The interface calls on a store field. The code checks the field for nil first; a call on a nil
  field would panic, here an error that wraps nothing.
\<close>

definition nil_store :: gerror where
  "nil_store = errorf ''nil store''"

definition db_Put :: "uuid \<Rightarrow> 'v \<Rightarrow> 'v db \<Rightarrow> gerror option \<times> 'v db" where
  "db_Put k v d = (case d of None \<Rightarrow> (Some nil_store, None) | Some s \<Rightarrow> apsnd Some (store_Put k v s))"

definition db_Get :: "uuid \<Rightarrow> 'v db \<Rightarrow> (gerror + 'v) \<times> 'v db" where
  "db_Get k d = (case d of None \<Rightarrow> (Inl nil_store, None) | Some s \<Rightarrow> apsnd Some (store_Get k s))"

definition db_List :: "'v db \<Rightarrow> (gerror + 'v list) \<times> 'v db" where
  "db_List d = (case d of None \<Rightarrow> (Inl nil_store, None) | Some s \<Rightarrow> apsnd Some (store_List s))"

definition db_Delete :: "uuid \<Rightarrow> 'v db \<Rightarrow> gerror option \<times> 'v db" where
  "db_Delete k d = (case d of None \<Rightarrow> (Some nil_store, None) | Some s \<Rightarrow> apsnd Some (store_Delete k s))"

lemma db_simps [simp]:
  "db_view None = Map.empty" "db_view (Some s) = store_view s"
  "db_wf None" "db_wf (Some s) = store_wf s"
  by (simp_all add: db_view_def db_wf_def)

lemmas db_op_defs = db_Put_def db_Get_def db_List_def db_Delete_def

lemma db_None [simp]:
  "snd (db_Put k v d) = None \<longleftrightarrow> d = None" "snd (db_Get k d) = None \<longleftrightarrow> d = None"
  "snd (db_List d) = None \<longleftrightarrow> d = None" "snd (db_Delete k d) = None \<longleftrightarrow> d = None"
  by (simp_all add: db_op_defs split: option.split)

lemma db_Put_view:
  "db_view (snd (db_Put k v d)) = (if fst (db_Put k v d) = None then (db_view d)(k \<mapsto> v) else db_view d)"
  by (cases d) (simp_all add: db_Put_def store_Put_view)

lemma db_Delete_view:
  "db_view (snd (db_Delete k d)) = (if fst (db_Delete k d) = None then (db_view d)(k := None) else db_view d)"
  by (cases d) (simp_all add: db_Delete_def store_Delete_view)

lemma db_read_view [simp]:
  "db_view (snd (db_Get k d)) = db_view d" "db_view (snd (db_List d)) = db_view d"
  by (simp_all add: db_Get_def db_List_def split: option.split)

lemma db_ops_wf [simp]:
  "db_wf d \<Longrightarrow> db_wf (snd (db_Put k v d))" "db_wf (snd (db_Get k d)) = db_wf d"
  "db_wf (snd (db_List d)) = db_wf d" "db_wf d \<Longrightarrow> db_wf (snd (db_Delete k d))"
  by (auto simp: db_op_defs split: option.split)

lemma db_Get_Inr: "fst (db_Get k d) = Inr v \<Longrightarrow> db_view d k = Some v"
  by (cases d) (auto simp: db_Get_def intro: store_Get_Inr)

lemma db_Get_NotFound: "fst (db_Get k d) = Inl e \<Longrightarrow> errors_Is e ErrNotFound \<Longrightarrow> db_view d k = None \<and> d \<noteq> None"
  by (cases d) (auto simp: db_Get_def nil_store_def store_Get_Inl)

lemma db_List_Inr: "db_wf d \<Longrightarrow> fst (db_List d) = Inr vs \<Longrightarrow> set vs = ran (db_view d)"
  by (cases d) (auto simp: db_List_def store_List_Inr)

lemma db_List_distinct:
  assumes "db_wf d" "fst (db_List d) = Inr vs" "\<And>i v. db_view d i = Some v \<Longrightarrow> key v = i"
  shows "distinct (map key vs)"
proof -
  obtain s where s: "d = Some s" "vs = map snd (st_data s)"
    using assms(2) by (cases d) (auto simp: db_List_def store_List_def split: option.splits)
  have d: "distinct (map fst (st_data s))" using assms(1) s(1) by (simp add: store_wf_def al_wf_def)
  have "map (key \<circ> snd) (st_data s) = map fst (st_data s)"
  proof (rule map_cong [OF refl])
    fix x assume "x \<in> set (st_data s)"
    with d have "map_of (st_data s) (fst x) = Some (snd x)" by (cases x) simp
    then have "db_view d (fst x) = Some (snd x)" by (simp add: s(1) store_view_def)
    with assms(3) show "(key \<circ> snd) x = fst x" by simp
  qed
  with d have "distinct (map key (map snd (st_data s)))" by (simp only: map_map)
  then show ?thesis by (simp add: s(2))
qed

text \<open>A store that is open and does not fail.\<close>

definition db_healthy :: "'v db \<Rightarrow> bool" where
  "db_healthy d = (case d of None \<Rightarrow> False | Some s \<Rightarrow> st_faults s = [])"

lemma db_healthy_ops [simp]:
  assumes "db_healthy d"
  shows "db_healthy (snd (db_Put k v d))" "db_healthy (snd (db_Get k d))" "db_healthy (snd (db_List d))"
    "db_healthy (snd (db_Delete k d))" "fst (db_Put k v d) = None" "fst (db_Delete k d) = None" "d \<noteq> None"
  using assms
  by (auto simp: db_healthy_def db_op_defs store_op_defs next_fault_def tick_def split: option.splits)

lemma db_healthy_Get: "db_healthy d \<Longrightarrow> fst (db_Get k d) = (case db_view d k of None \<Rightarrow> Inl not_found | Some v \<Rightarrow> Inr v)"
  by (auto simp: db_healthy_def db_Get_def store_Get_def next_fault_def split: option.splits)

lemma db_healthy_List: "db_healthy d \<Longrightarrow> \<exists>vs. fst (db_List d) = Inr vs"
  by (auto simp: db_healthy_def db_List_def store_List_def next_fault_def split: option.splits)

interpretation db: kv_store db_view db_wf db_Put db_Get db_List db_Delete
proof unfold_locales
  fix d :: "'b db" and d' k v e
  show "db_Put k v d = (None, d') \<Longrightarrow> db_view d' = (db_view d)(k \<mapsto> v)"
    using db_Put_view [of k v d] by simp
  show "db_Put k v d = (Some e, d') \<Longrightarrow> db_view d' = db_view d"
    using db_Put_view [of k v d] by simp
  show "db_Delete k d = (None, d') \<Longrightarrow> db_view d' = (db_view d)(k := None)"
    using db_Delete_view [of k d] by simp
  show "db_Delete k d = (Some e, d') \<Longrightarrow> db_view d' = db_view d"
    using db_Delete_view [of k d] by simp
  show "fst (db_Get k d) = Inl e \<Longrightarrow> errors_Is e ErrNotFound \<Longrightarrow> db_view d k = None"
    using db_Get_NotFound by blast
qed (auto intro: db_Get_Inr dest: db_List_Inr)

definition db_nil :: gerror where
  "db_nil = errorf ''assignments db is nil''"

definition readAssignment :: "uuid \<Rightarrow> assignment db \<Rightarrow> string \<times> assignment db" where
  "readAssignment i assignments =
     (if assignments = None then ([], assignments)
      else case db_Get i assignments of
        (Inl err, d) \<Rightarrow> ([], d)
      | (Inr a, d) \<Rightarrow> (asWorker a, d))"

definition setAssignment :: "uuid \<Rightarrow> string \<Rightarrow> assignment db \<Rightarrow> gerror option \<times> assignment db" where
  "setAssignment i w assignments =
     (if assignments = None then (Some db_nil, assignments)
      else db_Put i \<lparr>asTaskID = i, asWorker = w\<rparr> assignments)"

definition readAssignmentState ::
  "uuid \<Rightarrow> assignment db \<Rightarrow> (gerror + assignment option) \<times> assignment db" where
  "readAssignmentState i assignments =
     (if assignments = None then (Inl db_nil, assignments)
      else case db_Get i assignments of
        (Inl err, d) \<Rightarrow> (if errors_Is err ErrNotFound then (Inr None, d) else (Inl err, d))
      | (Inr a, d) \<Rightarrow> (Inr (Some a), d))"

definition restoreAssignment ::
  "uuid \<Rightarrow> assignment option \<Rightarrow> assignment db \<Rightarrow> gerror option \<times> assignment db" where
  "restoreAssignment i old assignments =
     (if assignments = None then (Some db_nil, assignments)
      else case old of
        None \<Rightarrow> db_Delete i assignments
      | Some a \<Rightarrow> db_Put i a assignments)"

fun sweep_loop :: "assignment list \<Rightarrow> uuid list \<Rightarrow> assignment store \<Rightarrow> assignment store" where
  "sweep_loop [] known s = s"
| "sweep_loop (a # as) known s =
     (if asTaskID a \<in> set known then sweep_loop as known s
      else sweep_loop as known (snd (store_Delete (asTaskID a) s)))"

definition sweepOrphanedAssignments :: "uuid list \<Rightarrow> assignment db \<Rightarrow> assignment db" where
  "sweepOrphanedAssignments knownTasks assignments =
     (case assignments of
        None \<Rightarrow> None
      | Some s \<Rightarrow>
          (case store_List s of
             (Inl err, s') \<Rightarrow> Some s'
           | (Inr as, s') \<Rightarrow> Some (sweep_loop as knownTasks s')))"

lemma readAssignment_alt:
  "readAssignment i d = (case fst (db_Get i d) of Inl e \<Rightarrow> [] | Inr a \<Rightarrow> asWorker a, snd (db_Get i d))"
  by (cases "db_Get i d") (auto simp: readAssignment_def db_Get_def split: sum.splits)

lemma readAssignment_db [simp]:
  "db_view (snd (readAssignment i d)) = db_view d"
  "db_wf (snd (readAssignment i d)) = db_wf d"
  "snd (readAssignment i d) = None \<longleftrightarrow> d = None"
  by (simp_all add: readAssignment_alt)

lemma readAssignment_owner:
  "fst (readAssignment i d) \<noteq> [] \<Longrightarrow> \<exists>a. db_view d i = Some a \<and> asWorker a = fst (readAssignment i d)"
  using db_Get_Inr [of i d] by (auto simp: readAssignment_alt split: sum.splits)

lemma readAssignmentState_snd: "snd (readAssignmentState i d) = snd (db_Get i d)"
  by (cases "db_Get i d") (auto simp: readAssignmentState_def db_Get_def split: sum.splits)

lemma readAssignmentState_db [simp]:
  "db_view (snd (readAssignmentState i d)) = db_view d"
  "db_wf (snd (readAssignmentState i d)) = db_wf d"
  "snd (readAssignmentState i d) = None \<longleftrightarrow> d = None"
  by (simp_all add: readAssignmentState_snd)

lemma readAssignmentState_Inr:
  assumes "fst (readAssignmentState i d) = Inr old"
  shows "old = db_view d i \<and> d \<noteq> None"
proof (cases "db_Get i d")
  case (Pair r d')
  with assms db_Get_Inr [of i d] db_Get_NotFound [of i d] show ?thesis
    by (auto simp: readAssignmentState_def split: sum.splits if_splits)
qed

lemma setAssignment_db:
  "db_view (snd (setAssignment i w d)) =
     (if fst (setAssignment i w d) = None then (db_view d)(i \<mapsto> \<lparr>asTaskID = i, asWorker = w\<rparr>) else db_view d)"
  by (simp add: setAssignment_def db_Put_view)

lemma restoreAssignment_db:
  "fst (restoreAssignment i old d) = None \<Longrightarrow> db_view (snd (restoreAssignment i old d)) = (db_view d)(i := old)"
  by (cases old) (auto simp: restoreAssignment_def db_Put_view db_Delete_view split: if_splits)

lemma assignment_ops_wf [simp]:
  "db_wf d \<Longrightarrow> db_wf (snd (setAssignment i w d))"
  "db_wf d \<Longrightarrow> db_wf (snd (restoreAssignment i old d))"
  by (auto simp: setAssignment_def restoreAssignment_def split: option.split)

lemma assignment_ops_None [simp]:
  "snd (setAssignment i w d) = None \<longleftrightarrow> d = None"
  "snd (restoreAssignment i old d) = None \<longleftrightarrow> d = None"
  by (auto simp: setAssignment_def restoreAssignment_def split: option.split)

text \<open>A failed commit is undone by \<open>restoreAssignment\<close> with what \<open>readAssignmentState\<close> returned.\<close>

lemma assignment_rollback:
  assumes "fst (readAssignmentState i d) = Inr old" "db_view d' = db_view (snd (setAssignment i w d))"
    and "fst (restoreAssignment i old d') = None"
  shows "db_view (snd (restoreAssignment i old d')) = db_view d"
  using readAssignmentState_Inr [OF assms(1)] restoreAssignment_db [OF assms(3)] assms(2)
  by (auto simp: setAssignment_db)

subsection \<open>The orphan sweep\<close>

lemma sweep_loop_view:
  "i \<in> set known \<Longrightarrow> store_view (sweep_loop as known s) i = store_view s i"
  by (induction as known s rule: sweep_loop.induct) (auto simp: store_Delete_view)

lemma sweep_loop_wf [simp]: "store_wf s \<Longrightarrow> store_wf (sweep_loop as known s)"
  by (induction as known s rule: sweep_loop.induct) auto

lemma store_Delete_le: "store_view (snd (store_Delete k s)) \<subseteq>\<^sub>m store_view s"
  by (auto simp: store_Delete_view map_le_def)

lemma sweep_loop_le: "store_view (sweep_loop as known s) \<subseteq>\<^sub>m store_view s"
  by (induction as known s rule: sweep_loop.induct) (auto intro: store_Delete_le map_le_trans)

lemma no_faults_Delete:
  "st_faults s = [] \<Longrightarrow> fst (store_Delete k s) = None \<and> st_faults (snd (store_Delete k s)) = []"
  by (simp add: store_Delete_def next_fault_def tick_def)

lemma sweep_loop_removes:
  assumes "st_faults s = []" "asTaskID a \<notin> set known" "a \<in> set as"
  shows "store_view (sweep_loop as known s) (asTaskID a) = None"
  using assms
proof (induction as known s rule: sweep_loop.induct)
  case (2 b as known s)
  show ?case
  proof (cases "b = a")
    case True
    have "store_view (snd (store_Delete (asTaskID a) s)) (asTaskID a) = None"
      using no_faults_Delete [OF 2(3)] by (simp add: store_Delete_view)
    with sweep_loop_le [of as known "snd (store_Delete (asTaskID a) s)"] True 2(4) show ?thesis
      by (auto simp: map_le_def dom_def)
  qed (use 2 no_faults_Delete in auto)
qed simp

text \<open>
  The start-up sweep never touches the assignment of a known task, never adds one, and, when
  the store does not fail, leaves no assignment of an unknown task.
\<close>

theorem sweep_correct:
  assumes "store_wf s" "\<forall>i a. store_view s i = Some a \<longrightarrow> asTaskID a = i"
  shows "(\<forall>i\<in>set known. db_view (sweepOrphanedAssignments known (Some s)) i = store_view s i)
    \<and> db_view (sweepOrphanedAssignments known (Some s)) \<subseteq>\<^sub>m store_view s
    \<and> (st_faults s = [] \<longrightarrow> dom (db_view (sweepOrphanedAssignments known (Some s))) \<subseteq> set known)"
proof (intro conjI impI)
  obtain r s' where l: "store_List s = (r, s')" by (cases "store_List s")
  then have s': "store_view s' = store_view s" "store_wf s' = store_wf s"
    using store_List_view [of s] store_ops_wf(3) [of s] by simp_all
  show "\<forall>i\<in>set known. db_view (sweepOrphanedAssignments known (Some s)) i = store_view s i"
    by (cases r) (auto simp: sweepOrphanedAssignments_def l s' sweep_loop_view)
  show le: "db_view (sweepOrphanedAssignments known (Some s)) \<subseteq>\<^sub>m store_view s"
    using sweep_loop_le [of _ known s'] by (cases r) (auto simp: sweepOrphanedAssignments_def l s')
  assume "st_faults s = []"
  then obtain as where as: "r = Inr as" "st_faults s' = []" "set as = ran (store_view s)"
    using l store_List_Inr [OF assms(1)]
    by (auto simp: store_List_def next_fault_def tick_def)
  show "dom (db_view (sweepOrphanedAssignments known (Some s))) \<subseteq> set known"
  proof (intro subsetI, rule ccontr)
    fix i assume i: "i \<in> dom (db_view (sweepOrphanedAssignments known (Some s)))" "i \<notin> set known"
    with le obtain a where a: "store_view s i = Some a" by (force simp: map_le_def)
    then have "a \<in> set as" "asTaskID a = i" using assms(2) by (auto simp: as(3) ran_def)
    with sweep_loop_removes [OF as(2)] i show False
      by (auto simp: sweepOrphanedAssignments_def l as(1))
  qed
qed

theorem sweep_correct_witness:
  "db_view (sweepOrphanedAssignments [1]
     (Some \<lparr>st_data = [(1, \<lparr>asTaskID = 1, asWorker = ''a''\<rparr>), (2, \<lparr>asTaskID = 2, asWorker = ''b''\<rparr>)], st_faults = []\<rparr>)) 2 = None"
proof -
  let ?s = "\<lparr>st_data = [(1, \<lparr>asTaskID = 1, asWorker = ''a''\<rparr>), (2, \<lparr>asTaskID = 2, asWorker = ''b''\<rparr>)], st_faults = []\<rparr>"
  have "dom (db_view (sweepOrphanedAssignments [1] (Some ?s))) \<subseteq> {1}"
    using sweep_correct [of ?s "[1]"]
    by (simp add: store_wf_def al_wf_def store_view_def split: if_splits)
  then show ?thesis by auto
qed

section \<open>Checkers\<close>

text \<open>
  A handle's identity is its pointer, a number here; cancelling a context is recorded in
  \<open>cs_cancelled\<close>, and cancelling it again changes nothing.
\<close>

type_synonym handle = nat

record checker_set =
  cs_byTask :: "(uuid \<times> handle) list"
  cs_cancelled :: "handle list"

definition newCheckerSet :: checker_set where
  "newCheckerSet = \<lparr>cs_byTask = [], cs_cancelled = []\<rparr>"

definition cancel :: "handle \<Rightarrow> checker_set \<Rightarrow> checker_set" where
  "cancel h cs = cs\<lparr>cs_cancelled := List.insert h (cs_cancelled cs)\<rparr>"

definition cs_start :: "uuid \<Rightarrow> handle \<Rightarrow> checker_set \<Rightarrow> bool \<times> checker_set" where
  "cs_start i h cs =
     (case map_of (cs_byTask cs) i of
        Some _ \<Rightarrow> (False, cs)
      | None \<Rightarrow> (True, cs\<lparr>cs_byTask := AList.update i h (cs_byTask cs)\<rparr>))"

definition cs_stop :: "uuid \<Rightarrow> checker_set \<Rightarrow> checker_set" where
  "cs_stop i cs =
     (case map_of (cs_byTask cs) i of
        Some h \<Rightarrow> (cancel h cs)\<lparr>cs_byTask := AList.delete i (cs_byTask cs)\<rparr>
      | None \<Rightarrow> cs)"

definition cs_has :: "uuid \<Rightarrow> checker_set \<Rightarrow> bool" where
  "cs_has i cs \<longleftrightarrow> map_of (cs_byTask cs) i \<noteq> None"

text \<open>The list is visited in the order \<open>range\<close> happens to take.\<close>

fun stop_loop :: "(uuid \<times> handle) list \<Rightarrow> uuid list \<Rightarrow> checker_set \<Rightarrow> uuid list \<times> checker_set" where
  "stop_loop [] keep cs = ([], cs)"
| "stop_loop ((i, h) # es) keep cs =
     (if i \<in> set keep then stop_loop es keep cs
      else apfst ((#) i)
        (stop_loop es keep ((cancel h cs)\<lparr>cs_byTask := AList.delete i (cs_byTask cs)\<rparr>)))"

definition stopAllExcept :: "uuid list \<Rightarrow> checker_set \<Rightarrow> uuid list \<times> checker_set" where
  "stopAllExcept keep cs = stop_loop (cs_byTask cs) keep cs"

definition cs_finished :: "uuid \<Rightarrow> handle \<Rightarrow> checker_set \<Rightarrow> checker_set" where
  "cs_finished i h cs =
     (let cs = cancel h cs in
      if map_of (cs_byTask cs) i = Some h then cs\<lparr>cs_byTask := AList.delete i (cs_byTask cs)\<rparr> else cs)"

definition cs_view :: "checker_set \<Rightarrow> uuid \<rightharpoonup> handle" where
  "cs_view cs = map_of (cs_byTask cs)"

lemma cs_view_update [simp]:
  "cs_view (cs\<lparr>cs_byTask := AList.delete i es\<rparr>) = (map_of es)(i := None)"
  "cs_view (cs\<lparr>cs_byTask := AList.update i h es\<rparr>) = (map_of es)(i \<mapsto> h)"
  by (simp_all add: cs_view_def delete_conv' update_conv')

lemma cancel_simps [simp]:
  "cs_byTask (cancel h cs) = cs_byTask cs" "cs_view (cancel h cs) = cs_view cs"
  "set (cs_cancelled (cancel h cs)) = insert h (set (cs_cancelled cs))"
  by (simp_all add: cancel_def cs_view_def)

lemma stop_loop_effect:
  "cs_view (snd (stop_loop es keep cs)) i
     = (if i \<in> fst ` set es \<and> i \<notin> set keep then None else cs_view cs i)"
  "set (cs_cancelled (snd (stop_loop es keep cs)))
     = set (cs_cancelled cs) \<union> snd ` {e \<in> set es. fst e \<notin> set keep}"
  by (induction es keep cs rule: stop_loop.induct) (auto simp: cs_view_def delete_conv' image_iff)

text \<open>
  The runs of the registry: a checker is started under a handle that was never used before; stops,
  sweeps and the exits of checker goroutines (each with its own task and handle) come in any order.
\<close>

inductive cs_reach :: "checker_set \<Rightarrow> bool" where
  init: "cs_reach newCheckerSet"
| start: "cs_reach cs \<Longrightarrow> h \<notin> ran (cs_view cs) \<Longrightarrow> h \<notin> set (cs_cancelled cs) \<Longrightarrow>
    cs_reach (snd (cs_start i h cs))"
| stop: "cs_reach cs \<Longrightarrow> cs_reach (cs_stop i cs)"
| sweep: "cs_reach cs \<Longrightarrow> cs_reach (snd (stopAllExcept keep cs))"
| finish: "cs_reach cs \<Longrightarrow> \<forall>j. cs_view cs j = Some h \<longrightarrow> j = i \<Longrightarrow> cs_reach (cs_finished i h cs)"

definition cs_inv :: "checker_set \<Rightarrow> bool" where
  "cs_inv cs \<longleftrightarrow> distinct (map fst (cs_byTask cs)) \<and> 
     (\<forall>i j h. cs_view cs i = Some h \<longrightarrow> cs_view cs j = Some h \<longrightarrow> i = j) \<and>
     (\<forall>i h. cs_view cs i = Some h \<longrightarrow> h \<notin> set (cs_cancelled cs))"

lemma cs_view_simps:
  "cs_view (snd (cs_start i h cs)) = (if cs_view cs i = None then (cs_view cs)(i \<mapsto> h) else cs_view cs)"
  "cs_view (cs_stop i cs) = (cs_view cs)(i := None)"
  "cs_view (cs_finished i h cs) = (if cs_view cs i = Some h then (cs_view cs)(i := None) else cs_view cs)"
  by (auto simp: cs_start_def cs_stop_def cs_finished_def cs_view_def delete_conv' update_conv' cancel_def
      Let_def split: option.split)

lemma cs_cancelled_simps:
  "cs_cancelled (snd (cs_start i h cs)) = cs_cancelled cs"
  "set (cs_cancelled (cs_stop i cs)) = set_option (cs_view cs i) \<union> set (cs_cancelled cs)"
  "set (cs_cancelled (cs_finished i h cs)) = insert h (set (cs_cancelled cs))"
  by (auto simp: cs_start_def cs_stop_def cs_finished_def cs_view_def Let_def cancel_def split: option.split)

lemma cs_keys_distinct:
  assumes "distinct (map fst (cs_byTask cs))"
  shows "distinct (map fst (cs_byTask (snd (cs_start i h cs))))"
    and "distinct (map fst (cs_byTask (cs_stop i cs)))"
    and "distinct (map fst (cs_byTask (cs_finished i h cs)))"
    and "distinct (map fst (cs_byTask (snd (stop_loop es keep cs))))"
proof -
  show "distinct (map fst (cs_byTask (snd (stop_loop es keep cs))))"
    using assms by (induction es keep cs rule: stop_loop.induct) (auto simp: distinct_delete)
qed (use assms in \<open>auto simp: cs_start_def cs_stop_def cs_finished_def Let_def distinct_update
      distinct_delete split: option.split\<close>)

lemma stopAllExcept_view:
  "cs_view (snd (stopAllExcept keep cs)) i = (if i \<in> set keep then cs_view cs i else None)"
  unfolding stopAllExcept_def stop_loop_effect by (auto simp: cs_view_def map_of_eq_None_iff)

lemma stopAllExcept_cancelled:
  "distinct (map fst (cs_byTask cs)) \<Longrightarrow>
     set (cs_cancelled (snd (stopAllExcept keep cs)))
       = set (cs_cancelled cs) \<union> {h. \<exists>i. cs_view cs i = Some h \<and> i \<notin> set keep}"
  unfolding stopAllExcept_def stop_loop_effect by (force simp: cs_view_def)

lemma cs_reach_inv: "cs_reach cs \<Longrightarrow> cs_inv cs"
proof (induction rule: cs_reach.induct)
  case init
  show ?case by (simp add: cs_inv_def newCheckerSet_def cs_view_def)
next
  case (start cs h i)
  then show ?case
    unfolding cs_inv_def cs_view_simps cs_cancelled_simps by (auto simp: cs_keys_distinct ran_def)
next
  case (stop cs i)
  then show ?case
    unfolding cs_inv_def cs_view_simps cs_cancelled_simps
    by (auto simp: cs_keys_distinct split: if_splits)
next
  case (sweep cs keep)
  then have "distinct (map fst (cs_byTask cs))" by (simp add: cs_inv_def)
  note cc = stopAllExcept_cancelled [OF this]
  have "distinct (map fst (cs_byTask (snd (stopAllExcept keep cs))))"
    using sweep by (simp add: cs_inv_def stopAllExcept_def cs_keys_distinct)
  then show ?case
    using sweep.IH unfolding cs_inv_def stopAllExcept_view cc by (auto split: if_splits)
next
  case (finish cs h i)
  have d: "distinct (map fst (cs_byTask (cs_finished i h cs)))"
    using finish.IH by (simp add: cs_inv_def cs_keys_distinct)
  show ?case
  proof (cases "cs_view cs i = Some h")
    case True
    with finish.IH d show ?thesis
      unfolding cs_inv_def cs_view_simps cs_cancelled_simps by auto
  next
    case False
    with finish.hyps(2) have "\<forall>j. cs_view cs j \<noteq> Some h" by blast
    with finish.IH d show ?thesis
      unfolding cs_inv_def cs_view_simps cs_cancelled_simps by auto
  qed
qed

text \<open>
  In every run of the registry each task has at most one live checker and each handle serves at
  most one task, a registered checker has not been cancelled, the exit of a checker never removes
  the registration of a newer one, and after a sweep exactly the kept registrations remain while
  every other checker has been cancelled.
\<close>

theorem checkers_safe:
  assumes "cs_reach cs"
  shows "(\<forall>i j h. cs_view cs i = Some h \<longrightarrow> cs_view cs j = Some h \<longrightarrow> i = j)
    \<and> (\<forall>i h. cs_view cs i = Some h \<longrightarrow> h \<notin> set (cs_cancelled cs))
    \<and> (\<forall>i h h'. cs_view cs i = Some h' \<longrightarrow> h' \<noteq> h \<longrightarrow> cs_view (cs_finished i h cs) = cs_view cs)
    \<and> (\<forall>keep i. cs_view (snd (stopAllExcept keep cs)) i = (if i \<in> set keep then cs_view cs i else None))
    \<and> (\<forall>keep i h. cs_view cs i = Some h \<longrightarrow> i \<notin> set keep \<longrightarrow>
         h \<in> set (cs_cancelled (snd (stopAllExcept keep cs))))"
proof -
  have inv: "cs_inv cs" by (rule cs_reach_inv [OF assms])
  then have d: "distinct (map fst (cs_byTask cs))" by (simp add: cs_inv_def)
  show ?thesis
    using inv unfolding cs_inv_def cs_view_simps stopAllExcept_view stopAllExcept_cancelled [OF d] by auto
qed

theorem checkers_safe_witness:
  "cs_view (cs_finished 5 1 (snd (cs_start 5 2 (cs_finished 5 1 (snd (cs_start 5 1 newCheckerSet)))))) 5 = Some 2"
proof -
  have 0: "cs_reach (snd (cs_start 5 1 newCheckerSet))"
    by (rule cs_reach.start [OF cs_reach.init]) (simp_all add: newCheckerSet_def cs_view_def)
  have v: "cs_view newCheckerSet = Map.empty" by (simp add: newCheckerSet_def cs_view_def)
  have 1: "cs_reach (cs_finished 5 1 (snd (cs_start 5 1 newCheckerSet)))"
    by (rule cs_reach.finish [OF 0]) (simp add: cs_view_simps v)
  have 2: "cs_reach (snd (cs_start 5 2 (cs_finished 5 1 (snd (cs_start 5 1 newCheckerSet)))))"
    by (rule cs_reach.start [OF 1]) (simp_all add: cs_view_simps cs_cancelled_simps v, simp add: newCheckerSet_def)
  have "cs_view (snd (cs_start 5 2 (cs_finished 5 1 (snd (cs_start 5 1 newCheckerSet))))) 5 = Some 2"
    by (simp add: cs_view_simps v)
  with checkers_safe [OF 2] show ?thesis by auto
qed

end
