(* ===== verification/Validation.thy ===== *)
theory Validation
  imports Tasks
begin

text \<open>
  Task validation, \<open>task/validate.go\<close>, and the port configuration that relies on it
  (\<open>Config.dockerPorts\<close> of \<open>task/task.go\<close>). A validator returns \<open>None\<close> for nil and
  \<open>Some e\<close> for its error. The properties characterise the accepted inputs.
\<close>

section \<open>Validators\<close>

text \<open>The first error of a sequence of checks with early return.\<close>

fun first_error :: "gerror option list \<Rightarrow> gerror option" where
  "first_error [] = None"
| "first_error (None # es) = first_error es"
| "first_error (Some e # es) = Some e"

definition ValidateRestartPolicy :: "string \<Rightarrow> gerror option" where
  "ValidateRestartPolicy p =
     (if p \<in> set [[], RestartPolicyNone, RestartPolicyAlways, RestartPolicyOnFailure,
                   RestartPolicyUnlessStopped]
      then None
      else Some (errorf (''invalid restart policy '' @ go_quote p @ '': want ''
             @ go_quote RestartPolicyNone @ '', '' @ go_quote RestartPolicyAlways @ '', ''
             @ go_quote RestartPolicyOnFailure @ '', '' @ go_quote RestartPolicyUnlessStopped
             @ '' or empty'')))"

fun ValidateEnv :: "string list \<Rightarrow> gerror option" where
  "ValidateEnv [] = None"
| "ValidateEnv (e # es) =
     (case str_cut CHR ''='' e of
        (key, _, found) \<Rightarrow>
          (if \<not> found then Some (errorf (''invalid env entry '' @ go_quote e @ '': want KEY=VALUE''))
           else if key = [] then Some (errorf (''invalid env entry '' @ go_quote e @ '': empty key''))
           else ValidateEnv es))"

definition validateIDPair :: "string \<Rightarrow> string \<Rightarrow> gerror option" where
  "validateIDPair what spec =
     (if spec = [] then None
      else (let parts = str_split CHR '':'' spec in
        if length parts > 2
        then Some (errorf (''invalid '' @ what @ '' '' @ go_quote spec @ '': want ''
               @ go_quote ''uid'' @ '', '' @ go_quote ''uid:gid'' @ '', '' @ go_quote ''user''
               @ '' or '' @ go_quote ''user:group''))
        else if list_ex (\<lambda>p. p = [] \<or> contains_any p whitespace) parts
        then Some (errorf (''invalid '' @ what @ '' '' @ go_quote spec
               @ '': parts must be non-empty and contain no whitespace''))
        else None))"

text \<open>
  \<open>strings.ToUpper\<close>, exact in its ASCII results: besides the lower-case letters only the runes
  U+0131 and U+017F have an ASCII upper case; every other non-ASCII byte is left as it is, and no
  such rune is ever accepted below.
\<close>

definition ascii_upper :: "char \<Rightarrow> char" where
  "ascii_upper c =
     (if (97::nat) \<le> of_char c \<and> of_char c \<le> (122::nat) then char_of (of_char c - (32::nat)) else c)"

fun to_upper :: "string \<Rightarrow> string" where
  "to_upper [] = []"
| "to_upper [c] = [ascii_upper c]"
| "to_upper (c # d # cs) =
     (if c = CHR 0xC4 \<and> d = CHR 0xB1 then CHR ''I'' # to_upper cs
      else if c = CHR 0xC5 \<and> d = CHR 0xBF then CHR ''S'' # to_upper cs
      else ascii_upper c # to_upper (d # cs))"

definition cap_char :: "char \<Rightarrow> bool" where
  "cap_char r \<longleftrightarrow>
     \<not> ((r < CHR ''A'' \<or> r > CHR ''Z'') \<and> (r < CHR ''0'' \<or> r > CHR ''9'') \<and> r \<noteq> CHR ''_'')"

definition validateCapability :: "string \<Rightarrow> gerror option" where
  "validateCapability entry =
     (let name = trim_prefix ''CAP_'' (to_upper entry) in
      if name = [] then Some (errorf ''empty capability name'')
      else if list_ex (\<lambda>r. \<not> cap_char r) name
      then Some (errorf ''want ALL or a capability like NET_ADMIN (with or without the CAP_ prefix)'')
      else None)"

definition validateTmpfs :: "string \<Rightarrow> gerror option" where
  "validateTmpfs t =
     (case str_cut CHR '':'' t of
        (path, _, _) \<Rightarrow>
          (if \<not> has_prefix ''/'' path \<or> contains_any path whitespace
           then Some (errorf (''invalid tmpfs entry '' @ go_quote t
                  @ '': want an absolute mount path, optionally followed by '' @ go_quote '':options''))
           else None))"

definition validateUlimit :: "ulimit \<Rightarrow> gerror option" where
  "validateUlimit u =
     (if ulName u = [] then Some (errorf ''ulimit entry has an empty name'')
      else if ulSoft u < -1 \<or> ulHard u < -1
      then Some (errorf (''ulimit entry '' @ go_quote (ulName u)
             @ '': soft/hard must be -1 (unlimited) or non-negative, got soft='' @ itoa (ulSoft u)
             @ '' hard='' @ itoa (ulHard u)))
      else if ulSoft u > ulHard u
      then Some (errorf (''ulimit entry '' @ go_quote (ulName u) @ '': soft limit '' @ itoa (ulSoft u)
             @ '' exceeds hard limit '' @ itoa (ulHard u)))
      else None)"

definition ipc_modes :: "string list" where
  "ipc_modes = [[], ''private'', ''shareable'', ''none'', ''host'']"

text \<open>The single checks of \<open>ValidateSecurity\<close>, in its order.\<close>

definition check_pids :: "security \<Rightarrow> gerror option" where
  "check_pids s =
     (if secPidsLimit s < 0
      then Some (errorf (''pids_limit must not be negative, got '' @ itoa (secPidsLimit s)))
      else None)"

definition check_ipc :: "security \<Rightarrow> gerror option" where
  "check_ipc s =
     (if secIpcMode s \<in> set ipc_modes then None
      else Some (errorf (''invalid ipc mode '' @ go_quote (secIpcMode s) @ '': want ''
             @ go_quote [] @ '', '' @ go_quote ''private'' @ '', '' @ go_quote ''shareable''
             @ '', '' @ go_quote ''none'' @ '' or '' @ go_quote ''host'')))"

definition check_userns :: "security \<Rightarrow> gerror option" where
  "check_userns s =
     (if secUsernsMode s = [] \<or> secUsernsMode s = ''host'' then None
      else if contains_any (secUsernsMode s) (CHR '':'' # whitespace)
      then Some (errorf (''invalid userns_mode '' @ go_quote (secUsernsMode s) @ '': want ''
             @ go_quote ''host'' @ '' or a daemon user namespace name''))
      else None)"

definition check_privileged :: "security \<Rightarrow> gerror option" where
  "check_privileged s =
     (if secPrivileged s \<and> secCapDrop s \<noteq> []
      then Some (errorf ''privileged is mutually exclusive with cap_drop: a privileged container already holds every capability'')
      else None)"

definition check_caps :: "string \<Rightarrow> string \<Rightarrow> gerror option" where
  "check_caps what c =
     map_option (wrapf (''invalid '' @ what @ '' entry '' @ go_quote c @ '': '')) (validateCapability c)"

definition ValidateSecurity :: "security option \<Rightarrow> gerror option" where
  "ValidateSecurity sec =
     (case sec of
        None \<Rightarrow> None
      | Some s \<Rightarrow>
          first_error
            ([validateIDPair ''user'' (secUser s)]
             @ map (validateIDPair ''group_add entry'') (secGroupAdd s)
             @ map (check_caps ''cap_add'') (secCapAdd s)
             @ map (check_caps ''cap_drop'') (secCapDrop s)
             @ map validateTmpfs (secTmpfs s)
             @ [check_pids s]
             @ map validateUlimit (secUlimits s)
             @ [check_ipc s, check_userns s, check_privileged s]))"

definition eff_proto :: "port_mapping \<Rightarrow> string" where
  "eff_proto pm = (if Protocol pm \<noteq> [] then Protocol pm else proto_TCP)"

text \<open>The loop of \<open>ValidatePortMappings\<close>, with the keys of its two maps seen so far.\<close>

fun validate_ports_loop ::
  "ext \<Rightarrow> dport list \<Rightarrow> string list \<Rightarrow> port_mapping list \<Rightarrow> gerror option" where
  "validate_ports_loop x containerPorts hostPorts [] = None"
| "validate_ports_loop x containerPorts hostPorts (pm # pms) =
     (if ContainerPort pm < 1 \<or> ContainerPort pm > 65535
      then Some (errorf (''invalid container port '' @ itoa (ContainerPort pm) @ '' in port mapping''))
      else if HostPort pm < 0 \<or> HostPort pm > 65535
      then Some (errorf (''invalid host port '' @ itoa (HostPort pm) @ '' in port mapping''))
      else (let proto = eff_proto pm in
        if proto = proto_SCTP then Some (errorf ''sctp port mappings are not supported'')
        else if proto \<noteq> proto_TCP \<and> proto \<noteq> proto_UDP
        then Some (errorf (''invalid protocol '' @ Protocol pm @ '' in port mapping (want tcp or udp)''))
        else (case network_PortFrom x (clampToUint16 (ContainerPort pm)) proto of
          (port, ok) \<Rightarrow>
            (if \<not> ok
             then Some (errorf (''invalid port mapping '' @ itoa (ContainerPort pm) @ ''/'' @ proto))
             else if port \<in> set containerPorts
             then Some (errorf (''duplicate container port mapping '' @ itoa (ContainerPort pm) @ ''/'' @ proto))
             else if HostPort pm \<noteq> 0
             then (let key = proto @ '':'' @ itoa (HostPort pm) in
               if key \<in> set hostPorts
               then Some (errorf (''duplicate host port mapping '' @ itoa (HostPort pm) @ ''/'' @ proto))
               else validate_ports_loop x (port # containerPorts) (key # hostPorts) pms)
             else validate_ports_loop x (port # containerPorts) hostPorts pms))))"

definition ValidatePortMappings :: "ext \<Rightarrow> port_mapping list \<Rightarrow> gerror option" where
  "ValidatePortMappings x mappings = validate_ports_loop x [] [] mappings"

definition Validate :: "ext \<Rightarrow> task \<Rightarrow> gerror option" where
  "Validate x t =
     errors_Join (List.map_filter (\<lambda>e. e)
       [ValidatePortMappings x (tPorts t),
        ValidateRestartPolicy (tRestartPolicy t),
        ValidateEnv (tEnv t),
        ValidateSecurity (tSecurity t),
        (if tTimeout t < 0
         then Some (errorf (''task timeout must not be negative, got '' @ itoa (tTimeout t))) else None),
        (if tMaxRestarts t < 0
         then Some (errorf (''task max_restarts must not be negative, got '' @ itoa (tMaxRestarts t)))
         else None)])"

text \<open>
  \<open>Config.dockerPorts\<close>: the exposed ports and the bindings, as the maps the loop fills, entry by
  entry.
\<close>

definition host_binding :: "port_mapping \<Rightarrow> string list" where
  "host_binding pm = [if HostPort pm \<noteq> 0 then itoa (HostPort pm) else []]"

fun docker_port_step ::
  "ext \<Rightarrow> dport set \<times> (dport \<rightharpoonup> string list) \<Rightarrow> port_mapping \<Rightarrow> dport set \<times> (dport \<rightharpoonup> string list)" where
  "docker_port_step x (exposed, bindings) pm =
     (case network_PortFrom x (clampToUint16 (ContainerPort pm)) (eff_proto pm) of
        (port, _) \<Rightarrow> (insert port exposed, bindings(port \<mapsto> host_binding pm)))"

definition dockerPorts :: "ext \<Rightarrow> config \<Rightarrow> gerror + (dport set \<times> (dport \<rightharpoonup> string list))" where
  "dockerPorts x c =
     (case ValidatePortMappings x (cfgPorts c) of
        Some e \<Rightarrow> Inl e
      | None \<Rightarrow> Inr (foldl (docker_port_step x) ({}, Map.empty) (cfgPorts c)))"

section \<open>What is accepted\<close>

definition port_key :: "port_mapping \<Rightarrow> int \<times> string" where
  "port_key pm = (ContainerPort pm, eff_proto pm)"

definition host_key :: "port_mapping \<Rightarrow> int \<times> string" where
  "host_key pm = (HostPort pm, eff_proto pm)"

definition mapping_ok :: "port_mapping \<Rightarrow> bool" where
  "mapping_ok pm \<longleftrightarrow>
     1 \<le> ContainerPort pm \<and> ContainerPort pm \<le> 65535 \<and> 0 \<le> HostPort pm \<and> HostPort pm \<le> 65535
     \<and> eff_proto pm \<in> {proto_TCP, proto_UDP}"

definition ports_ok :: "port_mapping list \<Rightarrow> bool" where
  "ports_ok ms \<longleftrightarrow>
     (\<forall>pm \<in> set ms. mapping_ok pm) \<and> distinct (map port_key ms)
     \<and> distinct (map host_key (filter (\<lambda>pm. HostPort pm \<noteq> 0) ms))"

definition id_part :: "string \<Rightarrow> bool" where
  "id_part p \<longleftrightarrow> p \<noteq> [] \<and> (\<forall>c \<in> set p. c \<notin> set (CHR '':'' # whitespace))"

definition id_pair :: "string \<Rightarrow> bool" where
  "id_pair s \<longleftrightarrow> s = [] \<or> id_part s \<or> (\<exists>u g. s = u @ CHR '':'' # g \<and> id_part u \<and> id_part g)"

definition env_entry :: "string \<Rightarrow> bool" where
  "env_entry e \<longleftrightarrow> (\<exists>k v. e = k @ CHR ''='' # v \<and> k \<noteq> [] \<and> CHR ''='' \<notin> set k)"

definition tmpfs_entry :: "string \<Rightarrow> bool" where
  "tmpfs_entry e \<longleftrightarrow>
     (\<exists>path rest. e = CHR ''/'' # path @ rest \<and> CHR '':'' \<notin> set path
        \<and> (rest = [] \<or> (\<exists>opts. rest = CHR '':'' # opts)) \<and> (\<forall>c \<in> set path. c \<notin> set whitespace))"

definition ulimit_ok :: "ulimit \<Rightarrow> bool" where
  "ulimit_ok u \<longleftrightarrow> ulName u \<noteq> [] \<and> -1 \<le> ulSoft u \<and> ulSoft u \<le> ulHard u"

definition security_ok :: "security \<Rightarrow> bool" where
  "security_ok s \<longleftrightarrow>
     id_pair (secUser s) \<and> (\<forall>g \<in> set (secGroupAdd s). id_pair g)
     \<and> (\<forall>c \<in> set (secCapAdd s) \<union> set (secCapDrop s). validateCapability c = None)
     \<and> (\<forall>e \<in> set (secTmpfs s). tmpfs_entry e) \<and> 0 \<le> secPidsLimit s
     \<and> (\<forall>u \<in> set (secUlimits s). ulimit_ok u) \<and> secIpcMode s \<in> set ipc_modes
     \<and> (secUsernsMode s = ''host'' \<or> (\<forall>c \<in> set (secUsernsMode s). c \<notin> set (CHR '':'' # whitespace)))
     \<and> \<not> (secPrivileged s \<and> secCapDrop s \<noteq> [])"

section \<open>Lemmas\<close>

lemma first_error_None: "first_error es = None \<longleftrightarrow> (\<forall>e \<in> set es. e = None)"
  by (induction es rule: first_error.induct) auto

lemma contains_any_iff: "contains_any s cs \<longleftrightarrow> (\<exists>c \<in> set s. c \<in> set cs)"
  by (auto simp: contains_any_def list_ex_iff)

lemma ValidateEnv_None: "ValidateEnv env = None \<longleftrightarrow> (\<forall>e \<in> set env. env_entry e)"
proof (induction env)
  case (Cons e es)
  obtain k v f where cut: "str_cut CHR ''='' e = (k, v, f)" by (cases "str_cut CHR ''='' e") auto
  show ?case
  proof (cases f)
    case True
    with cut have e: "e = k @ CHR ''='' # v" "CHR ''='' \<notin> set k" by (simp_all add: str_cut_found)
    have "env_entry e \<longleftrightarrow> k \<noteq> []"
      unfolding env_entry_def e(1) using cut_unique [OF e(2), where P = "\<lambda>k v. k \<noteq> []"] by simp
    with cut True Cons show ?thesis by simp
  next
    case False
    with cut have "CHR ''='' \<notin> set e" by (simp add: str_cut_not_found)
    then have "\<not> env_entry e" by (auto simp: env_entry_def)
    with cut False show ?thesis by simp
  qed
qed simp

lemma validateIDPair_None: "validateIDPair what spec = None \<longleftrightarrow> id_pair spec"
proof (cases "spec = []")
  case False
  have part: "\<not> (p = [] \<or> contains_any p whitespace) \<and> CHR '':'' \<notin> set p \<longleftrightarrow> id_part p" for p
    by (auto simp: id_part_def contains_any_iff)
  show ?thesis
  proof (rule list_cases3 [OF str_split_nonempty [of "CHR '':''" spec]])
    fix p assume 1: "str_split CHR '':'' spec = [p]"
    then have p: "spec = p" "CHR '':'' \<notin> set p" by (simp_all add: split_single)
    then have "\<nexists>u g. spec = u @ CHR '':'' # g" by auto
    with 1 p part [of p] False show ?thesis by (auto simp: validateIDPair_def id_pair_def)
  next
    fix p q assume 2: "str_split CHR '':'' spec = [p, q]"
    then have pq: "spec = p @ CHR '':'' # q" "CHR '':'' \<notin> set p" "CHR '':'' \<notin> set q"
      by (simp_all add: split_pair)
    have "\<not> id_part spec" by (simp add: pq(1) id_part_def)
    moreover have "(\<exists>u g. spec = u @ CHR '':'' # g \<and> id_part u \<and> id_part g) \<longleftrightarrow> id_part p \<and> id_part q"
    proof
      assume "\<exists>u g. spec = u @ CHR '':'' # g \<and> id_part u \<and> id_part g"
      then obtain u g where ug: "spec = u @ CHR '':'' # g" "id_part u" "id_part g" by blast
      from ug have "str_split CHR '':'' spec = [u, g]" by (auto simp: split_pair id_part_def)
      with 2 ug show "id_part p \<and> id_part q" by simp
    qed (use pq in blast)
    ultimately show ?thesis
      using 2 False part [of p] part [of q] pq by (auto simp: validateIDPair_def id_pair_def)
  next
    fix p q r rs assume 3: "str_split CHR '':'' spec = p # q # r # rs"
    have "\<not> id_pair spec"
    proof
      assume "id_pair spec"
      then have "str_split CHR '':'' spec = [spec]
        \<or> (\<exists>u g. str_split CHR '':'' spec = [u, g])"
        using False by (auto simp: id_pair_def id_part_def split_single split_pair)
      with 3 show False by auto
    qed
    with 3 False show ?thesis by (simp add: validateIDPair_def)
  qed
qed (simp add: validateIDPair_def id_pair_def)

lemma validateTmpfs_None: "validateTmpfs e = None \<longleftrightarrow> tmpfs_entry e"
proof -
  obtain p r f where cut: "str_cut CHR '':'' e = (p, r, f)" by (cases "str_cut CHR '':'' e") auto
  have e: "e = p @ (if f then CHR '':'' # r else [])" "CHR '':'' \<notin> set p"
    using cut by (cases f; simp add: str_cut_found str_cut_not_found)+
  have uniq: "p' = p" if "e = p' @ rest" "CHR '':'' \<notin> set p'" "rest = [] \<or> (\<exists>o'. rest = CHR '':'' # o')" for p' rest
  proof -
    have "fst (str_cut CHR '':'' e) = p'" using that by auto
    with cut show ?thesis by simp
  qed
  have slash: "CHR '':'' \<notin> set (CHR ''/'' # q) \<longleftrightarrow> CHR '':'' \<notin> set q" for q by simp
  show ?thesis
  proof
    assume "validateTmpfs e = None"
    then obtain q where "p = CHR ''/'' # q" "\<forall>c \<in> set p. c \<notin> set whitespace"
      using cut by (auto simp: validateTmpfs_def has_prefix_iff contains_any_iff split: if_splits)
    with e show "tmpfs_entry e"
      unfolding tmpfs_entry_def
      by (intro exI [of _ q] exI [of _ "if f then CHR '':'' # r else []"]) auto
  next
    assume "tmpfs_entry e"
    then obtain q rest where q: "e = (CHR ''/'' # q) @ rest" "CHR '':'' \<notin> set q"
      "rest = [] \<or> (\<exists>o'. rest = CHR '':'' # o')" "\<forall>c \<in> set q. c \<notin> set whitespace"
      unfolding tmpfs_entry_def by auto
    then have "CHR ''/'' # q = p" using uniq [OF q(1)] slash by blast
    moreover have "CHR ''/'' \<notin> set whitespace" by (simp add: whitespace_def)
    ultimately show "validateTmpfs e = None"
      using cut q(4) by (auto simp: validateTmpfs_def has_prefix_iff contains_any_iff)
  qed
qed

lemma validateUlimit_None: "validateUlimit u = None \<longleftrightarrow> ulimit_ok u"
  by (auto simp: validateUlimit_def ulimit_ok_def)

lemma check_caps_None: "check_caps what c = None \<longleftrightarrow> validateCapability c = None"
  by (simp add: check_caps_def)

lemma check_pids_None: "check_pids s = None \<longleftrightarrow> 0 \<le> secPidsLimit s"
  by (simp add: check_pids_def linorder_not_less)

lemma check_ipc_None: "check_ipc s = None \<longleftrightarrow> secIpcMode s \<in> set ipc_modes"
  by (simp add: check_ipc_def)

lemma check_userns_None:
  "check_userns s = None \<longleftrightarrow>
     secUsernsMode s = ''host'' \<or> (\<forall>c \<in> set (secUsernsMode s). c \<notin> set (CHR '':'' # whitespace))"
  unfolding check_userns_def contains_any_iff if_Some_eq_None by auto

lemma check_privileged_None: "check_privileged s = None \<longleftrightarrow> \<not> (secPrivileged s \<and> secCapDrop s \<noteq> [])"
  by (simp add: check_privileged_def)

lemmas check_None =
  validateIDPair_None check_caps_None validateTmpfs_None check_pids_None validateUlimit_None
  check_ipc_None check_userns_None check_privileged_None

lemma ValidateSecurity_None: "ValidateSecurity (Some s) = None \<longleftrightarrow> security_ok s"
  by (simp only: ValidateSecurity_def option.case first_error_None security_ok_def set_append set_map
      list.set ball_Un ball_simps check_None conj_assoc simp_thms)

text \<open>The keys the loop stores, against the pairs the specification compares.\<close>

definition loop_port :: "port_mapping \<Rightarrow> dport" where
  "loop_port pm = (clampToUint16 (ContainerPort pm), eff_proto pm)"

definition loop_host :: "port_mapping \<Rightarrow> string" where
  "loop_host pm = eff_proto pm @ '':'' @ itoa (HostPort pm)"

lemma loop_port_inj:
  "mapping_ok a \<Longrightarrow> mapping_ok b \<Longrightarrow> loop_port a = loop_port b \<longleftrightarrow> port_key a = port_key b"
  by (auto simp: mapping_ok_def loop_port_def port_key_def clampToUint16_inj)

lemma loop_host_inj:
  "mapping_ok a \<Longrightarrow> mapping_ok b \<Longrightarrow> loop_host a = loop_host b \<longleftrightarrow> host_key a = host_key b"
  by (auto simp: mapping_ok_def loop_host_def host_key_def proto_TCP_def proto_UDP_def itoa_inj)

lemma proto_distinct [simp]:
  "proto_TCP \<noteq> proto_SCTP" "proto_UDP \<noteq> proto_SCTP" "proto_TCP \<noteq> proto_UDP" "proto_UDP \<noteq> proto_TCP"
  "proto_SCTP \<noteq> proto_TCP" "proto_SCTP \<noteq> proto_UDP"
  by (simp_all add: proto_TCP_def proto_UDP_def proto_SCTP_def)

lemma PortFrom_ok:
  "ext_ok x \<Longrightarrow> eff_proto pm \<in> {proto_TCP, proto_UDP} \<Longrightarrow>
     network_PortFrom x (clampToUint16 (ContainerPort pm)) (eff_proto pm) = (loop_port pm, True)"
  by (auto simp: ext_ok_def loop_port_def)

lemma validate_ports_loop_bad: "ext_ok x \<Longrightarrow> \<not> mapping_ok pm \<Longrightarrow> validate_ports_loop x cs hs (pm # ms) \<noteq> None"
  by (simp add: mapping_ok_def Let_def split: prod.split)

lemma validate_ports_loop_good:
  assumes "ext_ok x" "mapping_ok pm"
  shows "validate_ports_loop x cs hs (pm # ms) = None \<longleftrightarrow>
    loop_port pm \<notin> set cs
    \<and> (if HostPort pm = 0 then validate_ports_loop x (loop_port pm # cs) hs ms = None
       else loop_host pm \<notin> set hs
         \<and> validate_ports_loop x (loop_port pm # cs) (loop_host pm # hs) ms = None)"
proof -
  have p: "eff_proto pm = proto_TCP \<or> eff_proto pm = proto_UDP"
    using assms(2) by (simp add: mapping_ok_def)
  then have "eff_proto pm \<in> {proto_TCP, proto_UDP}" by simp
  note PortFrom = PortFrom_ok [OF assms(1) this]
  from p have "eff_proto pm \<noteq> proto_SCTP" "\<not> (eff_proto pm \<noteq> proto_TCP \<and> eff_proto pm \<noteq> proto_UDP)"
    by auto
  with assms(2) show ?thesis
    by (auto simp: PortFrom loop_host_def mapping_ok_def Let_def)
qed

declare validate_ports_loop.simps(2) [simp del]

lemma validate_ports_loop_None:
  assumes "ext_ok x"
  shows "validate_ports_loop x cs hs ms = None \<longleftrightarrow>
    (\<forall>pm \<in> set ms. mapping_ok pm \<and> loop_port pm \<notin> set cs \<and> (HostPort pm \<noteq> 0 \<longrightarrow> loop_host pm \<notin> set hs))
    \<and> distinct (map loop_port ms) \<and> distinct (map loop_host (filter (\<lambda>pm. HostPort pm \<noteq> 0) ms))"
proof (induction ms arbitrary: cs hs)
  case (Cons pm ms)
  show ?case
  proof (cases "mapping_ok pm")
    case True
    then show ?thesis
      unfolding validate_ports_loop_good [OF assms True] Cons.IH by (auto simp: image_iff)
  next
    case False
    with validate_ports_loop_bad [OF assms False] show ?thesis by auto
  qed
qed simp

lemma distinct_map_cong_on:
  assumes "\<And>a b. a \<in> set xs \<Longrightarrow> b \<in> set xs \<Longrightarrow> f a = f b \<longleftrightarrow> g a = g b"
  shows "distinct (map f xs) \<longleftrightarrow> distinct (map g xs)"
  using assms by (auto simp: distinct_map inj_on_def)

lemma ValidatePortMappings_None:
  assumes "ext_ok x"
  shows "ValidatePortMappings x ms = None \<longleftrightarrow> ports_ok ms"
proof (cases "\<forall>pm \<in> set ms. mapping_ok pm")
  case True
  then have "distinct (map loop_port ms) \<longleftrightarrow> distinct (map port_key ms)"
    "distinct (map loop_host (filter (\<lambda>pm. HostPort pm \<noteq> 0) ms))
      \<longleftrightarrow> distinct (map host_key (filter (\<lambda>pm. HostPort pm \<noteq> 0) ms))"
    by (auto intro!: distinct_map_cong_on simp: loop_port_inj loop_host_inj)
  with True show ?thesis
    by (simp add: ValidatePortMappings_def validate_ports_loop_None [OF assms] ports_ok_def)
next
  case False
  then show ?thesis
    by (auto simp: ValidatePortMappings_def validate_ports_loop_None [OF assms] ports_ok_def)
qed

definition task_ok :: "task \<Rightarrow> bool" where
  "task_ok t \<longleftrightarrow>
     ports_ok (tPorts t)
     \<and> tRestartPolicy t \<in> {[], ''no'', ''always'', ''on-failure'', ''unless-stopped''}
     \<and> (\<forall>e \<in> set (tEnv t). env_entry e)
     \<and> (case tSecurity t of None \<Rightarrow> True | Some s \<Rightarrow> security_ok s)
     \<and> 0 \<le> tTimeout t \<and> 0 \<le> tMaxRestarts t"

lemma map_filter_id_Nil: "List.map_filter (\<lambda>e. e) es = [] \<longleftrightarrow> (\<forall>e \<in> set es. e = None)"
  by (induction es) (auto simp: map_filter_simps split: option.splits)

lemma ValidateRestartPolicy_None:
  "ValidateRestartPolicy p = None \<longleftrightarrow> p \<in> {[], ''no'', ''always'', ''on-failure'', ''unless-stopped''}"
  by (simp only: ValidateRestartPolicy_def if_Some_eq_None restart_policy_defs set_simps)

lemma ValidateSecurity_option_None:
  "ValidateSecurity s = None \<longleftrightarrow> (case s of None \<Rightarrow> True | Some s \<Rightarrow> security_ok s)"
proof (cases s)
  case None
  then show ?thesis by (simp add: ValidateSecurity_def)
next
  case (Some a)
  then show ?thesis by (simp add: ValidateSecurity_None)
qed

lemma Validate_None: "ext_ok x \<Longrightarrow> Validate x t = None \<longleftrightarrow> task_ok t"
  by (simp only: Validate_def errors_Join_None map_filter_id_Nil ValidatePortMappings_None task_ok_def
      ValidateRestartPolicy_None ValidateEnv_None ValidateSecurity_option_None set_simps ball_simps
      if_Some_eq_None linorder_not_less simp_thms)

text \<open>The maps \<open>dockerPorts\<close> fills.\<close>

lemma dockerPorts_fold:
  assumes "ext_ok x" "\<forall>pm \<in> set ms. mapping_ok pm" "distinct (map loop_port ms)"
    "\<forall>pm \<in> set ms. loop_port pm \<notin> dom b0"
  shows "foldl (docker_port_step x) (e0, b0) ms
    = (e0 \<union> loop_port ` set ms, b0 ++ map_of (map (\<lambda>pm. (loop_port pm, host_binding pm)) ms))"
  using assms(2-4)
proof (induction ms arbitrary: e0 b0)
  case (Cons pm ms)
  let ?b = "b0(loop_port pm \<mapsto> host_binding pm)"
  have step: "docker_port_step x (e0, b0) pm = (insert (loop_port pm) e0, ?b)"
    using PortFrom_ok [OF assms(1), of pm] Cons.prems(1) by (simp add: mapping_ok_def)
  have "loop_port q \<noteq> loop_port pm" if "q \<in> set ms" for q
    using Cons.prems(2) that by (auto simp: image_iff)
  with Cons.prems(3) have dom_b: "\<forall>q \<in> set ms. loop_port q \<notin> dom ?b" by simp
  have IH: "foldl (docker_port_step x) (insert (loop_port pm) e0, ?b) ms
      = (insert (loop_port pm) e0 \<union> loop_port ` set ms,
         ?b ++ map_of (map (\<lambda>pm. (loop_port pm, host_binding pm)) ms))"
    by (rule Cons.IH [OF _ _ dom_b]) (use Cons.prems in simp_all)
  have "loop_port pm \<notin> dom (map_of (map (\<lambda>pm. (loop_port pm, host_binding pm)) ms))"
    using Cons.prems(2) by (auto simp: dom_map_of_conv_image_fst)
  then have fin: "?b ++ map_of (map (\<lambda>pm. (loop_port pm, host_binding pm)) ms)
      = b0 ++ map_of (map (\<lambda>pm. (loop_port pm, host_binding pm)) (pm # ms))"
    by (simp only: list.map map_of.simps fst_conv snd_conv map_add_upd) (rule map_add_upd_left)
  have sets: "insert (loop_port pm) e0 \<union> loop_port ` set ms = e0 \<union> loop_port ` set (pm # ms)"
    by auto
  show ?case
    unfolding foldl_Cons step IH fin sets ..
qed simp

section \<open>Properties\<close>

text \<open>
  C40: a task is accepted exactly when its specification holds: container ports and non-zero host
  ports in range, only tcp and udp, no container port and no pinned host port twice per protocol;
  a known restart policy; \<open>KEY=VALUE\<close> environment entries with a non-empty key; a security block
  with user and group specs of one or two parts, absolute tmpfs paths, sane limits and modes, and
  no privileged container that drops capabilities; no negative timeout or restart cap.
\<close>

theorem Validate_iff:
  assumes "ext_ok x"
  shows "Validate x t = None \<longleftrightarrow> task_ok t"
  using assms by (rule Validate_None)

definition std_ext :: ext where
  "std_ext = \<lparr>uuid_Parse = (\<lambda>s. None), network_PortFrom = (\<lambda>n p. ((n, p), True))\<rparr>"

lemma std_ext_ok: "ext_ok std_ext"
  by (simp add: std_ext_def ext_ok_def)

theorem Validate_iff_witness:
  "Validate std_ext (zero_task\<lparr>tPorts := [PortMapping 80 8080 [], PortMapping 80 8080 ''udp'']\<rparr>) = None
   \<and> Validate std_ext (zero_task\<lparr>tPorts := [PortMapping 80 0 [], PortMapping 80 0 ''tcp'']\<rparr>) \<noteq> None"
  using Validate_iff [OF std_ext_ok, of "zero_task\<lparr>tPorts := [PortMapping 80 8080 [], PortMapping 80 8080 ''udp'']\<rparr>"]
    Validate_iff [OF std_ext_ok, of "zero_task\<lparr>tPorts := [PortMapping 80 0 [], PortMapping 80 0 ''tcp'']\<rparr>"]
  by (simp add: task_ok_def zero_task_def ports_ok_def mapping_ok_def eff_proto_def port_key_def
      host_key_def proto_TCP_def proto_UDP_def)

text \<open>
  The port configuration of a container loses no mapping: the exposed ports are those of the
  task's mappings, and each mapping's port is bound to its own host port (or to a port of the
  daemon's choice when none is pinned).
\<close>

theorem dockerPorts_complete:
  assumes "ext_ok x" "dockerPorts x c = Inr (exposed, bindings)"
  shows "dom bindings = exposed
    \<and> exposed = (\<lambda>pm. (clampToUint16 (ContainerPort pm), eff_proto pm)) ` set (cfgPorts c)
    \<and> (\<forall>pm \<in> set (cfgPorts c).
         bindings (clampToUint16 (ContainerPort pm), eff_proto pm)
           = Some [if HostPort pm = 0 then [] else itoa (HostPort pm)])"
proof -
  let ?f = "\<lambda>pm. (loop_port pm, host_binding pm)"
  have "validate_ports_loop x [] [] (cfgPorts c) = None"
    using assms(2) by (simp add: dockerPorts_def ValidatePortMappings_def split: option.splits)
  then have ok: "\<forall>pm \<in> set (cfgPorts c). mapping_ok pm" "distinct (map loop_port (cfgPorts c))"
    by (simp_all add: validate_ports_loop_None [OF assms(1)])
  from assms(2) have eq: "exposed = loop_port ` set (cfgPorts c)" "bindings = map_of (map ?f (cfgPorts c))"
    using dockerPorts_fold [OF assms(1) ok, of Map.empty "{}"]
    by (auto simp: dockerPorts_def split: option.splits)
  have "bindings (loop_port pm) = Some (snd (?f pm))" if "pm \<in> set (cfgPorts c)" for pm
  proof -
    have "distinct (map fst (map ?f (cfgPorts c)))" using ok(2) by (simp add: comp_def)
    moreover have "(loop_port pm, snd (?f pm)) \<in> ?f ` set (cfgPorts c)"
      using that by (intro image_eqI [where x = pm]) simp_all
    ultimately show ?thesis unfolding eq(2) by (intro map_of_is_SomeI) simp_all
  qed
  moreover have "dom bindings = exposed"
    unfolding eq by (simp add: dom_map_of_conv_image_fst image_image)
  ultimately show ?thesis
    using eq(1) by (auto simp: loop_port_def host_binding_def)
qed

theorem dockerPorts_complete_witness:
  "\<exists>exposed bindings.
     dockerPorts std_ext (NewConfig (zero_task\<lparr>tPorts := [PortMapping 80 8080 []]\<rparr>)) = Inr (exposed, bindings)
     \<and> bindings (clampToUint16 80, ''tcp'') = Some [itoa 8080]"
proof -
  let ?c = "NewConfig (zero_task\<lparr>tPorts := [PortMapping 80 8080 []]\<rparr>)"
  have cfg: "cfgPorts ?c = [PortMapping 80 8080 []]" by (simp add: NewConfig_def)
  have "ValidatePortMappings std_ext (cfgPorts ?c) = None"
    by (simp add: ValidatePortMappings_None [OF std_ext_ok] cfg ports_ok_def mapping_ok_def eff_proto_def)
  then obtain e b where eb: "dockerPorts std_ext ?c = Inr (e, b)"
    by (cases "dockerPorts std_ext ?c") (auto simp: dockerPorts_def)
  from dockerPorts_complete [OF std_ext_ok eb] cfg
  have "b (clampToUint16 80, ''tcp'') = Some [itoa 8080]" by (simp add: eff_proto_def proto_TCP_def)
  with eb show ?thesis by blast
qed

end
