(* ===== verification/Reservations.thy ===== *)
theory Reservations
  imports Validation Stores
begin

text \<open>
  Host ports: \<open>manager/ports.go\<close> (can a worker with these occupied ports host the task) and
  \<open>manager/reservations.go\<close> (the table of ports claimed by tasks being dispatched). The Go interface
  \<open>ReservationStore\<close> is the locale \<open>reservation_store\<close>; \<open>ReservationTable\<close> interprets it. The
  mutex is not modelled: an operation is one step.
\<close>

section \<open>Port keys\<close>

record occupied_ports =
  occTCP :: "int list"
  occUDP :: "int list"

definition protoPortKey :: "string \<Rightarrow> int \<Rightarrow> string" where
  "protoPortKey proto p =
     (let proto = (if proto = [] then ''tcp'' else proto) in to_lower proto @ '':'' @ itoa p)"

definition requestedPortKeys :: "task option \<Rightarrow> string list" where
  "requestedPortKeys t =
     (case t of
        None \<Rightarrow> []
      | Some t \<Rightarrow> map (\<lambda>pm. protoPortKey (Protocol pm) (HostPort pm))
                     (filter (\<lambda>pm. HostPort pm \<noteq> 0) (tPorts t)))"

definition hasPinnedHostPorts :: "task option \<Rightarrow> bool" where
  "hasPinnedHostPorts t =
     (case t of None \<Rightarrow> False | Some t \<Rightarrow> list_ex (\<lambda>pm. HostPort pm \<noteq> 0) (tPorts t))"

text \<open>\<open>occupied\<close> is a map with empty values in the code: a set of keys, here the list of them.\<close>

definition canHost :: "task option \<Rightarrow> occupied_ports option \<Rightarrow> bool \<Rightarrow> bool" where
  "canHost t occ excludeOwnPorts =
     (if \<not> hasPinnedHostPorts t then True
      else case (t, occ) of
        (Some t, Some occ) \<Rightarrow>
          (let occupied = map (protoPortKey ''tcp'') (occTCP occ) @ map (protoPortKey ''udp'') (occUDP occ);
               occupied =
                 (if excludeOwnPorts then
                    foldl (\<lambda>occ pm. if HostPort pm \<noteq> 0
                                  then filter (\<lambda>k. k \<noteq> protoPortKey (Protocol pm) (HostPort pm)) occ
                                  else occ)
                      occupied (tHostPorts t)
                  else occupied)
           in \<not> list_ex (\<lambda>pm. HostPort pm \<noteq> 0 \<and>
                     protoPortKey (Protocol pm) (HostPort pm) \<in> set occupied) (tPorts t))
      | _ \<Rightarrow> False)"

definition hostPortFor :: "port_mapping list \<Rightarrow> int \<Rightarrow> int" where
  "hostPortFor ports containerPort =
     (case find (\<lambda>pm. ContainerPort pm = containerPort \<and> HostPort pm \<noteq> 0) ports of
        None \<Rightarrow> 0
      | Some pm \<Rightarrow> HostPort pm)"

section \<open>The reservation table\<close>

record reservation_table =
  byWorker :: "(string \<times> (string \<times> uuid) list) list"

definition NewReservationTable :: reservation_table where
  "NewReservationTable = \<lparr>byWorker = []\<rparr>"

text \<open>Reading a missing key of a Go map gives the zero value, here a nil inner map.\<close>

definition reservations_of :: "reservation_table \<Rightarrow> string \<Rightarrow> (string \<times> uuid) list" where
  "reservations_of rt w = (case map_of (byWorker rt) w of None \<Rightarrow> [] | Some m \<Rightarrow> m)"

definition conflictsLocked :: "string \<Rightarrow> task \<Rightarrow> bool \<Rightarrow> reservation_table \<Rightarrow> bool" where
  "conflictsLocked w t allowOwn rt =
     list_ex (\<lambda>key. case map_of (reservations_of rt w) key of
                 None \<Rightarrow> False
               | Some owner \<Rightarrow> owner \<noteq> tID t \<or> \<not> allowOwn)
       (requestedPortKeys (Some t))"

definition tryReserveLocked :: "string \<Rightarrow> task \<Rightarrow> reservation_table \<Rightarrow> bool \<times> reservation_table" where
  "tryReserveLocked w t rt =
     (let keys = requestedPortKeys (Some t) in
      if keys = [] then (True, rt)
      else if conflictsLocked w t True rt then (False, rt)
      else (True, rt\<lparr>byWorker :=
        AList.update w (foldl (\<lambda>m key. AList.update key (tID t) m) (reservations_of rt w) keys)
          (byWorker rt)\<rparr>))"

definition release_keys :: "uuid \<Rightarrow> string list \<Rightarrow> (string \<times> uuid) list \<Rightarrow> (string \<times> uuid) list" where
  "release_keys i keys m =
     foldl (\<lambda>m key. case map_of m key of
                Some owner \<Rightarrow> (if owner = i then AList.delete key m else m)
              | None \<Rightarrow> m) m keys"

text \<open>
  \<open>Release\<close> deletes from the inner map in place, then drops the worker's entry when the map is
  empty; on a worker without an entry both are no-ops.
\<close>

definition Release :: "string \<Rightarrow> task \<Rightarrow> reservation_table \<Rightarrow> reservation_table" where
  "Release w t rt =
     (let m = release_keys (tID t) (requestedPortKeys (Some t)) (reservations_of rt w) in
      rt\<lparr>byWorker := (if m = [] then AList.delete w (byWorker rt) else AList.update w m (byWorker rt))\<rparr>)"

definition TryReserve :: "string \<Rightarrow> task \<Rightarrow> reservation_table \<Rightarrow> bool \<times> reservation_table" where
  "TryReserve w t rt = tryReserveLocked w t rt"

definition Conflicts :: "string \<Rightarrow> task \<Rightarrow> bool \<Rightarrow> reservation_table \<Rightarrow> bool" where
  "Conflicts w t allowOwn rt = conflictsLocked w t allowOwn rt"

section \<open>The contract\<close>

locale reservation_store =
  fixes locks :: "'s \<Rightarrow> string \<Rightarrow> string \<Rightarrow> uuid option"
    and keys :: "'t \<Rightarrow> string list"
    and owner :: "'t \<Rightarrow> uuid"
    and reserve :: "string \<Rightarrow> 't \<Rightarrow> 's \<Rightarrow> bool \<times> 's"
    and release :: "string \<Rightarrow> 't \<Rightarrow> 's \<Rightarrow> 's"
    and conflicts :: "string \<Rightarrow> 't \<Rightarrow> bool \<Rightarrow> 's \<Rightarrow> bool"
  assumes conflicts_iff: "conflicts w t own s \<longleftrightarrow>
        (\<exists>k\<in>set (keys t). \<exists>i. locks s w k = Some i \<and> (i \<noteq> owner t \<or> \<not> own))"
    and reserve_iff: "fst (reserve w t s) \<longleftrightarrow> \<not> conflicts w t True s"
    and reserve_locks: "fst (reserve w t s) \<Longrightarrow> locks (snd (reserve w t s)) w' k
        = (if w' = w \<and> k \<in> set (keys t) then Some (owner t) else locks s w' k)"
    and reserve_refused: "\<not> fst (reserve w t s) \<Longrightarrow> locks (snd (reserve w t s)) = locks s"
    and release_locks: "locks (release w t s) w' k
        = (if w' = w \<and> k \<in> set (keys t) \<and> locks s w' k = Some (owner t) then None else locks s w' k)"
begin

lemma reserve_keeps:
  "locks s w k = Some i \<Longrightarrow> locks (snd (reserve w' t s)) w k = Some i"
  using reserve_locks [of w' t s] reserve_refused [of w' t s] reserve_iff [of w' t s]
    conflicts_iff [of w' t True s]
  by (cases "fst (reserve w' t s)") auto

lemma release_keeps:
  "locks s w k = Some i \<Longrightarrow> w' \<noteq> w \<or> owner t \<noteq> i \<Longrightarrow> locks (release w' t s) w k = Some i"
  by (auto simp: release_locks)

lemma held_refuses:
  "locks s w k = Some i \<Longrightarrow> k \<in> set (keys t) \<Longrightarrow> owner t \<noteq> i \<Longrightarrow> \<not> fst (reserve w t s)"
  by (auto simp: reserve_iff conflicts_iff)

text \<open>Releasing what was reserved, and nothing else, restores the table.\<close>

lemma release_reserve:
  assumes "fst (reserve w t s)" "\<forall>k\<in>set (keys t). locks s w k = None"
  shows "locks (release w t (snd (reserve w t s))) = locks s"
  using assms by (auto simp: fun_eq_iff release_locks reserve_locks)

end

lemma locks_delete:
  "map_of (foldl (\<lambda>m key. case map_of m key of
        Some owner \<Rightarrow> (if owner = i then AList.delete key m else m) | None \<Rightarrow> m) m keys) k
   = (if k \<in> set keys \<and> map_of m k = Some i then None else map_of m k)"
  by (induction keys arbitrary: m) (auto simp: delete_conv' split: option.splits)

lemma locks_update:
  "map_of (foldl (\<lambda>m key. AList.update key i m) m keys) k = (if k \<in> set keys then Some i else map_of m k)"
  by (induction keys arbitrary: m) (auto simp: update_conv')

definition rt_locks :: "reservation_table \<Rightarrow> string \<Rightarrow> string \<Rightarrow> uuid option" where
  "rt_locks rt w k = map_of (reservations_of rt w) k"

lemma requestedPortKeys_Nil: "requestedPortKeys t = [] \<longleftrightarrow> \<not> hasPinnedHostPorts t"
  by (auto simp: requestedPortKeys_def hasPinnedHostPorts_def list_ex_iff filter_empty_conv
      split: option.splits)

lemma conflictsLocked_iff:
  "conflictsLocked w t own rt \<longleftrightarrow>
     (\<exists>k\<in>set (requestedPortKeys (Some t)). \<exists>i. rt_locks rt w k = Some i \<and> (i \<noteq> tID t \<or> \<not> own))"
  by (auto simp: conflictsLocked_def list_ex_iff rt_locks_def split: option.splits)

lemma reservations_of_Release:
  "reservations_of (Release w t rt) w' =
     (if w' = w then release_keys (tID t) (requestedPortKeys (Some t)) (reservations_of rt w)
      else reservations_of rt w')"
  by (simp add: Release_def Let_def reservations_of_def delete_conv' update_conv')

interpretation rt: reservation_store rt_locks "\<lambda>t. requestedPortKeys (Some t)" tID
  TryReserve Release Conflicts
proof unfold_locales
  fix w w' k t own rt
  show "Conflicts w t own rt \<longleftrightarrow>
      (\<exists>k\<in>set (requestedPortKeys (Some t)). \<exists>i. rt_locks rt w k = Some i \<and> (i \<noteq> tID t \<or> \<not> own))"
    by (simp add: Conflicts_def conflictsLocked_iff)
  show "fst (TryReserve w t rt) \<longleftrightarrow> \<not> Conflicts w t True rt"
    by (auto simp: TryReserve_def tryReserveLocked_def Conflicts_def conflictsLocked_def Let_def)
  show "rt_locks (snd (TryReserve w t rt)) w' k =
      (if w' = w \<and> k \<in> set (requestedPortKeys (Some t)) then Some (tID t) else rt_locks rt w' k)"
    if "fst (TryReserve w t rt)"
    using that
    by (auto simp: TryReserve_def tryReserveLocked_def rt_locks_def reservations_of_def update_conv'
        locks_update Let_def split: if_splits)
  show "rt_locks (snd (TryReserve w t rt)) = rt_locks rt" if "\<not> fst (TryReserve w t rt)"
    using that by (auto simp: TryReserve_def tryReserveLocked_def Let_def split: if_splits)
  show "rt_locks (Release w t rt) w' k =
      (if w' = w \<and> k \<in> set (requestedPortKeys (Some t)) \<and> rt_locks rt w' k = Some (tID t) then None
       else rt_locks rt w' k)"
    using locks_delete [of "tID t" "reservations_of rt w" "requestedPortKeys (Some t)" k]
    by (simp add: rt_locks_def reservations_of_Release release_keys_def)
qed

section \<open>Properties\<close>

definition web :: "uuid \<Rightarrow> task" where
  "web i = zero_task\<lparr>tID := i, tPorts := [PortMapping 80 8080 ''tcp'']\<rparr>"

lemma itoa_no_colon: "CHR '':'' \<notin> set (itoa i)"
proof -
  have "CHR '':'' \<notin> digit ` {..<10}" using digit_not_sign by fastforce
  then show ?thesis using nat_digits_set by (auto simp: itoa_def)
qed

lemma last_cut:
  fixes c :: char
  assumes "a @ c # x = b @ c # y" "c \<notin> set x" "c \<notin> set y"
  shows "a = b \<and> x = y"
  using assms by (auto simp: append_eq_append_conv2 append_eq_Cons_conv Cons_eq_append_conv)

definition key_proto :: "string \<Rightarrow> string" where
  "key_proto p = (if p = [] then ''tcp'' else to_lower p)"

lemma key_proto_simps [simp]: "key_proto ''tcp'' = ''tcp''" "key_proto ''udp'' = ''udp''"
  by (simp_all add: key_proto_def to_lower_def ascii_lower_def)

lemma protoPortKey_alt: "protoPortKey p n = key_proto p @ '':'' @ itoa n"
  by (simp add: protoPortKey_def key_proto_def Let_def to_lower_def ascii_lower_def)

lemma protoPortKey_inj: "protoPortKey p m = protoPortKey q n \<longleftrightarrow> key_proto p = key_proto q \<and> m = n"
  using last_cut [of "key_proto p" "CHR '':''" "itoa m" "key_proto q" "itoa n"]
  by (auto simp: protoPortKey_alt itoa_no_colon itoa_inj)

lemma foldl_exclude:
  "set (foldl (\<lambda>occ pm. if HostPort pm \<noteq> 0
            then filter (\<lambda>k. k \<noteq> protoPortKey (Protocol pm) (HostPort pm)) occ else occ) occ own)
   = {k \<in> set occ. \<forall>pm\<in>set own. HostPort pm \<noteq> 0 \<longrightarrow> k \<noteq> protoPortKey (Protocol pm) (HostPort pm)}"
  by (induction own arbitrary: occ) auto

text \<open>What the worker reports as occupied, and the same port named by two mappings.\<close>

definition occupies :: "occupied_ports \<Rightarrow> port_mapping \<Rightarrow> bool" where
  "occupies occ pm \<longleftrightarrow>
     key_proto (Protocol pm) = ''tcp'' \<and> HostPort pm \<in> set (occTCP occ)
   \<or> key_proto (Protocol pm) = ''udp'' \<and> HostPort pm \<in> set (occUDP occ)"

definition same_host_port :: "port_mapping \<Rightarrow> port_mapping \<Rightarrow> bool" where
  "same_host_port a b \<longleftrightarrow>
     HostPort a \<noteq> 0 \<and> HostPort a = HostPort b \<and> key_proto (Protocol a) = key_proto (Protocol b)"

text \<open>
  A worker can host a task exactly when the task pins no port, or its occupied ports are known
  and none of the pinned ones is among them, up to the ports the task's own container holds when
  those are excluded.
\<close>

theorem canHost_correct:
  "canHost (Some t) occ exclude \<longleftrightarrow>
     ((\<exists>pm\<in>set (tPorts t). HostPort pm \<noteq> 0) \<longrightarrow>
     (case occ of
        None \<Rightarrow> False
      | Some o' \<Rightarrow> (\<forall>pm\<in>set (tPorts t). HostPort pm \<noteq> 0 \<longrightarrow> occupies o' pm \<longrightarrow>
          exclude \<and> (\<exists>own\<in>set (tHostPorts t). same_host_port own pm))))"
proof (cases occ)
  case None
  then show ?thesis by (auto simp: canHost_def hasPinnedHostPorts_def list_ex_iff)
next
  case (Some oc)
  have key: "protoPortKey (Protocol pm) (HostPort pm) \<in>
      set (map (protoPortKey ''tcp'') (occTCP oc) @ map (protoPortKey ''udp'') (occUDP oc))
      \<longleftrightarrow> occupies oc pm" for pm
    by (auto simp: occupies_def protoPortKey_inj image_iff)
  have own: "(\<forall>own\<in>set (tHostPorts t). HostPort own \<noteq> 0 \<longrightarrow>
        protoPortKey (Protocol pm) (HostPort pm) \<noteq> protoPortKey (Protocol own) (HostPort own))
      \<longleftrightarrow> \<not> (\<exists>own\<in>set (tHostPorts t). same_host_port own pm)" for pm
    by (auto simp: same_host_port_def protoPortKey_inj)
  show ?thesis
    unfolding canHost_def hasPinnedHostPorts_def list_ex_iff Let_def Some
    using key own by (cases exclude) (auto simp: foldl_exclude)
qed

theorem canHost_correct_witness:
  "\<not> canHost (Some (web 1)) (Some \<lparr>occTCP = [22, 8080], occUDP = []\<rparr>) True"
  using canHost_correct [of "web 1" "Some \<lparr>occTCP = [22, 8080], occUDP = []\<rparr>" True]
  by (simp add: web_def zero_task_def occupies_def key_proto_def to_lower_def ascii_lower_def)


datatype reservation_op = OpReserve string task | OpRelease string task | OpConflicts string task bool

fun rt_step :: "reservation_op \<Rightarrow> reservation_table \<Rightarrow> bool \<times> reservation_table" where
  "rt_step (OpReserve w t) rt = TryReserve w t rt"
| "rt_step (OpRelease w t) rt = (True, Release w t rt)"
| "rt_step (OpConflicts w t own) rt = (Conflicts w t own rt, rt)"

definition rt_run :: "reservation_op list \<Rightarrow> reservation_table \<Rightarrow> reservation_table" where
  "rt_run ops rt = foldl (\<lambda>rt op. snd (rt_step op rt)) rt ops"

fun releases :: "string \<Rightarrow> uuid \<Rightarrow> reservation_op \<Rightarrow> bool" where
  "releases w i (OpRelease w' t) = (w' = w \<and> tID t = i)"
| "releases w i _ = False"

lemma rt_run_keeps:
  assumes "rt_locks rt w k = Some i" "\<forall>op\<in>set ops. \<not> releases w i op"
  shows "rt_locks (rt_run ops rt) w k = Some i"
  using assms
proof (induction ops arbitrary: rt)
  case (Cons op ops)
  have "rt_locks (snd (rt_step op rt)) w k = Some i"
    using Cons.prems by (cases op) (auto intro: rt.reserve_keeps rt.release_keeps)
  with Cons show ?case by (simp add: rt_run_def)
qed (simp add: rt_run_def)

text \<open>
  C35: mutual exclusion on host ports: once a task has claimed its pinned ports on a worker, no
  other task that wants one of them gets a reservation there, whatever happens in between, until
  the first task's ports are released.
\<close>

theorem reservations_exclusive:
  assumes "fst (TryReserve w a rt)"
    and "k \<in> set (requestedPortKeys (Some a))" "k \<in> set (requestedPortKeys (Some b))"
    and "tID b \<noteq> tID a" "\<forall>op\<in>set ops. \<not> releases w (tID a) op"
  shows "\<not> fst (TryReserve w b (rt_run ops (snd (TryReserve w a rt))))"
proof (rule rt.held_refuses [OF rt_run_keeps])
  show "rt_locks (snd (TryReserve w a rt)) w k = Some (tID a)"
    using assms(1,2) by (simp add: rt.reserve_locks)
qed (use assms in simp_all)

theorem reservations_exclusive_witness:
  "\<not> fst (TryReserve ''w1'' (web 2)
       (rt_run [OpRelease ''w1'' (web 2), OpReserve ''w2'' (web 2)]
         (snd (TryReserve ''w1'' (web 1) NewReservationTable))))"
  by (rule reservations_exclusive [where k = "protoPortKey ''tcp'' 8080"])
     (simp_all add: web_def zero_task_def requestedPortKeys_def TryReserve_def tryReserveLocked_def
       conflictsLocked_def reservations_of_def NewReservationTable_def)

end
