(* ===== verification/Nodes.thy ===== *)
theory Nodes
  imports Validation Queues Reservations
begin

text \<open>
  \<open>stats/stats.go\<close>, whose accessors read a worker's report, and \<open>node/node.go\<close>, the manager's
  view of a worker. The numbers of a report are 64-bit words. An HTTP exchange is given by its
  outcomes: a transport error, or a status with the decoded body.
\<close>

section \<open>Stats\<close>

type_synonym u64 = "64 word"

record mem_info =
  MemTotal :: u64
  MemAvailable :: u64

record disk_info =
  diskAll :: u64
  diskFree :: u64
  diskUsed :: u64

record cpu_stat =
  cpuUser :: u64
  cpuNice :: u64
  cpuSystem :: u64
  cpuIdle :: u64
  cpuIOWait :: u64
  cpuIRQ :: u64
  cpuSoftIRQ :: u64
  cpuSteal :: u64

text \<open>\<open>LoadStats\<close> is only passed on to the API and is left out.\<close>

record stats =
  MemStats :: "mem_info option"
  DiskStats :: "disk_info option"
  CpuStats :: "cpu_stat option"
  stTaskCount :: int
  stCpuUsage :: float64
  stCores :: int
  stMemoryAllocated :: i64

definition zero_stats :: stats where
  "zero_stats =
     \<lparr>MemStats = None, DiskStats = None, CpuStats = None, stTaskCount = 0, stCpuUsage = 0,
      stCores = 0, stMemoryAllocated = 0\<rparr>"

definition MemTotalKb :: "stats \<Rightarrow> u64" where
  "MemTotalKb s = (case MemStats s of None \<Rightarrow> 0 | Some m \<Rightarrow> MemTotal m)"

definition MemAvailableKb :: "stats \<Rightarrow> u64" where
  "MemAvailableKb s = (case MemStats s of None \<Rightarrow> 0 | Some m \<Rightarrow> MemAvailable m)"

definition MemUsedKb :: "stats \<Rightarrow> u64" where
  "MemUsedKb s =
     (let total = MemTotalKb s; avail = MemAvailableKb s in
      if avail \<ge> total then 0 else total - avail)"

definition MemUsedPercent :: "stats \<Rightarrow> u64" where
  "MemUsedPercent s =
     (let total = MemTotalKb s in if total = 0 then 0 else MemAvailableKb s div total)"

definition DiskTotal :: "stats \<Rightarrow> u64" where
  "DiskTotal s = (case DiskStats s of None \<Rightarrow> 0 | Some d \<Rightarrow> diskAll d)"

definition DiskFree :: "stats \<Rightarrow> u64" where
  "DiskFree s = (case DiskStats s of None \<Rightarrow> 0 | Some d \<Rightarrow> diskFree d)"

definition DiskUsed :: "stats \<Rightarrow> u64" where
  "DiskUsed s = (case DiskStats s of None \<Rightarrow> 0 | Some d \<Rightarrow> diskUsed d)"

definition CpuUsageSplit :: "stats \<Rightarrow> u64 \<times> u64" where
  "CpuUsageSplit s =
     (case CpuStats s of
        None \<Rightarrow> (0, 0)
      | Some c \<Rightarrow>
          (cpuIdle c + cpuIOWait c,
           cpuUser c + cpuNice c + cpuSystem c + cpuIRQ c + cpuSoftIRQ c + cpuSteal c))"

text \<open>What the readers of \<open>/proc\<close> return, each falling back to an empty record on an error.\<close>

definition GetMemoryInfo :: "gerror + mem_info \<Rightarrow> mem_info" where
  "GetMemoryInfo r = (case r of Inl err \<Rightarrow> \<lparr>MemTotal = 0, MemAvailable = 0\<rparr> | Inr m \<Rightarrow> m)"

definition GetDiskInfo :: "gerror + disk_info \<Rightarrow> disk_info" where
  "GetDiskInfo r = (case r of Inl err \<Rightarrow> \<lparr>diskAll = 0, diskFree = 0, diskUsed = 0\<rparr> | Inr d \<Rightarrow> d)"

definition GetCpuStats :: "gerror + cpu_stat \<Rightarrow> cpu_stat" where
  "GetCpuStats r =
     (case r of
        Inl err \<Rightarrow> \<lparr>cpuUser = 0, cpuNice = 0, cpuSystem = 0, cpuIdle = 0, cpuIOWait = 0, cpuIRQ = 0,
          cpuSoftIRQ = 0, cpuSteal = 0\<rparr>
      | Inr c \<Rightarrow> c)"

definition GetStats :: "gerror + mem_info \<Rightarrow> gerror + disk_info \<Rightarrow> gerror + cpu_stat \<Rightarrow> stats" where
  "GetStats mem disk cpu =
     zero_stats\<lparr>MemStats := Some (GetMemoryInfo mem), DiskStats := Some (GetDiskInfo disk),
       CpuStats := Some (GetCpuStats cpu)\<rparr>"

section \<open>Nodes\<close>

record node =
  nAddress :: string
  nCores :: int
  nMemory :: i64
  nDisk :: i64
  nMemoryAllocated :: i64
  nStats :: stats
  nRole :: string
  haveStats :: bool

record snapshot =
  snCores :: int
  snMemoryTotalKB :: i64
  snMemUsedKB :: i64
  snMemoryAllocatedB :: i64
  snDiskFreeB :: i64
  snCpuUsage :: float64
  snTaskCount :: int

definition clampToInt64 :: "u64 \<Rightarrow> i64" where
  "clampToInt64 u = (if uint u > 2 ^ 63 - 1 then 2 ^ 63 - 1 else uint u)"

text \<open>\<open>net.SplitHostPort\<close>, as in the standard library.\<close>

fun cut_last :: "char \<Rightarrow> string \<Rightarrow> (string \<times> string) option" where
  "cut_last c [] = None"
| "cut_last c (x # xs) =
     (case cut_last c xs of
        Some (a, b) \<Rightarrow> Some (x # a, b)
      | None \<Rightarrow> (if x = c then Some ([], xs) else None))"

definition addr_error :: "string \<Rightarrow> string \<Rightarrow> gerror" where
  "addr_error addr why = errorf (''address '' @ addr @ '': '' @ why)"

definition apos :: "char \<Rightarrow> string" where
  "apos c = [CHR 0x27, c, CHR 0x27]"

definition split_bracketed :: "string \<Rightarrow> string \<Rightarrow> string \<Rightarrow> gerror + string \<times> string" where
  "split_bracketed hostport rest port =
     (case str_cut CHR '']'' rest of
        (host, after, found) \<Rightarrow>
          if \<not> found then Inl (addr_error hostport (''missing '' @ apos CHR '']'' @ '' in address''))
          else if after = CHR '':'' # port then
            (if CHR ''['' \<in> set rest then Inl (addr_error hostport (''unexpected '' @ apos CHR ''['' @ '' in address''))
             else if CHR '']'' \<in> set after then Inl (addr_error hostport (''unexpected '' @ apos CHR '']'' @ '' in address''))
             else Inr (host, port))
          else if after \<noteq> [] \<and> hd after = CHR '':'' then Inl (addr_error hostport ''too many colons in address'')
          else Inl (addr_error hostport ''missing port in address''))"

definition split_plain :: "string \<Rightarrow> string \<Rightarrow> string \<Rightarrow> gerror + string \<times> string" where
  "split_plain hostport host port =
     (if CHR '':'' \<in> set host then Inl (addr_error hostport ''too many colons in address'')
      else if CHR ''['' \<in> set hostport then Inl (addr_error hostport (''unexpected '' @ apos CHR ''['' @ '' in address''))
      else if CHR '']'' \<in> set hostport then Inl (addr_error hostport (''unexpected '' @ apos CHR '']'' @ '' in address''))
      else Inr (host, port))"

definition SplitHostPort :: "string \<Rightarrow> gerror + string \<times> string" where
  "SplitHostPort hostport =
     (case cut_last CHR '':'' hostport of
        None \<Rightarrow> Inl (addr_error hostport ''missing port in address'')
      | Some (before, port) \<Rightarrow>
          if hd hostport = CHR ''['' then split_bracketed hostport (tl hostport) port
          else split_plain hostport before port)"

text \<open>\<open>url_Host\<close> stands for \<open>url.Parse\<close>: the host of a URL, \<open>None\<close> when it does not parse.\<close>

definition validateAddress :: "(string \<Rightarrow> string option) \<Rightarrow> string \<Rightarrow> gerror option" where
  "validateAddress url_Host address =
     (case SplitHostPort address of
        Inl err \<Rightarrow> Some (wrapf ''must be a host:port endpoint: '' err)
      | Inr (host, port) \<Rightarrow>
          if host = [] then Some (errorf ''host must not be empty'')
          else if (case atoi port of None \<Rightarrow> True | Some n \<Rightarrow> n < 1 \<or> n > 65535)
            then Some (errorf ''port must be an integer from 1 to 65535'')
          else if url_Host (''http://'' @ address) \<noteq> Some address
            then Some (errorf ''must be a valid host:port endpoint'')
          else None)"

definition node_New :: "(string \<Rightarrow> string option) \<Rightarrow> string \<Rightarrow> string \<Rightarrow> gerror + node" where
  "node_New url_Host address role =
     (case validateAddress url_Host address of
        Some err \<Rightarrow> Inl (wrapf (''invalid node address '' @ go_quote address @ '': '') err)
      | None \<Rightarrow> Inr \<lparr>nAddress = address, nCores = 0, nMemory = 0, nDisk = 0, nMemoryAllocated = 0,
          nStats = zero_stats, nRole = role, haveStats = False\<rparr>)"

definition store_stats :: "stats \<Rightarrow> node \<Rightarrow> node" where
  "store_stats s n = n\<lparr>nCores := stCores s, nMemory := clampToInt64 (MemTotalKb s),
     nDisk := clampToInt64 (DiskTotal s), nMemoryAllocated := stMemoryAllocated s,
     nStats := s, haveStats := True\<rparr>"

record 'b http_response =
  StatusCode :: int
  Body :: "gerror + 'b"

definition StatusOK :: int where
  "StatusOK = 200"

text \<open>
  \<open>GetStats\<close> asks with retries; the outcome of each attempt is given by \<open>get\<close>, and \<open>Body\<close> is the
  body read and decoded, or the error of either.
\<close>

definition node_GetStats ::
  "(nat \<Rightarrow> gerror + stats http_response) \<Rightarrow> int \<Rightarrow> duration \<Rightarrow> node \<Rightarrow> (gerror + stats) \<times> node" where
  "node_GetStats get maxRetries period n =
     (case fst (HTTPWithRetry get maxRetries period) of
        Inl err \<Rightarrow> (Inl (wrapf (''error connecting to '' @ nAddress n @ '': '') err), n)
      | Inr resp \<Rightarrow>
          if StatusCode resp \<noteq> StatusOK
          then (Inl (errorf (''error retrieving stats from '' @ nAddress n @ '': status '' @ itoa (StatusCode resp))), n)
          else (case Body resp of
             Inl err \<Rightarrow> (Inl (wrapf (''error reading stats resp body from '' @ nAddress n @ '': '') err), n)
           | Inr s \<Rightarrow> (Inr s, store_stats s n)))"

definition Reachable :: "gerror + 'b http_response \<Rightarrow> bool" where
  "Reachable r = (case r of Inl err \<Rightarrow> False | Inr resp \<Rightarrow> StatusCode resp = StatusOK)"

definition GetPorts :: "node \<Rightarrow> gerror + occupied_ports http_response \<Rightarrow> gerror + occupied_ports" where
  "GetPorts n r =
     (case r of
        Inl err \<Rightarrow> Inl (wrapf (''error connecting to '' @ nAddress n @ '': '') err)
      | Inr resp \<Rightarrow>
          if StatusCode resp \<noteq> StatusOK
          then Inl (errorf (''error retrieving ports from '' @ nAddress n @ '': status '' @ itoa (StatusCode resp)))
          else (case Body resp of
             Inl err \<Rightarrow> Inl (wrapf (''error unmarshalling ports from '' @ nAddress n @ '': '') err)
           | Inr occ \<Rightarrow> Inr occ))"

definition ClearStats :: "node \<Rightarrow> node" where
  "ClearStats n = n\<lparr>nCores := 0, nMemory := 0, nDisk := 0, nMemoryAllocated := 0,
     nStats := zero_stats, haveStats := False\<rparr>"

definition HasStats :: "node \<Rightarrow> bool" where
  "HasStats n = haveStats n"

definition Snapshot :: "node \<Rightarrow> snapshot" where
  "Snapshot n =
     \<lparr>snCores = nCores n, snMemoryTotalKB = nMemory n, snMemUsedKB = clampToInt64 (MemUsedKb (nStats n)),
      snMemoryAllocatedB = nMemoryAllocated n, snDiskFreeB = clampToInt64 (DiskFree (nStats n)),
      snCpuUsage = stCpuUsage (nStats n), snTaskCount = stTaskCount (nStats n)\<rparr>"

section \<open>Properties\<close>

lemma clampToInt64_bounds: "0 \<le> clampToInt64 u \<and> in_i64 (clampToInt64 u)"
  using order_trans [of "- (2 ^ 63)" 0 "uint u"] by (auto simp: clampToInt64_def in_i64_def)

lemma clampToInt64_mono: "u \<le> v \<Longrightarrow> clampToInt64 u \<le> clampToInt64 v"
  by (simp add: clampToInt64_def word_le_def)

lemma uint_MemUsedKb: "uint (MemUsedKb s) = max 0 (uint (MemTotalKb s) - uint (MemAvailableKb s))"
  by (auto simp: MemUsedKb_def Let_def word_le_def uint_sub_lem [THEN iffD1] max_def)

text \<open>
  After a successful query a node's snapshot is the worker's report: every quantity is a
  non-negative 64-bit integer, used memory never exceeds the total, and the subtraction cannot wrap
  around; a failed query leaves the node as it was.
\<close>

theorem GetStats_snapshot:
  "case node_GetStats get maxRetries period n of
     (Inl err, n') \<Rightarrow> n' = n
   | (Inr s, n') \<Rightarrow> HasStats n' \<and> nAddress n' = nAddress n \<and> snCores (Snapshot n') = stCores s
       \<and> 0 \<le> snMemUsedKB (Snapshot n') \<and> snMemUsedKB (Snapshot n') \<le> snMemoryTotalKB (Snapshot n')
       \<and> in_i64 (snMemoryTotalKB (Snapshot n')) \<and> 0 \<le> snDiskFreeB (Snapshot n')
       \<and> in_i64 (snDiskFreeB (Snapshot n'))
       \<and> (uint (MemTotalKb s) < 2 ^ 63 \<longrightarrow> snMemUsedKB (Snapshot n')
            = max 0 (uint (MemTotalKb s) - uint (MemAvailableKb s)))"
proof -
  have used: "MemUsedKb s \<le> MemTotalKb s" for s
    by (simp add: word_le_def uint_MemUsedKb)
  have small: "uint (MemTotalKb s) < 2 ^ 63 \<Longrightarrow> clampToInt64 (MemUsedKb s) = uint (MemUsedKb s)" for s
    using used [of s] by (simp add: clampToInt64_def word_le_def)
  show ?thesis
    using clampToInt64_bounds clampToInt64_mono [OF used] small
    by (auto simp: node_GetStats_def store_stats_def Snapshot_def HasStats_def uint_MemUsedKb
        split: sum.splits)
qed

theorem GetStats_snapshot_witness:
  "snMemUsedKB (Snapshot (snd (node_GetStats
     (\<lambda>_. Inr \<lparr>StatusCode = 200, Body = Inr (zero_stats\<lparr>MemStats := Some \<lparr>MemTotal = 10, MemAvailable = 4\<rparr>\<rparr>)\<rparr>)
     3 1 (ClearStats \<lparr>nAddress = ''a:1'', nCores = 0, nMemory = 0, nDisk = 0, nMemoryAllocated = 0,
       nStats = zero_stats, nRole = ''worker'', haveStats = False\<rparr>)))) = 6"
proof -
  let ?get = "\<lambda>_. Inr \<lparr>StatusCode = 200, Body = Inr (zero_stats\<lparr>MemStats := Some \<lparr>MemTotal = 10, MemAvailable = 4\<rparr>\<rparr>)\<rparr>"
  let ?n = "ClearStats \<lparr>nAddress = ''a:1'', nCores = 0, nMemory = 0, nDisk = 0, nMemoryAllocated = 0,
       nStats = zero_stats, nRole = ''worker'', haveStats = False\<rparr>"
  have "fst (node_GetStats ?get 3 1 ?n) = Inr (zero_stats\<lparr>MemStats := Some \<lparr>MemTotal = 10, MemAvailable = 4\<rparr>\<rparr>)"
    by (simp add: node_GetStats_def HTTPWithRetry_def retry_loop.simps StatusOK_def)
  with GetStats_snapshot [where get = ?get and maxRetries = 3 and period = 1 and n = ?n] show ?thesis
    by (auto simp: MemTotalKb_def MemAvailableKb_def split: prod.splits)
qed

end
