(* ===== verification/Schedulers.thy ===== *)
theory Schedulers
  imports Nodes
begin

text \<open>
  The schedulers of \<open>scheduler/scheduler.go\<close>. A \<open>float64\<close> is its IEEE-754 bit pattern: comparisons
  are defined on it, NaN included; the arithmetic of the cost function is the machine's, the
  record \<open>fpu\<close>. The Go interface \<open>Scheduler\<close> is the locale \<open>scheduler\<close>.
\<close>

section \<open>Doubles\<close>

definition f_isnan :: "float64 \<Rightarrow> bool" where
  "f_isnan x \<longleftrightarrow> uint (take_bit 63 x) > 0x7FF0000000000000"

text \<open>The order of the non-NaN patterns: sign and magnitude, the two zeros equal.\<close>

definition f_key :: "float64 \<Rightarrow> int" where
  "f_key x = (if bit x 63 then - uint (take_bit 63 x) else uint (take_bit 63 x))"

definition f_lt :: "float64 \<Rightarrow> float64 \<Rightarrow> bool" where
  "f_lt a b \<longleftrightarrow> \<not> f_isnan a \<and> \<not> f_isnan b \<and> f_key a < f_key b"

definition f_eq :: "float64 \<Rightarrow> float64 \<Rightarrow> bool" where
  "f_eq a b \<longleftrightarrow> \<not> f_isnan a \<and> \<not> f_isnan b \<and> f_key a = f_key b"

definition f_le :: "float64 \<Rightarrow> float64 \<Rightarrow> bool" where
  "f_le a b \<longleftrightarrow> f_lt a b \<or> f_eq a b"

definition f_0_1 :: float64 where "f_0_1 = 0x3FB999999999999A"

definition f_1_0 :: float64 where "f_1_0 = 0x3FF0000000000000"

definition MaxFloat64 :: float64 where "MaxFloat64 = 0x7FEFFFFFFFFFFFFF"

definition lieb :: float64 where "lieb = 0x3FF8A2345CC04426"

definition bytesPerKB :: float64 where "bytesPerKB = 0x4090000000000000"

record fpu =
  fAdd :: "float64 \<Rightarrow> float64 \<Rightarrow> float64"
  fSub :: "float64 \<Rightarrow> float64 \<Rightarrow> float64"
  fDiv :: "float64 \<Rightarrow> float64 \<Rightarrow> float64"
  fPow :: "float64 \<Rightarrow> float64 \<Rightarrow> float64"
  fOfInt :: "int \<Rightarrow> float64"

text \<open>A Go map of scores: a missing address reads as 0.\<close>

type_synonym scores = "string \<rightharpoonup> float64"

definition score_of :: "scores \<Rightarrow> node \<Rightarrow> float64" where
  "score_of sc n = (case sc (nAddress n) of None \<Rightarrow> 0 | Some x \<Rightarrow> x)"

section \<open>Round robin\<close>

record round_robin =
  rrName :: string
  LastWorker :: int

definition NewRoundRobin :: round_robin where
  "NewRoundRobin = \<lparr>rrName = ''roundrobin'', LastWorker = -1\<rparr>"

definition rr_SelectCandidateNodes :: "task \<Rightarrow> node list \<Rightarrow> node list" where
  "rr_SelectCandidateNodes t nodes = nodes"

fun rr_scores :: "int \<Rightarrow> int \<Rightarrow> node list \<Rightarrow> scores \<Rightarrow> scores" where
  "rr_scores newWorker i [] sc = sc"
| "rr_scores newWorker i (n # ns) sc =
     rr_scores newWorker (i + 1) ns (sc(nAddress n \<mapsto> (if i = newWorker then f_0_1 else f_1_0)))"

definition rr_Score :: "task \<Rightarrow> node list \<Rightarrow> round_robin \<Rightarrow> scores \<times> round_robin" where
  "rr_Score t nodes r =
     (let newWorker = (if LastWorker r + 1 < int (length nodes) then LastWorker r + 1 else 0)
      in (rr_scores newWorker 0 nodes Map.empty, r\<lparr>LastWorker := newWorker\<rparr>))"

definition rr_Pick :: "scores \<Rightarrow> node list \<Rightarrow> node option" where
  "rr_Pick sc candidates =
     foldl (\<lambda>best n. case best of
                None \<Rightarrow> Some n
              | Some b \<Rightarrow> (if f_lt (score_of sc n) (score_of sc b) then Some n else best))
       None candidates"

section \<open>E-PVM\<close>

definition checkDisk :: "task \<Rightarrow> i64 \<Rightarrow> bool" where
  "checkDisk t diskAvailable \<longleftrightarrow> tDisk t \<ge> 0 \<and> tDisk t \<le> diskAvailable"

definition calculateLoad :: "fpu \<Rightarrow> float64 \<Rightarrow> float64 \<Rightarrow> float64" where
  "calculateLoad F usage capacity = (if f_le capacity 0 then 0 else fDiv F usage capacity)"

definition epvm_SelectCandidateNodes :: "task \<Rightarrow> node list \<Rightarrow> node list" where
  "epvm_SelectCandidateNodes t nodes =
     filter (\<lambda>n. let snap = Snapshot n in
               \<not> snMemoryTotalKB snap \<le> 0 \<and> checkDisk t (snDiskFreeB snap)) nodes"

text \<open>
  The package variables \<open>EpvmMaxJobs\<close> and \<open>EpvmMaxSafeCPUUtil\<close> are arguments. \<open>TaskCount + 1\<close> is
  64-bit.
\<close>

definition epvm_node_score :: "fpu \<Rightarrow> int \<Rightarrow> float64 \<Rightarrow> task \<Rightarrow> snapshot \<Rightarrow> float64" where
  "epvm_node_score F EpvmMaxJobs EpvmMaxSafeCPUUtil t snap =
     (let jobsNow = fOfInt F (snTaskCount snap);
          jobsNext = fOfInt F (wrap64 (snTaskCount snap + 1));
          baseMemKB = fOfInt F (snMemUsedKB snap);
          projectedMemKB = fAdd F baseMemKB (fDiv F (fOfInt F (tMemory t)) bytesPerKB);
          memPercent = calculateLoad F baseMemKB (fOfInt F (snMemoryTotalKB snap));
          newMemPercent = calculateLoad F projectedMemKB (fOfInt F (snMemoryTotalKB snap));
          cpuShare = (if snCores snap > 0 then fDiv F (tCpu t) (fOfInt F (snCores snap)) else 0);
          cpuLoad = calculateLoad F (snCpuUsage snap) EpvmMaxSafeCPUUtil;
          newCpuLoad = fAdd F cpuLoad (calculateLoad F cpuShare EpvmMaxSafeCPUUtil);
          maxJobs = fOfInt F EpvmMaxJobs;
          cost = (\<lambda>new old. fSub F (fSub F (fAdd F (fPow F lieb new) (fPow F lieb (fDiv F jobsNext maxJobs)))
                                (fPow F lieb old))
                          (fPow F lieb (fDiv F jobsNow maxJobs)))
      in fAdd F (cost newMemPercent memPercent) (cost newCpuLoad cpuLoad))"

definition epvm_Score :: "fpu \<Rightarrow> int \<Rightarrow> float64 \<Rightarrow> task \<Rightarrow> node list \<Rightarrow> scores" where
  "epvm_Score F maxJobs maxCpu t nodes =
     foldl (\<lambda>sc n. let snap = Snapshot n in
               sc(nAddress n \<mapsto>
                 (if snMemoryTotalKB snap \<le> 0 then MaxFloat64
                  else epvm_node_score F maxJobs maxCpu t snap)))
       Map.empty nodes"

definition epvm_Pick :: "scores \<Rightarrow> node list \<Rightarrow> node option" where
  "epvm_Pick sc candidates =
     foldl (\<lambda>best n.
               if f_eq (score_of sc n) MaxFloat64 then best
               else case best of
                 None \<Rightarrow> Some n
               | Some b \<Rightarrow> (if f_lt (score_of sc n) (score_of sc b) then Some n else best))
       None candidates"

section \<open>The contract\<close>

text \<open>
  A scheduler offers some of the nodes, scores them, and picks one of least score among the
  candidates it does not exclude (\<open>skip\<close>); it picks none only when it excludes all.
\<close>

locale scheduler =
  fixes candidates :: "task \<Rightarrow> node list \<Rightarrow> node list"
    and score :: "task \<Rightarrow> node list \<Rightarrow> 's \<Rightarrow> scores \<times> 's"
    and pick :: "scores \<Rightarrow> node list \<Rightarrow> node option"
    and skip :: "float64 \<Rightarrow> bool"
  assumes candidates_subset: "set (candidates t ns) \<subseteq> set ns"
    and pick_None: "pick sc cs = None \<longleftrightarrow> (\<forall>n\<in>set cs. skip (score_of sc n))"
    and pick_Some: "pick sc cs = Some n \<Longrightarrow> n \<in> set cs \<and> \<not> skip (score_of sc n)"
    and pick_least: "pick sc cs = Some n \<Longrightarrow> m \<in> set cs \<Longrightarrow> \<not> skip (score_of sc m) \<Longrightarrow>
        \<not> f_lt (score_of sc m) (score_of sc n)"
begin

text \<open>The manager picks among the candidates that pass its own admission checks.\<close>

lemma pick_usable:
  "pick sc (filter usable (candidates t ns)) = Some n \<Longrightarrow>
     n \<in> set ns \<and> n \<in> set (candidates t ns) \<and> usable n \<and> \<not> skip (score_of sc n)"
  using pick_Some [of sc "filter usable (candidates t ns)" n] candidates_subset [of t ns] by auto

lemma pick_empty [simp]: "pick sc [] = None"
  by (simp add: pick_None)

end

lemma f_lt_irrefl [simp]: "\<not> f_lt a a"
  by (simp add: f_lt_def)

lemma f_lt_least: "\<not> f_lt m b \<Longrightarrow> f_lt n b \<Longrightarrow> \<not> f_lt m n"
  by (auto simp: f_lt_def)

text \<open>Both picks are one fold, with and without excluded scores.\<close>

definition pick_step :: "(float64 \<Rightarrow> bool) \<Rightarrow> scores \<Rightarrow> node option \<Rightarrow> node \<Rightarrow> node option" where
  "pick_step skip sc best n =
     (if skip (score_of sc n) then best
      else case best of
        None \<Rightarrow> Some n
      | Some b \<Rightarrow> (if f_lt (score_of sc n) (score_of sc b) then Some n else best))"

lemma rr_Pick_alt: "rr_Pick sc cs = foldl (pick_step (\<lambda>_. False) sc) None cs"
  unfolding rr_Pick_def
  by (intro arg_cong [where f = "\<lambda>g. foldl g None cs"]) (simp add: fun_eq_iff pick_step_def)

lemma epvm_Pick_alt: "epvm_Pick sc cs = foldl (pick_step (\<lambda>x. f_eq x MaxFloat64) sc) None cs"
  unfolding epvm_Pick_def
  by (intro arg_cong [where f = "\<lambda>g. foldl g None cs"]) (simp add: fun_eq_iff pick_step_def)

lemma fold_pick_None:
  "foldl (pick_step skip sc) best cs = None \<longleftrightarrow> best = None \<and> (\<forall>n\<in>set cs. skip (score_of sc n))"
  by (induction cs arbitrary: best) (auto simp: pick_step_def split: option.splits if_splits)

lemma fold_pick_Some:
  "foldl (pick_step skip sc) best cs = Some n \<Longrightarrow>
     best = Some n \<or> n \<in> set cs \<and> \<not> skip (score_of sc n)"
  by (induction cs arbitrary: best) (force simp: pick_step_def split: option.splits if_splits)+

lemma fold_pick_least:
  assumes "foldl (pick_step skip sc) best cs = Some n"
  shows "(\<forall>m\<in>set cs. \<not> skip (score_of sc m) \<longrightarrow> \<not> f_lt (score_of sc m) (score_of sc n))
    \<and> (\<forall>b m. best = Some b \<longrightarrow> \<not> f_lt (score_of sc m) (score_of sc b) \<longrightarrow>
          \<not> f_lt (score_of sc m) (score_of sc n))"
  using assms
proof (induction cs arbitrary: best)
  case (Cons c cs)
  from Cons.prems have "foldl (pick_step skip sc) (pick_step skip sc best c) cs = Some n" by simp
  note IH = Cons.IH [OF this]
  show ?case
  proof (cases "skip (score_of sc c)")
    case True
    then show ?thesis using IH by (simp add: pick_step_def)
  next
    case False
    show ?thesis
    proof (cases best)
      case None
      with False IH show ?thesis by (simp add: pick_step_def)
    next
      case (Some b)
      show ?thesis
      proof (cases "f_lt (score_of sc c) (score_of sc b)")
        case True
        with False Some have "pick_step skip sc best c = Some c" by (simp add: pick_step_def)
        with IH Some show ?thesis using f_lt_least [OF _ True] by simp
      next
        case le: False
        with False Some have "pick_step skip sc best c = Some b" by (simp add: pick_step_def)
        with IH Some le show ?thesis by simp
      qed
    qed
  qed
qed simp

interpretation rr: scheduler rr_SelectCandidateNodes rr_Score rr_Pick "\<lambda>_. False"
proof unfold_locales
  fix t ns sc cs n m
  show "set (rr_SelectCandidateNodes t ns) \<subseteq> set ns" by (simp add: rr_SelectCandidateNodes_def)
  show "rr_Pick sc cs = None \<longleftrightarrow> (\<forall>n\<in>set cs. False)" by (simp add: rr_Pick_alt fold_pick_None)
  show "n \<in> set cs \<and> \<not> False" if "rr_Pick sc cs = Some n"
    using that fold_pick_Some by (force simp: rr_Pick_alt)
  show "\<not> f_lt (score_of sc m) (score_of sc n)" if "rr_Pick sc cs = Some n" "m \<in> set cs"
    using that fold_pick_least [of "\<lambda>_. False" sc None cs n] by (simp add: rr_Pick_alt)
qed

interpretation epvm: scheduler epvm_SelectCandidateNodes
  "\<lambda>t ns (_ :: unit). (epvm_Score F maxJobs maxCpu t ns, ())" epvm_Pick "\<lambda>x. f_eq x MaxFloat64"
  for F maxJobs maxCpu
proof unfold_locales
  fix t ns sc cs n m
  show "set (epvm_SelectCandidateNodes t ns) \<subseteq> set ns" by (simp add: epvm_SelectCandidateNodes_def)
  show "epvm_Pick sc cs = None \<longleftrightarrow> (\<forall>n\<in>set cs. f_eq (score_of sc n) MaxFloat64)"
    by (simp add: epvm_Pick_alt fold_pick_None)
  show "n \<in> set cs \<and> \<not> f_eq (score_of sc n) MaxFloat64" if "epvm_Pick sc cs = Some n"
    using that fold_pick_Some by (force simp: epvm_Pick_alt)
  show "\<not> f_lt (score_of sc m) (score_of sc n)"
    if "epvm_Pick sc cs = Some n" "m \<in> set cs" "\<not> f_eq (score_of sc m) MaxFloat64"
    using that fold_pick_least [of "\<lambda>x. f_eq x MaxFloat64" sc None cs n] by (simp add: epvm_Pick_alt)
qed

section \<open>The interface value\<close>

text \<open>The manager's \<open>Scheduler\<close> field; its method calls dispatch on the constructor.\<close>

datatype sched = Epvm | RoundRobin round_robin

record sched_env =
  sePU :: fpu
  seEpvmMaxJobs :: int
  seEpvmMaxSafeCPUUtil :: float64

definition SelectCandidateNodes :: "sched \<Rightarrow> task \<Rightarrow> node list \<Rightarrow> node list" where
  "SelectCandidateNodes s t nodes =
     (case s of Epvm \<Rightarrow> epvm_SelectCandidateNodes t nodes | RoundRobin r \<Rightarrow> rr_SelectCandidateNodes t nodes)"

definition Score :: "sched_env \<Rightarrow> task \<Rightarrow> node list \<Rightarrow> sched \<Rightarrow> scores \<times> sched" where
  "Score e t nodes s =
     (case s of
        Epvm \<Rightarrow> (epvm_Score (sePU e) (seEpvmMaxJobs e) (seEpvmMaxSafeCPUUtil e) t nodes, Epvm)
      | RoundRobin r \<Rightarrow> apsnd RoundRobin (rr_Score t nodes r))"

definition Pick :: "sched \<Rightarrow> scores \<Rightarrow> node list \<Rightarrow> node option" where
  "Pick s sc candidates =
     (case s of Epvm \<Rightarrow> epvm_Pick sc candidates | RoundRobin r \<Rightarrow> rr_Pick sc candidates)"

definition skips :: "sched \<Rightarrow> float64 \<Rightarrow> bool" where
  "skips s x \<longleftrightarrow> s = Epvm \<and> f_eq x MaxFloat64"

interpretation sched: scheduler "SelectCandidateNodes s" "Score e" "Pick s" "skips s" for s e
proof unfold_locales
  fix t ns sc cs n m
  show "set (SelectCandidateNodes s t ns) \<subseteq> set ns"
    using rr.candidates_subset epvm.candidates_subset by (simp add: SelectCandidateNodes_def split: sched.split)
  show "Pick s sc cs = None \<longleftrightarrow> (\<forall>n\<in>set cs. skips s (score_of sc n))"
    by (simp add: Pick_def skips_def rr.pick_None epvm.pick_None split: sched.split)
  show "n \<in> set cs \<and> \<not> skips s (score_of sc n)" if "Pick s sc cs = Some n"
    using that rr.pick_Some epvm.pick_Some by (auto simp: Pick_def skips_def split: sched.splits)
  show "\<not> f_lt (score_of sc m) (score_of sc n)"
    if "Pick s sc cs = Some n" "m \<in> set cs" "\<not> skips s (score_of sc m)"
    using that rr.pick_least epvm.pick_least by (auto simp: Pick_def skips_def split: sched.splits)
qed

section \<open>Round robin is cyclic\<close>

lemma rr_scores_other: "a \<notin> nAddress ` set ns \<Longrightarrow> rr_scores w i ns sc a = sc a"
  by (induction w i ns sc rule: rr_scores.induct) auto

lemma rr_scores_nth:
  "distinct (map nAddress ns) \<Longrightarrow> j < length ns \<Longrightarrow>
     rr_scores w i ns sc (nAddress (ns ! j)) = Some (if i + int j = w then f_0_1 else f_1_0)"
proof (induction w i ns sc arbitrary: j rule: rr_scores.induct)
  case (2 w i n ns sc)
  show ?case
  proof (cases j)
    case 0
    have "nAddress n \<notin> nAddress ` set ns" using 2(2) by simp
    then show ?thesis by (simp add: 0 rr_scores_other)
  next
    case (Suc k)
    have "rr_scores w (i + 1) ns (sc(nAddress n \<mapsto> (if i = w then f_0_1 else f_1_0))) (nAddress (ns ! k))
        = Some (if i + 1 + int k = w then f_0_1 else f_1_0)"
      by (rule 2(1)) (use 2(2,3) Suc in simp_all)
    then show ?thesis by (simp only: Suc rr_scores.simps nth_Cons_Suc of_nat_Suc ac_simps)
  qed
qed simp

lemma f_0_1_least: "f_lt f_0_1 f_1_0"
  by (simp add: f_lt_def f_isnan_def f_key_def f_0_1_def f_1_0_def take_bit_eq_mod bit_iff_odd uint_word_of_int)

lemma rr_pick_marked:
  assumes "distinct (map nAddress ns)" "w < length ns"
  shows "rr_Pick (rr_scores (int w) 0 ns Map.empty) ns = Some (ns ! w)"
proof -
  let ?sc = "rr_scores (int w) 0 ns Map.empty"
  have sc: "score_of ?sc (ns ! j) = (if j = w then f_0_1 else f_1_0)" if "j < length ns" for j
    using rr_scores_nth [OF assms(1) that, of "int w" 0 Map.empty] by (simp add: score_of_def)
  obtain n where n: "rr_Pick ?sc ns = Some n"
    using rr.pick_None [of ?sc ns] assms(2) by (cases "rr_Pick ?sc ns") auto
  then obtain j where j: "j < length ns" "n = ns ! j"
    using rr.pick_Some by (metis in_set_conv_nth)
  have "\<not> f_lt (score_of ?sc (ns ! w)) (score_of ?sc (ns ! j))"
    using rr.pick_least [OF n, of "ns ! w"] assms(2) j(2) by simp
  then have "j = w" using sc [OF j(1)] sc [OF assms(2)] f_0_1_least by (auto split: if_splits)
  with n j show ?thesis by simp
qed

text \<open>One placement over all nodes, and the placements of a sequence of tasks.\<close>

definition rr_turn :: "node list \<Rightarrow> task \<Rightarrow> round_robin \<Rightarrow> node option \<times> round_robin" where
  "rr_turn nodes t r =
     (let cs = rr_SelectCandidateNodes t nodes; (sc, r') = rr_Score t cs r in (rr_Pick sc cs, r'))"

fun rr_turns :: "node list \<Rightarrow> task list \<Rightarrow> round_robin \<Rightarrow> node option list" where
  "rr_turns nodes [] r = []"
| "rr_turns nodes (t # ts) r = (let (n, r') = rr_turn nodes t r in n # rr_turns nodes ts r')"

lemma rr_turns_from:
  assumes "distinct (map nAddress ns)" "ns \<noteq> []"
  shows "LastWorker r = int (k mod length ns) \<Longrightarrow>
    rr_turns ns ts r = map (\<lambda>i. Some (ns ! (Suc (k + i) mod length ns))) [0..<length ts]"
proof (induction ts arbitrary: k r)
  case (Cons t ts)
  let ?w = "Suc k mod length ns"
  have "(if LastWorker r + 1 < int (length ns) then LastWorker r + 1 else 0) = int ?w"
  proof -
    have "k mod length ns < length ns" using assms(2) by simp
    then show ?thesis unfolding Cons.prems mod_Suc by (auto simp only: split: if_split)
  qed
  moreover have "?w < length ns" using assms(2) by simp
  ultimately have turn: "rr_turn ns t r = (Some (ns ! ?w), r\<lparr>LastWorker := int ?w\<rparr>)"
    using rr_pick_marked [OF assms(1)]
    by (simp add: rr_turn_def rr_SelectCandidateNodes_def rr_Score_def Let_def)
  have "rr_turns ns ts (r\<lparr>LastWorker := int ?w\<rparr>)
      = map (\<lambda>i. Some (ns ! (Suc (Suc k + i) mod length ns))) [0..<length ts]"
    by (rule Cons.IH) simp
  then show ?case
    by (simp add: turn upt_conv_Cons map_Suc_upt [symmetric] comp_def del: upt_Suc)
qed simp

text \<open>
  The round-robin scheduler hands consecutive tasks to consecutive nodes, starting with the
  first and wrapping around after the last.
\<close>

theorem roundrobin_cyclic:
  assumes "distinct (map nAddress nodes)" "nodes \<noteq> []"
  shows "rr_turns nodes ts NewRoundRobin = map (\<lambda>i. Some (nodes ! (i mod length nodes))) [0..<length ts]"
proof (cases ts)
  case (Cons t us)
  have "0 < length nodes" using assms(2) by simp
  then have turn: "rr_turn nodes t NewRoundRobin = (Some (nodes ! 0), NewRoundRobin\<lparr>LastWorker := int (0 mod length nodes)\<rparr>)"
    using rr_pick_marked [OF assms(1), of 0]
    by (simp add: rr_turn_def rr_SelectCandidateNodes_def rr_Score_def NewRoundRobin_def Let_def)
  have "rr_turns nodes us (NewRoundRobin\<lparr>LastWorker := int (0 mod length nodes)\<rparr>)
      = map (\<lambda>i. Some (nodes ! (Suc (0 + i) mod length nodes))) [0..<length us]"
    by (rule rr_turns_from [OF assms]) simp
  then show ?thesis
    by (simp add: Cons turn upt_conv_Cons map_Suc_upt [symmetric] comp_def del: upt_Suc)
qed simp

definition blank_node :: "string \<Rightarrow> node" where
  "blank_node a = \<lparr>nAddress = a, nCores = 0, nMemory = 0, nDisk = 0, nMemoryAllocated = 0,
     nStats = zero_stats, nRole = ''worker'', haveStats = False\<rparr>"

theorem roundrobin_cyclic_witness:
  "map (map_option nAddress) (rr_turns [blank_node ''a'', blank_node ''b''] [zero_task, zero_task, zero_task] NewRoundRobin)
     = [Some ''a'', Some ''b'', Some ''a'']"
  using roundrobin_cyclic [of "[blank_node ''a'', blank_node ''b'']" "[zero_task, zero_task, zero_task]"]
  by (simp add: blank_node_def)

end
