(* ===== verification/Managers.thy ===== *)
theory Managers
  imports Queues Ownership Reservations Schedulers
begin

text \<open>
  The manager's state and its records: \<open>manager/manager.go\<close> (creation, start-up, close) and
  \<open>manager/records.go\<close> (acceptance, deletion, reads), with the best-effort stops of
  \<open>manager/restart.go\<close> that deletion uses. The stores can fail at any operation (their fault
  scripts), so every error branch is reachable.

  What an operation takes from outside is its \<open>menv\<close> argument: the clock, the fresh event ID, the
  configuration variables, and what the workers answer to port and reachability queries. Messages
  whose outcome is only logged are appended to \<open>mOutbox\<close>; logging is left out.
\<close>

section \<open>State\<close>

datatype message = PostTask string task_event | ForgetTask string uuid

record manager =
  mPending :: "task_event queue"
  mDispatchWaker :: waker
  mUpdateWaker :: waker
  mTaskDb :: "task db"
  mEventDb :: "task_event db"
  mAssignments :: "assignment db"
  mReservations :: reservation_table
  mCheckers :: checker_set
  mBoltDb :: bool
  mNodes :: "node list"
  mScheduler :: sched
  mOutbox :: "message list"

record menv =
  eNow :: gotime
  eFresh :: uuid
  eExt :: ext
  eIdString :: "uuid \<Rightarrow> string"
  eMarshal :: "task_event \<Rightarrow> gerror option"
  eMaxRestarts :: int
  eBackoffBase :: duration
  eBackoffMax :: duration
  eSched :: sched_env
  ePorts :: "string \<Rightarrow> gerror + occupied_ports http_response"
  eReach :: "string \<Rightarrow> gerror + unit http_response"

text \<open>The calls on the stores, threading the state.\<close>

definition task_Get :: "uuid \<Rightarrow> manager \<Rightarrow> (gerror + task) \<times> manager" where
  "task_Get i m = (case db_Get i (mTaskDb m) of (r, d) \<Rightarrow> (r, m\<lparr>mTaskDb := d\<rparr>))"

definition task_Put :: "uuid \<Rightarrow> task \<Rightarrow> manager \<Rightarrow> gerror option \<times> manager" where
  "task_Put i t m = (case db_Put i t (mTaskDb m) of (r, d) \<Rightarrow> (r, m\<lparr>mTaskDb := d\<rparr>))"

definition task_List :: "manager \<Rightarrow> (gerror + task list) \<times> manager" where
  "task_List m = (case db_List (mTaskDb m) of (r, d) \<Rightarrow> (r, m\<lparr>mTaskDb := d\<rparr>))"

definition task_Delete :: "uuid \<Rightarrow> manager \<Rightarrow> gerror option \<times> manager" where
  "task_Delete i m = (case db_Delete i (mTaskDb m) of (r, d) \<Rightarrow> (r, m\<lparr>mTaskDb := d\<rparr>))"

definition event_Put :: "uuid \<Rightarrow> task_event \<Rightarrow> manager \<Rightarrow> gerror option \<times> manager" where
  "event_Put i te m = (case db_Put i te (mEventDb m) of (r, d) \<Rightarrow> (r, m\<lparr>mEventDb := d\<rparr>))"

definition taskWorker :: "uuid \<Rightarrow> manager \<Rightarrow> string \<times> manager" where
  "taskWorker i m = (case readAssignment i (mAssignments m) of (w, d) \<Rightarrow> (w, m\<lparr>mAssignments := d\<rparr>))"

section \<open>Queue and reads\<close>

definition dequeuePending :: "manager \<Rightarrow> task_event option \<times> manager" where
  "dequeuePending m = (case Dequeue (mPending m) of (r, q) \<Rightarrow> (r, m\<lparr>mPending := q\<rparr>))"

definition enqueuePending :: "task_event \<Rightarrow> manager \<Rightarrow> manager" where
  "enqueuePending te m = m\<lparr>mPending := Enqueue (mPending m) te\<rparr>"

definition removePendingTask :: "uuid \<Rightarrow> manager \<Rightarrow> nat \<times> manager" where
  "removePendingTask i m =
     (case RemoveAllFunc (mPending m) (\<lambda>te. tID (eTask te) = i) of
        (n, q) \<Rightarrow> (n, m\<lparr>mPending := q\<rparr>))"

definition getTasks :: "manager \<Rightarrow> task list \<times> manager" where
  "getTasks m =
     (if mTaskDb m = None then ([], m)
      else case task_List m of
        (Inl err, m) \<Rightarrow> ([], m)
      | (Inr persisted, m) \<Rightarrow> (persisted, m))"

definition getTask :: "uuid \<Rightarrow> manager \<Rightarrow> task option \<times> manager" where
  "getTask i m =
     (if mTaskDb m = None then (None, m)
      else case task_Get i m of
        (Inl err, m) \<Rightarrow> (None, m)
      | (Inr persisted, m) \<Rightarrow> (Some persisted, m))"

definition resolveTask :: "menv \<Rightarrow> string \<Rightarrow> manager \<Rightarrow> (task \<times> bool \<times> bool) \<times> manager" where
  "resolveTask e ref m = (case getTasks m of (ts, m) \<Rightarrow> (ResolveRef (eExt e) ts ref, m))"

text \<open>A \<open>TaskView\<close> is a task with its worker, empty when it has none.\<close>

definition getTaskViews :: "manager \<Rightarrow> (task \<times> string) list \<times> manager" where
  "getTaskViews m =
     (if mTaskDb m = None then ([], m)
      else case task_List m of
        (Inl err, m) \<Rightarrow> ([], m)
      | (Inr persisted, m) \<Rightarrow>
          (let (as, m) =
             (if mAssignments m = None then ([], m)
              else case db_List (mAssignments m) of
                (Inl err, d) \<Rightarrow> ([], m\<lparr>mAssignments := d\<rparr>)
              | (Inr as, d) \<Rightarrow> (as, m\<lparr>mAssignments := d\<rparr>));
             workerByTask = foldl (\<lambda>f a. f(asTaskID a \<mapsto> asWorker a)) Map.empty as
           in (map (\<lambda>t. (t, case workerByTask (tID t) of None \<Rightarrow> [] | Some w \<Rightarrow> w)) persisted, m)))"

definition getNodeViews :: "manager \<Rightarrow> (snapshot \<times> string \<times> string) list" where
  "getNodeViews m = map (\<lambda>n. (Snapshot n, nAddress n, nRole n)) (mNodes m)"

definition workerByAddress :: "string \<Rightarrow> manager \<Rightarrow> node option" where
  "workerByAddress a m = find (\<lambda>n. nAddress n = a) (mNodes m)"

section \<open>Best-effort stops\<close>

definition stop_event :: "menv \<Rightarrow> task \<Rightarrow> task_event" where
  "stop_event e t =
     \<lparr>eID = eFresh e, eState = Completed, eTimestamp = eNow e, eTask = t\<lparr>tState := Completed\<rparr>\<rparr>"

definition bestEffortStopWorkerTask :: "menv \<Rightarrow> string \<Rightarrow> task \<Rightarrow> manager \<Rightarrow> manager" where
  "bestEffortStopWorkerTask e addr t m =
     (if addr = [] \<or> tID t = uuid_Nil then m
      else let te = stop_event e t in
        case eMarshal e te of
          Some err \<Rightarrow> m
        | None \<Rightarrow> m\<lparr>mOutbox := mOutbox m @ [PostTask addr te]\<rparr>)"

definition bestEffortStopOldContainer :: "menv \<Rightarrow> string \<Rightarrow> task \<Rightarrow> manager \<Rightarrow> manager" where
  "bestEffortStopOldContainer e addr t m =
     (if tContainerID t = [] then m else bestEffortStopWorkerTask e addr t m)"

definition release_ports :: "string \<Rightarrow> task \<Rightarrow> manager \<Rightarrow> manager" where
  "release_ports w t m = m\<lparr>mReservations := Release w t (mReservations m)\<rparr>"

definition rollbackAcceptedWorkerTask ::
  "menv \<Rightarrow> string \<Rightarrow> task \<Rightarrow> task \<Rightarrow> bool \<Rightarrow> manager \<Rightarrow> manager" where
  "rollbackAcceptedWorkerTask e addr reservationTask stopTask reserved m =
     (let m = (if reserved then release_ports addr reservationTask m else m)
      in bestEffortStopWorkerTask e addr stopTask m)"

section \<open>Acceptance and deletion\<close>

definition isUUIDLike :: "menv \<Rightarrow> string \<Rightarrow> bool" where
  "isUUIDLike e name \<longleftrightarrow> uuid_Parse (eExt e) name \<noteq> None"

definition taskNameInUseLocked :: "string \<Rightarrow> manager \<Rightarrow> bool \<times> manager" where
  "taskNameInUseLocked name m =
     (case task_List m of
        (Inl err, m) \<Rightarrow> (False, m)
      | (Inr persisted, m) \<Rightarrow> (list_ex (\<lambda>t. tName t = name) persisted, m))"

text \<open>The part of \<open>AddTask\<close> under the mutex: the name check, then the checks and the write.\<close>

definition name_check :: "menv \<Rightarrow> string \<Rightarrow> manager \<Rightarrow> gerror option \<times> manager" where
  "name_check e name m =
     (if name = [] then (None, m)
      else if isUUIDLike e name
        then (Some (errorf (''task name must not be a UUID: '' @ go_quote name)), m)
      else case taskNameInUseLocked name m of
        (clash, m) \<Rightarrow>
          (if clash then (Some (errorf (''task name '' @ go_quote name @ '' already in use'')), m)
           else (None, m)))"

definition accept_task :: "menv \<Rightarrow> task \<Rightarrow> manager \<Rightarrow> gerror option \<times> manager" where
  "accept_task e t m =
     (if mTaskDb m = None then (Some (errorf ''task db is nil''), m)
      else case task_Get (tID t) m of
        (Inr _, m) \<Rightarrow> (Some (errorf (''task '' @ eIdString e (tID t) @ '' already exists'')), m)
      | (Inl err, m) \<Rightarrow>
          if \<not> errors_Is err ErrNotFound
          then (Some (wrapf (''checking task '' @ eIdString e (tID t) @ '': '') err), m)
          else case name_check e (tName t) m of
            (Some err, m) \<Rightarrow> (Some err, m)
          | (None, m) \<Rightarrow>
              (case task_Put (tID t) (t\<lparr>tState := Pending\<rparr>) m of
                 (Some err, m) \<Rightarrow> (Some (wrapf (''storing task '' @ eIdString e (tID t) @ '': '') err), m)
               | (None, m) \<Rightarrow> (None, m)))"

definition wake_both :: "manager \<Rightarrow> manager" where
  "wake_both m = m\<lparr>mDispatchWaker := Wake (mDispatchWaker m), mUpdateWaker := Wake (mUpdateWaker m)\<rparr>"

definition AddTask :: "menv \<Rightarrow> task_event \<Rightarrow> manager \<Rightarrow> gerror option \<times> manager" where
  "AddTask e te m =
     (case Validate (eExt e) (eTask te) of
        Some err \<Rightarrow> (Some err, m)
      | None \<Rightarrow>
          (case (if eState te \<noteq> Completed \<and> tState (eTask te) \<noteq> Completed
                 then accept_task e (eTask te) m else (None, m)) of
             (Some err, m) \<Rightarrow> (Some err, m)
           | (None, m) \<Rightarrow> (None, wake_both (enqueuePending te m))))"

text \<open>The assignment part of \<open>deleteTask\<close>: the owner, and the assignment gone.\<close>

definition drop_assignment :: "uuid \<Rightarrow> manager \<Rightarrow> string \<times> manager" where
  "drop_assignment i m =
     (if mAssignments m = None then ([], m)
      else case db_Get i (mAssignments m) of
        (r, d) \<Rightarrow>
          (case r of Inl err \<Rightarrow> [] | Inr a \<Rightarrow> asWorker a, m\<lparr>mAssignments := snd (db_Delete i d)\<rparr>))"

definition deleteTask :: "menv \<Rightarrow> task \<Rightarrow> manager \<Rightarrow> gerror option \<times> manager" where
  "deleteTask e t m =
     (if mTaskDb m = None then (Some (errorf ''task db is nil''), m)
      else case task_Delete (tID t) m of
        (Some err, m) \<Rightarrow> (Some err, m)
      | (None, m) \<Rightarrow>
          (let (owner, m) = drop_assignment (tID t) m;
               m = snd (removePendingTask (tID t) m);
               m = (if owner \<noteq> [] then release_ports owner t m else m);
               m = (if tState t = Failed \<and> tContainerID t \<noteq> [] \<and> owner \<noteq> []
                    then bestEffortStopOldContainer e owner t m else m)
           in (None, m)))"

section \<open>Start-up and close\<close>

text \<open>\<open>fresh\<close> gives the event ID drawn for each requeued task.\<close>

definition reconcile_one :: "menv \<Rightarrow> (uuid \<Rightarrow> uuid) \<Rightarrow> task \<Rightarrow> manager \<Rightarrow> manager" where
  "reconcile_one e fresh t m =
     (if tState t = Pending then
        enqueuePending \<lparr>eID = fresh (tID t), eState = Scheduled, eTimestamp = eNow e, eTask = t\<rparr> m
      else if tState t = Running \<or> tState t = Scheduled then
        (case taskWorker (tID t) m of
           (owner, m) \<Rightarrow>
             if owner = [] then m
             else if hasPinnedHostPorts (Some t)
             then m\<lparr>mReservations := snd (TryReserve owner t (mReservations m))\<rparr>
             else m)
      else m)"

definition reconcileOnStartup :: "menv \<Rightarrow> (uuid \<Rightarrow> uuid) \<Rightarrow> manager \<Rightarrow> gerror option \<times> manager" where
  "reconcileOnStartup e fresh m =
     (case task_List m of
        (Inl err, m) \<Rightarrow> (Some (wrapf ''listing tasks: '' err), m)
      | (Inr persisted, m) \<Rightarrow>
          (let m = fold (reconcile_one e fresh) persisted m
           in (None, m\<lparr>mAssignments := sweepOrphanedAssignments (map tID persisted) (mAssignments m)\<rparr>)))"

text \<open>\<open>closed\<close> is what closing the bbolt file returns.\<close>

definition mgr_Close :: "gerror option \<Rightarrow> manager \<Rightarrow> gerror option \<times> manager" where
  "mgr_Close closed m =
     (if mBoltDb m then closed else None,
      m\<lparr>mTaskDb := None, mEventDb := None, mAssignments := None, mBoltDb := False\<rparr>)"

fun new_nodes :: "(string \<Rightarrow> string option) \<Rightarrow> string list \<Rightarrow> gerror + node list" where
  "new_nodes url_Host [] = Inr []"
| "new_nodes url_Host (w # ws) =
     (case node_New url_Host w ''worker'' of
        Inl err \<Rightarrow> Inl (wrapf (''invalid worker '' @ go_quote w @ '': '') err)
      | Inr n \<Rightarrow> (case new_nodes url_Host ws of Inl err \<Rightarrow> Inl err | Inr ns \<Rightarrow> Inr (n # ns)))"

definition new_scheduler :: "string \<Rightarrow> gerror + sched" where
  "new_scheduler schedulerType =
     (if schedulerType = [] \<or> schedulerType = ''epvm'' then Inr Epvm
      else if schedulerType = ''roundrobin'' then Inr (RoundRobin NewRoundRobin)
      else Inl (errorf (''unknown scheduler type '' @ go_quote schedulerType @ '': want ''
             @ go_quote ''epvm'' @ '' or '' @ go_quote ''roundrobin'')))"

text \<open>What opening the bbolt file and its three buckets returns, and what closing it would.\<close>

record bolt_files =
  bfOpen :: "gerror option"
  bfTasks :: "gerror + task store"
  bfEvents :: "gerror + task_event store"
  bfAssignments :: "gerror + assignment store"
  bfClose :: "gerror option"

definition join_close :: "gerror \<Rightarrow> gerror option \<Rightarrow> gerror option" where
  "join_close err closed = errors_Join (err # (case closed of None \<Rightarrow> [] | Some c \<Rightarrow> [c]))"

definition open_stores ::
  "string \<Rightarrow> string \<Rightarrow> bolt_files
     \<Rightarrow> gerror option + (task store \<times> task_event store \<times> assignment store \<times> bool)" where
  "open_stores dbType DbFile b =
     (if dbType = ''memory'' then Inr (new_store, new_store, new_store, False)
      else if dbType = ''bolt'' then
        (case bfOpen b of
           Some err \<Rightarrow> Inl (Some (wrapf (''opening '' @ DbFile @ '': '') err))
         | None \<Rightarrow>
             (case bfTasks b of
                Inl err \<Rightarrow> Inl (join_close (wrapf ''opening tasks bucket: '' err) (bfClose b))
              | Inr ts \<Rightarrow>
                  (case bfEvents b of
                     Inl err \<Rightarrow> Inl (join_close (wrapf ''opening events bucket: '' err) (bfClose b))
                   | Inr es \<Rightarrow>
                       (case bfAssignments b of
                          Inl err \<Rightarrow> Inl (join_close (wrapf ''opening assignments bucket: '' err) (bfClose b))
                        | Inr as \<Rightarrow> Inr (ts, es, as, True)))))
      else Inl (Some (errorf ''unknown db type given'')))"

definition New ::
  "menv \<Rightarrow> (uuid \<Rightarrow> uuid) \<Rightarrow> (string \<Rightarrow> string option) \<Rightarrow> string \<Rightarrow> bolt_files
     \<Rightarrow> string list \<Rightarrow> string \<Rightarrow> string \<Rightarrow> gerror option + manager" where
  "New e fresh url_Host DbFile b workers schedulerType dbType =
     (case new_nodes url_Host workers of
        Inl err \<Rightarrow> Inl (Some err)
      | Inr nodes \<Rightarrow>
          (case new_scheduler schedulerType of
             Inl err \<Rightarrow> Inl (Some err)
           | Inr s \<Rightarrow>
               (case open_stores dbType DbFile b of
                  Inl err \<Rightarrow> Inl err
                | Inr (ts, es, as, isBolt) \<Rightarrow>
                    (let m = \<lparr>mPending = queue_New, mDispatchWaker = NewWaker, mUpdateWaker = NewWaker,
                              mTaskDb = Some ts, mEventDb = Some es, mAssignments = Some as,
                              mReservations = NewReservationTable, mCheckers = newCheckerSet,
                              mBoltDb = isBolt, mNodes = nodes, mScheduler = s, mOutbox = []\<rparr>
                     in case reconcileOnStartup e fresh m of
                          (Some err, m) \<Rightarrow>
                            Inl (join_close (wrapf ''startup reconciliation: '' err) (fst (mgr_Close (bfClose b) m)))
                        | (None, m) \<Rightarrow> Inr m))))"

text \<open>One pass of \<open>RefreshNodeStats\<close> over the nodes; \<open>get a i\<close> is attempt \<open>i\<close> at worker \<open>a\<close>.\<close>

definition refresh_pass ::
  "(string \<Rightarrow> nat \<Rightarrow> gerror + stats http_response) \<Rightarrow> int \<Rightarrow> duration \<Rightarrow> manager \<Rightarrow> manager" where
  "refresh_pass get maxRetries period m =
     m\<lparr>mNodes := map (\<lambda>n. case node_GetStats (get (nAddress n)) maxRetries period n of
                         (Inl err, n') \<Rightarrow> ClearStats n'
                       | (Inr s, n') \<Rightarrow> n') (mNodes m)\<rparr>"

section \<open>Views, frames and well-formedness\<close>

definition task_view :: "manager \<Rightarrow> uuid \<rightharpoonup> task" where
  "task_view m = db_view (mTaskDb m)"

definition asg_view :: "manager \<Rightarrow> uuid \<rightharpoonup> assignment" where
  "asg_view m = db_view (mAssignments m)"

definition mgr_wf :: "manager \<Rightarrow> bool" where
  "mgr_wf m \<longleftrightarrow> db_wf (mTaskDb m) \<and> db_wf (mAssignments m) \<and> db_wf (mEventDb m)
     \<and> (\<forall>i t. task_view m i = Some t \<longrightarrow> tID t = i)
     \<and> (\<forall>i a. asg_view m i = Some a \<longrightarrow> asTaskID a = i)"

text \<open>A store operation in terms of the store: the frame is visible.\<close>

lemma task_io:
  "task_Get i m = (fst (db_Get i (mTaskDb m)), m\<lparr>mTaskDb := snd (db_Get i (mTaskDb m))\<rparr>)"
  "task_Put i t m = (fst (db_Put i t (mTaskDb m)), m\<lparr>mTaskDb := snd (db_Put i t (mTaskDb m))\<rparr>)"
  "task_List m = (fst (db_List (mTaskDb m)), m\<lparr>mTaskDb := snd (db_List (mTaskDb m))\<rparr>)"
  "task_Delete i m = (fst (db_Delete i (mTaskDb m)), m\<lparr>mTaskDb := snd (db_Delete i (mTaskDb m))\<rparr>)"
  "event_Put j te m = (fst (db_Put j te (mEventDb m)), m\<lparr>mEventDb := snd (db_Put j te (mEventDb m))\<rparr>)"
  "taskWorker i m = (fst (readAssignment i (mAssignments m)),
     m\<lparr>mAssignments := snd (readAssignment i (mAssignments m))\<rparr>)"
  by (simp_all add: task_Get_def task_Put_def task_List_def task_Delete_def event_Put_def taskWorker_def
      case_prod_beta)

lemma getTasks_alt:
  "getTasks m = (case fst (db_List (mTaskDb m)) of Inl e \<Rightarrow> [] | Inr ts \<Rightarrow> ts,
     m\<lparr>mTaskDb := snd (db_List (mTaskDb m))\<rparr>)"
  by (simp add: getTasks_def task_io db_List_def split: sum.split)

lemma getTask_alt:
  "getTask i m = (case fst (db_Get i (mTaskDb m)) of Inl e \<Rightarrow> None | Inr t \<Rightarrow> Some t,
     m\<lparr>mTaskDb := snd (db_Get i (mTaskDb m))\<rparr>)"
  by (simp add: getTask_def task_io db_Get_def split: sum.split)

lemma views_update [simp]:
  "task_view (m\<lparr>mTaskDb := d\<rparr>) = db_view d"
  "task_view (m\<lparr>mPending := q\<rparr>) = task_view m"
  "task_view (m\<lparr>mDispatchWaker := wk\<rparr>) = task_view m"
  "task_view (m\<lparr>mUpdateWaker := wk\<rparr>) = task_view m"
  "task_view (m\<lparr>mEventDb := ev\<rparr>) = task_view m"
  "task_view (m\<lparr>mAssignments := as\<rparr>) = task_view m"
  "task_view (m\<lparr>mReservations := rs\<rparr>) = task_view m"
  "task_view (m\<lparr>mCheckers := cs\<rparr>) = task_view m"
  "task_view (m\<lparr>mScheduler := sc\<rparr>) = task_view m"
  "task_view (m\<lparr>mNodes := ns\<rparr>) = task_view m"
  "task_view (m\<lparr>mOutbox := ob\<rparr>) = task_view m"
  "asg_view (m\<lparr>mAssignments := as\<rparr>) = db_view as"
  "asg_view (m\<lparr>mTaskDb := d\<rparr>) = asg_view m"
  "asg_view (m\<lparr>mPending := q\<rparr>) = asg_view m"
  "asg_view (m\<lparr>mDispatchWaker := wk\<rparr>) = asg_view m"
  "asg_view (m\<lparr>mUpdateWaker := wk\<rparr>) = asg_view m"
  "asg_view (m\<lparr>mEventDb := ev\<rparr>) = asg_view m"
  "asg_view (m\<lparr>mReservations := rs\<rparr>) = asg_view m"
  "asg_view (m\<lparr>mCheckers := cs\<rparr>) = asg_view m"
  "asg_view (m\<lparr>mScheduler := sc\<rparr>) = asg_view m"
  "asg_view (m\<lparr>mNodes := ns\<rparr>) = asg_view m"
  "asg_view (m\<lparr>mOutbox := ob\<rparr>) = asg_view m"
  by (simp_all add: task_view_def asg_view_def)

lemma db_view_task [simp]: "db_view (mTaskDb m) = task_view m"
  by (simp add: task_view_def)

lemma db_view_asg [simp]: "db_view (mAssignments m) = asg_view m"
  by (simp add: asg_view_def)

text \<open>
  Operations that touch no store: they are recognised by the frame \<open>same_stores\<close>, under which
  both views and well-formedness are kept.
\<close>

definition same_stores :: "manager \<Rightarrow> manager \<Rightarrow> bool" where
  "same_stores m m' \<longleftrightarrow> mTaskDb m' = mTaskDb m \<and> mEventDb m' = mEventDb m \<and> mAssignments m' = mAssignments m"

lemma same_storesD:
  assumes "same_stores m m'"
  shows "task_view m' = task_view m" "asg_view m' = asg_view m" "mgr_wf m' = mgr_wf m"
    "mTaskDb m' = mTaskDb m" "mAssignments m' = mAssignments m" "mEventDb m' = mEventDb m"
  using assms by (simp_all add: same_stores_def mgr_wf_def task_view_def asg_view_def del: db_view_task db_view_asg)

lemma same_stores_refl [simp]: "same_stores m m"
  by (simp add: same_stores_def)

lemma same_stores_trans: "same_stores a b \<Longrightarrow> same_stores b c \<Longrightarrow> same_stores a c"
  by (simp add: same_stores_def)

lemma quiet_stop [simp]: "same_stores m (bestEffortStopWorkerTask e a t m)"
  by (simp add: same_stores_def bestEffortStopWorkerTask_def Let_def split: option.split)

lemma quiet_stop_old [simp]: "same_stores m (bestEffortStopOldContainer e a t m)"
  by (simp add: bestEffortStopOldContainer_def)

lemma quiet_release [simp]: "same_stores m (release_ports w t m)"
  by (simp add: same_stores_def release_ports_def)

lemma quiet_rollback [simp]: "same_stores m (rollbackAcceptedWorkerTask e a t u b m)"
  using same_stores_trans [OF quiet_release quiet_stop] by (simp add: rollbackAcceptedWorkerTask_def Let_def)

lemma quiet_queue [simp]:
  "same_stores m (enqueuePending te m)" "same_stores m (wake_both m)"
  "same_stores m (snd (removePendingTask i m))" "same_stores m (snd (dequeuePending m))"
  by (simp_all add: same_stores_def enqueuePending_def wake_both_def removePendingTask_def
      dequeuePending_def case_prod_beta)

lemmas quiet_ops = quiet_stop quiet_stop_old quiet_release quiet_rollback quiet_queue

lemmas quiet_stores [simp] = quiet_ops [THEN same_storesD(1)] quiet_ops [THEN same_storesD(2)]
  quiet_ops [THEN same_storesD(3)] quiet_ops [THEN same_storesD(4)] quiet_ops [THEN same_storesD(5)]
  quiet_ops [THEN same_storesD(6)]

text \<open>Who keeps the well-formedness: writes under the record's own key, and every delete.\<close>

lemma mgr_wf_io [simp]:
  assumes "mgr_wf m"
  shows "tID t = i \<Longrightarrow> mgr_wf (m\<lparr>mTaskDb := snd (db_Put i t (mTaskDb m))\<rparr>)"
    and "mgr_wf (m\<lparr>mTaskDb := snd (db_Get i (mTaskDb m))\<rparr>)"
    and "mgr_wf (m\<lparr>mTaskDb := snd (db_List (mTaskDb m))\<rparr>)"
    and "mgr_wf (m\<lparr>mTaskDb := snd (db_Delete i (mTaskDb m))\<rparr>)"
    and "mgr_wf (m\<lparr>mEventDb := snd (db_Put j te (mEventDb m))\<rparr>)"
    and "mgr_wf (m\<lparr>mAssignments := snd (readAssignment i (mAssignments m))\<rparr>)"
    and "mgr_wf (m\<lparr>mAssignments := snd (readAssignmentState i (mAssignments m))\<rparr>)"
    and "mgr_wf (m\<lparr>mAssignments := snd (setAssignment i w (mAssignments m))\<rparr>)"
    and "mgr_wf (m\<lparr>mAssignments := snd (db_Get i (mAssignments m))\<rparr>)"
    and "mgr_wf (m\<lparr>mAssignments := snd (db_Delete i (mAssignments m))\<rparr>)"
  using assms by (auto simp: mgr_wf_def db_Put_view db_Delete_view setAssignment_db split: if_splits)

lemma mgr_wf_restore [simp]:
  assumes "mgr_wf m" "\<And>a. old = Some a \<Longrightarrow> asTaskID a = i"
  shows "mgr_wf (m\<lparr>mAssignments := snd (restoreAssignment i old (mAssignments m))\<rparr>)"
  using assms
  by (cases old) (auto simp: mgr_wf_def restoreAssignment_def db_Put_view db_Delete_view split: if_splits)

section \<open>Acceptance\<close>

text \<open>An operation that only uses the task store, without changing its records.\<close>

definition reads_tasks :: "manager \<Rightarrow> manager \<Rightarrow> bool" where
  "reads_tasks m m' \<longleftrightarrow> (\<exists>d. m' = m\<lparr>mTaskDb := d\<rparr> \<and> db_view d = task_view m
     \<and> (db_wf (mTaskDb m) \<longrightarrow> db_wf d) \<and> (db_healthy (mTaskDb m) \<longrightarrow> db_healthy d)
     \<and> (d = None \<longleftrightarrow> mTaskDb m = None))"

lemma reads_tasks_refl [simp]: "reads_tasks m m"
  unfolding reads_tasks_def by (intro exI [of _ "mTaskDb m"]) simp

lemma reads_tasks_io [simp]:
  "reads_tasks m (m\<lparr>mTaskDb := snd (db_Get i (mTaskDb m))\<rparr>)"
  "reads_tasks m (m\<lparr>mTaskDb := snd (db_List (mTaskDb m))\<rparr>)"
  by (auto simp: reads_tasks_def)

lemma reads_tasks_trans: "reads_tasks a b \<Longrightarrow> reads_tasks b c \<Longrightarrow> reads_tasks a c"
  unfolding reads_tasks_def by auto

lemma reads_tasksD:
  assumes "reads_tasks m m'"
  shows "task_view m' = task_view m" "asg_view m' = asg_view m" "mgr_wf m \<Longrightarrow> mgr_wf m'"
    "mPending m' = mPending m" "mAssignments m' = mAssignments m" "mOutbox m' = mOutbox m"
    "mReservations m' = mReservations m" "mDispatchWaker m' = mDispatchWaker m"
    "mUpdateWaker m' = mUpdateWaker m" "mTaskDb m' = None \<longleftrightarrow> mTaskDb m = None"
    "mEventDb m' = mEventDb m" "db_wf (mTaskDb m) \<Longrightarrow> db_wf (mTaskDb m')"
    "db_healthy (mTaskDb m) \<Longrightarrow> db_healthy (mTaskDb m')"
  using assms by (auto simp: reads_tasks_def mgr_wf_def)

text \<open>A snapshot of the records: each under its own ID, none twice, and all of them while the store works.\<close>

lemma getTasks_records:
  assumes "mgr_wf m" "getTasks m = (ts, m')"
  shows "distinct (map tID ts)" "\<And>t. t \<in> set ts \<Longrightarrow> task_view m (tID t) = Some t"
    "\<And>i t. db_healthy (mTaskDb m) \<Longrightarrow> task_view m i = Some t \<Longrightarrow> t \<in> set ts \<and> tID t = i" "reads_tasks m m'"
proof -
  show "reads_tasks m m'" using assms(2) by (auto simp: getTasks_alt)
  have keyed: "task_view m i = Some t \<Longrightarrow> tID t = i" for i t using assms(1) by (simp add: mgr_wf_def)
  have wf: "db_wf (mTaskDb m)" using assms(1) by (simp add: mgr_wf_def)
  show mem: "task_view m (tID t) = Some t" if t: "t \<in> set ts" for t
  proof -
    obtain vs where "fst (db_List (mTaskDb m)) = Inr vs" "ts = vs"
      using t assms(2) by (auto simp: getTasks_alt split: sum.splits)
    with t db_List_Inr [OF wf] obtain j where "task_view m j = Some t" by (auto simp: ran_def)
    with keyed show ?thesis by auto
  qed
  show "t \<in> set ts \<and> tID t = i" if h: "db_healthy (mTaskDb m)" and t: "task_view m i = Some t" for i t
  proof -
    obtain vs where vs: "fst (db_List (mTaskDb m)) = Inr vs" using db_healthy_List [OF h] ..
    then have "ts = vs" using assms(2) by (simp add: getTasks_alt)
    with db_List_Inr [OF wf vs] t keyed show ?thesis by (auto simp: ran_def)
  qed
  show "distinct (map tID ts)"
  proof (cases "fst (db_List (mTaskDb m))")
    case (Inl err)
    with assms(2) show ?thesis by (simp add: getTasks_alt)
  next
    case (Inr vs)
    with db_List_distinct [OF wf Inr, of tID] keyed assms(2) show ?thesis by (simp add: getTasks_alt)
  qed
qed

lemma name_check_reads: "reads_tasks m (snd (name_check e n m))"
  by (simp add: name_check_def taskNameInUseLocked_def task_io split: sum.split)

lemma accept_task_cases:
  assumes "accept_task e t m = (r, m')"
  shows "r \<noteq> None \<and> reads_tasks m m'
    \<or> r = None \<and> task_view m (tID t) = None \<and>
      (\<exists>m1 m2. reads_tasks m m1 \<and> name_check e (tName t) m1 = (None, m2) \<and>
        db_Put (tID t) (t\<lparr>tState := Pending\<rparr>) (mTaskDb m2) = (None, mTaskDb m') \<and>
        m' = m2\<lparr>mTaskDb := mTaskDb m'\<rparr>)"
proof -
  obtain g where g: "task_Get (tID t) m = (g, m\<lparr>mTaskDb := snd (db_Get (tID t) (mTaskDb m))\<rparr>)"
      "g = fst (db_Get (tID t) (mTaskDb m))" by (simp add: task_io)
  let ?m1 = "m\<lparr>mTaskDb := snd (db_Get (tID t) (mTaskDb m))\<rparr>"
  obtain n m2 where n: "name_check e (tName t) ?m1 = (n, m2)" by (cases "name_check e (tName t) ?m1")
  have r2: "reads_tasks m m2"
    using reads_tasks_trans [OF reads_tasks_io(1) name_check_reads [of ?m1 e "tName t"]] n by simp
  obtain p d where p: "db_Put (tID t) (t\<lparr>tState := Pending\<rparr>) (mTaskDb m2) = (p, d)" by fastforce
  have p': "task_Put (tID t) (t\<lparr>tState := Pending\<rparr>) m2 = (p, m2\<lparr>mTaskDb := d\<rparr>)"
    by (simp add: task_io p)
  have put_err: "reads_tasks m (m2\<lparr>mTaskDb := d\<rparr>)" if "p = Some err" for err
  proof (rule reads_tasks_trans [OF r2])
    show "reads_tasks m2 (m2\<lparr>mTaskDb := d\<rparr>)"
      using p that db_Put_view [of "tID t" "t\<lparr>tState := Pending\<rparr>" "mTaskDb m2"]
        db_None(1) [of "tID t" "t\<lparr>tState := Pending\<rparr>" "mTaskDb m2"]
        db_ops_wf(1) [of "mTaskDb m2" "tID t" "t\<lparr>tState := Pending\<rparr>"]
        db_healthy_ops(1) [of "mTaskDb m2" "tID t" "t\<lparr>tState := Pending\<rparr>"]
      unfolding reads_tasks_def by (intro exI [of _ d]) simp
  qed
  show ?thesis
  proof (cases "mTaskDb m = None")
    case True
    with assms show ?thesis by (auto simp: accept_task_def)
  next
    case False
    show ?thesis
    proof (cases g)
      case (Inr v)
      with assms False have "r \<noteq> None \<and> m' = ?m1"
        by (auto simp: accept_task_def g(1) simp del: not_None_eq)
      then show ?thesis by simp
    next
      case (Inl err)
      show ?thesis
      proof (cases "errors_Is err ErrNotFound")
        case no: False
        with Inl assms False have "r \<noteq> None \<and> m' = ?m1"
          by (auto simp: accept_task_def g(1) simp del: not_None_eq)
        then show ?thesis by simp
      next
        case nf: True
        then have free: "task_view m (tID t) = None"
          using db_Get_NotFound [of "tID t" "mTaskDb m" err] Inl g(2) by simp
        show ?thesis
        proof (cases n)
          case (Some err')
          with assms False Inl nf n have "r \<noteq> None \<and> m' = m2"
            by (auto simp: accept_task_def g(1) simp del: not_None_eq)
          then show ?thesis using r2 by simp
        next
          case None
          show ?thesis
          proof (cases p)
            case (Some err')
            with assms False Inl nf n None have "r \<noteq> None \<and> m' = m2\<lparr>mTaskDb := d\<rparr>"
              by (auto simp: accept_task_def g(1) p' simp del: not_None_eq)
            then show ?thesis using put_err [OF Some] by simp
          next
            case pn: None
            with assms False Inl nf n None have "r = None" "m' = m2\<lparr>mTaskDb := d\<rparr>"
              by (auto simp: accept_task_def g(1) p' simp del: not_None_eq)
            with free n None p pn show ?thesis
              by (intro disjI2 conjI exI [of _ ?m1] exI [of _ m2]) simp_all
          qed
        qed
      qed
    qed
  qed
qed

lemma enqueue_wake [simp]:
  "mPending (wake_both (enqueuePending te m)) = Enqueue (mPending m) te"
  "mReservations (wake_both (enqueuePending te m)) = mReservations m"
  "mOutbox (wake_both (enqueuePending te m)) = mOutbox m"
  "mDispatchWaker (wake_both (enqueuePending te m)) = Wake (mDispatchWaker m)"
  "mUpdateWaker (wake_both (enqueuePending te m)) = Wake (mUpdateWaker m)"
  by (simp_all add: wake_both_def enqueuePending_def)

lemma AddTask_view:
  assumes "AddTask e te m = (r, m')"
  shows "asg_view m' = asg_view m \<and> mReservations m' = mReservations m \<and> mOutbox m' = mOutbox m
    \<and> (r \<noteq> None \<longrightarrow> task_view m' = task_view m \<and> mPending m' = mPending m)
    \<and> (r = None \<longrightarrow> Validate (eExt e) (eTask te) = None \<and> q_items (mPending m') = q_items (mPending m) @ [te]
        \<and> mDispatchWaker m' = Wake (mDispatchWaker m) \<and> mUpdateWaker m' = Wake (mUpdateWaker m)
        \<and> (if eState te = Completed \<or> tState (eTask te) = Completed then task_view m' = task_view m
           else task_view m (tID (eTask te)) = None
             \<and> task_view m' = (task_view m)(tID (eTask te) \<mapsto> (eTask te)\<lparr>tState := Pending\<rparr>)))"
proof (cases "Validate (eExt e) (eTask te)")
  case (Some err)
  with assms have "r = Some err \<and> m' = m" by (simp add: AddTask_def)
  then show ?thesis by simp
next
  case None
  note ok = this
  define start where "start \<longleftrightarrow> eState te \<noteq> Completed \<and> tState (eTask te) \<noteq> Completed"
  obtain r1 m1 where a: "(if start then accept_task e (eTask te) m else (None, m)) = (r1, m1)" by fastforce
  have res: "r = r1 \<and> m' = (if r1 = None then wake_both (enqueuePending te m1) else m1)"
    using assms a None by (auto simp: AddTask_def start_def split: option.splits)
  show ?thesis
  proof (cases start)
    case False
    with a have "r1 = None \<and> m1 = m" by simp
    with res ok False show ?thesis by (auto simp: Enqueue_def start_def)
  next
    case True
    with a have acc: "accept_task e (eTask te) m = (r1, m1)" by simp
    from accept_task_cases [OF this] show ?thesis
    proof (elim disjE conjE exE)
      assume "r1 \<noteq> None" "reads_tasks m m1"
      with res show ?thesis by (simp add: reads_tasksD)
    next
      fix a1 a2
      assume r: "r1 = None" "task_view m (tID (eTask te)) = None" "reads_tasks m a1"
        "name_check e (tName (eTask te)) a1 = (None, a2)"
        "db_Put (tID (eTask te)) ((eTask te)\<lparr>tState := Pending\<rparr>) (mTaskDb a2) = (None, mTaskDb m1)"
        "m1 = a2\<lparr>mTaskDb := mTaskDb m1\<rparr>"
      have r2: "reads_tasks m a2"
        using reads_tasks_trans [OF r(3) name_check_reads [of a1 e "tName (eTask te)"]] r(4) by simp
      have "task_view m1 = (task_view m)(tID (eTask te) \<mapsto> (eTask te)\<lparr>tState := Pending\<rparr>)"
        using db_Put_view [of "tID (eTask te)" "(eTask te)\<lparr>tState := Pending\<rparr>" "mTaskDb a2"] r2
        by (simp add: r(5) reads_tasksD)
      moreover have "asg_view m1 = asg_view m" "mPending m1 = mPending m" "mReservations m1 = mReservations m"
        "mOutbox m1 = mOutbox m"
        "mDispatchWaker m1 = mDispatchWaker m" "mUpdateWaker m1 = mUpdateWaker m"
        using r2 by (subst r(6), simp add: reads_tasksD)+
      ultimately show ?thesis using res r(1,2) ok True by (auto simp: Enqueue_def start_def)
    qed
  qed
qed

lemma AddTask_keyed:
  assumes "AddTask e te m = (r, m')" "\<forall>i t. task_view m i = Some t \<longrightarrow> tID t = i"
  shows "\<forall>i t. task_view m' i = Some t \<longrightarrow> tID t = i"
  using AddTask_view [OF assms(1)] assms(2) by (cases "r = None") (auto split: if_splits)

text \<open>
  C5: submitting an event is all or nothing. A refused submission leaves every record, the queue and
  the reservations as they were. An accepted start was valid and its ID new; it is recorded as
  Pending under its ID and queued behind the earlier events; an accepted stop changes no record.
  Either way both loops are woken.
\<close>

theorem AddTask_atomic:
  assumes "ext_ok (eExt e)" "AddTask e te m = (r, m')"
  shows "asg_view m' = asg_view m \<and> mReservations m' = mReservations m \<and> mOutbox m' = mOutbox m
    \<and> (r \<noteq> None \<longrightarrow> task_view m' = task_view m \<and> mPending m' = mPending m)
    \<and> (r = None \<longrightarrow> task_ok (eTask te) \<and> q_items (mPending m') = q_items (mPending m) @ [te]
        \<and> mDispatchWaker m' = Wake (mDispatchWaker m) \<and> mUpdateWaker m' = Wake (mUpdateWaker m)
        \<and> (if eState te = Completed \<or> tState (eTask te) = Completed then task_view m' = task_view m
           else task_view m (tID (eTask te)) = None
             \<and> task_view m' = (task_view m)(tID (eTask te) \<mapsto> (eTask te)\<lparr>tState := Pending\<rparr>)))"
  using AddTask_view [OF assms(2)] Validate_None [OF assms(1)] by simp

definition demo_env :: menv where
  "demo_env =
     \<lparr>eNow = 100, eFresh = 99, eExt = std_ext, eIdString = (\<lambda>i. itoa (uint i)), eMarshal = (\<lambda>_. None),
      eMaxRestarts = 3, eBackoffBase = 10 * second, eBackoffMax = 300 * second,
      eSched = \<lparr>sePU = \<lparr>fAdd = (\<lambda>a b. a), fSub = (\<lambda>a b. a), fDiv = (\<lambda>a b. a), fPow = (\<lambda>a b. a),
                  fOfInt = (\<lambda>i. 0)\<rparr>, seEpvmMaxJobs = 12, seEpvmMaxSafeCPUUtil = 0x3FECCCCCCCCCCCCD\<rparr>,
      ePorts = (\<lambda>_. Inr \<lparr>StatusCode = 200, Body = Inr \<lparr>occTCP = [], occUDP = []\<rparr>\<rparr>),
      eReach = (\<lambda>_. Inr \<lparr>StatusCode = 200, Body = Inr ()\<rparr>)\<rparr>"

definition demo_manager :: manager where
  "demo_manager =
     \<lparr>mPending = queue_New, mDispatchWaker = NewWaker, mUpdateWaker = NewWaker,
      mTaskDb = Some new_store, mEventDb = Some new_store, mAssignments = Some new_store,
      mReservations = NewReservationTable, mCheckers = newCheckerSet, mBoltDb = False,
      mNodes = [blank_node ''w1:80''], mScheduler = RoundRobin NewRoundRobin, mOutbox = []\<rparr>"

definition demo_task :: task where
  "demo_task = zero_task\<lparr>tID := 7, tName := ''web''\<rparr>"

definition demo_start :: task_event where
  "demo_start = \<lparr>eID = 1, eState = Scheduled, eTimestamp = 0, eTask = demo_task\<rparr>"

lemmas demo_defs = demo_env_def demo_manager_def demo_task_def demo_start_def zero_task_def std_ext_def

lemma demo_valid: "Validate (eExt demo_env) (eTask demo_start) = None"
  using Validate_None [OF std_ext_ok, of "eTask demo_start"]
  by (simp add: demo_defs task_ok_def ports_ok_def)

lemmas eval_manager = demo_defs blank_node_def task_io db_op_defs store_op_defs next_fault_def tick_def
  new_store_def store_view_def

lemma demo_AddTask: "fst (AddTask demo_env demo_start demo_manager) = None"
proof -
  have "fst (accept_task demo_env demo_task demo_manager) = None"
    by (simp add: accept_task_def name_check_def isUUIDLike_def taskNameInUseLocked_def eval_manager)
  then show ?thesis
    unfolding AddTask_def demo_valid
    by (auto simp: demo_start_def split: prod.split option.split)
qed

theorem AddTask_atomic_witness:
  "task_view (snd (AddTask demo_env demo_start demo_manager)) 7 = Some (demo_task\<lparr>tState := Pending\<rparr>)"
proof -
  have x: "ext_ok (eExt demo_env)" by (simp add: demo_env_def std_ext_ok)
  have s: "eState demo_start = Scheduled" "eTask demo_start = demo_task" "tID demo_task = 7"
    "tState demo_task = Pending"
    by (simp_all add: demo_defs)
  from AddTask_atomic [OF x prod.collapse [symmetric], of demo_start demo_manager] demo_AddTask s
  show ?thesis by simp
qed

section \<open>Names\<close>

definition unique_names :: "menv \<Rightarrow> (uuid \<rightharpoonup> task) \<Rightarrow> bool" where
  "unique_names e v \<longleftrightarrow>
     (\<forall>i j t u. v i = Some t \<longrightarrow> v j = Some u \<longrightarrow> tName t = tName u \<longrightarrow> tName t \<noteq> [] \<longrightarrow> i = j)
   \<and> (\<forall>i t. v i = Some t \<longrightarrow> tName t \<noteq> [] \<longrightarrow> \<not> isUUIDLike e (tName t))"

lemma name_check_unique:
  assumes "db_healthy (mTaskDb m)" "db_wf (mTaskDb m)" "name_check e n m = (None, m2)"
  shows "n = [] \<or> \<not> isUUIDLike e n \<and> (\<forall>t\<in>ran (task_view m). tName t \<noteq> n)"
proof -
  obtain vs where vs: "fst (db_List (mTaskDb m)) = Inr vs" using db_healthy_List [OF assms(1)] ..
  have "set vs = ran (task_view m)" using db_List_Inr [OF assms(2) vs] by simp
  with assms(3) vs show ?thesis
    by (auto simp: name_check_def taskNameInUseLocked_def task_io list_ex_iff split: if_splits)
qed

lemma unique_names_insert:
  assumes "unique_names e v"
    and new: "tName t = [] \<or> \<not> isUUIDLike e (tName t) \<and> (\<forall>u\<in>ran v. tName u \<noteq> tName t)"
  shows "unique_names e (v(i \<mapsto> t))"
proof -
  have old: "tName u \<noteq> tName t" if "v j = Some u" "tName t \<noteq> []" for j u
    using new that by (auto simp: ran_def)
  have one: "\<And>j k a b. v j = Some a \<Longrightarrow> v k = Some b \<Longrightarrow> tName a = tName b \<Longrightarrow> tName a \<noteq> [] \<Longrightarrow> j = k"
    and uuid: "\<And>j a. v j = Some a \<Longrightarrow> tName a \<noteq> [] \<Longrightarrow> \<not> isUUIDLike e (tName a)"
    using assms(1) unfolding unique_names_def by blast+
  have "j = k" if ab: "(v(i \<mapsto> t)) j = Some a" "(v(i \<mapsto> t)) k = Some b" "tName a = tName b" "tName a \<noteq> []"
    for j k a b
  proof (cases "j = i")
    case True
    with ab(1) have "a = t" by simp
    with ab(3,4) have t: "tName b = tName t" "tName t \<noteq> []" by metis+
    have "k = i"
    proof (rule ccontr)
      assume "k \<noteq> i"
      with ab(2) have "v k = Some b" by simp
      from old [OF this t(2)] t(1) show False by blast
    qed
    with True show ?thesis by simp
  next
    case j: False
    with ab(1) have va: "v j = Some a" by simp
    show ?thesis
    proof (cases "k = i")
      case True
      with ab(2) have "b = t" by simp
      with ab(3,4) have "tName a = tName t" "tName t \<noteq> []" by metis+
      with old [OF va] show ?thesis by blast
    next
      case False
      with ab(2) have "v k = Some b" by simp
      from one [OF va this ab(3,4)] show ?thesis .
    qed
  qed
  moreover have "\<not> isUUIDLike e (tName a)" if "(v(i \<mapsto> t)) j = Some a" "tName a \<noteq> []" for j a
  proof (cases "j = i")
    case True
    with that have "a = t" by simp
    with new that(2) show ?thesis by blast
  next
    case False
    with that(1) have "v j = Some a" by simp
    from uuid [OF this that(2)] show ?thesis .
  qed
  ultimately show ?thesis unfolding unique_names_def by blast
qed

lemma distinct_le_1: "distinct xs \<Longrightarrow> (\<And>x y. x \<in> set xs \<Longrightarrow> y \<in> set xs \<Longrightarrow> x = y) \<Longrightarrow> length xs \<le> 1"
proof (rule ccontr)
  assume d: "distinct xs" and eq: "\<And>x y. x \<in> set xs \<Longrightarrow> y \<in> set xs \<Longrightarrow> x = y" and "\<not> length xs \<le> 1"
  then have l: "0 < length xs" "1 < length xs" by auto
  have "xs ! 0 = xs ! 1" by (rule eq) (use l in simp_all)
  with nth_eq_iff_index_eq [OF d l] show False by simp
qed

lemma unique_names_resolve:
  assumes "unique_names e v" "\<forall>i t. v i = Some t \<longrightarrow> tID t = i" "set ts = ran v" "distinct (map tID ts)" "ref \<noteq> []"
  shows "\<not> snd (snd (ResolveRef (eExt e) ts ref))"
proof -
  have "length (filter (\<lambda>t. tName t = ref) ts) \<le> 1"
  proof (rule distinct_le_1)
    show "distinct (filter (\<lambda>t. tName t = ref) ts)" using assms(4) by (simp add: distinct_map)
    fix x y assume xy: "x \<in> set (filter (\<lambda>t. tName t = ref) ts)" "y \<in> set (filter (\<lambda>t. tName t = ref) ts)"
    then obtain i j where ij: "v i = Some x" "v j = Some y" using assms(3) by (auto simp: ran_def)
    with xy assms(1,5) have "i = j" unfolding unique_names_def by auto
    with ij show "x = y" by simp
  qed
  then show ?thesis by (simp add: ResolveRef_def name_matches_eq split: option.split)
qed

text \<open>
  C6: while the task store does not fail, submissions keep task names unique, and no task is named
  like a UUID, so that every reference a user gives resolves to at most one task.
\<close>

theorem AddTask_names:
  assumes "mgr_wf m" "db_healthy (mTaskDb m)" "unique_names e (task_view m)"
    and "ext_ok (eExt e)" "AddTask e te m = (r, m')"
  shows "unique_names e (task_view m')
    \<and> (set ts = ran (task_view m') \<longrightarrow> distinct (map tID ts) \<longrightarrow> ref \<noteq> [] \<longrightarrow>
         \<not> snd (snd (ResolveRef (eExt e) ts ref)))"
proof -
  have uniq: "unique_names e (task_view m')"
  proof (cases "r = None \<and> \<not> (eState te = Completed \<or> tState (eTask te) = Completed)")
    case True
    then obtain r1 m1 where acc: "accept_task e (eTask te) m = (None, m1)" "task_view m' = task_view m1"
      using assms(5) by (auto simp: AddTask_def split: option.splits prod.splits)
    from accept_task_cases [OF acc(1)] obtain a1 a2 where
      a: "task_view m (tID (eTask te)) = None" "reads_tasks m a1"
        "name_check e (tName (eTask te)) a1 = (None, a2)"
        "db_Put (tID (eTask te)) ((eTask te)\<lparr>tState := Pending\<rparr>) (mTaskDb a2) = (None, mTaskDb m1)"
      by blast
    have r2: "reads_tasks m a2"
      using reads_tasks_trans [OF a(2) name_check_reads [of a1 e "tName (eTask te)"]] a(3) by simp
    have v: "task_view m1 = (task_view m)(tID (eTask te) \<mapsto> (eTask te)\<lparr>tState := Pending\<rparr>)"
      using db_Put_view [of "tID (eTask te)" "(eTask te)\<lparr>tState := Pending\<rparr>" "mTaskDb a2"] r2
      by (simp add: a(4) reads_tasksD)
    have "db_healthy (mTaskDb a1)" "db_wf (mTaskDb a1)"
      using a(2) assms(1,2) by (auto simp: reads_tasksD mgr_wf_def)
    from name_check_unique [OF this a(3)] show ?thesis
      unfolding acc(2) v using unique_names_insert [OF assms(3)] a(2) by (simp add: reads_tasksD)
  next
    case False
    with AddTask_view [OF assms(5)] assms(3) show ?thesis by (cases "r = None") auto
  qed
  have "\<forall>i t. task_view m' i = Some t \<longrightarrow> tID t = i"
    using AddTask_keyed [OF assms(5)] assms(1) unfolding mgr_wf_def by blast
  with unique_names_resolve [OF uniq] uniq show ?thesis by blast
qed

theorem AddTask_names_witness:
  "unique_names demo_env (task_view (snd (AddTask demo_env demo_start demo_manager)))"
proof -
  have "mgr_wf demo_manager" "db_healthy (mTaskDb demo_manager)"
    "unique_names demo_env (task_view demo_manager)" "ext_ok (eExt demo_env)"
    by (simp_all add: demo_manager_def mgr_wf_def task_view_def asg_view_def db_healthy_def new_store_def
        unique_names_def store_view_def store_wf_def al_wf_def demo_env_def std_ext_ok)
  from AddTask_names [OF this prod.collapse [symmetric]] show ?thesis by blast
qed

end
