(* ===== verification/Lifecycle.thy ===== *)
theory Lifecycle
  imports Managers
begin

text \<open>
  What deletion and start-up promise: \<open>deleteTask\<close> of \<open>manager/records.go\<close> leaves no trace of a task,
  and \<open>reconcileOnStartup\<close> of \<open>manager/manager.go\<close> queues exactly the accepted tasks that were not
  dispatched and claims the ports of the others.
\<close>

section \<open>Deletion\<close>

lemma removePendingTask_items [simp]:
  "q_items (mPending (snd (removePendingTask i m))) = filter (\<lambda>te. tID (eTask te) \<noteq> i) (q_items (mPending m))"
  by (simp add: removePendingTask_def RemoveAllFunc_eq)

lemma removePendingTask_frame [simp]:
  "mReservations (snd (removePendingTask i m)) = mReservations m"
  "mOutbox (snd (removePendingTask i m)) = mOutbox m"
  by (simp_all add: removePendingTask_def case_prod_beta)

lemma release_ports_frame [simp]:
  "mPending (release_ports w t m) = mPending m" "mOutbox (release_ports w t m) = mOutbox m"
  "mReservations (release_ports w t m) = Release w t (mReservations m)"
  by (simp_all add: release_ports_def)

lemma bestEffort_frame [simp]:
  "mPending (bestEffortStopWorkerTask e a t m) = mPending m"
  "mReservations (bestEffortStopWorkerTask e a t m) = mReservations m"
  "mPending (bestEffortStopOldContainer e a t m) = mPending m"
  "mReservations (bestEffortStopOldContainer e a t m) = mReservations m"
  by (simp_all add: bestEffortStopWorkerTask_def bestEffortStopOldContainer_def Let_def split: option.split)

lemma drop_assignment_frame:
  assumes "drop_assignment i m = (w, m')"
  shows "task_view m' = task_view m" "mPending m' = mPending m" "mReservations m' = mReservations m"
    "mOutbox m' = mOutbox m" "mTaskDb m' = mTaskDb m"
  using assms by (auto simp: drop_assignment_def split: prod.splits if_splits)

lemma drop_assignment_healthy:
  assumes "drop_assignment i m = (w, m')" "db_healthy (mAssignments m)"
  shows "asg_view m' = (asg_view m)(i := None)"
    and "w = (case asg_view m i of None \<Rightarrow> [] | Some a \<Rightarrow> asWorker a)"
proof -
  have "mAssignments m \<noteq> None" using assms(2) by simp
  then have d: "w = (case fst (db_Get i (mAssignments m)) of Inl err \<Rightarrow> [] | Inr a \<Rightarrow> asWorker a)"
      "m' = m\<lparr>mAssignments := snd (db_Delete i (snd (db_Get i (mAssignments m))))\<rparr>"
    using assms(1) by (auto simp: drop_assignment_def split: prod.splits)
  have "fst (db_Delete i (snd (db_Get i (mAssignments m)))) = None" using assms(2) by simp
  then show "asg_view m' = (asg_view m)(i := None)" by (simp add: d(2) db_Delete_view)
  show "w = (case asg_view m i of None \<Rightarrow> [] | Some a \<Rightarrow> asWorker a)"
    using db_healthy_Get [OF assms(2), of i] by (simp add: d(1) split: option.split)
qed

lemma drop_assignment_wf: "mgr_wf m \<Longrightarrow> mgr_wf (snd (drop_assignment i m))"
proof -
  assume "mgr_wf m"
  then have "mgr_wf (m\<lparr>mAssignments := snd (db_Get i (mAssignments m))\<rparr>)" by simp
  from mgr_wf_io(10) [OF this, of i] show ?thesis
    using \<open>mgr_wf m\<close> by (simp add: drop_assignment_def case_prod_beta)
qed

text \<open>The part of \<open>deleteTask\<close> after the record is gone.\<close>

definition delete_rest :: "menv \<Rightarrow> task \<Rightarrow> manager \<Rightarrow> manager" where
  "delete_rest e t m =
     (let (owner, m) = drop_assignment (tID t) m;
          m = snd (removePendingTask (tID t) m);
          m = (if owner \<noteq> [] then release_ports owner t m else m)
      in if tState t = Failed \<and> tContainerID t \<noteq> [] \<and> owner \<noteq> []
         then bestEffortStopOldContainer e owner t m else m)"

lemma deleteTask_alt:
  "deleteTask e t m =
     (if mTaskDb m = None then (Some (errorf ''task db is nil''), m)
      else case task_Delete (tID t) m of
        (Some err, m) \<Rightarrow> (Some err, m)
      | (None, m) \<Rightarrow> (None, delete_rest e t m))"
  by (simp add: deleteTask_def delete_rest_def Let_def case_prod_beta split: option.split)

lemma delete_rest_effect:
  assumes "drop_assignment (tID t) m = (w, m1)"
  shows "task_view (delete_rest e t m) = task_view m"
    and "asg_view (delete_rest e t m) = asg_view m1"
    and "q_items (mPending (delete_rest e t m)) = filter (\<lambda>te. tID (eTask te) \<noteq> tID t) (q_items (mPending m))"
    and "mReservations (delete_rest e t m) = (if w = [] then mReservations m else Release w t (mReservations m))"
    and "w = [] \<Longrightarrow> mOutbox (delete_rest e t m) = mOutbox m"
    and "w \<noteq> [] \<Longrightarrow> tState t = Failed \<Longrightarrow> tContainerID t \<noteq> [] \<Longrightarrow> tID t \<noteq> uuid_Nil \<Longrightarrow>
          eMarshal e (stop_event e t) = None \<Longrightarrow>
          mOutbox (delete_rest e t m) = mOutbox m @ [PostTask w (stop_event e t)]"
proof -
  note frame = drop_assignment_frame [OF assms]
  show "task_view (delete_rest e t m) = task_view m"
    "asg_view (delete_rest e t m) = asg_view m1"
    "q_items (mPending (delete_rest e t m)) = filter (\<lambda>te. tID (eTask te) \<noteq> tID t) (q_items (mPending m))"
    "mReservations (delete_rest e t m) = (if w = [] then mReservations m else Release w t (mReservations m))"
    by (simp_all add: delete_rest_def assms frame Let_def)
  show "w = [] \<Longrightarrow> mOutbox (delete_rest e t m) = mOutbox m"
    by (simp add: delete_rest_def assms frame)
  show "w \<noteq> [] \<Longrightarrow> tState t = Failed \<Longrightarrow> tContainerID t \<noteq> [] \<Longrightarrow> tID t \<noteq> uuid_Nil \<Longrightarrow>
      eMarshal e (stop_event e t) = None \<Longrightarrow>
      mOutbox (delete_rest e t m) = mOutbox m @ [PostTask w (stop_event e t)]"
    by (simp add: delete_rest_def assms frame Let_def bestEffortStopOldContainer_def bestEffortStopWorkerTask_def)
qed

lemma deleteTask_refused:
  assumes "deleteTask e t m = (r, m')" "r \<noteq> None"
  shows "task_view m' = task_view m" "asg_view m' = asg_view m" "mPending m' = mPending m"
    "mReservations m' = mReservations m" "mOutbox m' = mOutbox m"
  using assms by (auto simp: deleteTask_alt task_io db_Delete_view task_view_def simp del: db_view_task split: option.splits if_splits)

lemma deleteTask_runs:
  assumes "deleteTask e t m = (None, m')"
  obtains m0 w m1 where "m' = delete_rest e t m0" "drop_assignment (tID t) m0 = (w, m1)"
    "task_view m0 = (task_view m)(tID t := None)" "asg_view m0 = asg_view m" "mPending m0 = mPending m"
    "mReservations m0 = mReservations m" "mOutbox m0 = mOutbox m" "mAssignments m0 = mAssignments m"
proof -
  define m0 where "m0 = m\<lparr>mTaskDb := snd (db_Delete (tID t) (mTaskDb m))\<rparr>"
  have d: "task_Delete (tID t) m = (fst (db_Delete (tID t) (mTaskDb m)), m0)" by (simp add: task_io m0_def)
  have n: "fst (db_Delete (tID t) (mTaskDb m)) = None" "m' = delete_rest e t m0"
    using assms by (auto simp: deleteTask_alt d simp del: not_None_eq split: if_splits option.splits)
  obtain w m1 where "drop_assignment (tID t) m0 = (w, m1)" by fastforce
  with n that show ?thesis by (simp add: m0_def db_Delete_view)
qed

lemma deleteTask_effect:
  assumes "deleteTask e t m = (None, m')"
  shows "task_view m' = (task_view m)(tID t := None)"
    "q_items (mPending m') = filter (\<lambda>te. tID (eTask te) \<noteq> tID t) (q_items (mPending m))"
    "db_healthy (mAssignments m) \<Longrightarrow> asg_view m' = (asg_view m)(tID t := None)"
proof -
  obtain m0 w m1 where 0: "m' = delete_rest e t m0" "drop_assignment (tID t) m0 = (w, m1)"
    "task_view m0 = (task_view m)(tID t := None)" "asg_view m0 = asg_view m" "mPending m0 = mPending m"
    "mReservations m0 = mReservations m" "mOutbox m0 = mOutbox m" "mAssignments m0 = mAssignments m"
    by (rule deleteTask_runs [OF assms])
  note eff = delete_rest_effect [OF 0(2), of e]
  show "task_view m' = (task_view m)(tID t := None)"
    "q_items (mPending m') = filter (\<lambda>te. tID (eTask te) \<noteq> tID t) (q_items (mPending m))"
    using eff(1,3) 0 by simp_all
  show "asg_view m' = (asg_view m)(tID t := None)" if "db_healthy (mAssignments m)"
    using drop_assignment_healthy(1) [OF 0(2)] that eff(2) 0 by simp
qed

lemma deleteTask_owner:
  assumes "deleteTask e t m = (None, m')" "db_healthy (mAssignments m)" "asg_view m (tID t) = Some a" "asWorker a \<noteq> []"
  shows "k \<in> set (requestedPortKeys (Some t)) \<Longrightarrow> rt_locks (mReservations m') (asWorker a) k \<noteq> Some (tID t)"
    "tState t = Failed \<Longrightarrow> tContainerID t \<noteq> [] \<Longrightarrow> tID t \<noteq> uuid_Nil \<Longrightarrow> eMarshal e (stop_event e t) = None
       \<Longrightarrow> mOutbox m' = mOutbox m @ [PostTask (asWorker a) (stop_event e t)]"
proof -
  obtain m0 w m1 where 0: "m' = delete_rest e t m0" "drop_assignment (tID t) m0 = (w, m1)"
    "task_view m0 = (task_view m)(tID t := None)" "asg_view m0 = asg_view m" "mPending m0 = mPending m"
    "mReservations m0 = mReservations m" "mOutbox m0 = mOutbox m" "mAssignments m0 = mAssignments m"
    by (rule deleteTask_runs [OF assms(1)])
  note eff = delete_rest_effect [OF 0(2), of e]
  have w: "w = asWorker a" using drop_assignment_healthy(2) [OF 0(2)] assms(2-4) 0 by simp
  show "rt_locks (mReservations m') (asWorker a) k \<noteq> Some (tID t)" if "k \<in> set (requestedPortKeys (Some t))"
    using that assms(4) w 0 eff(4) by (simp add: rt.release_locks)
  show "mOutbox m' = mOutbox m @ [PostTask (asWorker a) (stop_event e t)]"
    if "tState t = Failed" "tContainerID t \<noteq> []" "tID t \<noteq> uuid_Nil" "eMarshal e (stop_event e t) = None"
    using eff(6) that assms(4) w 0 by simp
qed

text \<open>
  C32: deleting a task is all or nothing on its record. When it succeeds the record is gone, no
  queued event of the task is left and the others keep their order; and, when the assignments can be
  read, so is the assignment, the ports the task claimed on its worker are released, and the
  container of a failed task is told to stop.
\<close>

theorem deleteTask_complete:
  assumes "deleteTask e t m = (r, m')"
  shows "(r \<noteq> None \<longrightarrow> task_view m' = task_view m \<and> asg_view m' = asg_view m \<and> mPending m' = mPending m
        \<and> mReservations m' = mReservations m \<and> mOutbox m' = mOutbox m)
    \<and> (r = None \<longrightarrow> task_view m' = (task_view m)(tID t := None)
        \<and> q_items (mPending m') = filter (\<lambda>te. tID (eTask te) \<noteq> tID t) (q_items (mPending m)))
    \<and> (r = None \<longrightarrow> db_healthy (mAssignments m) \<longrightarrow>
        asg_view m' = (asg_view m)(tID t := None)
        \<and> (\<forall>a. asg_view m (tID t) = Some a \<longrightarrow> asWorker a \<noteq> [] \<longrightarrow>
            (\<forall>k\<in>set (requestedPortKeys (Some t)). rt_locks (mReservations m') (asWorker a) k \<noteq> Some (tID t))
            \<and> (tState t = Failed \<longrightarrow> tContainerID t \<noteq> [] \<longrightarrow> tID t \<noteq> uuid_Nil \<longrightarrow>
                eMarshal e (stop_event e t) = None \<longrightarrow>
                mOutbox m' = mOutbox m @ [PostTask (asWorker a) (stop_event e t)])))"
proof (cases r)
  case (Some err)
  with deleteTask_refused [OF assms] show ?thesis by simp
next
  case None
  note del = deleteTask_effect [OF assms [unfolded None]]
  show ?thesis using None del deleteTask_owner [OF assms [unfolded None]] by auto
qed

theorem deleteTask_complete_witness:
  "task_view (snd (deleteTask demo_env demo_task (demo_manager\<lparr>mTaskDb := Some \<lparr>st_data = [(7, demo_task)], st_faults = []\<rparr>\<rparr>))) 7 = None"
proof -
  let ?m = "demo_manager\<lparr>mTaskDb := Some \<lparr>st_data = [(7, demo_task)], st_faults = []\<rparr>\<rparr>"
  have "fst (deleteTask demo_env demo_task ?m) = None"
    by (simp add: deleteTask_alt eval_manager)
  with deleteTask_complete [OF prod.collapse [symmetric], of demo_env demo_task ?m]
  have "task_view (snd (deleteTask demo_env demo_task ?m)) = (task_view ?m)(tID demo_task := None)" by blast
  then show ?thesis by (simp add: demo_task_def)
qed

section \<open>Start-up\<close>

lemma reconcile_one_effect:
  "task_view (reconcile_one e fresh t m) = task_view m"
  "asg_view (reconcile_one e fresh t m) = asg_view m"
  "mTaskDb (reconcile_one e fresh t m) = mTaskDb m"
  "db_wf (mAssignments (reconcile_one e fresh t m)) = db_wf (mAssignments m)"
  "mOutbox (reconcile_one e fresh t m) = mOutbox m"
  "q_items (mPending (reconcile_one e fresh t m)) = q_items (mPending m) @
     (if tState t = Pending
      then [\<lparr>eID = fresh (tID t), eState = Scheduled, eTimestamp = eNow e, eTask = t\<rparr>] else [])"
  by (simp_all add: reconcile_one_def enqueuePending_def Enqueue_def task_io)

text \<open>Start-up only adds reservations: what one task claimed no other takes over.\<close>

lemma reconcile_one_locks:
  "rt_locks (mReservations m) w k = Some i \<Longrightarrow> rt_locks (mReservations (reconcile_one e fresh t m)) w k = Some i"
  by (simp add: reconcile_one_def enqueuePending_def task_io rt.reserve_keeps)

lemma fold_reconcile:
  "task_view (fold (reconcile_one e fresh) ts m) = task_view m"
  "asg_view (fold (reconcile_one e fresh) ts m) = asg_view m"
  "q_items (mPending (fold (reconcile_one e fresh) ts m)) = q_items (mPending m) @
     map (\<lambda>t. \<lparr>eID = fresh (tID t), eState = Scheduled, eTimestamp = eNow e, eTask = t\<rparr>)
       (filter (\<lambda>t. tState t = Pending) ts)"
  by (induction ts arbitrary: m) (simp_all add: reconcile_one_effect)

lemma fold_reconcile_locks:
  "rt_locks (mReservations m) w k = Some i \<Longrightarrow>
     rt_locks (mReservations (fold (reconcile_one e fresh) ts m)) w k = Some i"
  by (induction ts arbitrary: m) (simp_all add: reconcile_one_locks)

lemma reconcile_healthy: "db_healthy (mAssignments m) \<Longrightarrow> db_healthy (mAssignments (reconcile_one e fresh t m))"
  by (simp add: reconcile_one_def enqueuePending_def task_io readAssignment_alt)

lemma fold_reconcile_healthy:
  "db_healthy (mAssignments m) \<Longrightarrow> db_healthy (mAssignments (fold (reconcile_one e fresh) ts m))"
  by (induction ts arbitrary: m) (simp_all add: reconcile_healthy)

text \<open>A recovered task's ports are held at its worker afterwards, by it or by an earlier claimant.\<close>

lemma reconcile_one_claims:
  assumes "db_healthy (mAssignments m)" "tState t \<in> {Running, Scheduled}"
    and "asg_view m (tID t) = Some a" "asWorker a \<noteq> []" "k \<in> set (requestedPortKeys (Some t))"
  shows "(\<exists>k'\<in>set (requestedPortKeys (Some t)). \<exists>i. i \<noteq> tID t
            \<and> rt_locks (mReservations (reconcile_one e fresh t m)) (asWorker a) k' = Some i)
    \<or> rt_locks (mReservations (reconcile_one e fresh t m)) (asWorker a) k = Some (tID t)"
proof -
  have own: "fst (readAssignment (tID t) (mAssignments m)) = asWorker a"
    using db_healthy_Get [OF assms(1), of "tID t"] assms(3) by (simp add: readAssignment_alt)
  have pin: "hasPinnedHostPorts (Some t)" using assms(5) requestedPortKeys_Nil [of "Some t"] by fastforce
  let ?w = "asWorker a"
  have res: "mReservations (reconcile_one e fresh t m) = snd (TryReserve ?w t (mReservations m))"
    using assms(2,4) own pin by (auto simp: reconcile_one_def task_io)
  show ?thesis
  proof (cases "fst (TryReserve ?w t (mReservations m))")
    case True
    with assms(5) show ?thesis by (simp add: res rt.reserve_locks)
  next
    case False
    then have "Conflicts ?w t True (mReservations m)" by (simp add: rt.reserve_iff)
    then obtain k' i where "k' \<in> set (requestedPortKeys (Some t))" "i \<noteq> tID t"
        "rt_locks (mReservations m) ?w k' = Some i" by (auto simp: rt.conflicts_iff)
    then show ?thesis using rt.reserve_refused [OF False] by (auto simp: res)
  qed
qed

lemma fold_reconcile_claims:
  assumes "t \<in> set ts" "db_healthy (mAssignments m)" "tState t \<in> {Running, Scheduled}"
    and "asg_view m (tID t) = Some a" "asWorker a \<noteq> []" "k \<in> set (requestedPortKeys (Some t))"
  shows "(\<exists>k'\<in>set (requestedPortKeys (Some t)). \<exists>i. i \<noteq> tID t
            \<and> rt_locks (mReservations (fold (reconcile_one e fresh) ts m)) (asWorker a) k' = Some i)
    \<or> rt_locks (mReservations (fold (reconcile_one e fresh) ts m)) (asWorker a) k = Some (tID t)"
  using assms(1,2,4)
proof (induction ts arbitrary: m)
  case (Cons u ts)
  let ?m = "reconcile_one e fresh u m"
  have h: "db_healthy (mAssignments ?m)" "asg_view ?m (tID t) = Some a"
    using Cons.prems by (simp_all add: reconcile_healthy reconcile_one_effect)
  show ?case
  proof (cases "u = t")
    case True
    from reconcile_one_claims [OF Cons.prems(2) assms(3) Cons.prems(3) assms(5,6), of e fresh]
    show ?thesis unfolding True by (simp only: fold_simps) (blast dest: fold_reconcile_locks)
  next
    case False
    with Cons.prems have "t \<in> set ts" by simp
    from Cons.IH [OF this h] show ?thesis by simp
  qed
qed simp

text \<open>
  C33: when the stores can be read at start-up, every task that was accepted but not dispatched is
  queued once, in key order, and nothing else is queued; no task record changes; and each Running or
  Scheduled task with a recorded worker holds its pinned ports there, unless another recovered task
  already claimed one of them.
\<close>

theorem startup_recovers:
  assumes "mgr_wf m" "db_healthy (mTaskDb m)" "db_healthy (mAssignments m)"
    and "reconcileOnStartup e fresh m = (r, m')"
  shows "r = None \<and> task_view m' = task_view m
    \<and> (\<exists>ts. set ts = ran (task_view m) \<and> fst (db_List (mTaskDb m)) = Inr ts
        \<and> map eTask (drop (length (q_items (mPending m))) (q_items (mPending m')))
            = filter (\<lambda>t. tState t = Pending) ts)
    \<and> (\<forall>t a. t \<in> ran (task_view m) \<longrightarrow> tState t \<in> {Running, Scheduled} \<longrightarrow>
        asg_view m (tID t) = Some a \<longrightarrow> asWorker a \<noteq> [] \<longrightarrow>
        (\<forall>k\<in>set (requestedPortKeys (Some t)). rt_locks (mReservations m') (asWorker a) k = Some (tID t))
        \<or> (\<exists>k\<in>set (requestedPortKeys (Some t)). \<exists>i. i \<noteq> tID t
            \<and> rt_locks (mReservations m') (asWorker a) k = Some i))"
proof -
  obtain ts where ts: "fst (db_List (mTaskDb m)) = Inr ts" using db_healthy_List [OF assms(2)] ..
  have set_ts: "set ts = ran (task_view m)"
    using db_List_Inr [OF _ ts] assms(1) by (simp add: mgr_wf_def)
  define m0 where "m0 = m\<lparr>mTaskDb := snd (db_List (mTaskDb m))\<rparr>"
  have m0: "task_view m0 = task_view m" "asg_view m0 = asg_view m" "mPending m0 = mPending m"
      "db_healthy (mAssignments m0)"
    using assms(3) by (simp_all add: m0_def)
  let ?f = "fold (reconcile_one e fresh) ts m0"
  have res: "r = None" "m' = ?f\<lparr>mAssignments := sweepOrphanedAssignments (map tID ts) (mAssignments ?f)\<rparr>"
    using assms(4) by (simp_all add: reconcileOnStartup_def task_io ts m0_def Let_def)
  have "map eTask (drop (length (q_items (mPending m))) (q_items (mPending m'))) = filter (\<lambda>t. tState t = Pending) ts"
    by (simp add: res(2) fold_reconcile m0(3) comp_def)
  moreover have "(\<forall>k\<in>set (requestedPortKeys (Some t)). rt_locks (mReservations m') (asWorker a) k = Some (tID t))
        \<or> (\<exists>k\<in>set (requestedPortKeys (Some t)). \<exists>i. i \<noteq> tID t
            \<and> rt_locks (mReservations m') (asWorker a) k = Some i)"
    if "t \<in> ran (task_view m)" "tState t \<in> {Running, Scheduled}" "asg_view m (tID t) = Some a" "asWorker a \<noteq> []"
    for t a
    using fold_reconcile_claims [of t ts m0 a _ e fresh] that m0 set_ts by (simp add: res(2)) blast
  ultimately show ?thesis using res ts set_ts by (simp add: fold_reconcile m0)
qed

definition restart_manager :: manager where
  "restart_manager = demo_manager\<lparr>mTaskDb := Some \<lparr>st_data = [(7, demo_task)], st_faults = []\<rparr>\<rparr>"

theorem startup_recovers_witness:
  "\<exists>te. q_items (mPending (snd (reconcileOnStartup demo_env (\<lambda>i. i) restart_manager))) = [te] \<and> eTask te = demo_task"
proof -
  have "mgr_wf restart_manager" "db_healthy (mTaskDb restart_manager)" "db_healthy (mAssignments restart_manager)"
    by (simp_all add: restart_manager_def demo_manager_def mgr_wf_def task_view_def asg_view_def db_healthy_def
        new_store_def store_view_def store_wf_def al_wf_def demo_task_def)
  from startup_recovers [OF this prod.collapse [symmetric], of demo_env "\<lambda>i. i"]
  obtain ts where ts: "fst (db_List (mTaskDb restart_manager)) = Inr ts"
    "map eTask (drop (length (q_items (mPending restart_manager)))
       (q_items (mPending (snd (reconcileOnStartup demo_env (\<lambda>i. i) restart_manager))))) = filter (\<lambda>t. tState t = Pending) ts"
    by blast
  have "ts = [demo_task]" using ts(1) by (simp add: restart_manager_def eval_manager)
  moreover have "length (q_items (mPending restart_manager)) = 0"
    by (simp add: restart_manager_def demo_manager_def queue_New_def)
  moreover have "tState demo_task = Pending" by (simp add: demo_defs)
  ultimately show ?thesis using ts(2) by (auto simp: map_eq_Cons_conv)
qed

end
