(* ===== verification/Placement.thy ===== *)
theory Placement
  imports Managers
begin

text \<open>
  Worker placement, \<open>manager/scheduling.go\<close>: the candidates the scheduler offers, filtered by the
  workers' port inventories and the reservation table, scored, picked and reserved under the table's
  lock; and the classification of failures into transient and final ones.
\<close>

definition statsPending :: "manager \<Rightarrow> bool" where
  "statsPending m \<longleftrightarrow> \<not> list_ex HasStats (mNodes m)"

text \<open>All workers are probed concurrently; the answer is whether any of them answered.\<close>

definition clusterUnreachable :: "menv \<Rightarrow> manager \<Rightarrow> bool" where
  "clusterUnreachable e m \<longleftrightarrow> \<not> list_ex (\<lambda>n. Reachable (eReach e (nAddress n))) (mNodes m)"

definition fetchWorkerPorts :: "menv \<Rightarrow> node \<Rightarrow> gerror + occupied_ports" where
  "fetchWorkerPorts e n = GetPorts n (ePorts e (nAddress n))"

text \<open>One turn of the candidate loop: whether the candidate stays.\<close>

definition admits :: "menv \<Rightarrow> task \<Rightarrow> string \<Rightarrow> reservation_table \<Rightarrow> node \<Rightarrow> bool" where
  "admits e t selfOwner rt c =
     (let excludeOwnPorts = (selfOwner \<noteq> [] \<and> nAddress c = selfOwner) in
      if hasPinnedHostPorts (Some t) \<and>
         (case fetchWorkerPorts e c of
            Inl err \<Rightarrow> True
          | Inr occ \<Rightarrow> \<not> canHost (Some t) (Some occ) excludeOwnPorts)
      then False
      else \<not> conflictsLocked (nAddress c) t False rt)"

text \<open>The messages of the ways to fail.\<close>

definition no_candidates :: "menv \<Rightarrow> task \<Rightarrow> gerror" where
  "no_candidates e t =
     errorf (''no available candidates match resource requests for task '' @ eIdString e (tID t))"

definition none_can_host :: "menv \<Rightarrow> task \<Rightarrow> gerror" where
  "none_can_host e t =
     errorf (''no worker can host task '' @ eIdString e (tID t)
       @ '': every candidate has a conflicting or unavailable host port'')"

definition unscoreable :: "menv \<Rightarrow> task \<Rightarrow> gerror" where
  "unscoreable e t =
     errorf (''no candidate able to host task '' @ eIdString e (tID t) @ '' (all unscoreable)'')"

definition lost_race :: "menv \<Rightarrow> task \<Rightarrow> node \<Rightarrow> gerror" where
  "lost_race e t n =
     errorf (''lost race reserving host ports for task '' @ eIdString e (tID t) @ '' on '' @ nAddress n)"

definition selectWorkerLocked :: "menv \<Rightarrow> task \<Rightarrow> string \<Rightarrow> manager \<Rightarrow> (gerror + node) \<times> manager" where
  "selectWorkerLocked e t selfOwner m =
     (case ValidatePortMappings (eExt e) (tPorts t) of
        Some err \<Rightarrow> (Inl err, m)
      | None \<Rightarrow>
          (let candidates = SelectCandidateNodes (mScheduler m) t (mNodes m) in
           if candidates = [] then (Inl (no_candidates e t), m)
           else let able = filter (admits e t selfOwner (mReservations m)) candidates in
           if able = [] then (Inl (none_can_host e t), m)
           else case Score (eSched e) t able (mScheduler m) of
             (scores, s) \<Rightarrow>
               (case Pick s scores able of
                  None \<Rightarrow> (Inl (unscoreable e t), m\<lparr>mScheduler := s\<rparr>)
                | Some n \<Rightarrow> (Inr n, m\<lparr>mScheduler := s\<rparr>))))"

definition SelectWorker :: "menv \<Rightarrow> task \<Rightarrow> manager \<Rightarrow> (gerror + node) \<times> manager" where
  "SelectWorker e t m = selectWorkerLocked e t [] m"

text \<open>The restart branch: keep the owning worker if it can still host the task.\<close>

definition reserve_owner :: "menv \<Rightarrow> task \<Rightarrow> string \<Rightarrow> manager \<Rightarrow> (node \<times> manager) option" where
  "reserve_owner e t owner m =
     (if owner = [] then None
      else case workerByAddress owner m of
        None \<Rightarrow> None
      | Some ownerNode \<Rightarrow>
          if conflictsLocked owner t True (mReservations m) then None
          else if \<not> hasPinnedHostPorts (Some t) then Some (ownerNode, m)
          else case fetchWorkerPorts e ownerNode of
            Inl err \<Rightarrow> None
          | Inr occ \<Rightarrow>
              if canHost (Some t) (Some occ) True then
                (case tryReserveLocked owner t (mReservations m) of
                   (ok, rt) \<Rightarrow> if ok then Some (ownerNode, m\<lparr>mReservations := rt\<rparr>) else None)
              else None)"

definition select_and_reserve :: "menv \<Rightarrow> task \<Rightarrow> string \<Rightarrow> manager \<Rightarrow> (gerror + node) \<times> manager" where
  "select_and_reserve e t owner m =
     (case reserve_owner e t owner m of
        Some (n, m) \<Rightarrow> (Inr n, m)
      | None \<Rightarrow>
          (case selectWorkerLocked e t [] m of
             (Inl err, m) \<Rightarrow> (Inl err, m)
           | (Inr n, m) \<Rightarrow>
               (case tryReserveLocked (nAddress n) t (mReservations m) of
                  (ok, rt) \<Rightarrow>
                    if ok then (Inr n, m\<lparr>mReservations := rt\<rparr>)
                    else (Inl (lost_race e t n), m\<lparr>mReservations := rt\<rparr>))))"

definition stats_not_collected :: "gerror \<Rightarrow> gerror" where
  "stats_not_collected err =
     GErr (''worker stats have not been collected yet: '' @ err_msg err) [ErrStatsNotCollected]"

definition cluster_unreachable :: "gerror \<Rightarrow> gerror" where
  "cluster_unreachable err = GErr (''no worker is reachable: '' @ err_msg err) [ErrClusterUnreachable]"

definition selectAndReserveWorker :: "menv \<Rightarrow> task \<Rightarrow> string \<Rightarrow> manager \<Rightarrow> (gerror + node) \<times> manager" where
  "selectAndReserveWorker e t owner m =
     (case ValidatePortMappings (eExt e) (tPorts t) of
        Some err \<Rightarrow> (Inl err, m)
      | None \<Rightarrow>
          (case select_and_reserve e t owner m of
             (Inr n, m) \<Rightarrow> (Inr n, m)
           | (Inl selErr, m) \<Rightarrow>
               if statsPending m then (Inl (stats_not_collected selErr), m)
               else if clusterUnreachable e m then (Inl (cluster_unreachable selErr), m)
               else (Inl selErr, m)))"

section \<open>Lemmas\<close>

lemma same_scheduler: "\<exists>s. m = m\<lparr>mScheduler := s\<rparr>"
  by (rule exI [of _ "mScheduler m"]) simp

lemma selectWorkerLocked_frame: "\<exists>s. snd (selectWorkerLocked e t own m) = m\<lparr>mScheduler := s\<rparr>"
  using same_scheduler [of m]
  by (simp add: selectWorkerLocked_def Let_def case_prod_beta split: option.split) blast

lemma workerByAddress_Some: "workerByAddress a m = Some n \<Longrightarrow> n \<in> set (mNodes m) \<and> nAddress n = a"
  by (auto simp: workerByAddress_def find_Some_iff)

lemma Score_same_kind: "Score x t ns s = (sc, s') \<Longrightarrow> skips s' = skips s \<and> Pick s' = Pick s"
  by (cases s) (auto simp: Score_def skips_def Pick_def rr_Score_def Let_def fun_eq_iff)

lemma selectWorkerLocked_Inr:
  assumes "selectWorkerLocked e t own m = (Inr n, m')"
  defines "able \<equiv> filter (admits e t own (mReservations m)) (SelectCandidateNodes (mScheduler m) t (mNodes m))"
  shows "n \<in> set able" "n \<in> set (mNodes m)" "admits e t own (mReservations m) n"
    and "\<not> skips (mScheduler m) (score_of (fst (Score (eSched e) t able (mScheduler m))) n)"
    and "\<And>c. c \<in> set able \<Longrightarrow> \<not> skips (mScheduler m) (score_of (fst (Score (eSched e) t able (mScheduler m))) c) \<Longrightarrow>
          \<not> f_lt (score_of (fst (Score (eSched e) t able (mScheduler m))) c)
              (score_of (fst (Score (eSched e) t able (mScheduler m))) n)"
proof -
  let ?sc = "fst (Score (eSched e) t able (mScheduler m))"
  obtain sc s where s: "Score (eSched e) t able (mScheduler m) = (sc, s)" by fastforce
  have "ValidatePortMappings (eExt e) (tPorts t) = None" "able \<noteq> []"
    "SelectCandidateNodes (mScheduler m) t (mNodes m) \<noteq> []"
    using assms(1) unfolding able_def
    by (auto simp: selectWorkerLocked_def Let_def simp del: filter_empty_conv split: option.splits if_splits)
  then have "Pick s sc able = Some n"
    using assms(1)
    by (auto simp: selectWorkerLocked_def Let_def s able_def [symmetric] split: option.splits)
  then have pick: "Pick (mScheduler m) ?sc able = Some n" using Score_same_kind [OF s] by (simp add: s)
  then have "Pick (mScheduler m) ?sc (filter (admits e t own (mReservations m))
      (SelectCandidateNodes (mScheduler m) t (mNodes m))) = Some n" by (simp add: able_def)
  from sched.pick_usable [OF this] show "n \<in> set able" "n \<in> set (mNodes m)" "admits e t own (mReservations m) n"
    "\<not> skips (mScheduler m) (score_of ?sc n)"
    by (auto simp: able_def)
  show "\<And>c. c \<in> set able \<Longrightarrow> \<not> skips (mScheduler m) (score_of ?sc c) \<Longrightarrow>
      \<not> f_lt (score_of ?sc c) (score_of ?sc n)"
    using sched.pick_least [OF pick] by blast
qed

lemma select_and_reserve_Inl:
  assumes "select_and_reserve e t owner m = (Inl err, m')"
  shows "rt_locks (mReservations m') = rt_locks (mReservations m)" "mNodes m' = mNodes m" "same_stores m m'"
    "mPending m' = mPending m" "mOutbox m' = mOutbox m"
proof -
  obtain r m1 where sw: "selectWorkerLocked e t [] m = (r, m1)" by fastforce
  obtain s where m1: "m1 = m\<lparr>mScheduler := s\<rparr>" using selectWorkerLocked_frame [of e t "[]" m] sw by auto
  have "m' = m1 \<or> (\<exists>a. \<not> fst (TryReserve a t (mReservations m1))
      \<and> m' = m1\<lparr>mReservations := snd (TryReserve a t (mReservations m1))\<rparr>)"
  proof (cases r)
    case (Inl err')
    with assms sw have "m' = m1" by (simp add: select_and_reserve_def split: option.splits prod.splits)
    then show ?thesis ..
  next
    case (Inr n)
    obtain ok rt' where tr: "tryReserveLocked (nAddress n) t (mReservations m1) = (ok, rt')" by fastforce
    have "\<not> ok \<and> m' = m1\<lparr>mReservations := rt'\<rparr>"
      using assms sw unfolding Inr by (auto simp: select_and_reserve_def tr split: option.splits if_splits)
    then show ?thesis by (intro disjI2 exI [of _ "nAddress n"]) (simp add: TryReserve_def tr)
  qed
  then show "rt_locks (mReservations m') = rt_locks (mReservations m)" "mNodes m' = mNodes m" "same_stores m m'"
    "mPending m' = mPending m" "mOutbox m' = mOutbox m"
    by (auto simp: m1 same_stores_def rt.reserve_refused)
qed

lemma reserve_owner_Some:
  assumes "reserve_owner e t owner m = Some (n, m')"
  shows "n \<in> set (mNodes m)" "nAddress n = owner" "fst (TryReserve owner t (mReservations m))"
    and "m' = m\<lparr>mReservations := snd (TryReserve owner t (mReservations m))\<rparr>"
    and "hasPinnedHostPorts (Some t) \<Longrightarrow> \<exists>occ. fetchWorkerPorts e n = Inr occ \<and> canHost (Some t) (Some occ) True"
proof -
  have no_pin: "tryReserveLocked owner t (mReservations m) = (True, mReservations m)"
    if "\<not> hasPinnedHostPorts (Some t)"
    using that by (simp add: tryReserveLocked_def requestedPortKeys_Nil Let_def)
  have n: "workerByAddress owner m = Some n"
    using assms by (auto simp: reserve_owner_def split: if_splits option.splits sum.splits prod.splits)
  from workerByAddress_Some [OF this] show "n \<in> set (mNodes m)" "nAddress n = owner" by simp_all
  show "fst (TryReserve owner t (mReservations m))"
    "m' = m\<lparr>mReservations := snd (TryReserve owner t (mReservations m))\<rparr>"
    "hasPinnedHostPorts (Some t) \<Longrightarrow> \<exists>occ. fetchWorkerPorts e n = Inr occ \<and> canHost (Some t) (Some occ) True"
    using assms n no_pin
    by (auto simp: reserve_owner_def TryReserve_def split: if_splits option.splits sum.splits prod.splits)
qed

lemma select_and_reserve_Inr:
  assumes "select_and_reserve e t owner m = (Inr n, m')"
  shows "n \<in> set (mNodes m) \<and> same_stores m m' \<and> mPending m' = mPending m \<and> mOutbox m' = mOutbox m
    \<and> fst (TryReserve (nAddress n) t (mReservations m))
    \<and> mReservations m' = snd (TryReserve (nAddress n) t (mReservations m))
    \<and> (hasPinnedHostPorts (Some t) \<longrightarrow>
        (\<exists>occ excl. fetchWorkerPorts e n = Inr occ \<and> canHost (Some t) (Some occ) excl
          \<and> (excl \<longrightarrow> nAddress n = owner)))"
proof (cases "reserve_owner e t owner m")
  case (Some p)
  with assms have "reserve_owner e t owner m = Some (n, m')" by (cases p) (simp add: select_and_reserve_def)
  from reserve_owner_Some [OF this] show ?thesis by (auto simp: same_stores_def)
next
  case None
  obtain r m1 where sw: "selectWorkerLocked e t [] m = (r, m1)" by fastforce
  obtain s where m1: "m1 = m\<lparr>mScheduler := s\<rparr>" using selectWorkerLocked_frame [of e t "[]" m] sw by auto
  have r: "r = Inr n \<and> fst (tryReserveLocked (nAddress n) t (mReservations m1))
      \<and> m' = m1\<lparr>mReservations := snd (tryReserveLocked (nAddress n) t (mReservations m1))\<rparr>"
    using assms sw None by (auto simp: select_and_reserve_def split: sum.splits prod.splits if_splits)
  with sw have "selectWorkerLocked e t [] m = (Inr n, m1)" by simp
  note sel = selectWorkerLocked_Inr [OF this]
  from sel(3) have "\<exists>occ. fetchWorkerPorts e n = Inr occ \<and> canHost (Some t) (Some occ) False"
    if "hasPinnedHostPorts (Some t)"
    using that by (auto simp: admits_def Let_def split: if_splits sum.splits)
  with r sel(2) show ?thesis by (auto simp: m1 same_stores_def TryReserve_def)
qed

text \<open>With valid ports a failure to choose carries none of the sentinels.\<close>

lemma select_and_reserve_plain:
  assumes "select_and_reserve e t owner m = (Inl err, m')" "ValidatePortMappings (eExt e) (tPorts t) = None"
  shows "err_wraps err = []"
proof -
  have plain: "err_wraps (no_candidates e t) = []" "err_wraps (none_can_host e t) = []"
    "err_wraps (unscoreable e t) = []" "\<And>n. err_wraps (lost_race e t n) = []"
    by (simp_all add: no_candidates_def none_can_host_def unscoreable_def lost_race_def errorf_def)
  obtain r m1 where sw: "selectWorkerLocked e t [] m = (r, m1)" by fastforce
  have inl: "r = Inl e1 \<Longrightarrow> err_wraps e1 = []" for e1
    using sw assms(2) plain
    by (auto simp: selectWorkerLocked_def Let_def split: if_splits prod.splits option.splits)
  show ?thesis
    using assms(1) sw inl plain
    by (cases r) (auto simp: select_and_reserve_def split: option.splits prod.splits if_splits)
qed

section \<open>Properties\<close>

text \<open>
  C34: a placement is sound: the worker is a configured one, a task with pinned ports goes only to a
  worker whose reported inventory can take them (not counting the task's own container on its owner),
  all its ports are then reserved for it there, none of them belonged to another task, and no other
  reservation, record or queued event changes.
\<close>

theorem placement_sound:
  assumes "selectAndReserveWorker e t owner m = (Inr n, m')"
  shows "n \<in> set (mNodes m) \<and> same_stores m m' \<and> mPending m' = mPending m
    \<and> (hasPinnedHostPorts (Some t) \<longrightarrow>
        (\<exists>occ excl. fetchWorkerPorts e n = Inr occ \<and> canHost (Some t) (Some occ) excl
          \<and> (excl \<longrightarrow> nAddress n = owner)))
    \<and> (\<forall>w k. rt_locks (mReservations m') w k =
        (if w = nAddress n \<and> k \<in> set (requestedPortKeys (Some t)) then Some (tID t)
         else rt_locks (mReservations m) w k))
    \<and> (\<forall>k\<in>set (requestedPortKeys (Some t)). rt_locks (mReservations m) (nAddress n) k \<in> {None, Some (tID t)})"
proof -
  have "select_and_reserve e t owner m = (Inr n, m')"
    using assms by (auto simp: selectAndReserveWorker_def split: option.splits sum.splits prod.splits if_splits)
  note sr = select_and_reserve_Inr [OF this]
  then have ok: "fst (TryReserve (nAddress n) t (mReservations m))" by blast
  then have "\<not> Conflicts (nAddress n) t True (mReservations m)" by (simp add: rt.reserve_iff)
  then have "\<forall>k\<in>set (requestedPortKeys (Some t)). rt_locks (mReservations m) (nAddress n) k \<in> {None, Some (tID t)}"
    by (force simp: rt.conflicts_iff)
  with sr ok show ?thesis by (simp add: rt.reserve_locks)
qed

lemma demo_placement:
  "\<exists>m'. selectAndReserveWorker demo_env (web 1) [] demo_manager = (Inr (blank_node ''w1:80''), m')"
proof -
  have valid: "ValidatePortMappings (eExt demo_env) (tPorts (web 1)) = None"
    by (simp add: ValidatePortMappings_None [OF std_ext_ok] demo_env_def web_def zero_task_def ports_ok_def
        mapping_ok_def eff_proto_def port_key_def host_key_def proto_TCP_def proto_UDP_def)
  have adm: "admits demo_env (web 1) [] (mReservations demo_manager) (blank_node ''w1:80'')"
    by (simp add: admits_def fetchWorkerPorts_def GetPorts_def demo_env_def demo_manager_def canHost_def
        StatusOK_def conflictsLocked_def reservations_of_def NewReservationTable_def list_ex_iff)
  have c: "SelectCandidateNodes (mScheduler demo_manager) (web 1) (mNodes demo_manager) = [blank_node ''w1:80'']"
    by (simp add: SelectCandidateNodes_def demo_manager_def rr_SelectCandidateNodes_def)
  obtain m1 where sw: "selectWorkerLocked demo_env (web 1) [] demo_manager = (Inr (blank_node ''w1:80''), m1)"
      "mReservations m1 = NewReservationTable"
    using adm unfolding selectWorkerLocked_def valid c
    by (simp add: Let_def demo_manager_def Score_def rr_Score_def Pick_def rr_Pick_def)
  have "fst (tryReserveLocked a (web 1) NewReservationTable)" for a
    by (simp add: tryReserveLocked_def conflictsLocked_def reservations_of_def NewReservationTable_def
        list_ex_iff Let_def)
  then show ?thesis
    unfolding selectAndReserveWorker_def valid select_and_reserve_def
    by (simp add: reserve_owner_def sw case_prod_beta)
qed

theorem placement_sound_witness:
  "\<exists>n m'. selectAndReserveWorker demo_env (web 1) [] demo_manager = (Inr n, m')
     \<and> rt_locks (mReservations m') (nAddress n) (protoPortKey ''tcp'' 8080) = Some 1"
proof -
  obtain m' where m': "selectAndReserveWorker demo_env (web 1) [] demo_manager = (Inr (blank_node ''w1:80''), m')"
    using demo_placement by blast
  have "protoPortKey ''tcp'' 8080 \<in> set (requestedPortKeys (Some (web 1)))" "tID (web 1) = 1"
    by (simp_all add: web_def requestedPortKeys_def)
  with placement_sound [OF m'] have
    "rt_locks (mReservations m') (nAddress (blank_node ''w1:80'')) (protoPortKey ''tcp'' 8080) = Some 1" by simp
  with m' show ?thesis by blast
qed

text \<open>
  Among the candidates that can host the task the scheduler picks one of least score, skipping
  only those whose score says that their capacity is unknown.
\<close>

theorem placement_least:
  assumes "SelectWorker e t m = (Inr n, m')"
    and "c \<in> set (SelectCandidateNodes (mScheduler m) t (mNodes m))" "admits e t [] (mReservations m) c"
  defines "sc \<equiv> fst (Score (eSched e) t (filter (admits e t [] (mReservations m))
      (SelectCandidateNodes (mScheduler m) t (mNodes m))) (mScheduler m))"
  shows "admits e t [] (mReservations m) n \<and> \<not> skips (mScheduler m) (score_of sc n)
    \<and> (\<not> skips (mScheduler m) (score_of sc c) \<longrightarrow> \<not> f_lt (score_of sc c) (score_of sc n))"
proof -
  note sel = selectWorkerLocked_Inr [OF assms(1) [unfolded SelectWorker_def], folded sc_def]
  from sel(3,4) sel(5) [of c] assms(2,3) show ?thesis by simp
qed

text \<open>
  A failed placement reserves nothing and changes no record. When the task's ports are valid,
  the failure is marked transient exactly when no worker has reported its stats yet, or all have
  been heard of before but none answers now.
\<close>

theorem placement_error:
  assumes "selectAndReserveWorker e t owner m = (Inl err, m')"
  shows "rt_locks (mReservations m') = rt_locks (mReservations m) \<and> same_stores m m' \<and> mPending m' = mPending m
    \<and> (ValidatePortMappings (eExt e) (tPorts t) = None \<longrightarrow>
        (errors_Is err ErrStatsNotCollected \<longleftrightarrow> statsPending m)
        \<and> (errors_Is err ErrClusterUnreachable \<longleftrightarrow> \<not> statsPending m \<and> clusterUnreachable e m))"
proof (cases "ValidatePortMappings (eExt e) (tPorts t)")
  case (Some e1)
  with assms show ?thesis by (simp add: selectAndReserveWorker_def)
next
  case None
  obtain r m1 where sr: "select_and_reserve e t owner m = (r, m1)" by fastforce
  with assms None obtain e1 where r: "r = Inl e1"
    by (cases r) (auto simp: selectAndReserveWorker_def)
  have m': "m' = m1" "err = (if statsPending m1 then stats_not_collected e1
      else if clusterUnreachable e m1 then cluster_unreachable e1 else e1)"
    using assms None sr r by (auto simp: selectAndReserveWorker_def split: if_splits)
  note frame = select_and_reserve_Inl [OF sr [unfolded r]]
  have "statsPending m1 = statsPending m" "clusterUnreachable e m1 = clusterUnreachable e m"
    by (simp_all add: statsPending_def clusterUnreachable_def frame(2))
  moreover have "\<not> errors_Is e1 s" for s
    using select_and_reserve_plain [OF sr [unfolded r] None] by (simp add: errors_Is_def)
  ultimately show ?thesis using frame
    by (simp add: m' stats_not_collected_def cluster_unreachable_def)
qed

theorem placement_error_witness:
  "\<exists>err m'. selectAndReserveWorker demo_env zero_task [] (demo_manager\<lparr>mNodes := []\<rparr>) = (Inl err, m')
     \<and> errors_Is err ErrStatsNotCollected"
proof -
  let ?m = "demo_manager\<lparr>mNodes := []\<rparr>"
  have valid: "ValidatePortMappings (eExt demo_env) (tPorts zero_task) = None"
    by (simp add: ValidatePortMappings_None [OF std_ext_ok] demo_env_def zero_task_def ports_ok_def)
  have "selectWorkerLocked demo_env zero_task [] ?m = (Inl (no_candidates demo_env zero_task), ?m)"
    by (simp add: selectWorkerLocked_def valid SelectCandidateNodes_def demo_manager_def rr_SelectCandidateNodes_def)
  then have "\<exists>err m'. selectAndReserveWorker demo_env zero_task [] ?m = (Inl err, m')"
    by (simp add: selectAndReserveWorker_def valid select_and_reserve_def reserve_owner_def)
  then obtain err m' where r: "selectAndReserveWorker demo_env zero_task [] ?m = (Inl err, m')" by blast
  have "statsPending ?m" by (simp add: statsPending_def)
  with placement_error [OF r] valid r show ?thesis by blast
qed

theorem placement_least_witness:
  "\<exists>n m'. SelectWorker demo_env zero_task demo_manager = (Inr n, m')
     \<and> admits demo_env zero_task [] (mReservations demo_manager) n"
proof -
  have valid: "ValidatePortMappings (eExt demo_env) (tPorts zero_task) = None"
    by (simp add: ValidatePortMappings_None [OF std_ext_ok] demo_env_def zero_task_def ports_ok_def)
  have adm: "admits demo_env zero_task [] (mReservations demo_manager) (blank_node ''w1:80'')"
    by (simp add: admits_def hasPinnedHostPorts_def zero_task_def conflictsLocked_def requestedPortKeys_def)
  have c: "SelectCandidateNodes (mScheduler demo_manager) zero_task (mNodes demo_manager) = [blank_node ''w1:80'']"
    by (simp add: SelectCandidateNodes_def demo_manager_def rr_SelectCandidateNodes_def)
  have "\<exists>m'. SelectWorker demo_env zero_task demo_manager = (Inr (blank_node ''w1:80''), m')"
    using adm unfolding SelectWorker_def selectWorkerLocked_def valid c
    by (simp add: Let_def demo_manager_def Score_def rr_Score_def Pick_def rr_Pick_def)
  then obtain m' where r: "SelectWorker demo_env zero_task demo_manager = (Inr (blank_node ''w1:80''), m')" ..
  from placement_least [OF r, of "blank_node ''w1:80''"] adm c r show ?thesis by auto
qed

end
