(* ===== verification/Restarts.thy ===== *)
theory Restarts
  imports Placement
begin

text \<open>
  \<open>manager/restart.go\<close>: the backoff, failure marks, terminal stops, and the restart of a task. A
  restart is two steps, because the task's record may change while the worker is asked:
  \<open>restart_prepare\<close> chooses and reserves a worker and builds the event, \<open>restart_finish\<close> takes the
  worker's answer; \<open>restartTask\<close> is one after the other. The commit of a placement (new owner, new
  record, undone when either write fails) is \<open>commit\<close>, which the dispatch loop performs too.
\<close>

section \<open>Backoff\<close>

function backoff_loop :: "duration \<Rightarrow> int \<Rightarrow> int \<Rightarrow> duration \<Rightarrow> duration" where
  "backoff_loop mx restartCount i d =
     (if i < restartCount \<and> d < mx then
        (let d' = wrap64 (d * 2) in
         if d' < 0 then mx else backoff_loop mx restartCount (i + 1) d')
      else if d > mx then mx else d)"
  by pat_completeness auto

termination by (relation "measure (\<lambda>(mx, n, i, d). nat (n - i))") auto

declare backoff_loop.simps [simp del]

definition restartBackoff :: "menv \<Rightarrow> int \<Rightarrow> duration" where
  "restartBackoff e restartCount = backoff_loop (eBackoffMax e) restartCount 1 (eBackoffBase e)"

section \<open>Marks\<close>

definition markFailed :: "menv \<Rightarrow> uuid \<Rightarrow> int \<Rightarrow> string \<Rightarrow> manager \<Rightarrow> manager" where
  "markFailed e i restartCount reason m =
     (if mTaskDb m = None then m
      else case task_Get i m of
        (Inl err, m) \<Rightarrow> m
      | (Inr persisted, m) \<Rightarrow>
          (let updated = persisted\<lparr>tState := Failed, tRestartCount := restartCount,
                 tFailureReason := reason, tFinishTime := 0,
                 tNextRetryAt := eNow e + restartBackoff e restartCount\<rparr>
           in snd (task_Put i updated m)))"

definition markStopRequested :: "menv \<Rightarrow> uuid \<Rightarrow> manager \<Rightarrow> gerror option \<times> manager" where
  "markStopRequested e i m =
     (if mTaskDb m = None then (Some (errorf ''task db is nil''), m)
      else case task_Get i m of
        (Inl err, m) \<Rightarrow> (Some (wrapf (''getting task '' @ eIdString e i @ '': '') err), m)
      | (Inr persisted, m) \<Rightarrow>
          (case task_Put i (persisted\<lparr>tManuallyStopped := True\<rparr>) m of
             (Some err, m) \<Rightarrow> (Some (wrapf (''storing task '' @ eIdString e i @ '': '') err), m)
           | (None, m) \<Rightarrow> (None, m)))"

text \<open>The record is written whether or not the task still exists.\<close>

definition terminal_task :: "menv \<Rightarrow> task \<Rightarrow> string \<Rightarrow> task" where
  "terminal_task e t reason = t\<lparr>tState := Failed, tFailureReason := reason, tFinishTime := eNow e\<rparr>"

definition stopTaskTerminal :: "menv \<Rightarrow> task \<Rightarrow> string \<Rightarrow> manager \<Rightarrow> manager" where
  "stopTaskTerminal e t reason m =
     (case taskWorker (tID t) m of
        (w, m) \<Rightarrow>
          (let t = terminal_task e t reason;
               m = (if mTaskDb m = None then m else snd (task_Put (tID t) t m));
               m = release_ports w t m
           in if w = [] then m
              else case eMarshal e (stop_event e t) of
                Some err \<Rightarrow> m
              | None \<Rightarrow> m\<lparr>mOutbox := mOutbox m @ [PostTask w (stop_event e t)]\<rparr>))"

section \<open>Committing a placement\<close>

text \<open>
  What a worker answers to a POST of a task event: a status, and what the decoder fills in: the
  echoed task of an acceptance, the message of a refusal (zero values when the body is malformed).
\<close>

record post_response =
  prStatus :: int
  prTask :: task
  prMessage :: string

type_synonym post_result = "gerror + post_response"

definition StatusCreated :: int where
  "StatusCreated = 201"

record inflight =
  ifWorker :: string
  ifTask :: task
  ifEvent :: task_event
  ifStop :: bool
  ifReserved :: bool

text \<open>The worker's echo names the task to stop, unless it is malformed.\<close>

definition cleanup_task :: "task \<Rightarrow> post_response \<Rightarrow> task" where
  "cleanup_task t resp = (if tID (prTask resp) \<noteq> tID t then t else prTask resp)"

datatype commit_result =
  Committed "assignment option" | ReadFailed gerror | AssignFailed gerror | StoreFailed gerror

definition commit :: "uuid \<Rightarrow> string \<Rightarrow> task \<Rightarrow> task \<Rightarrow> manager \<Rightarrow> commit_result \<times> manager" where
  "commit i w t original m =
     (case readAssignmentState i (mAssignments m) of
        (Inl err, d) \<Rightarrow> (ReadFailed err, m\<lparr>mAssignments := d\<rparr>)
      | (Inr old, d) \<Rightarrow>
          (case setAssignment i w d of
             (Some err, d) \<Rightarrow> (AssignFailed err, m\<lparr>mAssignments := snd (restoreAssignment i old d)\<rparr>)
           | (None, d) \<Rightarrow>
               (case task_Put (tID t) t (m\<lparr>mAssignments := d\<rparr>) of
                  (Some err, m) \<Rightarrow>
                    (StoreFailed err,
                     snd (task_Put i original (m\<lparr>mAssignments := snd (restoreAssignment i old (mAssignments m))\<rparr>)))
                | (None, m) \<Rightarrow> (Committed old, m))))"

section \<open>Restarting\<close>

definition inc :: "int \<Rightarrow> int" where
  "inc n = wrap64 (n + 1)"

definition restarted :: "task \<Rightarrow> task" where
  "restarted t = t\<lparr>tState := Scheduled, tRestartCount := inc (tRestartCount t), tFailureReason := [],
     tStartTime := 0, tFinishTime := 0\<rparr>"

definition cannot_restart :: "menv \<Rightarrow> task \<Rightarrow> string \<Rightarrow> gerror" where
  "cannot_restart e t reason =
     errorf (''cannot restart task '' @ eIdString e (tID t) @ '': '' @ reason)"

definition restart_prepare :: "menv \<Rightarrow> task \<Rightarrow> manager \<Rightarrow> (gerror + inflight) \<times> manager" where
  "restart_prepare e t m =
     (case taskWorker (tID t) m of
        (owner, m) \<Rightarrow>
          (case selectAndReserveWorker e (restarted t) owner m of
             (Inl err, m) \<Rightarrow>
               (if errors_Is err ErrClusterUnreachable \<or> errors_Is err ErrStatsNotCollected then
                  (let reason = ''cannot restart yet: '' @ err_msg err in
                   (Inl (cannot_restart e t reason), markFailed e (tID t) (tRestartCount t) reason m))
                else
                  (let reason = ''no available worker to restart: '' @ err_msg err in
                   (Inl (cannot_restart e t reason), stopTaskTerminal e t reason m)))
           | (Inr w, m) \<Rightarrow>
               (let next = (if owner = [] \<or> nAddress w \<noteq> owner
                            then (restarted t)\<lparr>tContainerID := [], tHostPorts := []\<rparr> else restarted t);
                    te = \<lparr>eID = eFresh e, eState = Scheduled, eTimestamp = eNow e, eTask = next\<rparr>
                in case eMarshal e te of
                     Some err \<Rightarrow>
                       (let reason = ''unable to marshal restart event: '' @ err_msg err in
                        (Inl (cannot_restart e t reason),
                         markFailed e (tID t) (inc (tRestartCount t)) reason (release_ports (nAddress w) next m)))
                   | None \<Rightarrow>
                       (Inr \<lparr>ifWorker = nAddress w, ifTask = next, ifEvent = te, ifStop = False, ifReserved = True\<rparr>, m))))"

text \<open>A commit that cannot happen: the ports go back and the worker is told to stop the task.\<close>

definition undo_restart ::
  "menv \<Rightarrow> inflight \<Rightarrow> post_response \<Rightarrow> gerror \<Rightarrow> manager \<Rightarrow> gerror option \<times> manager" where
  "undo_restart e fl resp err m =
     (Some err, rollbackAcceptedWorkerTask e (ifWorker fl) (ifTask fl) (cleanup_task (ifTask fl) resp) True m)"

text \<open>The record must still exist, unstopped; otherwise the reason to give up.\<close>

definition restart_check :: "menv \<Rightarrow> task \<Rightarrow> manager \<Rightarrow> (gerror + task) \<times> manager" where
  "restart_check e t m =
     (let i = eIdString e (tID t) in
      if mTaskDb m = None then (Inl (errorf (''cannot store restarted task '' @ i @ '': task db is nil'')), m)
      else case task_Get (tID t) m of
        (Inl err, m) \<Rightarrow>
          (Inl (if errors_Is err ErrNotFound
                then errorf (''task '' @ i @ '' was deleted while being restarted'')
                else wrapf (''cannot read restarted task '' @ i @ '' before commit: '') err), m)
      | (Inr persisted, m) \<Rightarrow>
          (if tManuallyStopped persisted
           then Inl (errorf (''task '' @ i @ '' was stopped while being restarted''))
           else Inr persisted, m))"

fun commit_error :: "string \<Rightarrow> commit_result \<Rightarrow> gerror option" where
  "commit_error i (ReadFailed err) = Some (wrapf (''cannot read assignment for restarted task '' @ i @ '': '') err)"
| "commit_error i (AssignFailed err) = Some (wrapf (''cannot store assignment for restarted task '' @ i @ '': '') err)"
| "commit_error i (StoreFailed err) = Some (wrapf (''cannot store restarted task '' @ i @ '': '') err)"
| "commit_error i (Committed old) = None"

fun former_owner :: "commit_result \<Rightarrow> string" where
  "former_owner (Committed (Some a)) = asWorker a"
| "former_owner c = []"

definition restart_commit ::
  "menv \<Rightarrow> inflight \<Rightarrow> task \<Rightarrow> post_response \<Rightarrow> manager \<Rightarrow> gerror option \<times> manager" where
  "restart_commit e fl t resp m =
     (case restart_check e t m of
        (Inl err, m) \<Rightarrow> undo_restart e fl resp err m
      | (Inr persisted, m) \<Rightarrow>
          (case commit (tID t) (ifWorker fl) (ifTask fl) persisted m of
             (c, m) \<Rightarrow>
               (case commit_error (eIdString e (tID t)) c of
                  Some err \<Rightarrow> undo_restart e fl resp err m
                | None \<Rightarrow>
                    (let oldOwner = former_owner c;
                         m = (if oldOwner \<noteq> [] \<and> oldOwner \<noteq> ifWorker fl
                              then bestEffortStopOldContainer e oldOwner t (release_ports oldOwner t m) else m)
                     in (None, m\<lparr>mUpdateWaker := Wake (mUpdateWaker m)\<rparr>)))))"

definition rejection :: "string \<Rightarrow> string \<Rightarrow> post_response \<Rightarrow> string" where
  "rejection w what resp =
     (let reason = ''worker '' @ w @ '' rejected '' @ what @ '' ('' @ itoa (prStatus resp) @ '')'' in
      if prMessage resp \<noteq> [] then reason @ '': '' @ prMessage resp else reason)"

definition restart_finish ::
  "menv \<Rightarrow> inflight \<Rightarrow> task \<Rightarrow> post_result \<Rightarrow> manager \<Rightarrow> gerror option \<times> manager" where
  "restart_finish e fl t post m =
     (case post of
        Inl err \<Rightarrow>
          (let m = release_ports (ifWorker fl) (ifTask fl) m;
               reason = ''could not reach worker '' @ ifWorker fl @ '' to restart: '' @ err_msg err
           in (Some (cannot_restart e t reason), markFailed e (tID t) (tRestartCount t) reason m))
      | Inr resp \<Rightarrow>
          (if prStatus resp \<noteq> StatusCreated then
             (let m = release_ports (ifWorker fl) (ifTask fl) m;
                  reason = rejection (ifWorker fl) ''restart'' resp
              in (Some (cannot_restart e t reason), markFailed e (tID t) (inc (tRestartCount t)) reason m))
           else restart_commit e fl t resp m))"

definition restartTask :: "menv \<Rightarrow> (inflight \<Rightarrow> post_result) \<Rightarrow> task \<Rightarrow> manager \<Rightarrow> gerror option \<times> manager" where
  "restartTask e worker t m =
     (case restart_prepare e t m of
        (Inl err, m) \<Rightarrow> (Some err, m)
      | (Inr fl, m) \<Rightarrow> restart_finish e fl t (worker fl) m)"

section \<open>The restart loop\<close>

datatype decision = Skip | StopFor string | Restart

definition restart_decision :: "menv \<Rightarrow> gotime \<Rightarrow> task \<Rightarrow> decision" where
  "restart_decision e now t =
     (if tState t = Failed then
        (if tManuallyStopped t then Skip
         else if IsTerminal t then Skip
         else if \<not> ShouldRestart (tRestartPolicy t)
           then StopFor (''restart policy '' @ go_quote (tRestartPolicy t) @ '' does not permit a restart'')
         else if AtRestartCap t (eMaxRestarts e)
           then StopFor (if tFailureReason t = []
                         then ''restart cap ('' @ itoa (EffectiveMaxRestarts t (eMaxRestarts e)) @ '') reached''
                         else tFailureReason t)
         else if now < tNextRetryAt t then Skip
         else Restart)
      else if tState t = Completed then
        (if tManuallyStopped t \<or> \<not> ShouldRestartOnSuccess (tRestartPolicy t) then Skip
         else if AtRestartCap t (eMaxRestarts e) then Skip
         else if now < tNextRetryAt t then Skip
         else Restart)
      else Skip)"

text \<open>
  The pass over a snapshot of the records. The clock and the workers' answers may differ from task to
  task: \<open>env i\<close> and \<open>worker i\<close> are those met while task \<open>i\<close> is handled; the deadline test uses the
  time at which the pass began.
\<close>

definition restart_one ::
  "gotime \<Rightarrow> (uuid \<Rightarrow> menv) \<Rightarrow> (uuid \<Rightarrow> inflight \<Rightarrow> post_result) \<Rightarrow> task \<Rightarrow> manager \<Rightarrow> manager" where
  "restart_one now env worker t m =
     (case restart_decision (env (tID t)) now t of
        Skip \<Rightarrow> m
      | StopFor reason \<Rightarrow> stopTaskTerminal (env (tID t)) t reason m
      | Restart \<Rightarrow> snd (restartTask (env (tID t)) (worker (tID t)) t m))"

definition restartFailedTasks ::
  "gotime \<Rightarrow> (uuid \<Rightarrow> menv) \<Rightarrow> (uuid \<Rightarrow> inflight \<Rightarrow> post_result) \<Rightarrow> manager \<Rightarrow> manager" where
  "restartFailedTasks now env worker m =
     (case getTasks m of (ts, m) \<Rightarrow> fold (restart_one now env worker) ts m)"

section \<open>The backoff is exponential and capped\<close>

lemma backoff_loop_exact:
  assumes "0 < d" "in_i64 d" "in_i64 mx" "0 < mx"
  shows "backoff_loop mx n i d = min mx (d * 2 ^ nat (n - i))"
  using assms
proof (induction mx n i d rule: backoff_loop.induct)
  case (1 mx n i d)
  show ?case
  proof (cases "i < n \<and> d < mx")
    case False
    then consider "n \<le> i" | "mx \<le> d" "i < n" by linarith
    then show ?thesis
    proof cases
      case 1
      then show ?thesis by (subst backoff_loop.simps) (auto simp: min_def)
    next
      case 2
      have "d * 1 \<le> d * 2 ^ nat (n - i)" by (rule mult_left_mono) (use "1.prems"(1) in simp_all)
      with 2 show ?thesis by (subst backoff_loop.simps) (auto simp: min_def)
    qed
  next
    case True
    have pow: "d * 2 ^ nat (n - i) = d * 2 * 2 ^ nat (n - (i + 1))"
      using True by (simp add: nat_diff_distrib' power_Suc [symmetric] Suc_nat_eq_nat_zadd1 flip: power_Suc)
    show ?thesis
    proof (cases "wrap64 (d * 2) < 0")
      case neg: True
      then have "2 ^ 63 \<le> d * 2" using wrap64_id [of "d * 2"] "1.prems"(1) by (cases "in_i64 (d * 2)") (auto simp: in_i64_def)
      moreover have "d * 2 * 1 \<le> d * 2 * 2 ^ nat (n - (i + 1))"
        by (rule mult_left_mono) (use "1.prems"(1) in simp_all)
      ultimately have "mx \<le> d * 2 ^ nat (n - i)" using "1.prems"(3) unfolding pow in_i64_def by linarith
      with True neg show ?thesis by (subst backoff_loop.simps) (simp add: min_def Let_def)
    next
      case pos: False
      have fits: "in_i64 (d * 2)"
        using pos wrap64_double [of d] "1.prems"(1,2) by (auto simp: in_i64_def split: if_splits)
      then have w: "wrap64 (d * 2) = d * 2" by (rule wrap64_id)
      have "backoff_loop mx n (i + 1) (d * 2) = min mx (d * 2 * 2 ^ nat (n - (i + 1)))"
        using "1.IH" [of "d * 2"] True pos "1.prems" fits by (simp add: w)
      with True pos show ?thesis unfolding pow by (subst backoff_loop.simps) (simp add: w Let_def)
    qed
  qed
qed

text \<open>
  C28: with positive settings the pause before restart \<open>n\<close> is the base doubled \<open>n - 1\<close> times, capped at
  the maximum: the 64-bit loop computes the exact minimum, also where doubling overflows, so the
  pauses never shrink and never exceed the cap.
\<close>

theorem restartBackoff_exact:
  assumes "0 < eBackoffBase e" "in_i64 (eBackoffBase e)" "0 < eBackoffMax e" "in_i64 (eBackoffMax e)"
  shows "restartBackoff e n = min (eBackoffMax e) (eBackoffBase e * 2 ^ nat (n - 1))
    \<and> (k \<le> n \<longrightarrow> restartBackoff e k \<le> restartBackoff e n)
    \<and> 0 < restartBackoff e n \<and> restartBackoff e n \<le> eBackoffMax e"
proof -
  have exact: "restartBackoff e n = min (eBackoffMax e) (eBackoffBase e * 2 ^ nat (n - 1))" for n
    using backoff_loop_exact assms by (simp add: restartBackoff_def)
  have "restartBackoff e k \<le> restartBackoff e n" if "k \<le> n"
  proof -
    have "(2::int) ^ nat (k - 1) \<le> 2 ^ nat (n - 1)" using that by (intro power_increasing) simp_all
    then have "eBackoffBase e * 2 ^ nat (k - 1) \<le> eBackoffBase e * 2 ^ nat (n - 1)"
      using assms(1) by (intro mult_left_mono) simp_all
    then show ?thesis unfolding exact by linarith
  qed
  moreover have "0 < restartBackoff e n" using assms(1,3) by (simp add: exact)
  ultimately show ?thesis using exact [of n] by simp
qed

theorem restartBackoff_exact_witness:
  "restartBackoff demo_env 4 = 80 * second \<and> restartBackoff demo_env 100 = 300 * second"
proof -
  have d: "eBackoffBase demo_env = 10 * second" "eBackoffMax demo_env = 300 * second"
    by (simp_all add: demo_env_def)
  have p: "0 < eBackoffBase demo_env" "in_i64 (eBackoffBase demo_env)" "0 < eBackoffMax demo_env"
    "in_i64 (eBackoffMax demo_env)"
    by (simp_all add: d second_def in_i64_def)
  show ?thesis using restartBackoff_exact [OF p, of 4] restartBackoff_exact [OF p, of 100]
    by (simp add: d second_def)
qed

section \<open>Effects on the records\<close>

lemma markFailed_frame:
  "asg_view (markFailed e i c r m) = asg_view m" "mPending (markFailed e i c r m) = mPending m"
  "mReservations (markFailed e i c r m) = mReservations m" "mOutbox (markFailed e i c r m) = mOutbox m"
  "mAssignments (markFailed e i c r m) = mAssignments m" "mEventDb (markFailed e i c r m) = mEventDb m"
  by (simp_all add: markFailed_def task_io Let_def split: sum.split)

text \<open>A failure mark changes the one record, if it exists, and never creates it.\<close>

lemma markFailed_view:
  "task_view (markFailed e i c r m) = task_view m
   \<or> (\<exists>t. task_view m i = Some t \<and> task_view (markFailed e i c r m) = (task_view m)(i \<mapsto>
        t\<lparr>tState := Failed, tRestartCount := c, tFailureReason := r, tFinishTime := 0,
          tNextRetryAt := eNow e + restartBackoff e c\<rparr>))"
proof (cases "fst (db_Get i (mTaskDb m))")
  case (Inl err)
  then show ?thesis by (simp add: markFailed_def task_io)
next
  case (Inr t)
  then have "task_view m i = Some t" using db_Get_Inr [OF Inr] by simp
  then show ?thesis by (auto simp: markFailed_def task_io Inr Let_def db_Put_view)
qed

lemma markFailed_missing: "task_view m i = None \<Longrightarrow> task_view (markFailed e i c r m) = task_view m"
  using markFailed_view [of e i c r m] by auto

lemma markFailed_healthy:
  assumes "db_healthy (mTaskDb m)" "task_view m i = Some t"
  shows "task_view (markFailed e i c r m) = (task_view m)(i \<mapsto>
    t\<lparr>tState := Failed, tRestartCount := c, tFailureReason := r, tFinishTime := 0,
      tNextRetryAt := eNow e + restartBackoff e c\<rparr>)"
proof -
  have g: "fst (db_Get i (mTaskDb m)) = Inr t"
    using db_healthy_Get [OF assms(1), of i] assms(2) by simp
  have "mTaskDb m \<noteq> None" using assms(1) by simp
  then show ?thesis using assms(1) by (simp add: markFailed_def task_io g Let_def db_Put_view del: not_None_eq)
qed

lemma markFailed_wf [simp]: "mgr_wf m \<Longrightarrow> mgr_wf (markFailed e i c r m)"
proof -
  assume wf: "mgr_wf m"
  let ?m1 = "m\<lparr>mTaskDb := snd (db_Get i (mTaskDb m))\<rparr>"
  have m1: "mgr_wf ?m1" using wf by simp
  show ?thesis
  proof (cases "fst (db_Get i (mTaskDb m))")
    case (Inl err)
    then show ?thesis using wf m1 by (simp add: markFailed_def task_io)
  next
    case (Inr t)
    have "task_view m i = Some t" using db_Get_Inr [OF Inr] by simp
    then have "tID t = i" using wf by (simp add: mgr_wf_def)
    with mgr_wf_io(1) [OF m1, of "t\<lparr>tState := Failed, tRestartCount := c, tFailureReason := r,
        tFinishTime := 0, tNextRetryAt := eNow e + restartBackoff e c\<rparr>" i] wf
    show ?thesis by (simp add: markFailed_def task_io Inr Let_def)
  qed
qed

lemma commit_frame:
  "commit i w t orig m = (r, m') \<Longrightarrow> mPending m' = mPending m \<and> mOutbox m' = mOutbox m
     \<and> mReservations m' = mReservations m \<and> mNodes m' = mNodes m \<and> mEventDb m' = mEventDb m"
  by (auto simp: commit_def task_io split: prod.splits sum.splits option.splits)

lemma restore_undoes:
  assumes "db_view d = (if ok then v(i \<mapsto> a) else v)"
  shows "db_view (snd (restoreAssignment i (v i) d)) = v \<or> db_view (snd (restoreAssignment i (v i) d)) = db_view d"
  using assms by (cases "v i") (auto simp: restoreAssignment_def db_Put_view db_Delete_view fun_upd_idem)

lemma restore_undoes_healthy:
  assumes "db_view d = (if ok then v(i \<mapsto> a) else v)" "db_healthy d"
  shows "db_view (snd (restoreAssignment i (v i) d)) = v"
  using assms by (cases "v i") (auto simp: restoreAssignment_def db_Put_view db_Delete_view fun_upd_idem)

lemma commit_effect:
  assumes "commit i w t orig m = (r, m')" "task_view m i = Some orig" "tID t = i"
  shows "(\<forall>old. r = Committed old \<longrightarrow> old = asg_view m i \<and> task_view m' = (task_view m)(i \<mapsto> t)
        \<and> asg_view m' = (asg_view m)(i \<mapsto> \<lparr>asTaskID = i, asWorker = w\<rparr>))
    \<and> ((\<forall>old. r \<noteq> Committed old) \<longrightarrow> task_view m' = task_view m
        \<and> (asg_view m' = asg_view m \<or> asg_view m' = (asg_view m)(i \<mapsto> \<lparr>asTaskID = i, asWorker = w\<rparr>))
        \<and> (db_healthy (mAssignments m) \<longrightarrow> asg_view m' = asg_view m))"
proof -
  obtain r1 d1 where ra: "readAssignmentState i (mAssignments m) = (r1, d1)" by fastforce
  have d1: "db_view d1 = asg_view m" "db_healthy (mAssignments m) \<Longrightarrow> db_healthy d1"
    using readAssignmentState_db(1) [of i "mAssignments m"] readAssignmentState_snd [of i "mAssignments m"] ra
    by auto
  show ?thesis
  proof (cases r1)
    case (Inl err)
    with assms(1) ra have "r = ReadFailed err \<and> m' = m\<lparr>mAssignments := d1\<rparr>" by (simp add: commit_def)
    then show ?thesis using d1(1) by simp
  next
    case (Inr old)
    have old: "old = asg_view m i" using readAssignmentState_Inr [of i "mAssignments m" old] ra Inr by simp
    obtain r2 d2 where sa: "setAssignment i w d1 = (r2, d2)" by fastforce
    have d2: "db_view d2 = (if r2 = None then (asg_view m)(i \<mapsto> \<lparr>asTaskID = i, asWorker = w\<rparr>) else asg_view m)"
      using setAssignment_db [of i w d1] sa d1(1) by simp
    have h2: "db_healthy d2" if "db_healthy (mAssignments m)"
    proof -
      have "db_healthy (snd (setAssignment i w d1))" using d1(2) [OF that] by (simp add: setAssignment_def)
      then show ?thesis by (simp add: sa)
    qed
    note restored = restore_undoes [OF d2, folded old]
    note restored_healthy = restore_undoes_healthy [OF d2 h2, folded old]
    show ?thesis
    proof (cases r2)
      case (Some err)
      with assms(1) ra Inr sa have "r = AssignFailed err"
          "m' = m\<lparr>mAssignments := snd (restoreAssignment i old d2)\<rparr>" by (simp_all add: commit_def)
      then show ?thesis using restored restored_healthy d2 Some by auto
    next
      case None
      note parts = assms(1) ra Inr sa None
      let ?put = "db_Put i t (mTaskDb m)"
      show ?thesis
      proof (cases "fst ?put")
        case (Some err)
        with parts assms(3) have "r = StoreFailed err"
          "m' = m\<lparr>mAssignments := snd (restoreAssignment i old d2), mTaskDb := snd (db_Put i orig (snd ?put))\<rparr>"
          by (simp_all add: commit_def task_io)
        moreover have "db_view (snd ?put) = task_view m" using Some by (simp add: db_Put_view)
        then have "db_view (snd (db_Put i orig (snd ?put))) = task_view m"
          using assms(2) by (simp add: db_Put_view fun_upd_idem)
        ultimately show ?thesis using restored restored_healthy d2 None by auto
      next
        case none: None
        with parts assms(3) have "r = Committed old" "m' = m\<lparr>mAssignments := d2, mTaskDb := snd ?put\<rparr>"
          by (simp_all add: commit_def task_io)
        then show ?thesis using old d2 None none by (simp add: db_Put_view)
      qed
    qed
  qed
qed

lemma release_views [simp]:
  "mTaskDb (release_ports w t m) = mTaskDb m" "mAssignments (release_ports w t m) = mAssignments m"
  by (simp_all add: release_ports_def)

lemma undo_restart_views:
  assumes "undo_restart e fl resp err m = (r, m')"
  shows "r = Some err" "task_view m' = task_view m" "asg_view m' = asg_view m"
    "mReservations m' = Release (ifWorker fl) (ifTask fl) (mReservations m)"
  using assms by (auto simp: undo_restart_def rollbackAcceptedWorkerTask_def Let_def release_ports_def
      bestEffortStopWorkerTask_def split: option.splits)

lemma undo_restart_stop:
  assumes "undo_restart e fl resp err m = (r, m')" "ifWorker fl \<noteq> []" "tID (ifTask fl) \<noteq> uuid_Nil"
    "eMarshal e (stop_event e (cleanup_task (ifTask fl) resp)) = None"
  shows "mOutbox m' = mOutbox m @ [PostTask (ifWorker fl) (stop_event e (cleanup_task (ifTask fl) resp))]"
proof -
  have "tID (cleanup_task (ifTask fl) resp) = tID (ifTask fl)" by (simp add: cleanup_task_def)
  with assms show ?thesis
    by (auto simp: undo_restart_def rollbackAcceptedWorkerTask_def bestEffortStopWorkerTask_def Let_def
        release_ports_def)
qed

text \<open>
  The commit of a restart either happens, or is undone: \<open>undone\<close> says what the undoing leaves.
\<close>

definition undone :: "menv \<Rightarrow> inflight \<Rightarrow> post_response \<Rightarrow> manager \<Rightarrow> manager \<Rightarrow> bool" where
  "undone e fl resp m m' \<longleftrightarrow> task_view m' = task_view m
     \<and> (db_healthy (mAssignments m) \<longrightarrow> asg_view m' = asg_view m)
     \<and> mReservations m' = Release (ifWorker fl) (ifTask fl) (mReservations m)
     \<and> (ifWorker fl \<noteq> [] \<longrightarrow> tID (ifTask fl) \<noteq> uuid_Nil \<longrightarrow>
          eMarshal e (stop_event e (cleanup_task (ifTask fl) resp)) = None \<longrightarrow>
          mOutbox m' = mOutbox m @ [PostTask (ifWorker fl) (stop_event e (cleanup_task (ifTask fl) resp))])"

lemma undone_restart:
  assumes "undo_restart e fl resp err m0 = (r, m')" "task_view m0 = task_view m"
    "db_healthy (mAssignments m) \<longrightarrow> asg_view m0 = asg_view m"
    "mReservations m0 = mReservations m" "mOutbox m0 = mOutbox m"
  shows "r \<noteq> None \<and> undone e fl resp m m'"
  using undo_restart_views [OF assms(1)] undo_restart_stop [OF assms(1)] assms(2-) by (simp add: undone_def)

lemma restart_check_Inr:
  assumes "restart_check e t m = (Inr p, m')"
  shows "task_view m (tID t) = Some p" "\<not> tManuallyStopped p"
    "m' = m\<lparr>mTaskDb := snd (db_Get (tID t) (mTaskDb m))\<rparr>"
  using assms db_Get_Inr [of "tID t" "mTaskDb m"]
  by (auto simp: restart_check_def task_io Let_def split: if_splits sum.splits)

lemma restart_check_frame: "reads_tasks m (snd (restart_check e t m))"
  by (simp add: restart_check_def task_io Let_def split: sum.split)

lemma commit_error_None: "commit_error i c = None \<longleftrightarrow> (\<exists>old. c = Committed old)"
  by (cases c) (simp_all del: not_None_eq)

lemma restart_commit_cases:
  assumes "restart_commit e fl t resp m = (r, m')" "tID (ifTask fl) = tID t"
  shows "r \<noteq> None \<and> undone e fl resp m m'
    \<or> r = None \<and> (\<exists>p. task_view m (tID t) = Some p \<and> \<not> tManuallyStopped p
        \<and> task_view m' = (task_view m)(tID t \<mapsto> ifTask fl)
        \<and> asg_view m' = (asg_view m)(tID t \<mapsto> \<lparr>asTaskID = tID t, asWorker = ifWorker fl\<rparr>))"
proof -
  obtain k m1 where k: "restart_check e t m = (k, m1)" by fastforce
  have m1: "reads_tasks m m1" using restart_check_frame [of m e t] k by simp
  show ?thesis
  proof (cases k)
    case (Inl err)
    with assms(1) k have "undo_restart e fl resp err m1 = (r, m')" by (simp add: restart_commit_def)
    from undone_restart [OF this, of m] m1 show ?thesis by (simp add: reads_tasksD)
  next
    case (Inr p)
    note chk = restart_check_Inr [OF k [unfolded Inr]]
    obtain c m2 where c: "commit (tID t) (ifWorker fl) (ifTask fl) p m1 = (c, m2)" by fastforce
    note frame = commit_frame [OF c]
    have eff: "(\<forall>old. c = Committed old \<longrightarrow> task_view m2 = (task_view m)(tID t \<mapsto> ifTask fl)
          \<and> asg_view m2 = (asg_view m)(tID t \<mapsto> \<lparr>asTaskID = tID t, asWorker = ifWorker fl\<rparr>))
        \<and> ((\<forall>old. c \<noteq> Committed old) \<longrightarrow> task_view m2 = task_view m
          \<and> (db_healthy (mAssignments m) \<longrightarrow> asg_view m2 = asg_view m))"
      using commit_effect [OF c _ assms(2)] chk(1) m1 by (simp add: reads_tasksD)
    show ?thesis
    proof (cases "commit_error (eIdString e (tID t)) c")
      case None
      with assms(1) k Inr c have r: "r = None" and "task_view m' = task_view m2" "asg_view m' = asg_view m2"
        by (auto simp: restart_commit_def Let_def)
      with None eff chk(1,2) show ?thesis by (auto simp: commit_error_None)
    next
      case (Some err)
      with assms(1) k Inr c have u: "undo_restart e fl resp err m2 = (r, m')" by (simp add: restart_commit_def)
      have "\<forall>old. c \<noteq> Committed old" using Some commit_error_None [of "eIdString e (tID t)" c] by auto
      with eff frame m1 undone_restart [OF u, of m] show ?thesis by (simp add: reads_tasksD)
    qed
  qed
qed

section \<open>One record at a time\<close>

definition only_record :: "uuid \<Rightarrow> manager \<Rightarrow> manager \<Rightarrow> bool" where
  "only_record i m m' \<longleftrightarrow> (\<forall>j. j \<noteq> i \<longrightarrow> task_view m' j = task_view m j)"

lemma only_record_refl [simp]: "only_record i m m"
  by (simp add: only_record_def)

lemma only_record_trans: "only_record i a b \<Longrightarrow> only_record i b c \<Longrightarrow> only_record i a c"
  by (simp add: only_record_def)

lemma only_record_same: "task_view m' = task_view m \<Longrightarrow> only_record i m m'"
  by (simp add: only_record_def)

lemma only_record_mark [simp]: "only_record i m (markFailed e i c r m)"
  using markFailed_view [of e i c r m] by (auto simp: only_record_def)

lemma terminal_task_simps [simp]:
  "tID (terminal_task e t reason) = tID t" "tState (terminal_task e t reason) = Failed"
  "tFailureReason (terminal_task e t reason) = reason" "tFinishTime (terminal_task e t reason) = eNow e"
  "requestedPortKeys (Some (terminal_task e t reason)) = requestedPortKeys (Some t)"
  by (simp_all add: terminal_task_def requestedPortKeys_def)

lemma stopTaskTerminal_view:
  "task_view (stopTaskTerminal e t reason m) =
     (if mTaskDb m \<noteq> None \<and> fst (db_Put (tID t) (terminal_task e t reason) (mTaskDb m)) = None
      then (task_view m)(tID t \<mapsto> terminal_task e t reason) else task_view m)"
  "asg_view (stopTaskTerminal e t reason m) = asg_view m"
  by (auto simp: stopTaskTerminal_def task_io Let_def db_Put_view split: option.split)

lemma only_record_terminal [simp]: "only_record (tID t) m (stopTaskTerminal e t reason m)"
  by (simp add: only_record_def stopTaskTerminal_view)

lemma selectAndReserve_stores: "same_stores m (snd (selectAndReserveWorker e t owner m))"
proof -
  obtain r m' where s: "select_and_reserve e t owner m = (r, m')" by fastforce
  have "same_stores m m'"
    using select_and_reserve_Inr [of e t owner m] select_and_reserve_Inl [of e t owner m] s by (cases r) blast+
  with s show ?thesis by (auto simp: selectAndReserveWorker_def split: option.split sum.split)
qed

lemma restart_prepare_Inr:
  assumes "restart_prepare e t m = (Inr fl, m')"
  shows "task_view m' = task_view m" "asg_view m' = asg_view m" "tID (ifTask fl) = tID t"
    "tRestartCount (ifTask fl) = inc (tRestartCount t)" "tState (ifTask fl) = Scheduled"
    "tManuallyStopped (ifTask fl) = tManuallyStopped t"
    "\<not> ifStop fl" "ifReserved fl"
proof -
  obtain owner m1 where w: "taskWorker (tID t) m = (owner, m1)" by fastforce
  have m1: "task_view m1 = task_view m" "asg_view m1 = asg_view m" using w by (auto simp: task_io)
  obtain r m2 where s: "selectAndReserveWorker e (restarted t) owner m1 = (r, m2)" by fastforce
  have m2: "task_view m2 = task_view m" "asg_view m2 = asg_view m"
    using same_storesD(1,2) [OF selectAndReserve_stores [of m1 e "restarted t" owner]] s m1 by simp_all
  show "task_view m' = task_view m" "asg_view m' = asg_view m" "tID (ifTask fl) = tID t"
    "tRestartCount (ifTask fl) = inc (tRestartCount t)" "tState (ifTask fl) = Scheduled"
    "tManuallyStopped (ifTask fl) = tManuallyStopped t"
    "\<not> ifStop fl" "ifReserved fl"
    using assms w s m2
    by (auto simp: restart_prepare_def Let_def restarted_def split: sum.splits option.splits if_splits)
qed

lemma restart_prepare_only: "only_record (tID t) m (snd (restart_prepare e t m))"
proof -
  obtain owner m1 where w: "taskWorker (tID t) m = (owner, m1)" by fastforce
  have m1: "task_view m1 = task_view m" using w by (auto simp: task_io)
  obtain r m2 where s: "selectAndReserveWorker e (restarted t) owner m1 = (r, m2)" by fastforce
  have m2: "only_record (tID t) m m2"
    using same_storesD(1) [OF selectAndReserve_stores [of m1 e "restarted t" owner]] s m1
    by (simp add: only_record_same)
  have m3: "only_record (tID t) m (release_ports a u m2)" for a u
    using m2 by (simp add: only_record_def)
  note step = only_record_trans [OF m2 only_record_mark] only_record_trans [OF m3 only_record_mark]
    only_record_trans [OF m2 only_record_terminal]
  show ?thesis
    using m2 by (cases r) (simp_all add: restart_prepare_def w s Let_def step split: option.split)
qed

text \<open>A restart the worker did not accept: the ports go back and the record, if any, is marked Failed.\<close>

definition refused :: "menv \<Rightarrow> inflight \<Rightarrow> uuid \<Rightarrow> int \<Rightarrow> manager \<Rightarrow> manager \<Rightarrow> bool" where
  "refused e fl i c m m' \<longleftrightarrow> asg_view m' = asg_view m
     \<and> mReservations m' = Release (ifWorker fl) (ifTask fl) (mReservations m)
     \<and> (task_view m' = task_view m
        \<or> (\<exists>t reason. task_view m i = Some t \<and> task_view m' = (task_view m)(i \<mapsto>
             t\<lparr>tState := Failed, tRestartCount := c, tFailureReason := reason, tFinishTime := 0,
               tNextRetryAt := eNow e + restartBackoff e c\<rparr>)))
     \<and> (db_healthy (mTaskDb m) \<longrightarrow> task_view m i \<noteq> None \<longrightarrow> (\<exists>u. task_view m' i = Some u \<and> tState u = Failed
          \<and> tRestartCount u = c \<and> tNextRetryAt u = eNow e + restartBackoff e c))"

lemma refused_mark:
  "refused e fl i c m (markFailed e i c reason (release_ports (ifWorker fl) (ifTask fl) m))"
proof -
  let ?m = "release_ports (ifWorker fl) (ifTask fl) m"
  have v: "task_view ?m = task_view m" "asg_view ?m = asg_view m" by simp_all
  have "mReservations (markFailed e i c reason ?m) = Release (ifWorker fl) (ifTask fl) (mReservations m)"
    by (simp add: markFailed_frame release_ports_def)
  moreover have "\<exists>u. task_view (markFailed e i c reason ?m) i = Some u \<and> tState u = Failed
      \<and> tRestartCount u = c \<and> tNextRetryAt u = eNow e + restartBackoff e c"
    if db: "db_healthy (mTaskDb m)" and known: "task_view m i \<noteq> None"
  proof -
    obtain t where t: "task_view ?m i = Some t" using known by auto
    have h: "db_healthy (mTaskDb ?m)" using db by simp
    show ?thesis by (simp add: markFailed_healthy [OF h t])
  qed
  ultimately show ?thesis using markFailed_view [of e i c reason ?m]
    unfolding refused_def v by (auto simp: markFailed_frame)
qed

section \<open>Properties\<close>

text \<open>
  C14: the worker's answer settles a restart. When it succeeds, the worker had accepted and the record
  still existed, not stopped by the user meanwhile; it is replaced by the restarted task and the task
  now belongs to that worker. Otherwise no record is created and the reserved ports go back: after an
  acceptance, the record and (while the store of assignments works) the owner are as before and the
  worker is told to stop the task; an unreachable worker does not use up a restart, a refusal does.
\<close>

theorem restart_settled:
  assumes "restart_finish e fl t post m = (r, m')" "tID (ifTask fl) = tID t"
  shows "(r = None \<longrightarrow> (\<exists>resp p. post = Inr resp \<and> prStatus resp = StatusCreated
        \<and> task_view m (tID t) = Some p \<and> \<not> tManuallyStopped p
        \<and> task_view m' = (task_view m)(tID t \<mapsto> ifTask fl)
        \<and> asg_view m' = (asg_view m)(tID t \<mapsto> \<lparr>asTaskID = tID t, asWorker = ifWorker fl\<rparr>)))
    \<and> (r \<noteq> None \<longrightarrow> (case post of
          Inl err \<Rightarrow> refused e fl (tID t) (tRestartCount t) m m'
        | Inr resp \<Rightarrow> if prStatus resp = StatusCreated then undone e fl resp m m'
                      else refused e fl (tID t) (inc (tRestartCount t)) m m'))"
proof (cases post)
  case (Inl err)
  with assms(1) have "r \<noteq> None" "refused e fl (tID t) (tRestartCount t) m m'"
    by (auto simp: restart_finish_def Let_def refused_mark simp del: not_None_eq)
  with Inl show ?thesis by simp
next
  case (Inr resp)
  show ?thesis
  proof (cases "prStatus resp = StatusCreated")
    case True
    with assms(1) Inr have "restart_commit e fl t resp m = (r, m')" by (simp add: restart_finish_def)
    from restart_commit_cases [OF this assms(2)] True Inr show ?thesis by auto
  next
    case False
    with assms(1) Inr have "r \<noteq> None" "refused e fl (tID t) (inc (tRestartCount t)) m m'"
      by (auto simp: restart_finish_def Let_def refused_mark simp del: not_None_eq)
    with Inr False show ?thesis by simp
  qed
qed

definition demo_inflight :: inflight where
  "demo_inflight = \<lparr>ifWorker = ''w1:80'', ifTask = restarted demo_task,
     ifEvent = demo_start, ifStop = False, ifReserved = True\<rparr>"

theorem restart_settled_witness:
  "\<exists>r m'. restart_finish demo_env demo_inflight demo_task (Inl (errorf ''refused'')) demo_manager = (r, m')
     \<and> r \<noteq> None \<and> refused demo_env demo_inflight 7 0 demo_manager m'"
proof -
  obtain r m' where r: "restart_finish demo_env demo_inflight demo_task (Inl (errorf ''refused'')) demo_manager = (r, m')"
    by fastforce
  have t: "tID (ifTask demo_inflight) = tID demo_task" "tID demo_task = 7" "tRestartCount demo_task = 0"
    by (simp_all add: demo_inflight_def restarted_def demo_defs)
  have "r \<noteq> None" using r by (auto simp: restart_finish_def Let_def simp del: not_None_eq)
  with restart_settled [OF r t(1)] t(2,3) r show ?thesis by auto
qed

lemma restart_finish_only:
  assumes "tID (ifTask fl) = tID t"
  shows "only_record (tID t) m (snd (restart_finish e fl t post m))"
proof (cases post)
  case (Inl err)
  have "only_record (tID t) m (release_ports (ifWorker fl) (ifTask fl) m)" by (simp add: only_record_def)
  from only_record_trans [OF this only_record_mark] Inl show ?thesis by (simp add: restart_finish_def Let_def)
next
  case (Inr resp)
  have "only_record (tID t) m (release_ports (ifWorker fl) (ifTask fl) m)" by (simp add: only_record_def)
  note mark = only_record_trans [OF this only_record_mark]
  obtain r m' where c: "restart_commit e fl t resp m = (r, m')" by fastforce
  have "only_record (tID t) m m'"
    using restart_commit_cases [OF c assms] by (auto simp: only_record_def undone_def)
  with Inr c mark show ?thesis by (simp add: restart_finish_def Let_def)
qed

lemma restartTask_only: "only_record (tID t) m (snd (restartTask e worker t m))"
proof -
  obtain r m1 where p: "restart_prepare e t m = (r, m1)" by fastforce
  have one: "only_record (tID t) m m1" using restart_prepare_only [of t m e] p by simp
  show ?thesis
  proof (cases r)
    case (Inl err)
    with one p show ?thesis by (simp add: restartTask_def)
  next
    case (Inr fl)
    from only_record_trans [OF one restart_finish_only [OF restart_prepare_Inr(3) [OF p [unfolded Inr]]]]
    show ?thesis by (simp add: restartTask_def p Inr)
  qed
qed

lemma restart_one_only: "only_record (tID t) m (restart_one now env worker t m)"
  by (simp add: restart_one_def restartTask_only split: decision.split)

lemma restart_fold_keeps:
  assumes "\<forall>t\<in>set ts. tID t = i \<longrightarrow> restart_decision (env i) now t = Skip"
  shows "task_view (fold (restart_one now env worker) ts m) i = task_view m i"
  using assms
proof (induction ts arbitrary: m)
  case (Cons t ts)
  have "task_view (restart_one now env worker t m) i = task_view m i"
  proof (cases "tID t = i")
    case True
    with Cons.prems have "restart_decision (env i) now t = Skip" by simp
    with True show ?thesis by (simp add: restart_one_def)
  next
    case False
    with restart_one_only [of t m now env worker] show ?thesis by (simp add: only_record_def)
  qed
  with Cons show ?case by simp
qed simp

lemma restart_decision_Restart:
  "restart_decision e now t = Restart \<longleftrightarrow>
     \<not> tManuallyStopped t \<and> tNextRetryAt t \<le> now \<and> \<not> AtRestartCap t (eMaxRestarts e)
     \<and> (tState t = Failed \<and> ShouldRestart (tRestartPolicy t) \<and> \<not> IsTerminal t
        \<or> tState t = Completed \<and> ShouldRestartOnSuccess (tRestartPolicy t))"
  by (auto simp: restart_decision_def)

lemma restart_decision_StopFor:
  "(\<exists>r. restart_decision e now t = StopFor r) \<longleftrightarrow>
     tState t = Failed \<and> \<not> tManuallyStopped t \<and> \<not> IsTerminal t
     \<and> (ShouldRestart (tRestartPolicy t) \<longrightarrow> AtRestartCap t (eMaxRestarts e))"
  by (auto simp: restart_decision_def)

text \<open>
  C15: the restart loop respects the user, the policy, the cap and the backoff. It restarts a task
  exactly when the user did not stop it, its policy permits a restart after how it ended, its restarts
  are not used up, its pause is over, and it was not ended for good. A pass over the records during which
  nobody else acts leaves alone every task that the user stopped, that is neither Failed nor Completed, or
  that failed for good, and creates no record. (With others acting, a task deleted after the pass read it
  can come back: \<open>terminal_stop_final\<close>.)
\<close>

theorem restart_respects_policy:
  assumes "mgr_wf m"
  shows "(restart_decision e now t = Restart \<longleftrightarrow>
        \<not> tManuallyStopped t \<and> tNextRetryAt t \<le> now \<and> tRestartCount t < EffectiveMaxRestarts t (eMaxRestarts e)
        \<and> (tState t = Failed \<and> ShouldRestart (tRestartPolicy t) \<and> tFinishTime t = 0
           \<or> tState t = Completed \<and> ShouldRestartOnSuccess (tRestartPolicy t)))
    \<and> (task_view m i = None \<longrightarrow> task_view (restartFailedTasks now env worker m) i = None)
    \<and> (\<forall>p. task_view m i = Some p \<longrightarrow>
          tManuallyStopped p \<or> tState p \<notin> {Failed, Completed} \<or> tState p = Failed \<and> tFinishTime p \<noteq> 0 \<longrightarrow>
          task_view (restartFailedTasks now env worker m) i = Some p)"
proof -
  obtain ts m1 where g: "getTasks m = (ts, m1)" by fastforce
  have v: "task_view m1 = task_view m" using g by (auto simp: getTasks_alt)
  have mem: "task_view m (tID t) = Some t" if t: "t \<in> set ts" for t
  proof -
    obtain vs where "fst (db_List (mTaskDb m)) = Inr vs" "ts = vs"
      using t g by (auto simp: getTasks_alt split: sum.splits)
    with t db_List_Inr [of "mTaskDb m" vs] assms obtain j where "task_view m j = Some t"
      by (auto simp: mgr_wf_def ran_def)
    with assms show ?thesis by (auto simp: mgr_wf_def)
  qed
  have pass: "task_view (restartFailedTasks now env worker m) i = task_view m i"
    if "\<forall>t\<in>set ts. tID t = i \<longrightarrow> restart_decision (env i) now t = Skip"
    using restart_fold_keeps [of ts i env now worker m1] that by (simp add: restartFailedTasks_def g v)
  have "task_view (restartFailedTasks now env worker m) i = None" if none: "task_view m i = None"
  proof -
    have "\<forall>t\<in>set ts. tID t = i \<longrightarrow> restart_decision (env i) now t = Skip" using mem none by fastforce
    from pass [OF this] none show ?thesis by simp
  qed
  moreover have "task_view (restartFailedTasks now env worker m) i = Some p"
    if p: "task_view m i = Some p"
      "tManuallyStopped p \<or> tState p \<notin> {Failed, Completed} \<or> tState p = Failed \<and> tFinishTime p \<noteq> 0" for p
  proof -
    have "restart_decision (env i) now p = Skip"
      using p(2) by (auto simp: restart_decision_def IsTerminal_def time_IsZero_def)
    moreover have "t = p" if "t \<in> set ts" "tID t = i" for t using mem [OF that(1)] that(2) p(1) by simp
    ultimately show ?thesis using pass p(1) by auto
  qed
  ultimately show ?thesis
    by (auto simp: restart_decision_Restart AtRestartCap_def IsTerminal_def time_IsZero_def)
qed

definition stopped_task :: task where
  "stopped_task = demo_task\<lparr>tState := Failed, tManuallyStopped := True, tRestartPolicy := ''always''\<rparr>"

definition stopped_manager :: manager where
  "stopped_manager = snd (task_Put 7 stopped_task demo_manager)"

lemma stopped_manager_ok: "mgr_wf stopped_manager" "task_view stopped_manager 7 = Some stopped_task"
  by (auto simp: stopped_manager_def stopped_task_def mgr_wf_def task_view_def asg_view_def eval_manager
      store_wf_def al_wf_def simp del: db_view_task db_view_asg)

theorem restart_respects_policy_witness:
  "task_view (restartFailedTasks 100 (\<lambda>_. demo_env) (\<lambda>_ _. Inl (errorf ''down'')) stopped_manager) 7 = Some stopped_task"
proof -
  have "tManuallyStopped stopped_task" by (simp add: stopped_task_def)
  with restart_respects_policy [OF stopped_manager_ok(1), of demo_env 100 zero_task 7] stopped_manager_ok(2)
  show ?thesis by blast
qed

text \<open>
  C16: a terminal stop ends a task for good: with a working task store its record is Failed with the reason
  and a finish time, so that the restart loop leaves it alone from then on. While its owner can be read,
  its ports there go back, and the worker is told to stop it when the event can be encoded. The record is
  written without looking whether it still exists, so that a task deleted meanwhile comes back.
\<close>

theorem terminal_stop_final:
  assumes "db_healthy (mTaskDb m)" "eNow e \<noteq> 0"
  shows "task_view (stopTaskTerminal e t reason m) =
      (task_view m)(tID t \<mapsto> t\<lparr>tState := Failed, tFailureReason := reason, tFinishTime := eNow e\<rparr>)
    \<and> restart_decision e' now (the (task_view (stopTaskTerminal e t reason m) (tID t))) = Skip
    \<and> (\<forall>a. asg_view m (tID t) = Some a \<longrightarrow> db_healthy (mAssignments m) \<longrightarrow> asWorker a \<noteq> [] \<longrightarrow>
         (\<forall>k\<in>set (requestedPortKeys (Some t)).
            rt_locks (mReservations (stopTaskTerminal e t reason m)) (asWorker a) k \<noteq> Some (tID t))
         \<and> (eMarshal e (stop_event e (terminal_task e t reason)) = None \<longrightarrow>
              mOutbox (stopTaskTerminal e t reason m) =
              mOutbox m @ [PostTask (asWorker a) (stop_event e (terminal_task e t reason))]))"
proof -
  have open_db: "mTaskDb m \<noteq> None" using assms(1) by simp
  have v: "task_view (stopTaskTerminal e t reason m) = (task_view m)(tID t \<mapsto> terminal_task e t reason)"
    using assms(1) open_db by (simp add: stopTaskTerminal_view del: not_None_eq)
  have "restart_decision e' now (terminal_task e t reason) = Skip"
    using assms(2) by (simp add: restart_decision_def IsTerminal_def time_IsZero_def)
  moreover have "(\<forall>k\<in>set (requestedPortKeys (Some t)).
        rt_locks (mReservations (stopTaskTerminal e t reason m)) (asWorker a) k \<noteq> Some (tID t))
      \<and> (eMarshal e (stop_event e (terminal_task e t reason)) = None \<longrightarrow>
         mOutbox (stopTaskTerminal e t reason m) =
         mOutbox m @ [PostTask (asWorker a) (stop_event e (terminal_task e t reason))])"
    if a: "asg_view m (tID t) = Some a" and h: "db_healthy (mAssignments m)" and w: "asWorker a \<noteq> []" for a
  proof -
    have "requestedPortKeys (Some (terminal_task e t reason)) = requestedPortKeys (Some t)"
      by (simp add: terminal_task_def requestedPortKeys_def)
    moreover
    have "fst (readAssignment (tID t) (mAssignments m)) = asWorker a"
      using db_healthy_Get [OF h, of "tID t"] a by (simp add: readAssignment_alt)
    with w show ?thesis
      by (auto simp: stopTaskTerminal_def task_io Let_def release_ports_def rt.release_locks split: option.split)
  qed
  ultimately show ?thesis unfolding v by (simp add: terminal_task_def)
qed

theorem terminal_stop_final_witness:
  "task_view demo_manager 7 = None
   \<and> task_view (stopTaskTerminal demo_env demo_task ''no worker'' demo_manager) 7 \<noteq> None"
proof -
  have h: "db_healthy (mTaskDb demo_manager)" "eNow demo_env \<noteq> 0"
    by (simp_all add: demo_manager_def db_healthy_def new_store_def demo_env_def)
  have "tID demo_task = 7" by (simp add: demo_defs)
  moreover have "task_view demo_manager 7 = None"
    by (simp add: task_view_def eval_manager del: db_view_task)
  ultimately show ?thesis using terminal_stop_final [OF h, of demo_task "''no worker''" demo_env 0] by simp
qed

end
