(* ===== verification/Health.thy ===== *)
theory Health
  imports Restarts
begin

text \<open>
  Manager-driven health checks, \<open>manager/healthcheck.go\<close>: one probe, the registry's reconciliation with
  the records, and the checker goroutine. A checker runs beside everything else, so its loop is over
  ticks, each with what the other goroutines did to the manager since the tick before, the network as
  the probe finds it, and the answer a worker would give to a restart. Cancelling its context ends
  the list of ticks.
\<close>

section \<open>One probe\<close>

definition JoinHostPort :: "string \<Rightarrow> string \<Rightarrow> string" where
  "JoinHostPort host port =
     (if CHR '':'' \<in> set host then ''['' @ host @ '']:'' @ port else host @ '':'' @ port)"

text \<open>
  What the network does: a GET fails, or has a status and a body (which may fail to be read); a TCP
  dial fails, or connects and then closes, perhaps with an error. A URL may be refused beforehand.
\<close>

record network =
  netBuild :: "string \<Rightarrow> gerror option"
  netGet :: "string \<Rightarrow> gerror + string http_response"
  netDial :: "string \<Rightarrow> gerror + gerror option"

definition http_probe :: "network \<Rightarrow> string \<Rightarrow> gerror option" where
  "http_probe net url =
     (case netBuild net url of
        Some err \<Rightarrow> Some (wrapf ''error building request: '' err)
      | None \<Rightarrow>
          (case netGet net url of
             Inl err \<Rightarrow> Some (wrapf (''error performing health check '' @ url @ '': '') err)
           | Inr resp \<Rightarrow>
               (case Body resp of
                  Inl err \<Rightarrow> Some (wrapf ''error reading health check response: '' err)
                | Inr body \<Rightarrow>
                    (if StatusCode resp \<noteq> StatusOK then
                       (let output = trim_space (take (64 * 1024) body);
                            msg = ''health check '' @ url @ '' returned '' @ itoa (StatusCode resp)
                        in Some (errorf (if output \<noteq> [] then msg @ '': '' @ output else msg)))
                     else None))))"

definition tcp_probe :: "network \<Rightarrow> string \<Rightarrow> gerror option" where
  "tcp_probe net addr =
     (case netDial net addr of
        Inl err \<Rightarrow> Some (wrapf (''tcp health check '' @ addr @ '': '') err)
      | Inr (Some err) \<Rightarrow> Some (wrapf ''error closing tcp health check: '' err)
      | Inr None \<Rightarrow> None)"

text \<open>A task without a health check has no checker; the source would dereference nil.\<close>

definition checkTaskHealth :: "menv \<Rightarrow> network \<Rightarrow> task \<Rightarrow> string \<Rightarrow> gerror option" where
  "checkTaskHealth e net t w =
     (let hc = (case tHealthCheck t of None \<Rightarrow> zero_health_check | Some h \<Rightarrow> h) in
      case SplitHostPort w of
        Inl err \<Rightarrow> Some (wrapf (''invalid worker address '' @ go_quote w @ '': '') err)
      | Inr (host, _) \<Rightarrow>
          (let hostPort = hostPortFor (tHostPorts t) (hcPort hc) in
           if hostPort = 0
           then Some (errorf (''error: task '' @ eIdString e (tID t)
                        @ '' has no published host port for container port '' @ itoa (hcPort hc)))
           else if hcType hc = HealthCheckHTTP
           then http_probe net (''http://'' @ JoinHostPort host (itoa hostPort)
                  @ (if hcPath hc = [] then ''/'' else hcPath hc))
           else if hcType hc = HealthCheckTCP then tcp_probe net (JoinHostPort host (itoa hostPort))
           else Some (errorf (''unsupported manager-driven health check type '' @ hcType hc))))"

section \<open>The registry follows the records\<close>

definition managed :: "task \<Rightarrow> bool" where
  "managed t \<longleftrightarrow> tState t = Running \<and>
     (case tHealthCheck t of None \<Rightarrow> False | Some h \<Rightarrow> hcType h = HealthCheckHTTP \<or> hcType h = HealthCheckTCP)"

definition stopChecker :: "uuid \<Rightarrow> manager \<Rightarrow> manager" where
  "stopChecker i m = m\<lparr>mCheckers := cs_stop i (mCheckers m)\<rparr>"

text \<open>\<open>h\<close> is the fresh handle; the answer tells whether a goroutine was started for it.\<close>

definition startChecker :: "handle \<Rightarrow> task \<Rightarrow> manager \<Rightarrow> bool \<times> manager" where
  "startChecker h t m =
     (case cs_start (tID t) h (mCheckers m) of
        (started, cs) \<Rightarrow> (started, m\<lparr>mCheckers := if started then cs else cancel h cs\<rparr>))"

definition reconcile_checker :: "(uuid \<Rightarrow> handle) \<Rightarrow> task \<Rightarrow> manager \<Rightarrow> manager" where
  "reconcile_checker fresh t m =
     (if \<not> managed t then stopChecker (tID t) m
      else if \<not> cs_has (tID t) (mCheckers m) then snd (startChecker (fresh (tID t)) t m)
      else m)"

definition reconcileCheckers :: "(uuid \<Rightarrow> handle) \<Rightarrow> manager \<Rightarrow> manager" where
  "reconcileCheckers fresh m =
     (case getTasks m of
        (ts, m) \<Rightarrow>
          (let m = fold (reconcile_checker fresh) ts m
           in m\<lparr>mCheckers := snd (stopAllExcept (map tID ts) (mCheckers m))\<rparr>))"

section \<open>The checker goroutine\<close>

datatype checker_state = Watching int | Exited

text \<open>The verdict on one probe result, for the record \<open>t\<close> as it is now.\<close>

definition checker_verdict ::
  "menv \<Rightarrow> (inflight \<Rightarrow> post_result) \<Rightarrow> int \<Rightarrow> int \<Rightarrow> gerror option \<Rightarrow> task \<Rightarrow> manager
     \<Rightarrow> checker_state \<times> manager" where
  "checker_verdict e worker retries failures result t m =
     (case result of
        None \<Rightarrow> (Watching 0, m)
      | Some err \<Rightarrow>
          (let failures = inc failures in
           if failures < retries then (Watching failures, m)
           else if AtRestartCap t (eMaxRestarts e)
           then (Exited, stopTaskTerminal e t
                   (''health check failed after all restarts & retries. last error: '' @ err_msg err) m)
           else if \<not> ShouldRestart (tRestartPolicy t)
           then (Exited, stopTaskTerminal e t
                   (''health check failed ('' @ err_msg err @ '') and restart policy ''
                      @ go_quote (tRestartPolicy t) @ '' does not permit a restart'') m)
           else if eNow e < tNextRetryAt t then (Exited, m)
           else (Exited, snd (restartTask e worker t m))))"

record watch_tick =
  tkOthers :: "manager \<Rightarrow> manager"
  tkEnv :: menv
  tkNet :: network
  tkAnswer :: "inflight \<Rightarrow> post_result"

definition checker_tick :: "string \<Rightarrow> int \<Rightarrow> uuid \<Rightarrow> int \<Rightarrow> watch_tick \<Rightarrow> manager \<Rightarrow> checker_state \<times> manager" where
  "checker_tick w retries i failures tk m =
     (case getTask i m of
        (None, m) \<Rightarrow> (Exited, m)
      | (Some t, m) \<Rightarrow>
          if tState t \<noteq> Running then (Exited, m)
          else checker_verdict (tkEnv tk) (tkAnswer tk) retries failures
                 (checkTaskHealth (tkEnv tk) (tkNet tk) t w) t m)"

fun checker_loop :: "string \<Rightarrow> int \<Rightarrow> uuid \<Rightarrow> int \<Rightarrow> watch_tick list \<Rightarrow> manager \<Rightarrow> checker_state \<times> manager" where
  "checker_loop w retries i failures [] m = (Watching failures, m)"
| "checker_loop w retries i failures (tk # tks) m =
     (case checker_tick w retries i failures tk (tkOthers tk m) of
        (Exited, m) \<Rightarrow> (Exited, m)
      | (Watching n, m) \<Rightarrow> checker_loop w retries i n tks m)"

text \<open>
  The wait of the start period: what the others did to the manager meanwhile, and whether it was the
  checker's context that ended it. \<open>time.NewTicker\<close> panics unless its period is positive; the panic ends
  the manager: \<open>None\<close>.
\<close>

record start_wait =
  swOthers :: "manager \<Rightarrow> manager"
  swCancelled :: bool

definition runChecker ::
  "hc_defaults \<Rightarrow> task \<Rightarrow> handle \<Rightarrow> start_wait \<Rightarrow> watch_tick list \<Rightarrow> manager \<Rightarrow> manager option" where
  "runChecker d t h sw tks m =
     (let hc = Normalized d (tHealthCheck t);
          finished = (\<lambda>m. m\<lparr>mCheckers := cs_finished (tID t) h (mCheckers m)\<rparr>)
      in case taskWorker (tID t) m of
           (w, m) \<Rightarrow>
             if w = [] then Some (finished m)
             else (let m = (if 0 < hcStartPeriod hc then swOthers sw m else m) in
                   if 0 < hcStartPeriod hc \<and> swCancelled sw then Some (finished m)
                   else if seconds (hcInterval hc) \<le> 0 then None
                   else Some (finished (snd (checker_loop w (hcRetries hc) (tID t) 0 tks m)))))"

section \<open>Properties\<close>

lemma getTask_others: "reads_tasks m (snd (getTask i m))"
  by (simp add: getTask_alt)

lemma reconcile_checker_view:
  "cs_view (mCheckers (reconcile_checker fresh t m)) =
     (cs_view (mCheckers m))(tID t :=
        if managed t then (case cs_view (mCheckers m) (tID t) of None \<Rightarrow> Some (fresh (tID t)) | Some h \<Rightarrow> Some h)
        else None)"
  by (auto simp: reconcile_checker_def stopChecker_def startChecker_def case_prod_beta cs_view_simps
      cs_has_def cs_view_def [symmetric] cs_start_def fun_upd_idem split: option.split)

lemma fold_reconcile_checker:
  assumes "distinct (map tID ts)"
  shows "cs_view (mCheckers (fold (reconcile_checker fresh) ts m)) i =
     (case find (\<lambda>t. tID t = i) ts of
        None \<Rightarrow> cs_view (mCheckers m) i
      | Some t \<Rightarrow> if managed t
                  then (case cs_view (mCheckers m) i of None \<Rightarrow> Some (fresh i) | Some h \<Rightarrow> Some h) else None)"
  using assms
proof (induction ts arbitrary: m)
  case (Cons t ts)
  show ?case
  proof (cases "tID t = i")
    case True
    then have "find (\<lambda>t. tID t = i) ts = None" using Cons.prems by (auto simp: find_None_iff image_iff)
    with Cons True show ?thesis by (simp add: reconcile_checker_view split: option.split)
  next
    case False
    with Cons show ?thesis by (simp add: reconcile_checker_view split: option.split)
  qed
qed simp

text \<open>
  C30: after a reconciliation the tasks with a checker are exactly those of the list it read that run and
  have an HTTP or TCP health check, and a checker already running for such a task is kept. While the
  task store works, that list is all the records. When the store cannot be listed it is empty, and
  then no checker is left at all, whatever the records say.
\<close>

theorem checkers_follow_records:
  fixes fresh m i
  assumes "mgr_wf m"
  defines "after \<equiv> mCheckers (reconcileCheckers fresh m)"
  shows "(cs_has i after \<longleftrightarrow> (\<exists>t \<in> set (fst (getTasks m)). tID t = i \<and> managed t))
    \<and> (\<forall>h. cs_view (mCheckers m) i = Some h \<longrightarrow> cs_has i after \<longrightarrow> cs_view after i = Some h)
    \<and> (db_healthy (mTaskDb m) \<longrightarrow> (cs_has i after \<longleftrightarrow> (\<exists>t. task_view m i = Some t \<and> managed t)))
    \<and> (\<forall>err. fst (db_List (mTaskDb m)) = Inl err \<longrightarrow> \<not> cs_has i after)"
proof -
  obtain ts m1 where g: "getTasks m = (ts, m1)" by fastforce
  note recs = getTasks_records [OF assms(1) g]
  have m1: "mCheckers m1 = mCheckers m" using g by (auto simp: getTasks_alt)
  have has: "cs_has i cs \<longleftrightarrow> cs_view cs i \<noteq> None" for cs by (simp add: cs_has_def cs_view_def)
  have view: "cs_view after i =
      (if i \<in> set (map tID ts) then cs_view (mCheckers (fold (reconcile_checker fresh) ts m1)) i else None)"
    by (simp add: after_def reconcileCheckers_def g stopAllExcept_view Let_def)
  have only: "(cs_has i after \<longleftrightarrow> (\<exists>t \<in> set ts. tID t = i \<and> managed t))
      \<and> (\<forall>h. cs_view (mCheckers m) i = Some h \<longrightarrow> cs_has i after \<longrightarrow> cs_view after i = Some h)"
  proof (cases "find (\<lambda>t. tID t = i) ts")
    case None
    then have "i \<notin> set (map tID ts)" by (auto simp: find_None_iff)
    then show ?thesis unfolding has view by auto
  next
    case (Some t)
    then have t: "t \<in> set ts" "tID t = i" using find_cong_Some [OF Some] by simp_all
    have "u \<in> set ts \<Longrightarrow> tID u = i \<Longrightarrow> u = t" for u using t recs(2) [of t] recs(2) [of u] by simp
    with t have "(\<exists>u \<in> set ts. tID u = i \<and> managed u) \<longleftrightarrow> managed t" by blast
    with t Some show ?thesis
      unfolding has view fold_reconcile_checker [OF recs(1)] m1 by (auto split: option.splits)
  qed
  moreover have "db_healthy (mTaskDb m) \<longrightarrow>
      ((\<exists>t \<in> set ts. tID t = i \<and> managed t) \<longleftrightarrow> (\<exists>t. task_view m i = Some t \<and> managed t))"
    using recs(2,3) by blast
  moreover have "fst (db_List (mTaskDb m)) = Inl err \<Longrightarrow> ts = []" for err using g by (simp add: getTasks_alt)
  ultimately show ?thesis using g by auto
qed

definition probed_task :: task where
  "probed_task = demo_task\<lparr>tState := Running,
     tHealthCheck := Some \<lparr>hcType = ''tcp'', hcPort = 80, hcPath = [], hcCommand = [], hcInterval = 10000000000,
       hcTimeout = 1, hcRetries = 3, hcStartPeriod = 0\<rparr>\<rparr>"

definition probed_manager :: manager where
  "probed_manager = demo_manager\<lparr>mTaskDb := snd (db_Put 7 probed_task (mTaskDb demo_manager)),
     mAssignments := snd (setAssignment 7 ''w1:80'' (mAssignments demo_manager))\<rparr>"

lemma probed_manager_ok:
  "db_healthy (mTaskDb probed_manager)" "mgr_wf probed_manager" "task_view probed_manager 7 = Some probed_task"
  by (auto simp: probed_manager_def probed_task_def setAssignment_def db_healthy_def mgr_wf_def task_view_def
      asg_view_def eval_manager store_wf_def al_wf_def simp del: db_view_task db_view_asg)

theorem checkers_follow_records_witness: "cs_has 7 (mCheckers (reconcileCheckers (\<lambda>_. 5) probed_manager))"
proof -
  have "managed probed_task" by (simp add: managed_def probed_task_def HealthCheckTCP_def)
  with checkers_follow_records [OF probed_manager_ok(2), of 7 "\<lambda>_. 5"] probed_manager_ok(1,3) show ?thesis by blast
qed

section \<open>Patience\<close>

text \<open>What the others do while the checker only waits and looks.\<close>

definition others_waiting :: "hc_defaults \<Rightarrow> task \<Rightarrow> start_wait \<Rightarrow> manager \<Rightarrow> manager" where
  "others_waiting d t sw m = (if 0 < hcStartPeriod (Normalized d (tHealthCheck t)) then swOthers sw m else m)"

definition others_only :: "uuid \<Rightarrow> watch_tick list \<Rightarrow> manager \<Rightarrow> manager" where
  "others_only i tks m = fold (\<lambda>tk m. snd (getTask i (tkOthers tk m))) tks m"

text \<open>
  With \<open>n\<close> probes failed in a row, each failing one leaves the count below \<open>k\<close> and a success resets it, as
  long as the record is there and running.
\<close>

fun healthy_enough :: "string \<Rightarrow> int \<Rightarrow> uuid \<Rightarrow> int \<Rightarrow> watch_tick list \<Rightarrow> manager \<Rightarrow> bool" where
  "healthy_enough w k i n [] m = True"
| "healthy_enough w k i n (tk # tks) m =
     (case getTask i (tkOthers tk m) of
        (None, _) \<Rightarrow> True
      | (Some t, m) \<Rightarrow>
          tState t \<noteq> Running
          \<or> (if checkTaskHealth (tkEnv tk) (tkNet tk) t w = None then healthy_enough w k i 0 tks m
             else n + 1 < k \<and> healthy_enough w k i (n + 1) tks m))"

lemma checker_loop_quiet:
  assumes "healthy_enough w k i n tks m" "0 \<le> n" "n < k" "k < 2 ^ 62"
  shows "\<exists>used. snd (checker_loop w k i n tks m) = others_only i (take used tks) m"
  using assms
proof (induction tks arbitrary: n m)
  case Nil
  show ?case by (simp add: others_only_def)
next
  case (Cons tk tks)
  obtain r m1 where g: "getTask i (tkOthers tk m) = (r, m1)" by fastforce
  have more: "\<exists>used. others_only i (take u tks) m1 = others_only i (take used (tk # tks)) m" for u
    by (rule exI [of _ "Suc u"]) (simp add: others_only_def g)
  have stop: "m1 = others_only i (take 1 (tk # tks)) m" by (simp add: others_only_def g)
  have fits: "inc n = n + 1" using Cons.prems by (simp add: inc_def wrap64_id in_i64_def)
  show ?case
  proof (cases "\<exists>t. r = Some t \<and> tState t = Running")
    case False
    then have "checker_loop w k i n (tk # tks) m = (Exited, m1)"
      by (cases r) (auto simp: checker_tick_def g)
    with stop show ?thesis by (intro exI [of _ 1]) (simp only: snd_conv)
  next
    case True
    then obtain t where t: "r = Some t" "tState t = Running" by blast
    show ?thesis
    proof (cases "checkTaskHealth (tkEnv tk) (tkNet tk) t w")
      case None
      have "checker_loop w k i n (tk # tks) m = checker_loop w k i 0 tks m1"
        by (simp add: checker_tick_def g t None checker_verdict_def)
      moreover have "healthy_enough w k i 0 tks m1" using Cons.prems(1) by (simp add: g t None)
      ultimately show ?thesis using Cons.IH [of 0 m1] Cons.prems more by auto
    next
      case (Some err)
      have le: "n + 1 < k" "healthy_enough w k i (n + 1) tks m1" using Cons.prems(1) by (simp_all add: g t Some)
      then have "checker_loop w k i n (tk # tks) m = checker_loop w k i (n + 1) tks m1"
        by (simp add: checker_tick_def g t Some checker_verdict_def Let_def fits)
      with Cons.IH [of "n + 1" m1] le Cons.prems more show ?thesis by auto
    qed
  qed
qed

text \<open>
  C31: a checker is patient. Let \<open>retries\<close> be positive and below 2 to the 62nd. As long as every failed
  probe leaves fewer than \<open>retries\<close> failures in a row (a success starts the count again), it touches neither the task nor anything else, through its start
  period and all its ticks: the manager changes only by what others do, and at the end by the checker
  leaving the registry.
\<close>

theorem checker_patient:
  assumes "runChecker d t h sw tks m = Some m'" "taskWorker (tID t) m = (w, m1)"
    and "healthy_enough w (hcRetries (Normalized d (tHealthCheck t))) (tID t) 0 tks (others_waiting d t sw m1)"
    and "0 < hcRetries (Normalized d (tHealthCheck t))" "hcRetries (Normalized d (tHealthCheck t)) < 2 ^ 62"
  shows "\<exists>used. (let m2 = others_only (tID t) (take used tks) (if w = [] then m1 else others_waiting d t sw m1)
      in m' = m2\<lparr>mCheckers := cs_finished (tID t) h (mCheckers m2)\<rparr>)"
proof (cases "w = [] \<or> 0 < hcStartPeriod (Normalized d (tHealthCheck t)) \<and> swCancelled sw")
  case True
  with assms(1,2) show ?thesis
    by (intro exI [of _ 0]) (auto simp: runChecker_def others_only_def others_waiting_def Let_def split: if_splits)
next
  case False
  let ?k = "hcRetries (Normalized d (tHealthCheck t))"
  let ?m = "others_waiting d t sw m1"
  obtain used where "snd (checker_loop w ?k (tID t) 0 tks ?m) = others_only (tID t) (take used tks) ?m"
    using checker_loop_quiet [OF assms(3)] assms(4,5) by auto
  with assms(1,2) False show ?thesis
    by (intro exI [of _ used]) (auto simp: runChecker_def others_waiting_def Let_def split: if_splits)
qed

lemma wrap64_not_pos: "wrap64 x \<le> 0 \<longleftrightarrow> x mod 2 ^ 64 = 0 \<or> 2 ^ 63 \<le> x mod 2 ^ 64"
proof -
  let ?r = "x mod 2 ^ 64"
  have r: "0 \<le> ?r" "?r < 2 ^ 64" by simp_all
  have "(x + 2 ^ 63) mod 2 ^ 64 = (?r + 2 ^ 63) mod 2 ^ 64" by (simp add: mod_add_left_eq)
  also have "\<dots> = (if 2 ^ 63 \<le> ?r then ?r - 2 ^ 63 else ?r + 2 ^ 63)"
  proof (cases "2 ^ 63 \<le> ?r")
    case True
    have "(?r + 2 ^ 63) mod 2 ^ 64 = (?r + 2 ^ 63 - 2 ^ 64) mod 2 ^ 64" by (rule minus_mod_self2 [symmetric])
    also have "\<dots> = ?r - 2 ^ 63" using r True by simp
    finally show ?thesis using True by simp
  qed (use r in simp)
  finally show ?thesis unfolding wrap64_def using r by (cases "2 ^ 63 \<le> ?r") auto
qed

text \<open>
  C37: starting a checker ends the manager exactly when the task has a worker, the checker is not
  cancelled in its start period, and the period in nanoseconds, cut to 64 bits, is zero or negative: it
  is a multiple of \<open>2 ^ 64\<close> or beyond \<open>2 ^ 63\<close> modulo \<open>2 ^ 64\<close>. Nothing keeps such a period out: the validation
  of a task does not look at its health check.
\<close>

theorem checker_crash:
  "Validate x (t\<lparr>tHealthCheck := hc\<rparr>) = Validate x t
   \<and> (let n = Normalized d (tHealthCheck t); period = hcInterval n * second mod 2 ^ 64
      in runChecker d t h sw tks m = None \<longleftrightarrow>
           fst (taskWorker (tID t) m) \<noteq> [] \<and> \<not> (0 < hcStartPeriod n \<and> swCancelled sw)
           \<and> (period = 0 \<or> 2 ^ 63 \<le> period))"
proof -
  have "Validate x (t\<lparr>tHealthCheck := hc\<rparr>) = Validate x t" by (simp add: Validate_def cong: if_cong)
  then show ?thesis by (simp add: runChecker_def Let_def seconds_def case_prod_beta wrap64_not_pos)
qed

lemma probed_worker: "fst (taskWorker 7 probed_manager) = ''w1:80''"
  by (simp add: taskWorker_def readAssignment_alt probed_manager_def setAssignment_def eval_manager)

definition no_wait :: start_wait where "no_wait = \<lparr>swOthers = (\<lambda>m. m), swCancelled = False\<rparr>"

theorem checker_crash_witness:
  "Validate std_ext probed_task = None \<and> runChecker hc_defaults0 probed_task 5 no_wait [] probed_manager = None"
proof -
  have t: "tID probed_task = 7" by (simp add: probed_task_def demo_defs)
  have n: "hcInterval (Normalized hc_defaults0 (tHealthCheck probed_task)) = 10000000000"
    "hcStartPeriod (Normalized hc_defaults0 (tHealthCheck probed_task)) = 0"
    by (simp_all add: Normalized_def probed_task_def Let_def)
  have "Validate std_ext probed_task = None"
    using Validate_None [OF std_ext_ok, of probed_task]
    by (simp add: probed_task_def demo_defs task_ok_def ports_ok_def)
  moreover have "runChecker hc_defaults0 probed_task 5 no_wait [] probed_manager = None"
    using checker_crash [where t = probed_task and d = hc_defaults0 and m = probed_manager and sw = no_wait
        and h = 5 and tks = "[]"] probed_worker
    by (simp add: t n second_def Let_def no_wait_def)
  ultimately show ?thesis by simp
qed

text \<open>A task whose port is published, and a network in which its TCP probe fails or connects.\<close>

definition patient_task :: task where
  "patient_task = probed_task\<lparr>tHostPorts := [PortMapping 80 8080 ''tcp''],
     tHealthCheck := Some \<lparr>hcType = ''tcp'', hcPort = 80, hcPath = [], hcCommand = [], hcInterval = 10,
       hcTimeout = 1, hcRetries = 3, hcStartPeriod = 5\<rparr>\<rparr>"

definition probe_tick :: "bool \<Rightarrow> watch_tick" where
  "probe_tick ok = \<lparr>tkOthers = (\<lambda>m. m), tkEnv = demo_env,
     tkNet = \<lparr>netBuild = (\<lambda>_. None), netGet = (\<lambda>_. Inl (errorf ''no http'')),
              netDial = (\<lambda>_. if ok then Inr None else Inl (errorf ''refused''))\<rparr>,
     tkAnswer = (\<lambda>_. Inl (errorf ''unreachable''))\<rparr>"

definition patient_manager :: manager where
  "patient_manager = probed_manager\<lparr>mTaskDb := snd (db_Put 7 patient_task (mTaskDb demo_manager))\<rparr>"

lemma patient_manager_ok:
  "db_healthy (mTaskDb patient_manager)" "task_view patient_manager 7 = Some patient_task"
  "taskWorker 7 patient_manager = (''w1:80'', snd (taskWorker 7 patient_manager))"
  "db_healthy (mTaskDb (snd (taskWorker 7 patient_manager)))"
  "task_view (snd (taskWorker 7 patient_manager)) = task_view patient_manager"
proof -
  show "db_healthy (mTaskDb patient_manager)" "task_view patient_manager 7 = Some patient_task"
    by (auto simp: patient_manager_def db_healthy_def task_view_def eval_manager simp del: db_view_task)
  then show "db_healthy (mTaskDb (snd (taskWorker 7 patient_manager)))"
    "task_view (snd (taskWorker 7 patient_manager)) = task_view patient_manager"
    by (simp_all add: taskWorker_def case_prod_beta)
  show "taskWorker 7 patient_manager = (''w1:80'', snd (taskWorker 7 patient_manager))"
    by (simp add: patient_manager_def taskWorker_def readAssignment_alt probed_manager_def setAssignment_def eval_manager)
qed

fun tolerated :: "int \<Rightarrow> int \<Rightarrow> bool list \<Rightarrow> bool" where
  "tolerated k n [] = True"
| "tolerated k n (ok # oks) = (if ok then tolerated k 0 oks else n + 1 < k \<and> tolerated k (n + 1) oks)"

lemma patient_probe:
  "checkTaskHealth demo_env (tkNet (probe_tick ok)) patient_task ''w1:80'' = None \<longleftrightarrow> ok"
proof -
  have h: "SplitHostPort ''w1:80'' = Inr (''w1'', ''80'')" by (simp add: SplitHostPort_def split_plain_def)
  show ?thesis
    by (simp add: checkTaskHealth_def h probe_tick_def patient_task_def tcp_probe_def hostPortFor_def
        HealthCheckHTTP_def HealthCheckTCP_def)
qed

lemma tolerated_healthy:
  assumes "db_healthy (mTaskDb m)" "task_view m 7 = Some patient_task" "tolerated k n oks"
  shows "healthy_enough ''w1:80'' k 7 n (map probe_tick oks) m"
  using assms
proof (induction oks arbitrary: n m)
  case (Cons ok oks)
  obtain r m1 where g: "getTask 7 m = (r, m1)" by fastforce
  have r: "r = Some patient_task" "db_healthy (mTaskDb m1)" "task_view m1 7 = Some patient_task"
    using g Cons.prems db_healthy_Get [OF Cons.prems(1), of 7] by (auto simp: getTask_alt)
  have "tkOthers (probe_tick ok) m = m" "tkEnv (probe_tick ok) = demo_env" by (simp_all add: probe_tick_def)
  with g r Cons show ?case by (auto simp: patient_probe split: if_splits)
qed simp

lemma others_only_view: "(\<And>m tk. tk \<in> set tks \<Longrightarrow> tkOthers tk m = m) \<Longrightarrow> task_view (others_only i tks m) = task_view m"
  by (induction tks arbitrary: m) (simp_all add: others_only_def reads_tasksD(1) [OF getTask_others])

text \<open>Two failed probes, a success, two more failed ones: with three retries the checker only looks.\<close>

theorem checker_patient_witness:
  "\<exists>m' m2. runChecker hc_defaults0 patient_task 5 \<lparr>swOthers = wake_both, swCancelled = False\<rparr>
       (map probe_tick [False, False, True, False, False]) patient_manager = Some m'
     \<and> task_view m2 7 = Some patient_task
     \<and> m' = m2\<lparr>mCheckers := cs_finished 7 5 (mCheckers m2)\<rparr>"
proof -
  let ?sw = "\<lparr>swOthers = wake_both, swCancelled = False\<rparr>"
  let ?ticks = "map probe_tick [False, False, True, False, False]"
  let ?m1 = "snd (taskWorker 7 patient_manager)"
  have t: "tID patient_task = 7" by (simp add: patient_task_def probed_task_def demo_defs)
  have n: "hcRetries (Normalized hc_defaults0 (tHealthCheck patient_task)) = 3"
    "hcInterval (Normalized hc_defaults0 (tHealthCheck patient_task)) = 10"
    by (simp_all add: Normalized_def patient_task_def Let_def)
  have "runChecker hc_defaults0 patient_task 5 ?sw ?ticks patient_manager \<noteq> None"
    using patient_manager_ok(3) by (simp add: runChecker_def Let_def t n seconds_def second_def case_prod_beta)
  then obtain m' where m': "runChecker hc_defaults0 patient_task 5 ?sw ?ticks patient_manager = Some m'" by blast
  have start: "db_healthy (mTaskDb (others_waiting hc_defaults0 patient_task ?sw ?m1))"
    "task_view (others_waiting hc_defaults0 patient_task ?sw ?m1) = task_view patient_manager"
    using patient_manager_ok(4,5) by (simp_all add: others_waiting_def wake_both_def)
  have "healthy_enough ''w1:80'' 3 7 0 ?ticks (others_waiting hc_defaults0 patient_task ?sw ?m1)"
    by (rule tolerated_healthy) (use start patient_manager_ok(2) in simp_all)
  then obtain used where used: "let m2 = others_only 7 (take used ?ticks) (others_waiting hc_defaults0 patient_task ?sw ?m1)
      in m' = m2\<lparr>mCheckers := cs_finished 7 5 (mCheckers m2)\<rparr>"
    using checker_patient [OF m', of "''w1:80''" ?m1] patient_manager_ok(3) by (auto simp: t n)
  have "tkOthers tk m = m" if "tk \<in> set (take used ?ticks)" for tk m
    using set_take_subset [of used ?ticks] that by (auto simp: probe_tick_def)
  from others_only_view [OF this, where i = 7] start(2) patient_manager_ok(2)
  have "task_view (others_only 7 (take used ?ticks) (others_waiting hc_defaults0 patient_task ?sw ?m1)) 7
      = Some patient_task" by simp
  with m' used show ?thesis unfolding Let_def by blast
qed

end
