(* ===== verification/Dispatch.thy ===== *)
theory Dispatch
  imports Restarts Lifecycle
begin

text \<open>
  The dispatch loop, \<open>manager/dispatch.go\<close>. Other goroutines run while the worker is asked, so
  \<open>SendWork\<close> is two steps: \<open>dispatch_prepare\<close> takes an event from the queue and finds, and for a start
  reserves, the worker; \<open>dispatch_finish\<close> handles the worker's answer in whatever state the manager
  has by then. \<open>SendWork\<close> is one after the other.
\<close>

definition is_stop :: "task_event \<Rightarrow> bool" where
  "is_stop te \<longleftrightarrow> eState te = Completed \<or> tState (eTask te) = Completed"

text \<open>A start is sent as Scheduled, stamped with the time when it has none.\<close>

definition outgoing :: "menv \<Rightarrow> task_event \<Rightarrow> task_event" where
  "outgoing e te =
     (if is_stop te then te
      else te\<lparr>eTask := (eTask te)\<lparr>tState := Scheduled\<rparr>, eState := Scheduled,
              eTimestamp := (if time_IsZero (eTimestamp te) then eNow e else eTimestamp te)\<rparr>)"

definition launch :: "menv \<Rightarrow> task_event \<Rightarrow> node \<Rightarrow> bool \<Rightarrow> manager \<Rightarrow> inflight option \<times> manager" where
  "launch e te w reserved m =
     (let te' = outgoing e te in
      case eMarshal e te' of
        Some err \<Rightarrow> (None, if reserved then release_ports (nAddress w) (eTask te') m else m)
      | None \<Rightarrow> (Some \<lparr>ifWorker = nAddress w, ifTask = eTask te', ifEvent = te', ifStop = is_stop te,
                      ifReserved = reserved\<rparr>, m))"

text \<open>An event for a task that a worker owns.\<close>

definition dispatch_owned :: "menv \<Rightarrow> task_event \<Rightarrow> string \<Rightarrow> manager \<Rightarrow> inflight option \<times> manager" where
  "dispatch_owned e te owner m =
     (case workerByAddress owner m of
        None \<Rightarrow> (None, enqueuePending te m)
      | Some w \<Rightarrow>
          if is_stop te then launch e te w False m
          else case TryReserve (nAddress w) (eTask te) (mReservations m) of
            (reserved, rt) \<Rightarrow>
              (let m = m\<lparr>mReservations := rt\<rparr> in
               if reserved then launch e te w True m
               else (None, markFailed e (tID (eTask te)) (tRestartCount (eTask te))
                             ''host ports on the assigned worker are reserved by another task'' m)))"

definition dispatch_unowned_stop :: "menv \<Rightarrow> task_event \<Rightarrow> manager \<Rightarrow> manager" where
  "dispatch_unowned_stop e te m =
     (case getTask (tID (eTask te)) m of
        (None, m) \<Rightarrow> m
      | (Some existing, m) \<Rightarrow>
          (case deleteTask e existing m of
             (Some err, m) \<Rightarrow> enqueuePending te m
           | (None, m) \<Rightarrow> m))"

definition dispatch_unowned_start :: "menv \<Rightarrow> task_event \<Rightarrow> manager \<Rightarrow> inflight option \<times> manager" where
  "dispatch_unowned_start e te m =
     (case getTask (tID (eTask te)) m of
        (None, m) \<Rightarrow> (None, m)
      | (Some _, m) \<Rightarrow>
          (case selectAndReserveWorker e (eTask te) [] m of
             (Inr w, m) \<Rightarrow> launch e te w True m
           | (Inl err, m) \<Rightarrow>
               (None,
                if errors_Is err ErrClusterUnreachable \<or> errors_Is err ErrStatsNotCollected
                then enqueuePending te m
                else stopTaskTerminal e (eTask te) (''no available worker to schedule task: '' @ err_msg err) m)))"

definition dispatch_event :: "menv \<Rightarrow> task_event \<Rightarrow> manager \<Rightarrow> inflight option \<times> manager" where
  "dispatch_event e te m =
     (case taskWorker (tID (eTask te)) m of
        (owner, m) \<Rightarrow>
          if owner \<noteq> [] then dispatch_owned e te owner m
          else if is_stop te then (None, dispatch_unowned_stop e te m)
          else dispatch_unowned_start e te m)"

definition dispatch_prepare :: "menv \<Rightarrow> manager \<Rightarrow> inflight option \<times> manager" where
  "dispatch_prepare e m =
     (case dequeuePending m of
        (None, m) \<Rightarrow> (None, m)
      | (Some te, m) \<Rightarrow> dispatch_event e te m)"

section \<open>The worker's answer\<close>

definition StatusNotFound :: int where
  "StatusNotFound = 404"

definition store_event :: "task_event \<Rightarrow> manager \<Rightarrow> manager" where
  "store_event te m = (if mEventDb m = None then m else snd (event_Put (eID te) te m))"

definition release_reserved :: "inflight \<Rightarrow> manager \<Rightarrow> manager" where
  "release_reserved fl m = (if ifReserved fl then release_ports (ifWorker fl) (ifTask fl) m else m)"

definition undo_dispatch :: "menv \<Rightarrow> inflight \<Rightarrow> post_response \<Rightarrow> manager \<Rightarrow> manager" where
  "undo_dispatch e fl resp m =
     rollbackAcceptedWorkerTask e (ifWorker fl) (ifTask fl) (cleanup_task (ifTask fl) resp) (ifReserved fl) m"

text \<open>
  The commit of an accepted start, under the mutex: \<open>Cancelled\<close> when the record is gone, \<open>Fatal\<close>
  without a task store, \<open>Retry\<close> when a store fails, \<open>Started\<close> otherwise.
\<close>

datatype start_result = Started | Cancelled | Fatal | Retry

definition commit_start :: "inflight \<Rightarrow> manager \<Rightarrow> start_result \<times> manager" where
  "commit_start fl m =
     (let t = ifTask fl in
      if mTaskDb m = None then (Fatal, m)
      else case task_Get (tID t) m of
        (Inl err, m) \<Rightarrow> (if errors_Is err ErrNotFound then Cancelled else Retry, m)
      | (Inr persisted, m) \<Rightarrow>
          (case commit (tID t) (ifWorker fl) t persisted m of
             (c, m) \<Rightarrow> (case c of Committed old \<Rightarrow> Started | _ \<Rightarrow> Retry, m)))"

definition wake_update :: "manager \<Rightarrow> manager" where
  "wake_update m = m\<lparr>mUpdateWaker := Wake (mUpdateWaker m)\<rparr>"

definition start_accepted :: "menv \<Rightarrow> inflight \<Rightarrow> post_response \<Rightarrow> manager \<Rightarrow> manager" where
  "start_accepted e fl resp m =
     (case commit_start fl (store_event (ifEvent fl) m) of
        (Started, m) \<Rightarrow> wake_update m
      | (Retry, m) \<Rightarrow> enqueuePending (ifEvent fl) (undo_dispatch e fl resp m)
      | (_, m) \<Rightarrow> undo_dispatch e fl resp m)"

definition dispatch_finish :: "menv \<Rightarrow> inflight \<Rightarrow> post_result \<Rightarrow> manager \<Rightarrow> manager" where
  "dispatch_finish e fl post m =
     (case post of
        Inl err \<Rightarrow> enqueuePending (ifEvent fl) (release_reserved fl m)
      | Inr resp \<Rightarrow>
          if ifStop fl \<and> prStatus resp = StatusNotFound
          then release_ports (ifWorker fl) (ifTask fl) (store_event (ifEvent fl) m)
          else if prStatus resp \<noteq> StatusCreated then
            (let m = release_reserved fl m in
             if ifStop fl then m
             else markFailed e (tID (ifTask fl)) (inc (tRestartCount (ifTask fl)))
                    (rejection (ifWorker fl) ''task'' resp) m)
          else if ifStop fl
          then release_ports (ifWorker fl) (ifTask fl) (wake_update (store_event (ifEvent fl) m))
          else start_accepted e fl resp m)"

definition SendWork :: "menv \<Rightarrow> (inflight \<Rightarrow> post_result) \<Rightarrow> manager \<Rightarrow> manager" where
  "SendWork e worker m =
     (case dispatch_prepare e m of
        (None, m) \<Rightarrow> m
      | (Some fl, m) \<Rightarrow> dispatch_finish e fl (worker fl) m)"

section \<open>Lemmas\<close>

lemma store_event_frame [simp]:
  "task_view (store_event te m) = task_view m" "asg_view (store_event te m) = asg_view m"
  "mTaskDb (store_event te m) = mTaskDb m" "mAssignments (store_event te m) = mAssignments m"
  "mReservations (store_event te m) = mReservations m" "mPending (store_event te m) = mPending m"
  "mOutbox (store_event te m) = mOutbox m"
  by (simp_all add: store_event_def task_io)

lemma wake_update_frame [simp]:
  "task_view (wake_update m) = task_view m" "asg_view (wake_update m) = asg_view m"
  "mReservations (wake_update m) = mReservations m" "mPending (wake_update m) = mPending m"
  "mOutbox (wake_update m) = mOutbox m" "mEventDb (wake_update m) = mEventDb m"
  by (simp_all add: wake_update_def)

lemma enqueuePending_frame [simp]:
  "mReservations (enqueuePending te m) = mReservations m" "mOutbox (enqueuePending te m) = mOutbox m"
  "q_items (mPending (enqueuePending te m)) = q_items (mPending m) @ [te]"
  by (simp_all add: enqueuePending_def Enqueue_def)

text \<open>With the ports reserved, undoing a start is undoing a restart.\<close>

lemma undo_dispatch_undone:
  assumes "ifReserved fl" "task_view m0 = task_view m" "db_healthy (mAssignments m) \<longrightarrow> asg_view m0 = asg_view m"
    "mReservations m0 = mReservations m" "mOutbox m0 = mOutbox m"
  shows "undone e fl resp m (undo_dispatch e fl resp m0)"
proof -
  have "undo_restart e fl resp (errorf []) m0 = (Some (errorf []), undo_dispatch e fl resp m0)"
    using assms(1) by (simp add: undo_restart_def undo_dispatch_def)
  from undone_restart [OF this assms(2-)] show ?thesis by simp
qed

lemma undo_dispatch_pending [simp]: "mPending (undo_dispatch e fl resp m) = mPending m"
  by (simp add: undo_dispatch_def rollbackAcceptedWorkerTask_def Let_def)

lemma undone_enqueue [simp]: "undone e fl resp m (enqueuePending te m') = undone e fl resp m m'"
  by (simp add: undone_def)

lemma commit_start_cases:
  assumes "commit_start fl m = (r, m')"
  shows "r = Started \<and> (\<exists>p. task_view m (tID (ifTask fl)) = Some p)
      \<and> task_view m' = (task_view m)(tID (ifTask fl) \<mapsto> ifTask fl)
      \<and> asg_view m' = (asg_view m)(tID (ifTask fl) \<mapsto> \<lparr>asTaskID = tID (ifTask fl), asWorker = ifWorker fl\<rparr>)
    \<or> r \<noteq> Started \<and> task_view m' = task_view m \<and> (db_healthy (mAssignments m) \<longrightarrow> asg_view m' = asg_view m)
      \<and> (r \<noteq> Retry \<longrightarrow> task_view m (tID (ifTask fl)) = None)" (is ?eff)
    and "mReservations m' = mReservations m" "mOutbox m' = mOutbox m" "mPending m' = mPending m"
proof -
  let ?i = "tID (ifTask fl)"
  let ?m1 = "m\<lparr>mTaskDb := snd (db_Get ?i (mTaskDb m))\<rparr>"
  have "?eff \<and> mReservations m' = mReservations m \<and> mOutbox m' = mOutbox m \<and> mPending m' = mPending m"
  proof (cases "mTaskDb m = None")
    case True
    with assms show ?thesis by (auto simp: commit_start_def Let_def task_view_def simp del: db_view_task)
  next
    case False
    show ?thesis
    proof (cases "fst (db_Get ?i (mTaskDb m))")
      case (Inl err)
      with assms False have "r = (if errors_Is err ErrNotFound then Cancelled else Retry)" "m' = ?m1"
        by (auto simp: commit_start_def task_io Let_def simp del: not_None_eq)
      with db_Get_NotFound [OF Inl] show ?thesis by simp
    next
      case (Inr p)
      obtain c where c: "commit ?i (ifWorker fl) (ifTask fl) p ?m1 = (c, m')"
          "r = (case c of Committed old \<Rightarrow> Started | _ \<Rightarrow> Retry)"
        using assms False Inr
        by (auto simp: commit_start_def task_io Let_def simp del: not_None_eq split: prod.splits)
      have p: "task_view ?m1 ?i = Some p" using db_Get_Inr [OF Inr] by simp
      from commit_effect [OF c(1) p refl] commit_frame [OF c(1)] p c(2) show ?thesis
        by (cases c) simp_all
    qed
  qed
  then show ?eff "mReservations m' = mReservations m" "mOutbox m' = mOutbox m" "mPending m' = mPending m"
    by blast+
qed

section \<open>Properties\<close>

text \<open>
  C8: the worker's answer settles a start. An unreachable worker leaves the records alone and the
  event queued again. A refusal marks the record, if it still exists, Failed with one more restart
  used. After an acceptance either the record and the owner are both written, for a task that still
  exists, or everything is undone: records as before, ports back, the worker told to stop; then the
  event is queued again unless the task was deleted (or there is no task store). So a task deleted
  while its start was in flight does not come back.
\<close>

theorem start_settled:
  assumes "\<not> ifStop fl" "ifReserved fl"
  defines "i \<equiv> tID (ifTask fl)"
  shows "case post of
      Inl err \<Rightarrow> task_view (dispatch_finish e fl post m) = task_view m
        \<and> asg_view (dispatch_finish e fl post m) = asg_view m
        \<and> mReservations (dispatch_finish e fl post m) = Release (ifWorker fl) (ifTask fl) (mReservations m)
        \<and> q_items (mPending (dispatch_finish e fl post m)) = q_items (mPending m) @ [ifEvent fl]
    | Inr resp \<Rightarrow>
        if prStatus resp \<noteq> StatusCreated
        then refused e fl i (inc (tRestartCount (ifTask fl))) m (dispatch_finish e fl post m)
          \<and> mPending (dispatch_finish e fl post m) = mPending m
        else (\<exists>p. task_view m i = Some p)
            \<and> task_view (dispatch_finish e fl post m) = (task_view m)(i \<mapsto> ifTask fl)
            \<and> asg_view (dispatch_finish e fl post m) = (asg_view m)(i \<mapsto> \<lparr>asTaskID = i, asWorker = ifWorker fl\<rparr>)
            \<and> mPending (dispatch_finish e fl post m) = mPending m
          \<or> undone e fl resp m (dispatch_finish e fl post m)
            \<and> (q_items (mPending (dispatch_finish e fl post m)) = q_items (mPending m) @ [ifEvent fl]
               \<or> task_view m i = None \<and> mPending (dispatch_finish e fl post m) = mPending m)
            \<and> (db_healthy (mTaskDb m) \<and> task_view m i = None \<longrightarrow>
                 mPending (dispatch_finish e fl post m) = mPending m)"
proof (cases post)
  case (Inl err)
  with assms(2) show ?thesis by (simp add: dispatch_finish_def release_reserved_def)
next
  case (Inr resp)
  show ?thesis
  proof (cases "prStatus resp = StatusCreated")
    case False
    have "dispatch_finish e fl post m = markFailed e i (inc (tRestartCount (ifTask fl)))
        (rejection (ifWorker fl) ''task'' resp) (release_ports (ifWorker fl) (ifTask fl) m)"
      using assms(1,2) False by (simp add: dispatch_finish_def Inr release_reserved_def Let_def i_def)
    with False Inr show ?thesis by (simp add: refused_mark markFailed_frame)
  next
    case True
    let ?m0 = "store_event (ifEvent fl) m"
    obtain r m' where c: "commit_start fl ?m0 = (r, m')" by fastforce
    have fin: "dispatch_finish e fl (Inr resp) m = start_accepted e fl resp m"
      using assms(1) True by (simp add: dispatch_finish_def StatusCreated_def StatusNotFound_def)
    note eff = commit_start_cases [OF c, folded i_def]
    have undo: "undone e fl resp m (undo_dispatch e fl resp m')" if "r \<noteq> Started"
      using eff that by (intro undo_dispatch_undone assms(2)) auto
    have missing: "task_view m i = None \<Longrightarrow> db_healthy (mTaskDb m) \<Longrightarrow> r \<noteq> Retry"
      using c db_healthy_Get [of "mTaskDb ?m0" i]
      by (auto simp: commit_start_def task_io Let_def i_def not_found_def split: if_splits)
    have gone: "r \<noteq> Started \<Longrightarrow> r \<noteq> Retry \<Longrightarrow> task_view m i = None" using eff(1) by auto
    show ?thesis
    proof (cases r)
      case Started
      with eff c Inr True show ?thesis by (auto simp: fin start_accepted_def)
    next
      case Retry
      have "start_accepted e fl resp m = enqueuePending (ifEvent fl) (undo_dispatch e fl resp m')"
        using c Retry by (simp add: start_accepted_def)
      with undo missing Retry Inr True eff(4) show ?thesis by (auto simp: fin)
    next
      case Cancelled
      with undo gone c Inr True eff(4) show ?thesis by (simp add: fin start_accepted_def)
    next
      case Fatal
      with undo gone c Inr True eff(4) show ?thesis by (simp add: fin start_accepted_def)
    qed
  qed
qed

definition demo_reply :: post_response where
  "demo_reply = \<lparr>prStatus = 201, prTask = demo_task, prMessage = []\<rparr>"

theorem start_settled_witness:
  "undone demo_env demo_inflight demo_reply demo_manager (dispatch_finish demo_env demo_inflight (Inr demo_reply) demo_manager)"
proof -
  have fl: "\<not> ifStop demo_inflight" "ifReserved demo_inflight" "tID (ifTask demo_inflight) = 7"
    by (simp_all add: demo_inflight_def restarted_def demo_defs)
  have "task_view demo_manager 7 = None" by (simp add: task_view_def eval_manager del: db_view_task)
  with start_settled [OF fl(1,2), where post = "Inr demo_reply" and e = demo_env and m = demo_manager] fl(3) show ?thesis
    by (auto simp: demo_reply_def StatusCreated_def)
qed

text \<open>
  What a worker answers to a stop never changes the task's record or its owner. Accepted, or
  answered with 404, the task's ports are released; refused otherwise, nothing happens; an
  unreachable worker leaves the event queued again. So a task whose stop was answered with 404, which
  counts as a completed stop, keeps the state its record had, such as Running.
\<close>

theorem stop_settled:
  assumes "ifStop fl" "\<not> ifReserved fl"
  shows "task_view (dispatch_finish e fl post m) = task_view m
    \<and> asg_view (dispatch_finish e fl post m) = asg_view m
    \<and> mOutbox (dispatch_finish e fl post m) = mOutbox m
    \<and> mReservations (dispatch_finish e fl post m) =
        (case post of Inl err \<Rightarrow> mReservations m
         | Inr resp \<Rightarrow> if prStatus resp \<in> {StatusCreated, StatusNotFound}
                      then Release (ifWorker fl) (ifTask fl) (mReservations m) else mReservations m)
    \<and> q_items (mPending (dispatch_finish e fl post m)) =
        (case post of Inl err \<Rightarrow> q_items (mPending m) @ [ifEvent fl] | Inr resp \<Rightarrow> q_items (mPending m))
    \<and> (\<forall>resp. post = Inr resp \<longrightarrow> prStatus resp \<in> {StatusCreated, StatusNotFound} \<longrightarrow> db_healthy (mEventDb m) \<longrightarrow>
         db_view (mEventDb (dispatch_finish e fl post m)) (eID (ifEvent fl)) = Some (ifEvent fl))"
proof -
  have ev: "db_healthy (mEventDb m) \<Longrightarrow> db_view (mEventDb (store_event te m)) (eID te) = Some te" for te
    by (simp add: store_event_def task_io db_Put_view del: not_None_eq)
  show ?thesis
  proof (cases post)
    case (Inl err)
    with assms show ?thesis by (simp add: dispatch_finish_def release_reserved_def)
  next
    case (Inr resp)
    consider "prStatus resp = StatusNotFound" | "prStatus resp = StatusCreated"
      | "prStatus resp \<notin> {StatusCreated, StatusNotFound}" by blast
    then show ?thesis
      using assms ev Inr
      by cases (simp_all add: dispatch_finish_def release_reserved_def StatusCreated_def StatusNotFound_def Let_def)
  qed
qed

theorem stop_settled_witness:
  "task_view (dispatch_finish demo_env (demo_inflight\<lparr>ifStop := True, ifReserved := False\<rparr>)
     (Inr (demo_reply\<lparr>prStatus := 404\<rparr>)) demo_manager) = task_view demo_manager"
  using stop_settled [of "demo_inflight\<lparr>ifStop := True, ifReserved := False\<rparr>" demo_env
    "Inr (demo_reply\<lparr>prStatus := 404\<rparr>)" demo_manager] by simp

section \<open>No event is lost\<close>

lemma stopTaskTerminal_pending: "mPending (stopTaskTerminal e t reason m) = mPending m"
  by (simp add: stopTaskTerminal_def task_io Let_def split: option.split)

lemma selectAndReserve_pending: "mPending (snd (selectAndReserveWorker e t owner m)) = mPending m"
proof -
  obtain r m' where s: "select_and_reserve e t owner m = (r, m')" by fastforce
  have "mPending m' = mPending m"
    using select_and_reserve_Inr [of e t owner m] select_and_reserve_Inl(4) [of e t owner m] s by (cases r) blast+
  with s show ?thesis by (auto simp: selectAndReserveWorker_def split: option.split sum.split)
qed

lemma launch_cases:
  assumes "launch e te w rsv m = (r, m')"
  shows "task_view m' = task_view m" "asg_view m' = asg_view m" "mPending m' = mPending m"
    "r = None \<longleftrightarrow> eMarshal e (outgoing e te) \<noteq> None"
    "\<And>fl. r = Some fl \<Longrightarrow> fl = \<lparr>ifWorker = nAddress w, ifTask = eTask (outgoing e te), ifEvent = outgoing e te,
       ifStop = is_stop te, ifReserved = rsv\<rparr> \<and> m' = m"
  using assms by (auto simp: launch_def Let_def split: option.splits)

text \<open>What became of the event at the head of the queue.\<close>

definition accounted ::
  "menv \<Rightarrow> task_event \<Rightarrow> inflight option \<Rightarrow> manager \<Rightarrow> manager \<Rightarrow> bool" where
  "accounted e te r m m' \<longleftrightarrow>
     (case r of
        Some fl \<Rightarrow> ifEvent fl = outgoing e te \<and> ifTask fl = eTask (outgoing e te) \<and> ifStop fl = is_stop te
          \<and> ifReserved fl = (\<not> is_stop te) \<and> task_view m' = task_view m \<and> mPending m' = mPending m
      | None \<Rightarrow>
          q_items (mPending m') = q_items (mPending m) @ [te] \<and> task_view m' = task_view m
          \<or> is_stop te \<and> task_view m' = (task_view m)(tID (eTask te) := None)
             \<and> q_items (mPending m') \<in>
                 {q_items (mPending m), filter (\<lambda>x. tID (eTask x) \<noteq> tID (eTask te)) (q_items (mPending m))}
          \<or> mPending m' = mPending m \<and> (eMarshal e (outgoing e te) \<noteq> None \<and> task_view m' = task_view m
               \<or> \<not> is_stop te \<and> (task_view m (tID (eTask te)) = None \<and> task_view m' = task_view m
                    \<or> (\<exists>u. task_view m' = (task_view m)(tID (eTask te) \<mapsto> u) \<and> tState u = Failed))))"

lemma accounted_cong:
  "task_view m1 = task_view m \<Longrightarrow> mPending m1 = mPending m \<Longrightarrow> accounted e te r m1 m' = accounted e te r m m'"
  by (simp add: accounted_def split: option.split)

lemma launch_accounted: "launch e te w (\<not> is_stop te) m = (r, m') \<Longrightarrow> accounted e te r m m'"
  using launch_cases [of e te w "\<not> is_stop te" m r m'] by (cases r) (auto simp: accounted_def)

lemma dispatch_owned_accounted:
  assumes "dispatch_owned e te owner m = (r, m')" "db_healthy (mTaskDb m)"
  shows "accounted e te r m m'"
proof (cases "workerByAddress owner m")
  case None
  with assms(1) have "r = None" "m' = enqueuePending te m" by (simp_all add: dispatch_owned_def)
  then show ?thesis by (simp add: accounted_def)
next
  case (Some w)
  show ?thesis
  proof (cases "is_stop te")
    case True
    with assms(1) Some launch_accounted [of e te w m r m'] show ?thesis by (simp add: dispatch_owned_def)
  next
    case False
    obtain ok rt where tr: "TryReserve (nAddress w) (eTask te) (mReservations m) = (ok, rt)" by fastforce
    let ?m1 = "m\<lparr>mReservations := rt\<rparr>"
    have m1: "task_view ?m1 = task_view m" "mPending ?m1 = mPending m" "db_healthy (mTaskDb ?m1)"
      using assms(2) by simp_all
    show ?thesis
    proof (cases ok)
      case True
      with assms(1) Some False tr launch_accounted [of e te w ?m1 r m'] show ?thesis
        by (simp add: dispatch_owned_def accounted_cong [OF m1(1,2)])
    next
      case no: False
      define i where "i = tID (eTask te)"
      obtain reason where m': "r = None" "m' = markFailed e i (tRestartCount (eTask te)) reason ?m1"
        using assms(1) Some False tr no by (auto simp: dispatch_owned_def Let_def i_def)
      show ?thesis
      proof (cases "task_view m i")
        case None
        with m1 have "task_view m' = task_view m" by (simp add: m'(2) markFailed_missing)
        with None m' False show ?thesis by (simp add: accounted_def i_def markFailed_frame)
      next
        case (Some t)
        have "\<exists>u. task_view m' = (task_view m)(i \<mapsto> u) \<and> tState u = Failed"
          using markFailed_healthy [OF m1(3), of i t] Some by (force simp: m'(2))
        with m' False show ?thesis by (auto simp: accounted_def i_def markFailed_frame)
      qed
    qed
  qed
qed

lemma dispatch_unowned_stop_accounted:
  assumes "db_healthy (mTaskDb m)" "mgr_wf m" "is_stop te"
  shows "accounted e te None m (dispatch_unowned_stop e te m)"
proof -
  define i where "i = tID (eTask te)"
  let ?m1 = "m\<lparr>mTaskDb := snd (db_Get i (mTaskDb m))\<rparr>"
  show ?thesis
  proof (cases "task_view m i")
    case None
    then have "dispatch_unowned_stop e te m = ?m1"
      using db_healthy_Get [OF assms(1), of i] by (simp add: dispatch_unowned_stop_def getTask_alt i_def)
    with None assms(3) show ?thesis by (auto simp: accounted_def i_def)
  next
    case (Some t)
    then have g: "getTask i m = (Some t, ?m1)" using db_healthy_Get [OF assms(1), of i] by (simp add: getTask_alt)
    have t: "tID t = i" using Some assms(2) by (simp add: mgr_wf_def)
    have h: "db_healthy (mTaskDb ?m1)" using assms(1) by simp
    let ?m2 = "?m1\<lparr>mTaskDb := snd (db_Delete i (mTaskDb ?m1))\<rparr>"
    have del: "deleteTask e t ?m1 = (None, delete_rest e t ?m2)"
      using h assms(1) by (simp add: deleteTask_alt task_io t del: not_None_eq)
    have v: "task_view ?m2 = (task_view m)(i := None)"
      using db_Delete_view [of i "mTaskDb ?m1"] h by simp
    obtain w m3 where d: "drop_assignment (tID t) ?m2 = (w, m3)" by fastforce
    have "dispatch_unowned_stop e te m = delete_rest e t ?m2"
      using g del by (simp add: dispatch_unowned_stop_def i_def)
    with delete_rest_effect(1,3) [OF d] v assms(3) t show ?thesis by (auto simp: accounted_def i_def)
  qed
qed

lemma dispatch_unowned_start_accounted:
  assumes "dispatch_unowned_start e te m = (r, m')" "db_healthy (mTaskDb m)" "\<not> is_stop te"
  shows "accounted e te r m m'"
proof -
  define i where "i = tID (eTask te)"
  let ?m1 = "m\<lparr>mTaskDb := snd (db_Get i (mTaskDb m))\<rparr>"
  show ?thesis
  proof (cases "task_view m i")
    case None
    then have "r = None \<and> m' = ?m1"
      using db_healthy_Get [OF assms(2), of i] assms(1) by (simp add: dispatch_unowned_start_def getTask_alt i_def)
    with None assms(3) show ?thesis by (auto simp: accounted_def i_def)
  next
    case (Some t)
    then have g: "getTask i m = (Some t, ?m1)" using db_healthy_Get [OF assms(2), of i] by (simp add: getTask_alt)
    obtain s m2 where s: "selectAndReserveWorker e (eTask te) [] ?m1 = (s, m2)" by fastforce
    have "same_stores ?m1 m2" using selectAndReserve_stores [of ?m1 e "eTask te" "[]"] s by simp
    then have m2: "task_view m2 = task_view m" "mTaskDb m2 = mTaskDb ?m1"
      by (simp_all add: same_storesD(1,4))
    have q: "mPending m2 = mPending m"
      using selectAndReserve_pending [of e "eTask te" "[]" ?m1] s by simp
    show ?thesis
    proof (cases s)
      case (Inr w)
      with assms(1) g s have "launch e te w (\<not> is_stop te) m2 = (r, m')"
        using assms(3) by (simp add: dispatch_unowned_start_def i_def)
      from launch_accounted [OF this] show ?thesis by (simp add: accounted_cong [OF m2(1) q])
    next
      case (Inl err)
      note parts = assms(1) g s Inl
      show ?thesis
      proof (cases "errors_Is err ErrClusterUnreachable \<or> errors_Is err ErrStatsNotCollected")
        case True
        with parts have "r = None" "m' = enqueuePending te m2"
          by (auto simp: dispatch_unowned_start_def i_def)
        with m2 q show ?thesis by (simp add: accounted_def)
      next
        case False
        with parts obtain reason where m': "r = None" "m' = stopTaskTerminal e (eTask te) reason m2"
          by (auto simp: dispatch_unowned_start_def i_def)
        have h: "db_healthy (mTaskDb m2)" using assms(2) by (simp add: m2(2))
        then have "task_view m' = (task_view m)(i \<mapsto> terminal_task e (eTask te) reason)"
          using m2 assms(2) by (simp add: m'(2) stopTaskTerminal_view i_def del: not_None_eq)
        moreover have "mPending m' = mPending m"
          using q by (simp add: m'(2) stopTaskTerminal_pending)
        ultimately show ?thesis using m' assms(3) by (auto simp: accounted_def i_def)
      qed
    qed
  qed
qed

lemma dispatch_event_accounted:
  assumes "dispatch_event e te m = (r, m')" "db_healthy (mTaskDb m)" "mgr_wf m"
  shows "accounted e te r m m'"
proof -
  let ?i = "tID (eTask te)"
  let ?m1 = "m\<lparr>mAssignments := snd (readAssignment ?i (mAssignments m))\<rparr>"
  have m1: "task_view ?m1 = task_view m" "mPending ?m1 = mPending m" "db_healthy (mTaskDb ?m1)" "mgr_wf ?m1"
    using assms(2,3) by simp_all
  show ?thesis
    using assms(1) dispatch_owned_accounted [of e te _ ?m1 r m']
      dispatch_unowned_stop_accounted [of ?m1 te e] dispatch_unowned_start_accounted [of e te ?m1 r m'] m1(3,4)
    by (auto simp: dispatch_event_def task_io accounted_cong [OF m1(1,2)] simp del: views_update split: if_splits)
qed

text \<open>
  C9: while the task store works, dispatching loses no event. The event at the head of the queue is
  sent to a worker, or goes to the end of the queue, or is settled: a stop without a worker leaves no
  record; a start is dropped only when its task has no record any more or its record is now Failed,
  or when the event cannot be encoded. The events behind it stay in order, except that deleting a
  task drops that task's own.
\<close>

theorem dispatch_loses_nothing:
  assumes "dispatch_prepare e m = (r, m')" "q_items (mPending m) = te # rest" "db_healthy (mTaskDb m)" "mgr_wf m"
  shows "case r of
      Some fl \<Rightarrow> ifEvent fl = outgoing e te \<and> ifStop fl = is_stop te \<and> task_view m' = task_view m
        \<and> q_items (mPending m') = rest
    | None \<Rightarrow>
        q_items (mPending m') = rest @ [te] \<and> task_view m' = task_view m
        \<or> is_stop te \<and> task_view m' = (task_view m)(tID (eTask te) := None)
           \<and> q_items (mPending m') \<in> {rest, filter (\<lambda>x. tID (eTask x) \<noteq> tID (eTask te)) rest}
        \<or> q_items (mPending m') = rest \<and> (eMarshal e (outgoing e te) \<noteq> None
            \<or> \<not> is_stop te \<and> (task_view m (tID (eTask te)) = None
                 \<or> (\<exists>u. task_view m' (tID (eTask te)) = Some u \<and> tState u = Failed)))"
proof -
  let ?m1 = "m\<lparr>mPending := snd (Dequeue (mPending m))\<rparr>"
  have d: "dequeuePending m = (Some te, ?m1)" "q_items (mPending ?m1) = rest"
    using assms(2) by (simp_all add: dequeuePending_def Dequeue_def)
  have ok: "db_healthy (mTaskDb ?m1)" "mgr_wf ?m1"
    using assms(3,4) quiet_stores(3) by (simp_all add: mgr_wf_def)
  have ev: "dispatch_event e te ?m1 = (r, m')" using assms(1) d(1) by (simp add: dispatch_prepare_def)
  have rest: "q_items (snd (Dequeue (mPending m))) = rest" using d(2) by simp
  from dispatch_event_accounted [OF ev ok] show ?thesis
    by (cases r) (auto simp: accounted_def rest)
qed

theorem dispatch_loses_nothing_witness:
  "\<exists>m'. dispatch_prepare demo_env (enqueuePending (stop_event demo_env demo_task) demo_manager) = (None, m')
     \<and> q_items (mPending m') = []"
proof -
  let ?te = "stop_event demo_env demo_task"
  let ?m = "enqueuePending ?te demo_manager"
  obtain r m' where r: "dispatch_prepare demo_env ?m = (r, m')" by fastforce
  have q: "q_items (mPending ?m) = [?te]" by (simp add: demo_manager_def queue_New_def)
  have ok: "db_healthy (mTaskDb ?m)" "mgr_wf ?m"
    by (simp_all add: demo_manager_def db_healthy_def mgr_wf_def task_view_def asg_view_def new_store_def
        store_view_def store_wf_def al_wf_def del: db_view_task db_view_asg)
  have "is_stop ?te" "tID (eTask ?te) = 7" by (simp_all add: is_stop_def stop_event_def demo_defs)
  moreover have "fst (taskWorker 7 (snd (dequeuePending ?m))) = []"
    by (simp add: dequeuePending_def Dequeue_def q task_io readAssignment_def eval_manager split: option.split)
  moreover have "fst (dequeuePending ?m) = Some ?te" using q by (simp add: dequeuePending_def Dequeue_def)
  ultimately have "r = None \<and> m' = dispatch_unowned_stop demo_env ?te (snd (taskWorker 7 (snd (dequeuePending ?m))))"
    using r by (simp add: dispatch_prepare_def dispatch_event_def case_prod_beta split: option.splits)
  then have "r = None" "q_items (mPending m') \<noteq> [?te]"
    using q by (simp_all add: dispatch_unowned_stop_def getTask_alt task_io dequeuePending_def Dequeue_def stop_event_def
        eval_manager db_Get_def store_Get_def split: option.splits)
  with dispatch_loses_nothing [OF r q ok] r show ?thesis by auto
qed

end
