(* ===== verification/Sync.thy ===== *)
theory Sync
  imports Restarts
begin

text \<open>
  Reconciliation with the workers, \<open>manager/worker_sync.go\<close>: the workers' task lists are merged into
  the manager's records, and a worker is told to forget a task that the manager does not know.
\<close>

text \<open>What a GET to a worker yields: a connection error, or a status and what the decoder makes of the body.\<close>

definition fetchTasksFromWorker :: "gerror + task list http_response \<Rightarrow> gerror + task list" where
  "fetchTasksFromWorker got =
     (case got of
        Inl err \<Rightarrow> Inl (wrapf ''error connecting to worker: '' err)
      | Inr resp \<Rightarrow>
          if StatusCode resp \<noteq> StatusOK
          then Inl (errorf (''worker responded with status '' @ itoa (StatusCode resp)))
          else case Body resp of
            Inl err \<Rightarrow> Inl (wrapf ''error unmarshalling tasks: '' err)
          | Inr tasks \<Rightarrow> Inr tasks)"

definition maxProxyLogSize :: nat where
  "maxProxyLogSize = 5 * 2 ^ 20"

text \<open>The path of a logs request, and the relayed answer with at most \<open>maxProxyLogSize\<close> bytes of body.\<close>

definition logs_path :: "menv \<Rightarrow> uuid \<Rightarrow> int \<Rightarrow> string" where
  "logs_path e taskID tail =
     ''/tasks/logs/'' @ eIdString e taskID @ (if tail > 0 then ''?tail='' @ itoa tail else [])"

record WorkerLogsResponse =
  wlStatusCode :: int
  wlHeader :: "string \<Rightarrow> string"
  wlBody :: string

definition fetchTaskLogsFromWorker ::
  "(string \<Rightarrow> string \<Rightarrow> gerror + (string \<Rightarrow> string) \<times> string http_response) \<Rightarrow> menv \<Rightarrow> string \<Rightarrow> uuid \<Rightarrow> int
     \<Rightarrow> gerror + WorkerLogsResponse" where
  "fetchTaskLogsFromWorker get e worker taskID tail =
     (case get worker (logs_path e taskID tail) of
        Inl err \<Rightarrow> Inl (wrapf ''error connecting to worker: '' err)
      | Inr (header, resp) \<Rightarrow>
          (case Body resp of
             Inl err \<Rightarrow> Inl (wrapf (''error reading logs response body from worker '' @ worker @ '': '') err)
           | Inr body \<Rightarrow> Inr \<lparr>wlStatusCode = StatusCode resp, wlHeader = header, wlBody = take maxProxyLogSize body\<rparr>))"

text \<open>How a worker's report changes a record.\<close>

definition merge_report :: "menv \<Rightarrow> task \<Rightarrow> task \<Rightarrow> task" where
  "merge_report e persisted t =
     (let updated = persisted\<lparr>tContainerID := tContainerID t, tHostPorts := tHostPorts t\<rparr>;
          updated = (if time_IsZero (tStartTime t) then updated else updated\<lparr>tStartTime := tStartTime t\<rparr>);
          updated = (if time_IsZero (tFinishTime t) then updated else updated\<lparr>tFinishTime := tFinishTime t\<rparr>)
      in if tState t = Failed then
           (let updated = (if tState persisted \<noteq> Failed
                           then updated\<lparr>tNextRetryAt := eNow e + restartBackoff e (tRestartCount updated)\<rparr>
                           else updated);
                updated = updated\<lparr>tState := Failed\<rparr>
            in if tFailureReason t \<noteq> [] then updated\<lparr>tFailureReason := tFailureReason t\<rparr> else updated)
         else if \<not> IsTerminal updated then updated\<lparr>tState := tState t\<rparr>
         else updated)"

definition forgetTaskOnWorker :: "string \<Rightarrow> uuid \<Rightarrow> manager \<Rightarrow> manager" where
  "forgetTaskOnWorker addr i m = m\<lparr>mOutbox := mOutbox m @ [ForgetTask addr i]\<rparr>"

definition update_one :: "menv \<Rightarrow> string \<Rightarrow> task \<Rightarrow> manager \<Rightarrow> manager" where
  "update_one e addr t m =
     (if mTaskDb m = None then m
      else case task_Get (tID t) m of
        (Inl err, m) \<Rightarrow> if errors_Is err ErrNotFound then forgetTaskOnWorker addr (tID t) m else m
      | (Inr persisted, m) \<Rightarrow>
          if tRestartCount t \<noteq> tRestartCount persisted then m
          else snd (task_Put (tID t) (merge_report e persisted t) m))"

definition update_worker :: "menv \<Rightarrow> string \<Rightarrow> gerror + task list http_response \<Rightarrow> manager \<Rightarrow> manager" where
  "update_worker e addr got m =
     (case fetchTasksFromWorker got of
        Inl err \<Rightarrow> m
      | Inr tasks \<Rightarrow> fold (update_one e addr) tasks m)"

text \<open>\<open>get a\<close> is the answer of worker \<open>a\<close>.\<close>

definition updateTasks :: "menv \<Rightarrow> (string \<Rightarrow> gerror + task list http_response) \<Rightarrow> manager \<Rightarrow> manager" where
  "updateTasks e get m = fold (\<lambda>n. update_worker e (nAddress n) (get (nAddress n))) (mNodes m) m"

section \<open>Merging a report\<close>

text \<open>What a merge may change: never the specification, the restart count or the user's stop.\<close>

definition spec_part :: "task \<Rightarrow> task" where
  "spec_part t = t\<lparr>tState := Pending, tContainerID := [], tHostPorts := [], tStartTime := 0, tFinishTime := 0,
     tNextRetryAt := 0, tFailureReason := []\<rparr>"

definition same_spec :: "task \<Rightarrow> task \<Rightarrow> bool" where
  "same_spec p q \<longleftrightarrow> spec_part p = spec_part q"

lemma same_spec_refl [simp]: "same_spec p p"
  by (simp add: same_spec_def)

lemma same_spec_trans: "same_spec p q \<Longrightarrow> same_spec q r \<Longrightarrow> same_spec p r"
  by (simp add: same_spec_def)

lemma same_spec_update:
  assumes "same_spec p q"
  shows "q = p\<lparr>tState := tState q, tContainerID := tContainerID q, tHostPorts := tHostPorts q,
     tStartTime := tStartTime q, tFinishTime := tFinishTime q, tNextRetryAt := tNextRetryAt q,
     tFailureReason := tFailureReason q\<rparr>"
proof -
  have whole: "(spec_part q)\<lparr>tState := tState q, tContainerID := tContainerID q, tHostPorts := tHostPorts q,
      tStartTime := tStartTime q, tFinishTime := tFinishTime q, tNextRetryAt := tNextRetryAt q,
      tFailureReason := tFailureReason q\<rparr> = q"
    by (simp add: spec_part_def)
  show ?thesis
    by (subst whole [symmetric], subst assms [unfolded same_spec_def, symmetric]) (simp add: spec_part_def)
qed

lemma merge_same_spec: "same_spec p (merge_report e p t)"
  by (simp add: same_spec_def spec_part_def merge_report_def Let_def)

lemma merge_terminal: "IsTerminal p \<Longrightarrow> IsTerminal (merge_report e p t)"
  by (auto simp: merge_report_def IsTerminal_def Let_def)

lemma merge_idem: "merge_report e' (merge_report e p t) t = merge_report e p t"
  by (cases "tState t = Failed"; cases "tState p = Failed"; cases "time_IsZero (tStartTime t)";
      cases "time_IsZero (tFinishTime t)"; cases "tFailureReason t = []";
      simp add: merge_report_def IsTerminal_def Let_def)

lemma update_one_cases:
  obtains "task_view (update_one e a t m) = task_view m"
  | p where "task_view m (tID t) = Some p" "tRestartCount t = tRestartCount p"
      "task_view (update_one e a t m) = (task_view m)(tID t \<mapsto> merge_report e p t)"
proof (cases "fst (db_Get (tID t) (mTaskDb m))")
  case (Inl err)
  then have "task_view (update_one e a t m) = task_view m"
    by (simp add: update_one_def task_io forgetTaskOnWorker_def)
  with that(1) show ?thesis .
next
  case (Inr p)
  then have p: "task_view m (tID t) = Some p" using db_Get_Inr [OF Inr] by simp
  show ?thesis
  proof (cases "mTaskDb m = None \<or> tRestartCount t \<noteq> tRestartCount p")
    case True
    with Inr have "task_view (update_one e a t m) = task_view m"
      by (auto simp: update_one_def task_io)
    with that(1) show ?thesis .
  next
    case False
    with Inr have "task_view (update_one e a t m) \<in> {task_view m, (task_view m)(tID t \<mapsto> merge_report e p t)}"
      by (auto simp: update_one_def task_io db_Put_view)
    with that p False show ?thesis by blast
  qed
qed

text \<open>A sequence of merges keeps what each merge keeps.\<close>

definition kept :: "manager \<Rightarrow> manager \<Rightarrow> bool" where
  "kept m m' \<longleftrightarrow> (\<forall>i. case task_view m i of
       None \<Rightarrow> task_view m' i = None
     | Some p \<Rightarrow> (\<exists>q. task_view m' i = Some q \<and> same_spec p q \<and> (IsTerminal p \<longrightarrow> IsTerminal q)))"

lemma kept_refl [simp]: "kept m m"
  by (auto simp: kept_def split: option.split)

lemma kept_trans:
  assumes "kept a b" "kept b c"
  shows "kept a c"
  unfolding kept_def
proof (intro allI)
  fix i
  from assms(1) have ab: "case task_view a i of None \<Rightarrow> task_view b i = None
      | Some p \<Rightarrow> \<exists>q. task_view b i = Some q \<and> same_spec p q \<and> (IsTerminal p \<longrightarrow> IsTerminal q)"
    unfolding kept_def by blast
  from assms(2) have bc: "case task_view b i of None \<Rightarrow> task_view c i = None
      | Some p \<Rightarrow> \<exists>q. task_view c i = Some q \<and> same_spec p q \<and> (IsTerminal p \<longrightarrow> IsTerminal q)"
    unfolding kept_def by blast
  show "case task_view a i of None \<Rightarrow> task_view c i = None
      | Some p \<Rightarrow> \<exists>q. task_view c i = Some q \<and> same_spec p q \<and> (IsTerminal p \<longrightarrow> IsTerminal q)"
    using ab bc by (auto split: option.splits intro: same_spec_trans)
qed

lemma kept_fold: "(\<And>x m. kept m (f x m)) \<Longrightarrow> kept m (fold f xs m)"
  by (induction xs arbitrary: m) (auto intro: kept_trans)

lemma kept_update_one: "kept m (update_one e a t m)"
proof (cases rule: update_one_cases [of e a t m])
  case 1
  then show ?thesis by (auto simp: kept_def split: option.split)
next
  case (2 p)
  then show ?thesis
    using merge_same_spec [of p e t] merge_terminal [of p e t] by (auto simp: kept_def split: option.split)
qed

lemma kept_update_worker: "kept m (update_worker e a got m)"
  by (auto simp: update_worker_def intro: kept_fold kept_update_one split: sum.split)

lemma kept_updateTasks: "kept m (updateTasks e get m)"
  unfolding updateTasks_def by (rule kept_fold) (rule kept_update_worker)

section \<open>Properties\<close>

text \<open>
  C13: a round of reconciliation never creates a record, so a deleted task does not come back from a
  worker's report; a record keeps its specification, its restart count and the user's stop, and a task
  that failed for good stays so.
\<close>

theorem sync_keeps_records:
  shows "(task_view m i = None \<longrightarrow> task_view (updateTasks e get m) i = None)
    \<and> (task_view m i = Some p \<longrightarrow> (\<exists>q. task_view (updateTasks e get m) i = Some q
         \<and> q = p\<lparr>tState := tState q, tContainerID := tContainerID q, tHostPorts := tHostPorts q,
               tStartTime := tStartTime q, tFinishTime := tFinishTime q, tNextRetryAt := tNextRetryAt q,
               tFailureReason := tFailureReason q\<rparr>
         \<and> (tState p = Failed \<and> tFinishTime p \<noteq> 0 \<longrightarrow> tState q = Failed \<and> tFinishTime q \<noteq> 0)))"
proof (cases "task_view m i")
  case None
  with kept_updateTasks [of m e get] show ?thesis by (auto simp: kept_def dest: spec [of _ i])
next
  case (Some p')
  have "case task_view m i of None \<Rightarrow> task_view (updateTasks e get m) i = None
      | Some p \<Rightarrow> \<exists>q. task_view (updateTasks e get m) i = Some q \<and> same_spec p q \<and> (IsTerminal p \<longrightarrow> IsTerminal q)"
    using kept_updateTasks [of m e get] unfolding kept_def by blast
  with Some obtain q where
    "task_view (updateTasks e get m) i = Some q" "same_spec p' q" "IsTerminal p' \<longrightarrow> IsTerminal q"
    by auto
  with Some same_spec_update [of p' q] show ?thesis by (auto simp: IsTerminal_def time_IsZero_def)
qed

theorem sync_keeps_records_witness:
  "task_view (updateTasks demo_env (\<lambda>_. Inr \<lparr>StatusCode = 200, Body = Inr [demo_task]\<rparr>) demo_manager) 7 = None"
proof -
  have "task_view demo_manager 7 = None" by (simp add: task_view_def eval_manager del: db_view_task)
  with sync_keeps_records [of demo_manager 7] show ?thesis by simp
qed

text \<open>
  One reported task. Without a record the worker is told to forget it; a report from another
  restart attempt is ignored; otherwise the report is merged. Merging the same report again changes
  nothing, so the pause before a restart is armed once per failure.
\<close>

theorem report_settled:
  assumes "db_healthy (mTaskDb m)"
  shows "(task_view m (tID t) = None \<longrightarrow> task_view (update_one e a t m) = task_view m
        \<and> mOutbox (update_one e a t m) = mOutbox m @ [ForgetTask a (tID t)])
    \<and> (\<forall>p. task_view m (tID t) = Some p \<longrightarrow> mOutbox (update_one e a t m) = mOutbox m
        \<and> task_view (update_one e a t m) =
            (if tRestartCount t = tRestartCount p then (task_view m)(tID t \<mapsto> merge_report e p t) else task_view m))
    \<and> merge_report e' (merge_report e q t) t = merge_report e q t"
proof -
  have g: "fst (db_Get (tID t) (mTaskDb m)) = (case task_view m (tID t) of None \<Rightarrow> Inl not_found | Some v \<Rightarrow> Inr v)"
    using db_healthy_Get [OF assms] by simp
  have nf: "errors_Is not_found ErrNotFound" by (simp add: not_found_def)
  show ?thesis
    using assms g nf merge_idem
    by (auto simp: update_one_def task_io forgetTaskOnWorker_def db_Put_view simp del: not_None_eq)
qed

theorem report_settled_witness:
  "mOutbox (update_one demo_env ''w1:80'' demo_task demo_manager) = [ForgetTask ''w1:80'' 7]"
proof -
  have h: "db_healthy (mTaskDb demo_manager)" by (simp add: demo_manager_def db_healthy_def new_store_def)
  have "task_view demo_manager 7 = None" "tID demo_task = 7" "mOutbox demo_manager = []"
    by (simp_all add: task_view_def eval_manager del: db_view_task)
  with report_settled [OF h, of demo_task demo_env "''w1:80''" demo_env zero_task] show ?thesis by simp
qed

end
