(* ===== verification/ManagerApi.thy ===== *)
theory ManagerApi
  imports Dispatch Sync
begin

text \<open>
  The manager's HTTP handlers, \<open>manager/handlers.go\<close>, with the image pulls of \<open>manager/images.go\<close> and the
  helpers of \<open>handlers/helpers.go\<close>. A handler maps the decoded request to a reply and the new
  manager; routing and authorization are in \<open>Routes\<close>.
\<close>

section \<open>Replies\<close>

record pull_result =
  prWorker :: string
  prOK :: bool
  prPulled :: bool
  prError :: string

datatype body = NoBody | Message string | TaskBody task | TaskViews "(task \<times> string) list"
  | NodeViews "(snapshot \<times> string \<times> string) list" | PullReport string "pull_result list" | TextBody string
  | PulledBody string bool | TaskList "task list" | StatsBody "stats option" | PortsBody occupied_ports

record reply =
  rpStatus :: int
  rpHeader :: "(string \<times> string) list"
  rpBody :: body

definition plain :: "int \<Rightarrow> reply" where
  "plain s = \<lparr>rpStatus = s, rpHeader = [], rpBody = NoBody\<rparr>"

definition HttpResponseHelper :: "string \<Rightarrow> int \<Rightarrow> reply" where
  "HttpResponseHelper message statusCode = \<lparr>rpStatus = statusCode, rpHeader = [], rpBody = Message message\<rparr>"

definition json_reply :: "int \<Rightarrow> body \<Rightarrow> reply" where
  "json_reply s b = \<lparr>rpStatus = s, rpHeader = [(''Content-Type'', ''application/json'')], rpBody = b\<rparr>"

definition text_plain :: "string \<times> string" where
  "text_plain = (''Content-Type'', ''text/plain; charset=utf-8'')"

definition newline :: string where
  "newline = [CHR 0x0A]"

definition unmarshalling_error :: "gerror \<Rightarrow> reply" where
  "unmarshalling_error err = HttpResponseHelper (''Error unmarshalling body: '' @ err_msg err @ newline) 400"

text \<open>\<open>raw\<close> is the first value of the query parameter \<open>tail\<close>, empty when there is none.\<close>

definition ParseTail :: "string \<Rightarrow> int" where
  "ParseTail raw =
     (if raw = [] then 0
      else case atoi raw of
        None \<Rightarrow> 0
      | Some n \<Rightarrow> if n < 0 then 0 else n)"

section \<open>Image pulls\<close>

fun pull_targets :: "string list \<Rightarrow> string list \<Rightarrow> string list \<Rightarrow> string list \<times> string list" where
  "pull_targets configured seen [] = ([], [])"
| "pull_targets configured seen (name # names) =
     (let name = trim_space name in
      if name = [] \<or> name \<in> set seen then pull_targets configured seen names
      else case pull_targets configured (name # seen) names of
        (targets, unknown) \<Rightarrow>
          if name \<in> set configured then (name # targets, unknown) else (targets, name # unknown))"

definition resolvePullTargets :: "string list \<Rightarrow> manager \<Rightarrow> string list \<times> string list \<times> string list" where
  "resolvePullTargets names m =
     (let known = map nAddress (mNodes m) in
      if names = [] then (known, [], known)
      else case pull_targets known [] names of
        (targets, unknown) \<Rightarrow>
          if targets = [] \<and> unknown = [] then (known, [], known) else (targets, unknown, known))"

text \<open>
  A worker's answer to a pull: a status and a body that may fail to be read, and what decoding the
  body as an error message or as a pull response gives.
\<close>

record pull_response =
  plStatus :: int
  plBody :: "gerror + string"
  plMessage :: "string \<Rightarrow> string option"
  plPulled :: "string \<Rightarrow> gerror + bool"

definition pullImageOnWorker ::
  "(string \<Rightarrow> gerror option) \<Rightarrow> (string \<Rightarrow> string \<Rightarrow> gerror + pull_response) \<Rightarrow> string \<Rightarrow> string
     \<Rightarrow> gerror option \<times> bool" where
  "pullImageOnWorker marshal post workerAddr img =
     (case marshal img of
        Some err \<Rightarrow> (Some (wrapf ''error marshalling pull request: '' err), False)
      | None \<Rightarrow>
          (case post workerAddr img of
             Inl err \<Rightarrow> (Some (wrapf (''error connecting to worker '' @ workerAddr @ '': '') err), False)
           | Inr resp \<Rightarrow>
               (case plBody resp of
                  Inl err \<Rightarrow> (Some (wrapf (''error reading response body from worker '' @ workerAddr @ '': '') err), False)
                | Inr bytes \<Rightarrow>
                    (let body = take maxProxyLogSize bytes in
                     if plStatus resp \<noteq> StatusOK then
                       (let reason = (case plMessage resp body of
                              Some msg \<Rightarrow> if msg \<noteq> [] then msg else trim_space body
                            | None \<Rightarrow> trim_space body)
                        in (Some (errorf (''worker '' @ workerAddr @ '' responded with status ''
                                     @ itoa (plStatus resp) @ '': '' @ reason)), False))
                     else case plPulled resp body of
                       Inl err \<Rightarrow> (Some (wrapf (''error unmarshalling response from worker '' @ workerAddr @ '': '') err), False)
                     | Inr pulled \<Rightarrow> (None, pulled)))))"

text \<open>The workers are asked concurrently, each filling its own entry of the report.\<close>

definition PullImageHandler ::
  "(string \<Rightarrow> string \<Rightarrow> gerror option \<times> bool) \<Rightarrow> gerror + string \<times> string list \<Rightarrow> manager \<Rightarrow> reply" where
  "PullImageHandler pull request m =
     (case request of
        Inl err \<Rightarrow> unmarshalling_error err
      | Inr (rawImage, workers) \<Rightarrow>
          (let img = trim_space rawImage in
           if img = [] then HttpResponseHelper (''field '' @ go_quote ''image'' @ '' is required'') 400
           else case resolvePullTargets workers m of
             (targets, unknown, known) \<Rightarrow>
               (if unknown \<noteq> []
                then HttpResponseHelper (''unknown worker(s): '' @ str_join '', '' unknown
                       @ ''; configured worker(s): '' @ str_join '', '' known) 400
                else json_reply 200 (PullReport img
                       (map (\<lambda>w. case pull w img of (err, pulled) \<Rightarrow>
                          \<lparr>prWorker = w, prOK = (err = None), prPulled = pulled,
                           prError = (case err of None \<Rightarrow> [] | Some err \<Rightarrow> err_msg err)\<rparr>) targets)))))"

section \<open>Tasks\<close>

text \<open>\<open>freshTask\<close> is the ID drawn for a task submitted without one.\<close>

definition StartTaskHandler :: "menv \<Rightarrow> uuid \<Rightarrow> gerror + task_event \<Rightarrow> manager \<Rightarrow> reply \<times> manager" where
  "StartTaskHandler e freshTask request m =
     (case request of
        Inl err \<Rightarrow> (unmarshalling_error err, m)
      | Inr te \<Rightarrow>
          (let te = te\<lparr>eID := eFresh e\<rparr> in
           case Validate (eExt e) (eTask te) of
             Some err \<Rightarrow> (HttpResponseHelper (err_msg err) 400, m)
           | None \<Rightarrow>
               (let te = (if tID (eTask te) = uuid_Nil then te\<lparr>eTask := (eTask te)\<lparr>tID := freshTask\<rparr>\<rparr> else te) in
                case AddTask e te m of
                  (Some err, m) \<Rightarrow> (HttpResponseHelper (''Error adding task: '' @ err_msg err @ newline) 409, m)
                | (None, m) \<Rightarrow> (\<lparr>rpStatus = 201, rpHeader = [], rpBody = TaskBody (eTask te)\<rparr>, m))))"

definition GetTasksHandler :: "manager \<Rightarrow> reply \<times> manager" where
  "GetTasksHandler m = (case getTaskViews m of (vs, m) \<Rightarrow> (json_reply 200 (TaskViews vs), m))"

definition GetNodesHandler :: "manager \<Rightarrow> reply" where
  "GetNodesHandler m = json_reply 200 (NodeViews (getNodeViews m))"

text \<open>Whether a stop only cleans up the record.\<close>

definition stop_deletes :: "menv \<Rightarrow> task \<Rightarrow> manager \<Rightarrow> bool \<times> manager" where
  "stop_deletes e t m =
     (if tState t = Pending \<or> tState t = Completed then (True, m)
      else case taskWorker (tID t) m of
        (w, m) \<Rightarrow> (w = [] \<or> tState t = Failed \<and> (AtRestartCap t (eMaxRestarts e) \<or> IsTerminal t), m))"

definition stop_request :: "menv \<Rightarrow> task \<Rightarrow> task_event" where
  "stop_request e t =
     \<lparr>eID = eFresh e, eState = Completed, eTimestamp = eNow e,
      eTask = t\<lparr>tState := Completed, tManuallyStopped := True\<rparr>\<rparr>"

definition stop_running :: "menv \<Rightarrow> task \<Rightarrow> manager \<Rightarrow> reply \<times> manager" where
  "stop_running e t m =
     (case markStopRequested e (tID t) m of
        (Some err, m) \<Rightarrow>
          (if errors_Is err ErrNotFound then plain 404
           else HttpResponseHelper (''Error recording stop request for task '' @ eIdString e (tID t) @ '': ''
                  @ err_msg err @ newline) 500, m)
      | (None, m) \<Rightarrow>
          (case AddTask e (stop_request e t) m of
             (Some err, m) \<Rightarrow>
               (HttpResponseHelper (''Error queuing stop for task '' @ eIdString e (tID t) @ '': ''
                  @ err_msg err @ newline) 500, m)
           | (None, m) \<Rightarrow> (plain 204, m)))"

definition StopTaskHandler :: "menv \<Rightarrow> string \<Rightarrow> manager \<Rightarrow> reply \<times> manager" where
  "StopTaskHandler e taskID m =
     (if taskID = [] then (plain 400, m)
      else case resolveTask e taskID m of
        ((t, found, ambiguous), m) \<Rightarrow>
          if ambiguous
          then (HttpResponseHelper (''multiple tasks named '' @ go_quote taskID
                  @ '' exist; stop by task UUID instead'') 409, m)
          else if \<not> found then (plain 404, m)
          else case stop_deletes e t m of
            (True, m) \<Rightarrow>
              (case deleteTask e t m of
                 (Some err, m) \<Rightarrow>
                   (HttpResponseHelper (''Error deleting task '' @ eIdString e (tID t) @ '': ''
                      @ err_msg err @ newline) 500, m)
               | (None, m) \<Rightarrow> (plain 204, m))
          | (False, m) \<Rightarrow> stop_running e t m)"

section \<open>Logs\<close>

definition GetTaskLogsHandler ::
  "menv \<Rightarrow> (string \<Rightarrow> string \<Rightarrow> gerror + (string \<Rightarrow> string) \<times> string http_response) \<Rightarrow> string \<Rightarrow> string
     \<Rightarrow> manager \<Rightarrow> reply \<times> manager" where
  "GetTaskLogsHandler e get ref rawTail m =
     (if ref = [] then (plain 400, m)
      else case resolveTask e ref m of
        ((t, found, ambiguous), m) \<Rightarrow>
          if ambiguous
          then (HttpResponseHelper (''multiple tasks named '' @ go_quote ref
                  @ '' exist; fetch logs by task UUID instead'') 409, m)
          else if \<not> found then (plain 404, m)
          else case taskWorker (tID t) m of
            (worker, m) \<Rightarrow>
              (let state_only = \<lparr>rpStatus = 200, rpHeader = [text_plain, (''X-Task-State'', state_String (tState t))],
                                 rpBody = NoBody\<rparr> in
               if worker = [] then (state_only, m)
               else case fetchTaskLogsFromWorker get e worker (tID t) (ParseTail rawTail) of
                 Inl err \<Rightarrow>
                   (HttpResponseHelper (''Error fetching logs from worker '' @ worker @ '': '' @ err_msg err @ newline) 502, m)
               | Inr wresp \<Rightarrow>
                   (if wlStatusCode wresp = StatusOK then
                      (let ec = wlHeader wresp ''X-Exit-Code'' in
                       \<lparr>rpStatus = 200,
                        rpHeader = [text_plain, (''X-Task-State'', wlHeader wresp ''X-Task-State'')]
                          @ (if ec \<noteq> [] then [(''X-Exit-Code'', ec)] else []),
                        rpBody = TextBody (wlBody wresp)\<rparr>)
                    else if wlStatusCode wresp = StatusNotFound then state_only
                    else HttpResponseHelper (''worker '' @ worker @ '' returned status ''
                           @ itoa (wlStatusCode wresp) @ '' fetching logs: '' @ trim_space (wlBody wresp)) 502, m)))"

section \<open>Lemmas\<close>

lemma ResolveRef_found:
  assumes "ResolveRef x ts ref = (t, True, b)"
  shows "t \<in> set ts"
proof (cases "uuid_Parse x ref")
  case None
  then have l: "length (filter (\<lambda>t. tName t = ref) ts) = 1"
      "t = last (zero_task # filter (\<lambda>t. tName t = ref) ts)"
    using assms by (auto simp: ResolveRef_def name_matches_eq)
  then obtain u where u: "filter (\<lambda>t. tName t = ref) ts = [u]" by (metis One_nat_def length_0_conv length_Suc_conv)
  then have "u \<in> set (filter (\<lambda>t. tName t = ref) ts)" by simp
  then have "u \<in> set ts" by (simp only: set_filter mem_Collect_eq)
  with u l(2) show ?thesis by simp
next
  case (Some i)
  with assms show ?thesis by (auto simp: ResolveRef_def dest: find_cong_Some split: option.splits)
qed

lemma resolveTask_found:
  assumes "resolveTask e ref m = ((t, True, b), m1)" "mgr_wf m"
  shows "task_view m (tID t) = Some t" "reads_tasks m m1"
proof -
  obtain ts m2 where g: "getTasks m = (ts, m2)" by fastforce
  then have r: "ResolveRef (eExt e) ts ref = (t, True, b)" "m1 = m2" using assms(1) by (simp_all add: resolveTask_def)
  note recs = getTasks_records [OF assms(2) g]
  show "task_view m (tID t) = Some t" using recs(2) ResolveRef_found [OF r(1)] by simp
  show "reads_tasks m m1" using recs(4) r(2) by simp
qed

text \<open>The tasks a reference names: the one with that ID when it is a UUID, else those with that name.\<close>

definition refers_to :: "menv \<Rightarrow> string \<Rightarrow> task \<Rightarrow> bool" where
  "refers_to e ref t \<longleftrightarrow> (case uuid_Parse (eExt e) ref of Some i \<Rightarrow> tID t = i | None \<Rightarrow> tName t = ref)"

lemma resolveTask_names:
  assumes "resolveTask e ref m = ((t, True, b), m1)" "mgr_wf m"
  shows "{u \<in> ran (task_view m). refers_to e ref u} = {t}" "\<not> b"
proof -
  obtain ts m2 where g: "getTasks m = (ts, m2)" by fastforce
  then have r: "ResolveRef (eExt e) ts ref = (t, True, b)" using assms(1) by (simp add: resolveTask_def)
  have t: "t \<in> set ts" by (rule ResolveRef_found [OF r])
  then obtain vs where "fst (db_List (mTaskDb m)) = Inr vs" "ts = vs"
    using g by (auto simp: getTasks_alt split: sum.splits)
  then have all: "ran (task_view m) = set ts"
    using db_List_Inr [of "mTaskDb m" vs] assms(2) by (auto simp: mgr_wf_def)
  show "\<not> b" using r by (auto simp: ResolveRef_def split: option.splits prod.splits if_splits)
  show "{u \<in> ran (task_view m). refers_to e ref u} = {t}"
  proof (cases "uuid_Parse (eExt e) ref")
    case (Some i)
    then have "tID t = i" using r by (auto simp: ResolveRef_def dest: find_cong_Some split: option.splits)
    moreover have "u = v" if "u \<in> set ts" "v \<in> set ts" "tID u = tID v" for u v
      using getTasks_records(2) [OF assms(2) g that(1)] getTasks_records(2) [OF assms(2) g that(2)] that(3)
      by (metis option.inject)
    ultimately show ?thesis using Some t by (auto simp: all refers_to_def)
  next
    case None
    then have "length (filter (\<lambda>t. tName t = ref) ts) = 1" "t = last (zero_task # filter (\<lambda>t. tName t = ref) ts)"
      using r by (auto simp: ResolveRef_def name_matches_eq)
    then have "filter (\<lambda>t. tName t = ref) ts = [t]" by (auto simp: length_Suc_conv)
    then have "set (filter (\<lambda>t. tName t = ref) ts) = {t}" by simp
    with None show ?thesis by (simp add: all refers_to_def)
  qed
qed

lemma deleteTask_records:
  assumes "deleteTask e t m = (r, m')"
  shows "task_view m' = (if r = None then (task_view m)(tID t := None) else task_view m)"
proof (cases "mTaskDb m = None")
  case True
  with assms show ?thesis by (auto simp: deleteTask_alt)
next
  case False
  let ?m1 = "m\<lparr>mTaskDb := snd (db_Delete (tID t) (mTaskDb m))\<rparr>"
  obtain w m2 where d: "drop_assignment (tID t) ?m1 = (w, m2)" by fastforce
  have "task_view (delete_rest e t ?m1) = task_view ?m1" by (rule delete_rest_effect(1) [OF d])
  moreover have "task_view ?m1 = (if fst (db_Delete (tID t) (mTaskDb m)) = None
      then (task_view m)(tID t := None) else task_view m)"
    by (simp add: db_Delete_view)
  ultimately show ?thesis
    using assms False by (cases "fst (db_Delete (tID t) (mTaskDb m))") (auto simp: deleteTask_alt task_io simp del: views_update)
qed

lemma markStopRequested_None:
  assumes "markStopRequested e i m = (None, m')"
  shows "\<exists>p. task_view m i = Some p \<and> task_view m' = (task_view m)(i \<mapsto> p\<lparr>tManuallyStopped := True\<rparr>)"
    and "mPending m' = mPending m"
proof -
  obtain p where g: "fst (db_Get i (mTaskDb m)) = Inr p"
    using assms by (auto simp: markStopRequested_def task_io split: if_splits sum.splits)
  with assms have put: "fst (db_Put i (p\<lparr>tManuallyStopped := True\<rparr>) (snd (db_Get i (mTaskDb m)))) = None"
    "m' = m\<lparr>mTaskDb := snd (db_Put i (p\<lparr>tManuallyStopped := True\<rparr>) (snd (db_Get i (mTaskDb m))))\<rparr>"
    by (auto simp: markStopRequested_def task_io split: if_splits option.splits)
  then show "mPending m' = mPending m"
    "\<exists>p. task_view m i = Some p \<and> task_view m' = (task_view m)(i \<mapsto> p\<lparr>tManuallyStopped := True\<rparr>)"
    using db_Get_Inr [OF g] by (simp_all add: db_Put_view)
qed

lemma stopped_is_final: "tManuallyStopped p \<Longrightarrow> restart_decision e now p = Skip"
  by (simp add: restart_decision_def)

lemma stop_running_204:
  assumes "stop_running e t m = (rep, m')" "rpStatus rep = 204"
  shows "\<exists>p. task_view m (tID t) = Some p \<and> task_view m' = (task_view m)(tID t \<mapsto> p\<lparr>tManuallyStopped := True\<rparr>)"
    and "q_items (mPending m') = q_items (mPending m) @ [stop_request e t]"
proof -
  obtain r1 m1 where k: "markStopRequested e (tID t) m = (r1, m1)" by fastforce
  obtain r2 m2 where a: "AddTask e (stop_request e t) m1 = (r2, m2)" by fastforce
  have ok: "r1 = None" "r2 = None" "m' = m2"
    using assms k a by (auto simp: stop_running_def plain_def HttpResponseHelper_def split: option.splits if_splits)
  from AddTask_view [OF a] ok(2) have v: "task_view m2 = task_view m1" "q_items (mPending m2) = q_items (mPending m1) @ [stop_request e t]"
    by (simp_all add: stop_request_def)
  note mk = markStopRequested_None [OF k [unfolded ok(1)]]
  show "q_items (mPending m') = q_items (mPending m) @ [stop_request e t]" using v mk(2) ok by simp
  show "\<exists>p. task_view m (tID t) = Some p \<and> task_view m' = (task_view m)(tID t \<mapsto> p\<lparr>tManuallyStopped := True\<rparr>)"
    using v mk(1) ok by simp
qed

section \<open>Properties\<close>

text \<open>
  C7: a stop that the API reports as done is final, for exactly the task the reference names: one record
  and no other has that ID, or that name. A task that has not reached a worker, is completed, or has
  failed for good loses its record; any other is flagged as stopped by the user, so that no later pass
  restarts it, and a stop event for its worker is at the end of the queue. No other record changes.
\<close>

theorem user_stop_final:
  assumes "StopTaskHandler e ref m = (rep, m')" "rpStatus rep = 204" "mgr_wf m"
  shows "\<exists>t. {u \<in> ran (task_view m). refers_to e ref u} = {t} \<and> task_view m (tID t) = Some t
    \<and> (\<forall>j. j \<noteq> tID t \<longrightarrow> task_view m' j = task_view m j)
    \<and> (if tState t = Pending \<or> tState t = Completed \<or> fst (taskWorker (tID t) m) = []
          \<or> tState t = Failed \<and> (AtRestartCap t (eMaxRestarts e) \<or> IsTerminal t)
       then task_view m' (tID t) = None
       else task_view m' (tID t) = Some (t\<lparr>tManuallyStopped := True\<rparr>)
         \<and> restart_decision e' now (t\<lparr>tManuallyStopped := True\<rparr>) = Skip
         \<and> q_items (mPending m') = q_items (mPending m) @ [stop_request e t])"
proof -
  obtain t found amb m1 where r: "resolveTask e ref m = ((t, found, amb), m1)"
    by (cases "resolveTask e ref m") auto
  obtain d m2 where s: "stop_deletes e t m1 = (d, m2)" by fastforce
  have found: "found" using assms(1,2) r
    by (auto simp: StopTaskHandler_def plain_def HttpResponseHelper_def split: if_splits)
  then have r': "resolveTask e ref m = ((t, True, amb), m1)" using r by simp
  note res = resolveTask_found [OF r' assms(3)]
  have m2: "task_view m2 = task_view m" "mPending m2 = mPending m"
    using s reads_tasksD(1,4) [OF res(2)] by (auto simp: stop_deletes_def task_io split: if_splits)
  have "fst (taskWorker (tID t) m1) = fst (taskWorker (tID t) m)"
    using res(2) by (auto simp: reads_tasks_def taskWorker_def case_prod_beta)
  then have d: "d \<longleftrightarrow> tState t = Pending \<or> tState t = Completed \<or> fst (taskWorker (tID t) m) = []
      \<or> tState t = Failed \<and> (AtRestartCap t (eMaxRestarts e) \<or> IsTerminal t)"
    using s by (auto simp: stop_deletes_def split: if_splits prod.splits)
  show ?thesis
  proof (cases d)
    case True
    obtain r3 m3 where k: "deleteTask e t m2 = (r3, m3)" by fastforce
    have "r3 = None" "m' = m3" using assms(1,2) r s k found True
      by (auto simp: StopTaskHandler_def plain_def HttpResponseHelper_def split: if_splits option.splits)
    with deleteTask_records [OF k] m2 have "task_view m' = (task_view m)(tID t := None)" by simp
    with res(1) resolveTask_names(1) [OF r' assms(3)] True show ?thesis
      by (intro exI [of _ t]) (simp add: d [symmetric])
  next
    case False
    have k: "stop_running e t m2 = (rep, m')" using assms(1,2) r s found False
      by (auto simp: StopTaskHandler_def plain_def HttpResponseHelper_def split: if_splits)
    from stop_running_204(1) [OF k assms(2)] m2 res(1)
    have "task_view m' = (task_view m)(tID t \<mapsto> t\<lparr>tManuallyStopped := True\<rparr>)" by auto
    with stop_running_204(2) [OF k assms(2)] m2 res(1) resolveTask_names(1) [OF r' assms(3)] False show ?thesis
      by (intro exI [of _ t]) (simp add: stopped_is_final d [symmetric])
  qed
qed

text \<open>
  A submission is answered 400 exactly when the body does not decode or the task is not valid,
  409 when the manager refuses it, and 201 when it is accepted; then it is queued under a fresh event
  ID, and a start has its record, Pending, under an ID that was free. Otherwise nothing changes.
\<close>

theorem submission_reply:
  assumes "StartTaskHandler e freshTask request m = (rep, m')"
  defines "submitted \<equiv> (\<lambda>te. te\<lparr>eID := eFresh e, eTask := (if tID (eTask te) = uuid_Nil
             then (eTask te)\<lparr>tID := freshTask\<rparr> else eTask te)\<rparr>)"
  shows "rpStatus rep \<in> {201, 400, 409}
    \<and> (rpStatus rep = 400 \<longleftrightarrow> (case request of Inl err \<Rightarrow> True | Inr te \<Rightarrow> Validate (eExt e) (eTask te) \<noteq> None))
    \<and> (rpStatus rep \<noteq> 201 \<longrightarrow> task_view m' = task_view m \<and> mPending m' = mPending m)
    \<and> (rpStatus rep = 201 \<longrightarrow> (\<exists>te. request = Inr te \<and> rpBody rep = TaskBody (eTask (submitted te))
         \<and> q_items (mPending m') = q_items (mPending m) @ [submitted te]
         \<and> (\<not> is_stop te \<longrightarrow> task_view m (tID (eTask (submitted te))) = None
              \<and> task_view m' = (task_view m)(tID (eTask (submitted te)) \<mapsto> (eTask (submitted te))\<lparr>tState := Pending\<rparr>))))"
proof (cases request)
  case (Inl err)
  with assms(1) show ?thesis
    by (auto simp: StartTaskHandler_def unmarshalling_error_def HttpResponseHelper_def)
next
  case (Inr te)
  show ?thesis
  proof (cases "Validate (eExt e) (eTask te)")
    case (Some err)
    with assms(1) Inr show ?thesis by (auto simp: StartTaskHandler_def HttpResponseHelper_def Let_def)
  next
    case None
    obtain r m1 where a: "AddTask e (submitted te) m = (r, m1)" by fastforce
    have sub: "submitted te = (if tID (eTask te) = uuid_Nil then te\<lparr>eID := eFresh e, eTask := (eTask te)\<lparr>tID := freshTask\<rparr>\<rparr>
        else te\<lparr>eID := eFresh e\<rparr>)" by (simp add: submitted_def)
    have st: "is_stop te \<longleftrightarrow> eState (submitted te) = Completed \<or> tState (eTask (submitted te)) = Completed"
      by (simp add: is_stop_def submitted_def)
    show ?thesis
    proof (cases r)
      case r: (Some err)
      with a assms(1) Inr None sub have "rpStatus rep = 409" "m' = m1"
        by (auto simp: StartTaskHandler_def HttpResponseHelper_def Let_def split: if_splits)
      with AddTask_view [OF a] r Inr None show ?thesis by simp
    next
      case r: None
      with a assms(1) Inr None sub have "rep = \<lparr>rpStatus = 201, rpHeader = [], rpBody = TaskBody (eTask (submitted te))\<rparr>" "m' = m1"
        by (auto simp: StartTaskHandler_def Let_def split: if_splits)
      with AddTask_view [OF a] r Inr None st show ?thesis by auto
    qed
  qed
qed

lemma pull_targets_spec:
  assumes "pull_targets configured seen names = (targets, unknown)"
  shows "distinct (targets @ unknown) \<and> set targets \<subseteq> set configured \<and> set unknown \<inter> set configured = {}
    \<and> set targets \<union> set unknown = {trim_space n |n. n \<in> set names \<and> trim_space n \<noteq> []} - set seen"
  using assms
proof (induction configured seen names arbitrary: targets unknown rule: pull_targets.induct)
  case (1 configured seen)
  then show ?case by simp
next
  case (2 configured seen name names)
  define n where "n = trim_space name"
  show ?case
  proof (cases "n = [] \<or> n \<in> set seen")
    case True
    with 2(3) have "pull_targets configured seen names = (targets, unknown)" by (simp add: n_def Let_def)
    from 2(1) [OF n_def True this] True show ?thesis by (auto simp: n_def)
  next
    case False
    obtain ts us where p: "pull_targets configured (n # seen) names = (ts, us)" by fastforce
    have ih: "distinct (ts @ us) \<and> set ts \<subseteq> set configured \<and> set us \<inter> set configured = {}
        \<and> set ts \<union> set us = {trim_space k |k. k \<in> set names \<and> trim_space k \<noteq> []} - set (n # seen)"
      using 2(2) [OF n_def False p] .
    have r: "(targets, unknown) = (if n \<in> set configured then (n # ts, us) else (ts, n # us))"
      using 2(3) False p by (simp add: n_def [symmetric] Let_def)
    have fresh: "n \<notin> set ts \<union> set us" using ih by auto
    have eq: "{trim_space k |k. k \<in> set (name # names) \<and> trim_space k \<noteq> []} =
        insert n {trim_space k |k. k \<in> set names \<and> trim_space k \<noteq> []}"
      using False by (auto simp: n_def)
    show ?thesis
      using ih r fresh False unfolding eq by (auto split: if_splits)
  qed
qed

text \<open>
  A cluster-wide pull goes to every worker when none is named. Otherwise every non-blank name is,
  once, a target when it is a configured worker and reported as unknown when it is not; nothing else
  is targeted.
\<close>

theorem pull_targets_correct:
  assumes "resolvePullTargets names m = (targets, unknown, known)"
  shows "known = map nAddress (mNodes m)
    \<and> (if \<forall>n\<in>set names. trim_space n = [] then targets = known \<and> unknown = []
       else distinct (targets @ unknown) \<and> set targets \<subseteq> set known \<and> set unknown \<inter> set known = {}
         \<and> set targets \<union> set unknown = {trim_space n |n. n \<in> set names \<and> trim_space n \<noteq> []})"
proof -
  let ?known = "map nAddress (mNodes m)"
  obtain ts us where p: "pull_targets ?known [] names = (ts, us)" by fastforce
  note spec = pull_targets_spec [OF p]
  have blank: "(ts = [] \<and> us = []) \<longleftrightarrow> (\<forall>n\<in>set names. trim_space n = [])"
  proof -
    have "(ts = [] \<and> us = []) \<longleftrightarrow> set ts \<union> set us = {}" by simp
    also have "\<dots> \<longleftrightarrow> (\<forall>n\<in>set names. trim_space n = [])" using spec by auto
    finally show ?thesis .
  qed
  have "(targets, unknown, known) = (if names = [] \<or> ts = [] \<and> us = [] then (?known, [], ?known) else (ts, us, ?known))"
    using assms by (auto simp: resolvePullTargets_def Let_def p split: if_splits)
  then have r: "(targets, unknown, known) = (if ts = [] \<and> us = [] then (?known, [], ?known) else (ts, us, ?known))"
    using blank by (cases names) auto
  show ?thesis
  proof (cases "ts = [] \<and> us = []")
    case True
    with r blank show ?thesis by simp
  next
    case False
    with r have "targets = ts" "unknown = us" "known = ?known" by auto
    with spec False blank show ?thesis by auto
  qed
qed

theorem pull_targets_correct_witness:
  "resolvePullTargets [[], []] demo_manager = ([''w1:80''], [], [''w1:80''])"
proof -
  have "trim_left ps [] = []" for ps using trim_left_length [of ps "[]"] by simp
  then have t: "trim_space [] = []" by (simp add: trim_space_def)
  obtain ts us k where r: "resolvePullTargets [[], []] demo_manager = (ts, us, k)"
    by (cases "resolvePullTargets [[], []] demo_manager") auto
  have "map nAddress (mNodes demo_manager) = [''w1:80'']" by (simp add: demo_manager_def blank_node_def)
  with pull_targets_correct [OF r] r show ?thesis by (simp add: t)
qed

lemma demo_manager_ok:
  "mgr_wf demo_manager" "db_healthy (mTaskDb demo_manager)" "task_view demo_manager i = None"
  by (simp_all add: demo_manager_def db_healthy_def mgr_wf_def task_view_def asg_view_def new_store_def
      store_view_def store_wf_def al_wf_def del: db_view_task db_view_asg)

theorem submission_reply_witness:
  "\<exists>rep m'. StartTaskHandler demo_env 42 (Inr demo_start) demo_manager = (rep, m')
     \<and> (rpStatus rep = 201 \<longrightarrow> task_view m' 7 = Some demo_task)"
proof -
  obtain rep m' where r: "StartTaskHandler demo_env 42 (Inr demo_start) demo_manager = (rep, m')" by fastforce
  have t: "tID (eTask demo_start) = 7" "eTask demo_start = demo_task" "\<not> is_stop demo_start" "tState demo_task = Pending"
    by (simp_all add: demo_defs is_stop_def)
  then have "tID demo_task \<noteq> uuid_Nil" by (simp add: uuid_Nil_def)
  with submission_reply [OF r] t r show ?thesis by auto
qed

lemma demo_stop: "rpStatus (fst (StopTaskHandler demo_env ''web'' stopped_manager)) = 204"
proof -
  have n: "tName stopped_task = ''web''" "tState stopped_task = Failed" "tID stopped_task = 7"
    by (simp_all add: stopped_task_def demo_defs)
  have u: "uuid_Parse (eExt demo_env) s = None" for s by (simp add: demo_defs)
  obtain m1 where r: "resolveTask demo_env ''web'' stopped_manager = ((stopped_task, True, False), m1)"
      "mAssignments m1 = Some new_store" "db_healthy (mTaskDb m1)"
  proof -
    have g: "fst (getTasks stopped_manager) = [stopped_task]"
      by (simp add: getTasks_alt stopped_manager_def eval_manager)
    obtain m1 where m1: "getTasks stopped_manager = ([stopped_task], m1)"
      using g by (cases "getTasks stopped_manager") simp
    have "db_healthy (mTaskDb stopped_manager)" by (simp add: stopped_manager_def eval_manager db_healthy_def)
    then have "mAssignments m1 = mAssignments stopped_manager" "db_healthy (mTaskDb m1)"
      using getTasks_records(4) [OF stopped_manager_ok(1) m1] by (simp_all add: reads_tasksD)
    moreover have "mAssignments stopped_manager = Some new_store"
      by (simp add: stopped_manager_def eval_manager)
    moreover have "ResolveRef (eExt demo_env) [stopped_task] ''web'' = (stopped_task, True, False)"
      by (simp add: ResolveRef_def u name_matches_eq n(1))
    ultimately show ?thesis using that m1 by (simp add: resolveTask_def)
  qed
  have w: "readAssignment 7 (Some new_store) = ([], Some new_store)"
    by (simp add: readAssignment_def db_op_defs store_op_defs new_store_def store_view_def next_fault_def
        Stores.tick_def)
  have s: "stop_deletes demo_env stopped_task m1 = (True, m1)"
    using r(2) by (simp add: stop_deletes_def n taskWorker_def w) 
  obtain r2 m2 where d: "deleteTask demo_env stopped_task m1 = (r2, m2)" by fastforce
  then have "r2 = None" using r(3) by (auto simp: deleteTask_alt task_io)
  with r(1) s d show ?thesis by (simp add: StopTaskHandler_def plain_def)
qed

theorem user_stop_final_witness:
  "\<exists>rep m'. StopTaskHandler demo_env ''web'' stopped_manager = (rep, m') \<and> rpStatus rep = 204
     \<and> {u \<in> ran (task_view stopped_manager). tName u = ''web''} = {stopped_task}
     \<and> task_view m' 7 = None"
proof -
  obtain rep m' where r: "StopTaskHandler demo_env ''web'' stopped_manager = (rep, m')" by fastforce
  have s: "rpStatus rep = 204" using demo_stop by (simp add: r)
  have u: "refers_to demo_env ''web'' t \<longleftrightarrow> tName t = ''web''" for t by (simp add: refers_to_def demo_defs)
  have t: "tName stopped_task = ''web''" "tID stopped_task = 7" "stopped_task \<in> ran (task_view stopped_manager)"
    using stopped_manager_ok by (auto simp: stopped_task_def demo_defs ran_def)
  have w: "fst (taskWorker 7 stopped_manager) = []"
    by (simp add: taskWorker_def case_prod_beta readAssignment_alt stopped_manager_def eval_manager)
  from user_stop_final [OF r s stopped_manager_ok(1), of demo_env 0] obtain t where
    f: "{v \<in> ran (task_view stopped_manager). tName v = ''web''} = {t}"
      "fst (taskWorker (tID t) stopped_manager) = [] \<Longrightarrow> task_view m' (tID t) = None" unfolding u by auto
  have "stopped_task \<in> {v \<in> ran (task_view stopped_manager). tName v = ''web''}" using t(1,3) by simp
  then have "t = stopped_task" unfolding f(1) by simp
  with f r s t w show ?thesis by auto
qed

end
