(* ===== verification/Auth.thy ===== *)
theory Auth
  imports ManagerApi
begin

text \<open>
  User authentication, \<open>auth/tokens.go\<close> and \<open>auth/middleware.go\<close>. SHA-256 is a parameter, a function
  to 32 bytes; what \<open>yaml.Unmarshal\<close> makes of the token file is given as records or an error. The
  request context is the identity it carries, if any.
\<close>

section \<open>Roles and records\<close>

definition RoleAdmin :: string where "RoleAdmin = ''admin''"

definition RoleViewer :: string where "RoleViewer = ''viewer''"

definition Allows :: "string \<Rightarrow> string \<Rightarrow> bool" where
  "Allows r least = (if r = RoleAdmin then True else r = least)"

record identity =
  idUser :: string
  idRole :: string

record token_record =
  trUser :: string
  trRole :: string
  trTokenHash :: string

type_synonym token_store = "token_record list"

text \<open>
  \<open>sum256\<close> is SHA-256 over the bytes of the argument, \<open>invalid_byte\<close> the text of \<open>encoding/hex\<close>'s error
  for a byte that is no hex digit.
\<close>

record crypto =
  sum256 :: "string \<Rightarrow> 8 word list"
  invalid_byte :: "char \<Rightarrow> string"

section \<open>Hashes\<close>

definition hex_byte :: "8 word \<Rightarrow> string" where
  "hex_byte b = [hex_digit (unat b div 16), hex_digit (unat b mod 16)]"

definition hex_encode :: "8 word list \<Rightarrow> string" where
  "hex_encode bs = concat (map hex_byte bs)"

definition is_hex :: "char \<Rightarrow> bool" where
  "is_hex c \<longleftrightarrow> (let n = of_char c :: nat in 48 \<le> n \<and> n \<le> 57 \<or> 97 \<le> n \<and> n \<le> 102 \<or> 65 \<le> n \<and> n \<le> 70)"

definition hash_prefix :: string where "hash_prefix = ''sha256:''"

definition HashToken :: "crypto \<Rightarrow> string \<Rightarrow> string" where
  "HashToken x token = hash_prefix @ hex_encode (sum256 x token)"

definition parseTokenHash :: "crypto \<Rightarrow> string \<Rightarrow> gerror + string" where
  "parseTokenHash x v =
     (let v = trim_space v in
      if \<not> has_prefix hash_prefix v
      then Inl (errorf (''token_hash must start with '' @ [CHR 0x22] @ hash_prefix @ [CHR 0x22]))
      else (let hexPart = trim_prefix hash_prefix v in
        if length hexPart \<noteq> 64
        then Inl (errorf (''token_hash hex part must be 64 characters, got '' @ itoa (int (length hexPart))))
        else case find (\<lambda>c. \<not> is_hex c) hexPart of
          Some c \<Rightarrow> Inl (wrapf ''token_hash hex part is not valid hex: '' (errorf (invalid_byte x c)))
        | None \<Rightarrow> Inr (to_lower hexPart)))"

section \<open>The token file\<close>

definition entry_error :: "int \<Rightarrow> token_record \<Rightarrow> string \<Rightarrow> string" where
  "entry_error i rec what =
     ''token file entry '' @ itoa (i + 1) @ '' (user '' @ go_quote (trUser rec) @ ''): '' @ what"

text \<open>The loop over the entries: \<open>i\<close> counts them, \<open>seen\<close> holds the hashes so far.\<close>

fun parse_entries :: "crypto \<Rightarrow> int \<Rightarrow> string list \<Rightarrow> token_record list \<Rightarrow> gerror + token_store" where
  "parse_entries x i seen [] = Inr []"
| "parse_entries x i seen (rec # recs) =
     (if trim_space (trUser rec) = []
      then Inl (errorf (''token file entry '' @ itoa (i + 1) @ '': user must not be empty''))
      else if trRole rec \<noteq> RoleAdmin \<and> trRole rec \<noteq> RoleViewer
      then Inl (errorf (entry_error i rec (''role must be '' @ go_quote RoleAdmin @ '' or '' @ go_quote RoleViewer
                  @ '', got '' @ go_quote (trRole rec))))
      else case parseTokenHash x (trTokenHash rec) of
        Inl err \<Rightarrow> Inl (wrapf (entry_error i rec []) err)
      | Inr hash \<Rightarrow>
          if hash \<in> set seen then Inl (errorf (entry_error i rec ''duplicate token_hash''))
          else (case parse_entries x (i + 1) (hash # seen) recs of
             Inl err \<Rightarrow> Inl err
           | Inr store \<Rightarrow> Inr (rec\<lparr>trTokenHash := hash\<rparr> # store)))"

definition ParseTokenFile :: "crypto \<Rightarrow> gerror + token_record list \<Rightarrow> gerror + token_store" where
  "ParseTokenFile x unmarshalled =
     (case unmarshalled of
        Inl err \<Rightarrow> Inl (wrapf ''parsing token file: '' err)
      | Inr records \<Rightarrow>
          if records = [] then Inl (errorf ''token file contains no entries'')
          else parse_entries x 0 [] records)"

definition LoadTokenFile ::
  "crypto \<Rightarrow> (string \<Rightarrow> gerror + string) \<Rightarrow> (string \<Rightarrow> gerror + token_record list) \<Rightarrow> string \<Rightarrow> gerror + token_store" where
  "LoadTokenFile x readFile unmarshal path =
     (case readFile path of
        Inl err \<Rightarrow> Inl (wrapf (''reading token file '' @ path @ '': '') err)
      | Inr data \<Rightarrow> ParseTokenFile x (unmarshal data))"

section \<open>Verification\<close>

text \<open>Every record is compared, whether or not an earlier one matched.\<close>

fun verify_loop :: "string \<Rightarrow> token_store \<Rightarrow> identity \<times> bool \<Rightarrow> identity \<times> bool" where
  "verify_loop presented [] st = st"
| "verify_loop presented (rec # recs) (i, matched) =
     (let equal = (presented = trTokenHash rec) in
      verify_loop presented recs
        (if equal then \<lparr>idUser = trUser rec, idRole = trRole rec\<rparr> else i, matched \<or> equal))"

definition no_identity :: identity where
  "no_identity = \<lparr>idUser = [], idRole = []\<rparr>"

definition Verify :: "crypto \<Rightarrow> token_store option \<Rightarrow> string \<Rightarrow> identity \<times> bool" where
  "Verify x s token =
     (case s of
        None \<Rightarrow> (no_identity, False)
      | Some recs \<Rightarrow>
          if token = [] then (no_identity, False)
          else verify_loop (hex_encode (sum256 x token)) recs (no_identity, False))"

text \<open>The alphabet of URL-safe base64, and its encoding without padding of groups of three bytes.\<close>

definition base64_char :: "nat \<Rightarrow> char" where
  "base64_char n =
     (if n < 26 then char_of (65 + n) else if n < 52 then char_of (97 + (n - 26))
      else if n < 62 then char_of (48 + (n - 52)) else if n = 62 then CHR ''-'' else CHR ''_'')"

fun base64_raw_url :: "8 word list \<Rightarrow> string" where
  "base64_raw_url [] = []"
| "base64_raw_url [a] = (let n = unat a * 16 in [base64_char (n div 64), base64_char (n mod 64)])"
| "base64_raw_url [a, b] =
     (let n = (unat a * 256 + unat b) * 4 in
      [base64_char (n div 4096), base64_char (n div 64 mod 64), base64_char (n mod 64)])"
| "base64_raw_url (a # b # c # bs) =
     (let n = (unat a * 256 + unat b) * 256 + unat c in
      base64_char (n div 262144) # base64_char (n div 4096 mod 64) # base64_char (n div 64 mod 64)
        # base64_char (n mod 64) # base64_raw_url bs)"

text \<open>\<open>entropy\<close> is what reading 32 random bytes gives.\<close>

definition GenerateToken :: "gerror + 8 word list \<Rightarrow> gerror + string" where
  "GenerateToken entropy =
     (case entropy of
        Inl err \<Rightarrow> Inl (wrapf ''generating token entropy: '' err)
      | Inr raw \<Rightarrow> Inr (''ph_'' @ base64_raw_url raw))"

section \<open>Middleware\<close>

text \<open>\<open>header\<close> is the value of the Authorization header, empty when there is none.\<close>

definition authenticate :: "crypto \<Rightarrow> token_store option \<Rightarrow> string \<Rightarrow> identity \<times> bool" where
  "authenticate x s header =
     (case str_cut CHR '' '' header of
        (scheme, token, found) \<Rightarrow>
          if \<not> found \<or> to_lower scheme \<noteq> to_lower ''Bearer'' then (no_identity, False)
          else (let token = trim_space token in
                if token = [] then (no_identity, False) else Verify x s token))"

definition with_bearer :: "reply \<Rightarrow> reply" where
  "with_bearer r = r\<lparr>rpHeader := (''WWW-Authenticate'', ''Bearer'') # rpHeader r\<rparr>"

text \<open>A handler gets the identity in the request context and the state it serves.\<close>

definition BearerAuth ::
  "crypto \<Rightarrow> token_store option \<Rightarrow> (identity option \<Rightarrow> 's \<Rightarrow> reply \<times> 's) \<Rightarrow> string \<Rightarrow> 's \<Rightarrow> reply \<times> 's" where
  "BearerAuth x s next_handler header st =
     (case authenticate x s header of
        (i, ok) \<Rightarrow>
          if \<not> ok then (with_bearer (HttpResponseHelper ''unauthorized: missing or invalid bearer token'' 401), st)
          else next_handler (Some i) st)"

definition forbidden :: "identity \<Rightarrow> string \<Rightarrow> string" where
  "forbidden i least = ''forbidden: role '' @ idRole i @ '' does not allow this operation (requires '' @ least @ '')''"

definition roleDenied :: "identity option \<Rightarrow> string \<Rightarrow> reply option" where
  "roleDenied ctx least =
     (case ctx of
        None \<Rightarrow> Some (with_bearer (HttpResponseHelper ''unauthorized: authentication required'' 401))
      | Some i \<Rightarrow>
          if \<not> Allows (idRole i) least then Some (HttpResponseHelper (forbidden i least) 403) else None)"

definition RequireRoleHandler ::
  "string \<Rightarrow> (identity option \<Rightarrow> 's \<Rightarrow> reply \<times> 's) \<Rightarrow> identity option \<Rightarrow> 's \<Rightarrow> reply \<times> 's" where
  "RequireRoleHandler least h ctx st =
     (case roleDenied ctx least of
        Some r \<Rightarrow> (r, st)
      | None \<Rightarrow> h ctx st)"

definition RequireRole ::
  "string \<Rightarrow> (identity option \<Rightarrow> 's \<Rightarrow> reply \<times> 's) \<Rightarrow> identity option \<Rightarrow> 's \<Rightarrow> reply \<times> 's" where
  "RequireRole least next_handler ctx st =
     (case roleDenied ctx least of
        Some r \<Rightarrow> (r, st)
      | None \<Rightarrow> next_handler ctx st)"

section \<open>Who is let in\<close>

definition valid_role :: "string \<Rightarrow> bool" where
  "valid_role r \<longleftrightarrow> r = RoleAdmin \<or> r = RoleViewer"

definition parsed_entry :: "crypto \<Rightarrow> token_record \<Rightarrow> token_record \<Rightarrow> bool" where
  "parsed_entry x rec s \<longleftrightarrow> (\<exists>h. parseTokenHash x (trTokenHash rec) = Inr h \<and> s = rec\<lparr>trTokenHash := h\<rparr>
     \<and> valid_role (trRole rec) \<and> trim_space (trUser rec) \<noteq> [])"

lemma parse_entries_spec:
  assumes "parse_entries x i seen recs = Inr store"
  shows "list_all2 (parsed_entry x) recs store \<and> distinct (map trTokenHash store)
    \<and> set (map trTokenHash store) \<inter> set seen = {}"
  using assms
proof (induction x i seen recs arbitrary: store rule: parse_entries.induct)
  case (2 x i seen rec recs)
  have valid: "trim_space (trUser rec) \<noteq> []" "trRole rec = RoleAdmin \<or> trRole rec = RoleViewer"
    using 2(2) by (auto split: if_splits)
  then have role: "\<not> (trRole rec \<noteq> RoleAdmin \<and> trRole rec \<noteq> RoleViewer)" by blast
  obtain h where h: "parseTokenHash x (trTokenHash rec) = Inr h" "h \<notin> set seen"
    using 2(2) valid by (auto split: sum.splits if_splits)
  then obtain rest where rest: "parse_entries x (i + 1) (h # seen) recs = Inr rest"
      "store = rec\<lparr>trTokenHash := h\<rparr> # rest"
    using 2(2) valid by (auto split: sum.splits if_splits)
  have "list_all2 (parsed_entry x) recs rest \<and> distinct (map trTokenHash rest)
      \<and> set (map trTokenHash rest) \<inter> set (h # seen) = {}"
    using 2(1) [OF valid(1) role h(1) h(2) rest(1)] .
  moreover have "parsed_entry x rec (rec\<lparr>trTokenHash := h\<rparr>)"
    using h valid by (auto simp: parsed_entry_def valid_role_def)
  ultimately show ?case using rest(2) h(2) by auto
qed simp

lemma verify_loop_spec:
  assumes "distinct (map trTokenHash recs)"
  shows "verify_loop p recs (i, m) =
    (case find (\<lambda>r. trTokenHash r = p) recs of
       None \<Rightarrow> (i, m)
     | Some r \<Rightarrow> (\<lparr>idUser = trUser r, idRole = trRole r\<rparr>, True))"
  using assms
proof (induction recs arbitrary: i m)
  case (Cons r recs)
  show ?case
  proof (cases "trTokenHash r = p")
    case True
    have "trTokenHash q \<noteq> p" if "q \<in> set recs" for q
    proof -
      have "trTokenHash q \<in> trTokenHash ` set recs" using that by (rule imageI)
      with Cons.prems True show ?thesis by auto
    qed
    then have "find (\<lambda>r. trTokenHash r = p) recs = None" by (simp add: find_None_iff)
    with True Cons show ?thesis by (simp add: Let_def)
  next
    case False
    then have "p \<noteq> trTokenHash r" by blast
    with False Cons show ?thesis by (simp add: Let_def split: option.split)
  qed
qed simp

lemma bearer_lower: "to_lower ''Bearer'' = ''bearer''"
  by code_simp

lemma authenticate_alt:
  assumes "str_cut CHR '' '' header = (scheme, token, found)"
  shows "authenticate x s header =
    (if found \<and> to_lower scheme = ''bearer'' \<and> trim_space token \<noteq> [] then Verify x s (trim_space token)
     else (no_identity, False))"
proof -
  have "authenticate x s header =
    (if \<not> found \<or> to_lower scheme \<noteq> to_lower ''Bearer'' then (no_identity, False)
     else if trim_space token = [] then (no_identity, False) else Verify x s (trim_space token))"
    unfolding authenticate_def assms prod.case Let_def ..
  then show ?thesis unfolding bearer_lower by (simp only: split: if_split) blast
qed

lemma authenticate_spec:
  assumes "ParseTokenFile x (Inr recs) = Inr store"
  shows "authenticate x (Some store) header = (i, True) \<longleftrightarrow>
    (\<exists>scheme token rec. header = scheme @ CHR '' '' # token \<and> CHR '' '' \<notin> set scheme \<and> to_lower scheme = ''bearer''
       \<and> trim_space token \<noteq> [] \<and> rec \<in> set recs \<and> valid_role (trRole rec)
       \<and> parseTokenHash x (trTokenHash rec) = Inr (hex_encode (sum256 x (trim_space token)))
       \<and> i = \<lparr>idUser = trUser rec, idRole = trRole rec\<rparr>)"
proof -
  obtain scheme token found where cut: "str_cut CHR '' '' header = (scheme, token, found)" by (metis prod_cases3)
  have "parse_entries x 0 [] recs = Inr store"
    using assms by (simp add: ParseTokenFile_def split: if_splits)
  note spec = parse_entries_spec [OF this]
  then have all: "list_all2 (parsed_entry x) recs store" and dist: "distinct (map trTokenHash store)" by simp_all
  have entry: "(\<exists>s\<in>set store. trTokenHash s = p \<and> i = \<lparr>idUser = trUser s, idRole = trRole s\<rparr>) \<longleftrightarrow>
      (\<exists>rec\<in>set recs. valid_role (trRole rec) \<and> parseTokenHash x (trTokenHash rec) = Inr p
         \<and> i = \<lparr>idUser = trUser rec, idRole = trRole rec\<rparr>)" for p
    using all
  proof (induction recs store rule: list_all2_induct)
    case (Cons rec recs s store)
    from Cons(1) have "(trTokenHash s = p \<and> i = \<lparr>idUser = trUser s, idRole = trRole s\<rparr>) \<longleftrightarrow>
        (valid_role (trRole rec) \<and> parseTokenHash x (trTokenHash rec) = Inr p
         \<and> i = \<lparr>idUser = trUser rec, idRole = trRole rec\<rparr>)"
      by (auto simp: parsed_entry_def)
    with Cons(3) show ?case by simp
  qed simp
  have found: "(case find (\<lambda>r. trTokenHash r = p) store of None \<Rightarrow> (no_identity, False)
      | Some r \<Rightarrow> (\<lparr>idUser = trUser r, idRole = trRole r\<rparr>, True)) = (i, True) \<longleftrightarrow>
      (\<exists>s\<in>set store. trTokenHash s = p \<and> i = \<lparr>idUser = trUser s, idRole = trRole s\<rparr>)" for p
  proof (cases "find (\<lambda>r. trTokenHash r = p) store")
    case None
    then have "\<forall>s\<in>set store. trTokenHash s \<noteq> p" by (simp add: find_None_iff)
    with None show ?thesis by auto
  next
    case (Some r)
    then have r: "r \<in> set store" "trTokenHash r = p" using find_cong_Some [OF Some] by simp_all
    have only: "s = r" if "s \<in> set store" "trTokenHash s = p" for s
      by (rule distinct_map_eq [OF dist that(1) r(1)]) (simp only: r(2) that(2))
    show ?thesis unfolding Some option.case prod.inject using r only by blast
  qed
  have h: "authenticate x (Some store) header = (i, True) \<longleftrightarrow> found \<and> to_lower scheme = ''bearer'' \<and> trim_space token \<noteq> []
      \<and> (\<exists>s\<in>set store. trTokenHash s = hex_encode (sum256 x (trim_space token))
            \<and> i = \<lparr>idUser = trUser s, idRole = trRole s\<rparr>)"
  proof (cases "found \<and> to_lower scheme = ''bearer'' \<and> trim_space token \<noteq> []")
    case True
    then have "authenticate x (Some store) header = Verify x (Some store) (trim_space token)"
      unfolding authenticate_alt [OF cut] by (rule if_P)
    also have "\<dots> = (case find (\<lambda>r. trTokenHash r = hex_encode (sum256 x (trim_space token))) store of
        None \<Rightarrow> (no_identity, False) | Some r \<Rightarrow> (\<lparr>idUser = trUser r, idRole = trRole r\<rparr>, True))"
      using True unfolding Verify_def option.case verify_loop_spec [OF dist] by (intro if_not_P) blast
    finally show ?thesis using found [of "hex_encode (sum256 x (trim_space token))"] True by argo
  next
    case False
    then have "authenticate x (Some store) header = (no_identity, False)"
      unfolding authenticate_alt [OF cut] by (rule if_not_P)
    then have "authenticate x (Some store) header \<noteq> (i, True)" by simp
    with False show ?thesis by blast
  qed
  have split: "header = s @ CHR '' '' # t \<and> CHR '' '' \<notin> set s \<longleftrightarrow> found \<and> s = scheme \<and> t = token" for s t
    using cut str_cut_found [of "CHR '' ''" header s t] by (cases found) auto
  show ?thesis unfolding h entry using split by (metis (no_types, opaque_lifting))
qed

section \<open>Tokens and their hashes fit together\<close>

lemma hex_encode_length: "length (hex_encode bs) = 2 * length bs"
  by (induction bs) (simp_all add: hex_encode_def hex_byte_def)

lemma hex_digit_props:
  assumes "n < 16"
  shows "is_hex (hex_digit n) \<and> ascii_lower (hex_digit n) = hex_digit n"
proof -
  have "of_char (hex_digit n) = (if n < 10 then 48 + n else 87 + n)"
    using assms by (simp add: hex_digit_def digit_def)
  then show ?thesis using assms by (auto simp: is_hex_def ascii_lower_def Let_def)
qed

lemma hex_encode_props: "c \<in> set (hex_encode bs) \<Longrightarrow> is_hex c \<and> ascii_lower c = c"
proof -
  assume "c \<in> set (hex_encode bs)"
  then obtain b where "c = hex_digit (unat (b :: 8 word) div 16) \<or> c = hex_digit (unat b mod 16)"
    by (auto simp: hex_encode_def hex_byte_def)
  moreover have "unat b div 16 < 16" using unsigned_less [of b, where ?'a = nat] by (simp add: less_mult_imp_div_less)
  ultimately show "is_hex c \<and> ascii_lower c = c" using hex_digit_props by auto
qed

text \<open>Texts without bytes of white space are not trimmed.\<close>

definition plain_char :: "char \<Rightarrow> bool" where
  "plain_char c \<longleftrightarrow> (45 :: nat) \<le> of_char c \<and> (of_char c :: nat) \<le> 122"

lemma space_not_plain: "p \<in> set space_runes \<Longrightarrow> p \<noteq> [] \<and> (\<forall>c\<in>set p. \<not> plain_char c)"
proof -
  have "list_all (\<lambda>p. p \<noteq> [] \<and> list_all (\<lambda>c. \<not> plain_char c) p) space_runes"
    by (simp add: space_runes_def plain_char_def)
  then show "p \<in> set space_runes \<Longrightarrow> p \<noteq> [] \<and> (\<forall>c\<in>set p. \<not> plain_char c)" by (simp add: list_all_iff)
qed

lemma trim_left_plain:
  assumes "\<And>p c. p \<in> set ps \<Longrightarrow> c \<in> set p \<Longrightarrow> \<not> plain_char c" "\<And>c. c \<in> set s \<Longrightarrow> plain_char c"
  shows "trim_left ps s = s"
proof -
  have "\<not> (p \<noteq> [] \<and> has_prefix p s)" if "p \<in> set ps" for p
  proof
    assume "p \<noteq> [] \<and> has_prefix p s"
    then have "hd p \<in> set p" "hd p \<in> set s" by (cases p; auto simp: has_prefix_iff)+
    then show False using assms that by blast
  qed
  then have "find (\<lambda>p. p \<noteq> [] \<and> has_prefix p s) ps = None" by (simp add: find_None_iff)
  then show ?thesis by (subst trim_left.simps) simp
qed

lemma trim_space_plain:
  assumes "\<And>c. c \<in> set s \<Longrightarrow> plain_char c"
  shows "trim_space s = s"
proof -
  have 1: "trim_left space_runes s = s"
    by (rule trim_left_plain) (use space_not_plain assms in blast)+
  have 2: "trim_left (map rev space_runes) (rev s) = rev s"
  proof (rule trim_left_plain)
    fix p c assume "p \<in> set (map rev space_runes)" "c \<in> set p"
    then obtain q where "q \<in> set space_runes" "c \<in> set q" by auto
    then show "\<not> plain_char c" using space_not_plain by blast
  qed (use assms in simp)
  show ?thesis by (simp add: trim_space_def 1 2)
qed

lemma is_hex_plain: "is_hex c \<Longrightarrow> plain_char c"
  by (auto simp: is_hex_def plain_char_def Let_def)

lemma base64_plain: "c \<in> set (base64_raw_url bs) \<Longrightarrow> plain_char c"
proof -
  have ch: "plain_char (base64_char n)" for n
    by (auto simp: base64_char_def plain_char_def)
  show "c \<in> set (base64_raw_url bs) \<Longrightarrow> plain_char c"
    by (induction bs rule: base64_raw_url.induct) (auto simp: Let_def ch)
qed

lemma parse_hash_token:
  assumes "length (sum256 x token) = 32"
  shows "parseTokenHash x (HashToken x token) = Inr (hex_encode (sum256 x token))"
proof -
  let ?h = "hex_encode (sum256 x token)"
  have "plain_char c" if "c \<in> set (HashToken x token)" for c
    using that hex_encode_props is_hex_plain
    by (auto simp: HashToken_def hash_prefix_def plain_char_def)
  then have trim: "trim_space (HashToken x token) = HashToken x token" by (rule trim_space_plain)
  have cut: "has_prefix hash_prefix (HashToken x token)" "trim_prefix hash_prefix (HashToken x token) = ?h"
    by (simp_all add: HashToken_def trim_prefix_def)
  have hex: "find (\<lambda>c. \<not> is_hex c) ?h = None" using hex_encode_props by (auto simp: find_None_iff)
  have low: "to_lower ?h = ?h" unfolding to_lower_def using hex_encode_props by (intro map_idI) blast
  have "length ?h = 64" using assms by (simp add: hex_encode_length)
  then show ?thesis unfolding parseTokenHash_def trim Let_def cut(2) using cut(1) hex low by simp
qed

definition demo_crypto :: crypto where
  "demo_crypto = \<lparr>sum256 = (\<lambda>s. replicate 32 (of_nat (length s))), invalid_byte = (\<lambda>c. [])\<rparr>"

definition demo_token :: string where
  "demo_token = ''ph_'' @ base64_raw_url [1, 2]"

definition demo_entry :: "string \<Rightarrow> token_record" where
  "demo_entry role = \<lparr>trUser = ''ann'', trRole = role, trTokenHash = HashToken demo_crypto demo_token\<rparr>"

definition demo_store :: "string \<Rightarrow> token_store" where
  "demo_store role = [(demo_entry role)\<lparr>trTokenHash := hex_encode (sum256 demo_crypto demo_token)\<rparr>]"

lemma demo_tokens:
  assumes "valid_role role"
  shows "ParseTokenFile demo_crypto (Inr [demo_entry role]) = Inr (demo_store role)"
proof -
  have "trim_space ''ann'' = ''ann''" by (rule trim_space_plain) (auto simp: plain_char_def)
  moreover have "length (sum256 demo_crypto demo_token) = 32" by (simp add: demo_crypto_def)
  note parse_hash_token [OF this]
  ultimately show ?thesis using assms
    by (auto simp: ParseTokenFile_def demo_store_def valid_role_def demo_entry_def)
qed

text \<open>
  C20: exactly the holders of a listed token are let in. With the tokens of a file that was accepted,
  a request authenticates as an identity if and only if its Authorization header is "Bearer", in any
  case, a space and a token whose SHA-256 is the hash of an entry of that user and role.
\<close>

theorem authenticate_iff:
  assumes "ParseTokenFile x (Inr recs) = Inr store"
  shows "authenticate x (Some store) header = (i, True) \<longleftrightarrow>
    (\<exists>scheme token rec. header = scheme @ CHR '' '' # token \<and> CHR '' '' \<notin> set scheme \<and> to_lower scheme = ''bearer''
       \<and> trim_space token \<noteq> [] \<and> rec \<in> set recs \<and> valid_role (trRole rec)
       \<and> parseTokenHash x (trTokenHash rec) = Inr (hex_encode (sum256 x (trim_space token)))
       \<and> i = \<lparr>idUser = trUser rec, idRole = trRole rec\<rparr>)"
  using assms by (rule authenticate_spec)

lemma token_accepted:
  assumes "GenerateToken (Inr raw) = Inr token" "ParseTokenFile x (Inr recs) = Inr store"
    and "rec \<in> set recs" "trTokenHash rec = HashToken x token" "length (sum256 x token) = 32"
  shows "authenticate x (Some store) (''Bearer '' @ token) = (\<lparr>idUser = trUser rec, idRole = trRole rec\<rparr>, True)"
proof -
  have t: "token = ''ph_'' @ base64_raw_url raw" using assms(1) by (simp add: GenerateToken_def)
  have "plain_char c" if "c \<in> set token" for c
    using that base64_plain by (auto simp: t plain_char_def)
  then have trim: "trim_space token = token" by (rule trim_space_plain)
  have "parse_entries x 0 [] recs = Inr store" using assms(2) by (simp add: ParseTokenFile_def split: if_splits)
  from parse_entries_spec [OF this] obtain s where "parsed_entry x rec s"
    using assms(3) by (metis in_set_conv_nth list_all2_conv_all_nth)
  then have role: "valid_role (trRole rec)" by (auto simp: parsed_entry_def)
  have hash: "parseTokenHash x (trTokenHash rec) = Inr (hex_encode (sum256 x (trim_space token)))"
    unfolding trim assms(4) by (rule parse_hash_token [OF assms(5)])
  have "trim_space token \<noteq> []" unfolding trim by (simp add: t)
  moreover have "''Bearer '' @ token = ''Bearer'' @ CHR '' '' # token" "CHR '' '' \<notin> set ''Bearer''" by simp_all
  ultimately show ?thesis
    unfolding authenticate_spec [OF assms(2)] using bearer_lower hash role assms(3) by blast
qed

lemma demo_role: "valid_role ''viewer''"
  by (simp add: valid_role_def RoleViewer_def)

theorem authenticate_iff_witness:
  "\<forall>i. authenticate demo_crypto (Some (demo_store ''viewer'')) ''Basic'' \<noteq> (i, True)"
proof
  fix i
  have "CHR '' '' \<notin> set ''Basic''" by simp
  then have "\<nexists>scheme token. ''Basic'' = scheme @ CHR '' '' # token" by (metis in_set_conv_decomp)
  then show "authenticate demo_crypto (Some (demo_store ''viewer'')) ''Basic'' \<noteq> (i, True)"
    unfolding authenticate_iff [OF demo_tokens [OF demo_role]] by blast
qed

end
