(* ===== verification/Docker.thy ===== *)
theory Docker
  imports Validation
begin

text \<open>
  The Docker client operations of \<open>task/task.go\<close>: inspect, pull, logs, run and stop. The daemon and the
  moby client are not part of the repository: a \<open>docker_api\<close> is what they answer, threading the
  daemon's state \<open>'d\<close>. \<open>docker_laws\<close> states the documented behaviour that the results rest on, over
  the set of containers that exist.
\<close>

section \<open>The daemon's interface\<close>

record docker_health =
  dhStatus :: string
  dhFailingStreak :: int
  dhLog :: "(int \<times> string) option list"

record container_state =
  csStatus :: string
  csExitCode :: int
  csHealth :: "docker_health option"

record inspection =
  inState :: "container_state option"
  inPorts :: "port_map option"

text \<open>The options of a container creation: configuration, host configuration and name.\<close>

record create_options =
  coImage :: string
  coCmd :: "string list"
  coEnv :: "string list"
  coExposedPorts :: "dport set"
  coHealthcheck :: "health_config option"
  coUser :: string
  coRestartPolicy :: string
  coMemory :: i64
  coNanoCPUs :: i64
  coPortBindings :: "dport \<rightharpoonup> string list"
  coCapAdd :: "string list"
  coCapDrop :: "string list"
  coGroupAdd :: "string list"
  coTmpfs :: "(string \<rightharpoonup> string) option"
  coReadonlyRootfs :: bool
  coSecurityOpt :: "string list"
  coPrivileged :: bool
  coIpcMode :: string
  coUsernsMode :: string
  coPidsLimit :: "i64 option"
  coUlimits :: "ulimit list"
  coName :: string

text \<open>
  A stream is what reading it to the end yields: an error or the bytes. \<open>dkNew\<close> is the creation of a
  client, \<open>dkNanoCPUs\<close> the float computation \<open>int64(cpu * 10^9)\<close>.
\<close>

record 'd docker_api =
  dkNew :: "gerror option"
  dkIsNotFound :: "gerror \<Rightarrow> bool"
  dkContainerInspect :: "string \<Rightarrow> 'd \<Rightarrow> (gerror + inspection) \<times> 'd"
  dkImageInspect :: "string \<Rightarrow> 'd \<Rightarrow> gerror option \<times> 'd"
  dkImagePull :: "string \<Rightarrow> 'd \<Rightarrow> (gerror + gerror option) \<times> 'd"
  dkContainerLogs :: "string \<Rightarrow> string \<Rightarrow> 'd \<Rightarrow> (gerror + (gerror + string)) \<times> 'd"
  dkContainerCreate :: "create_options \<Rightarrow> 'd \<Rightarrow> (gerror + string) \<times> 'd"
  dkContainerStart :: "string \<Rightarrow> 'd \<Rightarrow> gerror option \<times> 'd"
  dkContainerStop :: "string \<Rightarrow> 'd \<Rightarrow> gerror option \<times> 'd"
  dkContainerRemove :: "string \<Rightarrow> 'd \<Rightarrow> gerror option \<times> 'd"
  dkNanoCPUs :: "float64 \<Rightarrow> i64"

section \<open>The operations\<close>

record DockerResult =
  drContainerID :: string
  drAction :: string
  drResult :: string
  drExitCode :: "int option"
  drError :: "gerror option"

definition ActionStart :: string where "ActionStart = ''start''"

definition ActionStop :: string where "ActionStop = ''stop''"

definition ResultSuccess :: string where "ResultSuccess = ''success''"

definition docker_error :: "string \<Rightarrow> gerror \<Rightarrow> DockerResult" where
  "docker_error i err = \<lparr>drContainerID = i, drAction = [], drResult = [], drExitCode = None, drError = Some err\<rparr>"

definition NewDocker :: "'d docker_api \<Rightarrow> gerror option" where
  "NewDocker api =
     (case dkNew api of
        None \<Rightarrow> None
      | Some err \<Rightarrow> Some (errorf (''error creating a docker instance: '' @ err_msg err)))"

definition d_Inspect :: "'d docker_api \<Rightarrow> string \<Rightarrow> 'd \<Rightarrow> (gerror + inspection) \<times> 'd" where
  "d_Inspect api containerID d = dkContainerInspect api containerID d"

definition d_Pull :: "'d docker_api \<Rightarrow> string \<Rightarrow> 'd \<Rightarrow> (gerror option \<times> bool) \<times> 'd" where
  "d_Pull api img d =
     (case dkImageInspect api img d of
        (None, d) \<Rightarrow> ((None, False), d)
      | (Some err, d) \<Rightarrow>
          if \<not> dkIsNotFound api err
          then ((Some (wrapf (''inspecting image '' @ img @ '': '') err), False), d)
          else case dkImagePull api img d of
            (Inl err, d) \<Rightarrow> ((Some (wrapf (''pulling image '' @ img @ '': '') err), False), d)
          | (Inr (Some err), d) \<Rightarrow>
              ((Some (wrapf (''reading pull progress for image '' @ img @ '': '') err), False), d)
          | (Inr None, d) \<Rightarrow> ((None, True), d))"

text \<open>
  No logs (\<open>None\<close>, a nil slice) for an empty ID or a missing container, which is not an error; a buffer
  that nothing was written to is nil too.
\<close>

definition d_Logs :: "'d docker_api \<Rightarrow> string \<Rightarrow> int \<Rightarrow> 'd \<Rightarrow> (gerror + string option) \<times> 'd" where
  "d_Logs api containerID tail d =
     (if containerID = [] then (Inr None, d)
      else case dkContainerLogs api containerID (if tail > 0 then itoa tail else []) d of
        (Inl err, d) \<Rightarrow>
          (if dkIsNotFound api err then Inr None
           else Inl (wrapf (''error fetching logs for container '' @ containerID @ '': '') err), d)
      | (Inr (Inl err), d) \<Rightarrow>
          (Inl (wrapf (''error demultiplexing logs for container '' @ containerID @ '': '') err), d)
      | (Inr (Inr bytes), d) \<Rightarrow> (Inr (if bytes = [] then None else Some bytes), d))"

definition create_config :: "'d docker_api \<Rightarrow> hc_defaults \<Rightarrow> config \<Rightarrow> dport set \<Rightarrow> (dport \<rightharpoonup> string list) \<Rightarrow> create_options" where
  "create_config api hcd c exposed bindings =
     (let sec = cfgSecurity c in
      \<lparr>coImage = cfgImage c, coCmd = cfgCmd c, coEnv = cfgEnv c, coExposedPorts = exposed,
       coHealthcheck = dockerHealthcheck hcd c,
       coUser = (case sec of None \<Rightarrow> [] | Some s \<Rightarrow> secUser s),
       coRestartPolicy = ''no'', coMemory = cfgMemory c, coNanoCPUs = dkNanoCPUs api (cfgCpu c),
       coPortBindings = bindings,
       coCapAdd = (case sec of None \<Rightarrow> [] | Some s \<Rightarrow> secCapAdd s),
       coCapDrop = (case sec of None \<Rightarrow> [] | Some s \<Rightarrow> secCapDrop s),
       coGroupAdd = (case sec of None \<Rightarrow> [] | Some s \<Rightarrow> secGroupAdd s),
       coTmpfs = dockerTmpfs sec,
       coReadonlyRootfs = (case sec of None \<Rightarrow> False | Some s \<Rightarrow> secReadOnlyRootfs s),
       coSecurityOpt = dockerSecurityOpts sec,
       coPrivileged = (case sec of None \<Rightarrow> False | Some s \<Rightarrow> secPrivileged s),
       coIpcMode = (case sec of None \<Rightarrow> [] | Some s \<Rightarrow> secIpcMode s),
       coUsernsMode = (case sec of None \<Rightarrow> [] | Some s \<Rightarrow> secUsernsMode s),
       coPidsLimit = dockerPidsLimit sec, coUlimits = dockerUlimits sec, coName = cfgName c\<rparr>)"

definition cleanup_failed :: "gerror \<Rightarrow> gerror \<Rightarrow> gerror" where
  "cleanup_failed runErr removeErr =
     GErr (err_msg runErr @ '' (also failed to clean up container: '' @ err_msg removeErr @ '')'') (err_wraps runErr)"

text \<open>A container that could not be removed after a failed start keeps its ID in the result.\<close>

definition run_cleanup :: "'d docker_api \<Rightarrow> string \<Rightarrow> gerror \<Rightarrow> 'd \<Rightarrow> DockerResult \<times> 'd" where
  "run_cleanup api i runErr d =
     (case dkContainerRemove api i d of
        (Some removeErr, d) \<Rightarrow> (docker_error i (cleanup_failed runErr removeErr), d)
      | (None, d) \<Rightarrow> (docker_error [] runErr, d))"

definition run_created :: "'d docker_api \<Rightarrow> string \<Rightarrow> 'd \<Rightarrow> DockerResult \<times> 'd" where
  "run_created api i d =
     (case dkContainerStart api i d of
        (Some err, d) \<Rightarrow> run_cleanup api i err d
      | (None, d) \<Rightarrow>
          (case dkContainerLogs api i [] d of
             (Inl err, d) \<Rightarrow> run_cleanup api i err d
           | (Inr (Inl err), d) \<Rightarrow> run_cleanup api i err d
           | (Inr (Inr bytes), d) \<Rightarrow>
               (\<lparr>drContainerID = i, drAction = ActionStart, drResult = ResultSuccess, drExitCode = None,
                 drError = None\<rparr>, d)))"

definition d_Run :: "ext \<Rightarrow> 'd docker_api \<Rightarrow> hc_defaults \<Rightarrow> config \<Rightarrow> 'd \<Rightarrow> DockerResult \<times> 'd" where
  "d_Run x api hcd c d =
     (case d_Pull api (cfgImage c) d of
        ((Some err, _), d) \<Rightarrow> (docker_error [] err, d)
      | ((None, _), d) \<Rightarrow>
          (case dockerPorts x c of
             Inl err \<Rightarrow> (docker_error [] err, d)
           | Inr (exposed, bindings) \<Rightarrow>
               (case dkContainerCreate api (create_config api hcd c exposed bindings) d of
                  (Inl err, d) \<Rightarrow> (docker_error [] err, d)
                | (Inr i, d) \<Rightarrow> run_created api i d)))"

definition stopped_result :: "int option \<Rightarrow> DockerResult" where
  "stopped_result code =
     \<lparr>drContainerID = [], drAction = ActionStop, drResult = ResultSuccess, drExitCode = code, drError = None\<rparr>"

definition stop_failed :: "gerror \<Rightarrow> gerror \<Rightarrow> gerror" where
  "stop_failed stopErr removeErr =
     GErr (''error stopping container: '' @ err_msg stopErr @ ''. error removing container: '' @ err_msg removeErr)
       (err_wraps stopErr)"

definition d_Stop :: "'d docker_api \<Rightarrow> string \<Rightarrow> 'd \<Rightarrow> DockerResult \<times> 'd" where
  "d_Stop api i d =
     (if i = [] then (docker_error [] (errorf ''cannot stop container: container ID is empty''), d)
      else case dkContainerStop api i d of
        (stop, d) \<Rightarrow>
          (let stopErr = (case stop of None \<Rightarrow> None | Some e \<Rightarrow> if dkIsNotFound api e then None else Some e) in
           case dkContainerInspect api i d of
             (insp, d) \<Rightarrow>
               (let exitCode = (case insp of Inl _ \<Rightarrow> None
                      | Inr resp \<Rightarrow> (case inState resp of None \<Rightarrow> None | Some s \<Rightarrow> Some (csExitCode s))) in
                case dkContainerRemove api i d of
                  (None, d) \<Rightarrow> (stopped_result exitCode, d)
                | (Some removeErr, d) \<Rightarrow>
                    (if dkIsNotFound api removeErr then stopped_result exitCode
                     else case stopErr of
                       Some e \<Rightarrow> docker_error [] (stop_failed e removeErr)
                     | None \<Rightarrow> docker_error [] removeErr, d))))"

section \<open>What the daemon promises\<close>

text \<open>
  \<open>live d\<close> are the IDs of the containers that exist, running or not. A creation makes one new
  container or none; a removal removes the container, or fails without effect, and reports "not
  found" only for a container that does not exist; nothing else creates or removes containers.
\<close>

definition docker_create_law :: "('d \<Rightarrow> string set) \<Rightarrow> 'd docker_api \<Rightarrow> bool" where
  "docker_create_law live api \<longleftrightarrow> (\<forall>opts d. case dkContainerCreate api opts d of
     (Inr i, d') \<Rightarrow> i \<noteq> [] \<and> i \<notin> live d \<and> live d' = insert i (live d)
   | (Inl e, d') \<Rightarrow> live d' = live d)"

definition docker_remove_law :: "('d \<Rightarrow> string set) \<Rightarrow> 'd docker_api \<Rightarrow> bool" where
  "docker_remove_law live api \<longleftrightarrow> (\<forall>i d. case dkContainerRemove api i d of
     (None, d') \<Rightarrow> live d' = live d - {i}
   | (Some e, d') \<Rightarrow> live d' = live d \<and> (dkIsNotFound api e \<longrightarrow> i \<notin> live d))"

definition docker_quiet_law :: "('d \<Rightarrow> string set) \<Rightarrow> 'd docker_api \<Rightarrow> bool" where
  "docker_quiet_law live api \<longleftrightarrow> (\<forall>i n d.
     live (snd (dkContainerInspect api i d)) = live d \<and> live (snd (dkImageInspect api i d)) = live d
   \<and> live (snd (dkImagePull api i d)) = live d \<and> live (snd (dkContainerStart api i d)) = live d
   \<and> live (snd (dkContainerStop api i d)) = live d \<and> live (snd (dkContainerLogs api i n d)) = live d)"

definition docker_laws :: "('d \<Rightarrow> string set) \<Rightarrow> 'd docker_api \<Rightarrow> bool" where
  "docker_laws live api \<longleftrightarrow> docker_create_law live api \<and> docker_remove_law live api \<and> docker_quiet_law live api"

lemma docker_quiet:
  assumes "docker_laws live api"
  shows "live (snd (dkContainerInspect api i d)) = live d" "live (snd (dkImageInspect api i d)) = live d"
    "live (snd (dkImagePull api i d)) = live d" "live (snd (dkContainerStart api i d)) = live d"
    "live (snd (dkContainerStop api i d)) = live d" "live (snd (dkContainerLogs api i n d)) = live d"
  using assms by (simp_all add: docker_laws_def docker_quiet_law_def)

lemma docker_create:
  assumes "docker_laws live api"
  shows "dkContainerCreate api opts d = (Inr i, d') \<Longrightarrow> i \<noteq> [] \<and> i \<notin> live d \<and> live d' = insert i (live d)"
    and "dkContainerCreate api opts d = (Inl e, d') \<Longrightarrow> live d' = live d"
proof -
  have "case dkContainerCreate api opts d of
     (Inr i, d') \<Rightarrow> i \<noteq> [] \<and> i \<notin> live d \<and> live d' = insert i (live d)
   | (Inl e, d') \<Rightarrow> live d' = live d"
    using assms by (simp add: docker_laws_def docker_create_law_def)
  then show "dkContainerCreate api opts d = (Inr i, d') \<Longrightarrow> i \<noteq> [] \<and> i \<notin> live d \<and> live d' = insert i (live d)"
    and "dkContainerCreate api opts d = (Inl e, d') \<Longrightarrow> live d' = live d"
    by simp_all
qed

lemma docker_remove:
  assumes "docker_laws live api"
  shows "dkContainerRemove api i d = (None, d') \<Longrightarrow> live d' = live d - {i}"
    and "dkContainerRemove api i d = (Some e, d') \<Longrightarrow> live d' = live d \<and> (dkIsNotFound api e \<longrightarrow> i \<notin> live d)"
proof -
  have "case dkContainerRemove api i d of
     (None, d') \<Rightarrow> live d' = live d - {i}
   | (Some e, d') \<Rightarrow> live d' = live d \<and> (dkIsNotFound api e \<longrightarrow> i \<notin> live d)"
    using assms by (simp add: docker_laws_def docker_remove_law_def)
  then show "dkContainerRemove api i d = (None, d') \<Longrightarrow> live d' = live d - {i}"
    and "dkContainerRemove api i d = (Some e, d') \<Longrightarrow> live d' = live d \<and> (dkIsNotFound api e \<longrightarrow> i \<notin> live d)"
    by simp_all
qed

text \<open>A daemon that keeps its containers in a list and never fails, for concrete runs.\<close>

definition memory_docker :: "string list docker_api" where
  "memory_docker =
     \<lparr>dkNew = None, dkIsNotFound = (\<lambda>e. errors_Is e ErrNotFound),
      dkContainerInspect = (\<lambda>i d. (if i \<in> set d then Inr \<lparr>inState = None, inPorts = None\<rparr>
                                   else Inl (GErr ''no such container'' [ErrNotFound]), d)),
      dkImageInspect = (\<lambda>i d. (None, d)), dkImagePull = (\<lambda>i d. (Inr None, d)),
      dkContainerLogs = (\<lambda>i n d. (Inr (Inr []), d)),
      dkContainerCreate = (\<lambda>opts d. let i = replicate (Suc (Max (insert 0 (length ` set d)))) CHR ''c''
                             in (Inr i, i # d)),
      dkContainerStart = (\<lambda>i d. (None, d)), dkContainerStop = (\<lambda>i d. (None, d)),
      dkContainerRemove = (\<lambda>i d. if i \<in> set d then (None, removeAll i d)
                                 else (Some (GErr ''no such container'' [ErrNotFound]), d)),
      dkNanoCPUs = (\<lambda>c. 0)\<rparr>"

lemma memory_docker_laws: "docker_laws set memory_docker"
proof -
  have "replicate (Suc (Max (insert 0 (length ` set d)))) CHR ''c'' \<notin> set d" for d :: "string list"
  proof
    assume "replicate (Suc (Max (insert 0 (length ` set d)))) CHR ''c'' \<in> set d"
    then have "Suc (Max (insert 0 (length ` set d))) \<in> length ` set d"
      by (metis image_eqI length_replicate)
    then have "Suc (Max (insert 0 (length ` set d))) \<le> Max (insert 0 (length ` set d))" by (intro Max_ge) auto
    then show False by simp
  qed
  then show ?thesis
    by (auto simp: docker_laws_def docker_create_law_def docker_remove_law_def docker_quiet_law_def
        memory_docker_def Let_def)
qed

section \<open>Containers are created and removed whole\<close>

lemma d_Pull_live:
  assumes "docker_laws live api"
  shows "live (snd (d_Pull api img d)) = live d"
  using docker_quiet [OF assms]
  by (auto simp: d_Pull_def case_prod_beta split: option.split sum.split)

lemma d_Logs_live:
  assumes "docker_laws live api"
  shows "live (snd (d_Logs api i n d)) = live d"
  using docker_quiet(6) [OF assms]
  by (auto simp: d_Logs_def case_prod_beta split: sum.split)

lemma d_Inspect_live: "docker_laws live api \<Longrightarrow> live (snd (d_Inspect api i d)) = live d"
  by (simp add: d_Inspect_def docker_quiet)

lemma docker_error_simps [simp]:
  "drError (docker_error i e) = Some e" "drContainerID (docker_error i e) = i"
  "drError (stopped_result c) = None" "drContainerID (stopped_result c) = []"
  by (simp_all add: docker_error_def stopped_result_def)

lemma run_cleanup_live:
  assumes "docker_laws live api" "i \<noteq> []"
  shows "drError (fst (run_cleanup api i err d)) \<noteq> None
    \<and> (drContainerID (fst (run_cleanup api i err d)) = [] \<and> live (snd (run_cleanup api i err d)) = live d - {i}
       \<or> drContainerID (fst (run_cleanup api i err d)) = i \<and> live (snd (run_cleanup api i err d)) = live d)"
proof (cases "dkContainerRemove api i d")
  case (Pair e d1)
  show ?thesis
  proof (cases e)
    case None
    with docker_remove(1) [OF assms(1) Pair [unfolded None]] Pair show ?thesis by (simp add: run_cleanup_def)
  next
    case (Some err)
    with docker_remove(2) [OF assms(1) Pair [unfolded Some]] Pair show ?thesis by (simp add: run_cleanup_def)
  qed
qed

lemma run_created_live:
  assumes "docker_laws live api" "i \<noteq> []"
  shows "drContainerID (fst (run_created api i d)) = i \<and> live (snd (run_created api i d)) = live d
    \<or> drError (fst (run_created api i d)) \<noteq> None \<and> drContainerID (fst (run_created api i d)) = []
      \<and> live (snd (run_created api i d)) = live d - {i}"
proof -
  obtain s d1 where s: "dkContainerStart api i d = (s, d1)" by fastforce
  obtain l d2 where l: "dkContainerLogs api i [] d1 = (l, d2)" by fastforce
  have v: "live d1 = live d" "live d2 = live d"
    using docker_quiet(4) [OF assms(1), of i d] docker_quiet(6) [OF assms(1), of i "[]" d1] s l by simp_all
  consider err where "run_created api i d = run_cleanup api i err d1"
    | err where "run_created api i d = run_cleanup api i err d2"
    | "run_created api i d = (\<lparr>drContainerID = i, drAction = ActionStart, drResult = ResultSuccess,
         drExitCode = None, drError = None\<rparr>, d2)"
    by (cases s; cases l; cases "projr l") (simp_all add: run_created_def s l)
  then show ?thesis
  proof cases
    case 1
    with run_cleanup_live [OF assms, of _ d1] v show ?thesis by metis
  next
    case 2
    with run_cleanup_live [OF assms, of _ d2] v show ?thesis by metis
  next
    case 3
    with v show ?thesis by simp
  qed
qed

lemma d_Run_live:
  assumes "docker_laws live api"
  shows "drContainerID (fst (d_Run x api hcd c d)) = [] \<and> drError (fst (d_Run x api hcd c d)) \<noteq> None
      \<and> live (snd (d_Run x api hcd c d)) = live d
    \<or> drContainerID (fst (d_Run x api hcd c d)) \<notin> live d
      \<and> live (snd (d_Run x api hcd c d)) = insert (drContainerID (fst (d_Run x api hcd c d))) (live d)"
proof -
  obtain p b d1 where p: "d_Pull api (cfgImage c) d = ((p, b), d1)" by (cases "d_Pull api (cfgImage c) d") auto
  have v1: "live d1 = live d" using d_Pull_live [OF assms(1), of "cfgImage c" d] p by simp
  show ?thesis
  proof (cases p)
    case (Some err)
    with p v1 show ?thesis by (simp add: d_Run_def)
  next
    case None
    show ?thesis
    proof (cases "dockerPorts x c")
      case (Inl err)
      with p None v1 show ?thesis by (simp add: d_Run_def)
    next
      case ports: (Inr eb)
      obtain ex bi where eb: "eb = (ex, bi)" by fastforce
      obtain cr d2 where cr: "dkContainerCreate api (create_config api hcd c ex bi) d1 = (cr, d2)" by fastforce
      show ?thesis
      proof (cases cr)
        case (Inl err)
        with docker_create(2) [OF assms(1) cr [unfolded Inl]] p None ports eb cr v1 show ?thesis
          by (simp add: d_Run_def)
      next
        case (Inr i)
        note new = docker_create(1) [OF assms(1) cr [unfolded Inr]]
        have "d_Run x api hcd c d = run_created api i d2" using p None ports eb cr Inr by (simp add: d_Run_def)
        with run_created_live [OF assms(1), of i d2] new v1 show ?thesis by auto
      qed
    qed
  qed
qed

lemma d_Stop_live:
  assumes "docker_laws live api"
  shows "if drError (fst (d_Stop api i d)) = None then i \<noteq> [] \<and> live (snd (d_Stop api i d)) = live d - {i}
    else live (snd (d_Stop api i d)) = live d"
proof (cases "i = []")
  case True
  then show ?thesis by (simp add: d_Stop_def)
next
  case False
  obtain s d1 where s: "dkContainerStop api i d = (s, d1)" by fastforce
  obtain n d2 where n: "dkContainerInspect api i d1 = (n, d2)" by fastforce
  obtain e d3 where e: "dkContainerRemove api i d2 = (e, d3)" by fastforce
  have v: "live d2 = live d"
    using docker_quiet(5) [OF assms(1), of i d] docker_quiet(1) [OF assms(1), of i d1] s n by simp
  show ?thesis
  proof (cases e)
    case None
    with docker_remove(1) [OF assms(1) e [unfolded None]] v False s n e show ?thesis
      by (simp add: d_Stop_def Let_def)
  next
    case (Some err)
    note gone = docker_remove(2) [OF assms(1) e [unfolded Some]]
    show ?thesis
    proof (cases "dkIsNotFound api err")
      case True
      with gone v False s n e Some show ?thesis by (simp add: d_Stop_def Let_def)
    next
      case no: False
      then obtain x where "fst (d_Stop api i d) = docker_error [] x" "snd (d_Stop api i d) = d3"
        using False s n e Some
        by (cases s; cases "dkIsNotFound api (the s)") (auto simp: d_Stop_def Let_def)
      with gone v show ?thesis by simp
    qed
  qed
qed

end
