(* ===== verification/Workers.thy ===== *)
theory Workers
  imports Docker Ownership Schedulers
begin

text \<open>
  The worker, \<open>worker/worker.go\<close>: its task and log stores, the queue of accepted events, and the
  operations that drive the Docker daemon. The daemon's state is a field of the worker, so that one
  state is threaded; what an operation takes from outside (clock, configuration, Docker API) is its
  \<open>wenv\<close>. Each operation is one step; logging is left out.
\<close>

section \<open>State\<close>

record 'd worker =
  wName :: string
  wQueue :: "task queue"
  wDb :: "task db"
  wLogDb :: "task_logs db"
  wStats :: "stats option"
  wRunWaker :: waker
  wUpdateWaker :: waker
  wBoltDb :: bool
  wPrevCpuTotal :: u64
  wPrevCpuIdle :: u64
  wHavePrevCpu :: bool
  wDocker :: 'd

record 'd wenv =
  veNow :: gotime
  veExt :: ext
  veIdString :: "uuid \<Rightarrow> string"
  veDefaults :: hc_defaults
  veLogLines :: int
  veApi :: "'d docker_api"

text \<open>What opening the worker's bbolt file and its two buckets returns, and what closing it would.\<close>

record worker_files =
  wfOpen :: "gerror option"
  wfTasks :: "gerror + task store"
  wfLogs :: "gerror + task_logs store"
  wfClose :: "gerror option"

definition close_after :: "gerror \<Rightarrow> gerror option \<Rightarrow> gerror option" where
  "close_after err closed = errors_Join (err # (case closed of None \<Rightarrow> [] | Some c \<Rightarrow> [c]))"

definition wk_New :: "string \<Rightarrow> string \<Rightarrow> worker_files \<Rightarrow> 'd \<Rightarrow> gerror option + 'd worker" where
  "wk_New name dbType b d =
     (let mk = (\<lambda>db logDb bolt. \<lparr>wName = name, wQueue = queue_New, wDb = Some db, wLogDb = Some logDb,
                  wStats = None, wRunWaker = NewWaker, wUpdateWaker = NewWaker, wBoltDb = bolt,
                  wPrevCpuTotal = 0, wPrevCpuIdle = 0, wHavePrevCpu = False, wDocker = d\<rparr>) in
      if dbType = ''memory'' then Inr (mk new_store new_store False)
      else if dbType = ''bolt'' then
        (case wfOpen b of
           Some err \<Rightarrow> Inl (Some (wrapf ''opening worker db: '' err))
         | None \<Rightarrow>
             (case wfTasks b of
                Inl err \<Rightarrow> Inl (close_after (wrapf ''opening tasks bucket: '' err) (wfClose b))
              | Inr db \<Rightarrow>
                  (case wfLogs b of
                     Inl err \<Rightarrow> Inl (close_after (wrapf ''opening logs bucket: '' err) (wfClose b))
                   | Inr logDb \<Rightarrow> Inr (mk db logDb True))))
      else Inl (Some (errorf (''unknown db type '' @ go_quote dbType))))"

definition wk_Close :: "gerror option \<Rightarrow> 'd worker \<Rightarrow> gerror option \<times> 'd worker" where
  "wk_Close closed w = (if wBoltDb w then closed else None, w\<lparr>wDb := None, wLogDb := None, wBoltDb := False\<rparr>)"

section \<open>Records\<close>

definition wk_Get :: "uuid \<Rightarrow> 'd worker \<Rightarrow> (gerror + task) \<times> 'd worker" where
  "wk_Get i w = (case db_Get i (wDb w) of (r, d) \<Rightarrow> (r, w\<lparr>wDb := d\<rparr>))"

definition wk_Put :: "uuid \<Rightarrow> task \<Rightarrow> 'd worker \<Rightarrow> gerror option \<times> 'd worker" where
  "wk_Put i t w = (case db_Put i t (wDb w) of (r, d) \<Rightarrow> (r, w\<lparr>wDb := d\<rparr>))"

definition db_is_nil :: gerror where
  "db_is_nil = errorf ''worker db is nil''"

definition wk_listTasks :: "'d worker \<Rightarrow> (gerror + task list) \<times> 'd worker" where
  "wk_listTasks w =
     (if wDb w = None then (Inl db_is_nil, w)
      else case db_List (wDb w) of (r, d) \<Rightarrow> (r, w\<lparr>wDb := d\<rparr>))"

definition wk_getTasks :: "'d worker \<Rightarrow> task list \<times> 'd worker" where
  "wk_getTasks w = (case wk_listTasks w of (Inl err, w) \<Rightarrow> ([], w) | (Inr ts, w) \<Rightarrow> (ts, w))"

definition wk_getTask :: "uuid \<Rightarrow> 'd worker \<Rightarrow> task option \<times> 'd worker" where
  "wk_getTask i w =
     (if wDb w = None then (None, w)
      else case wk_Get i w of (Inl err, w) \<Rightarrow> (None, w) | (Inr t, w) \<Rightarrow> (Some t, w))"

definition wk_resolveTask :: "'d wenv \<Rightarrow> string \<Rightarrow> 'd worker \<Rightarrow> (task \<times> bool \<times> bool) \<times> 'd worker" where
  "wk_resolveTask v ref w = (case wk_getTasks w of (ts, w) \<Rightarrow> (ResolveRef (veExt v) ts ref, w))"

definition setTask :: "task \<Rightarrow> 'd worker \<Rightarrow> 'd worker" where
  "setTask t w = (if wDb w = None then w else snd (wk_Put (tID t) t w))"

section \<open>Logs\<close>

definition peekStoredLogs :: "uuid \<Rightarrow> 'd worker \<Rightarrow> task_logs option \<times> 'd worker" where
  "peekStoredLogs i w =
     (if wLogDb w = None then (None, w)
      else case db_Get i (wLogDb w) of
        (Inl err, d) \<Rightarrow> (None, w\<lparr>wLogDb := d\<rparr>)
      | (Inr l, d) \<Rightarrow> (Some l, w\<lparr>wLogDb := d\<rparr>))"

definition getStoredLogs :: "uuid \<Rightarrow> 'd worker \<Rightarrow> task_logs option \<times> 'd worker" where
  "getStoredLogs i w =
     (if wLogDb w = None then (None, w)
      else case db_Get i (wLogDb w) of
        (Inl err, d) \<Rightarrow> (None, w\<lparr>wLogDb := d\<rparr>)
      | (Inr l, d) \<Rightarrow> (Some l, w\<lparr>wLogDb := d\<rparr>))"

definition storeLogsIfAbsent ::
  "'d wenv \<Rightarrow> uuid \<Rightarrow> string \<Rightarrow> int option \<Rightarrow> string \<Rightarrow> 'd worker \<Rightarrow> 'd worker" where
  "storeLogsIfAbsent v i logs exitCode source w =
     (if wLogDb w = None then w
      else case db_Get i (wLogDb w) of
        (Inr existing, d) \<Rightarrow> w\<lparr>wLogDb := d\<rparr>
      | (Inl err, d) \<Rightarrow>
          if \<not> errors_Is err ErrNotFound then w\<lparr>wLogDb := d\<rparr>
          else w\<lparr>wLogDb := snd (db_Put i \<lparr>lTaskID = i, lExitCode = exitCode, lLogs = logs,
                  lCapturedAt = veNow v, lSource = source\<rparr> d)\<rparr>)"

definition clearStoredLogs :: "uuid \<Rightarrow> 'd worker \<Rightarrow> 'd worker" where
  "clearStoredLogs i w = (if wLogDb w = None then w else w\<lparr>wLogDb := snd (db_Delete i (wLogDb w))\<rparr>)"

text \<open>The client's calls, on the daemon in the worker's state.\<close>

definition docker_Logs :: "'d wenv \<Rightarrow> string \<Rightarrow> int \<Rightarrow> 'd worker \<Rightarrow> (gerror + string option) \<times> 'd worker" where
  "docker_Logs v i n w = (case d_Logs (veApi v) i n (wDocker w) of (r, d) \<Rightarrow> (r, w\<lparr>wDocker := d\<rparr>))"

definition docker_Inspect :: "'d wenv \<Rightarrow> string \<Rightarrow> 'd worker \<Rightarrow> (gerror + inspection) \<times> 'd worker" where
  "docker_Inspect v i w = (case d_Inspect (veApi v) i (wDocker w) of (r, d) \<Rightarrow> (r, w\<lparr>wDocker := d\<rparr>))"

definition docker_Stop :: "'d wenv \<Rightarrow> string \<Rightarrow> 'd worker \<Rightarrow> DockerResult \<times> 'd worker" where
  "docker_Stop v i w = (case d_Stop (veApi v) i (wDocker w) of (r, d) \<Rightarrow> (r, w\<lparr>wDocker := d\<rparr>))"

definition docker_Run :: "'d wenv \<Rightarrow> task \<Rightarrow> 'd worker \<Rightarrow> DockerResult \<times> 'd worker" where
  "docker_Run v t w =
     (case d_Run (veExt v) (veApi v) (veDefaults v) (NewConfig t) (wDocker w) of (r, d) \<Rightarrow> (r, w\<lparr>wDocker := d\<rparr>))"

definition captureLogs :: "'d wenv \<Rightarrow> task \<Rightarrow> int option \<Rightarrow> string \<Rightarrow> 'd worker \<Rightarrow> 'd worker" where
  "captureLogs v t exitCode source w =
     (if tContainerID t = [] then w
      else case peekStoredLogs (tID t) w of
        (Some _, w) \<Rightarrow> w
      | (None, w) \<Rightarrow>
          if NewDocker (veApi v) \<noteq> None then w
          else case docker_Logs v (tContainerID t) (veLogLines v) w of
            (Inl err, w) \<Rightarrow> w
          | (Inr logs, w) \<Rightarrow>
              storeLogsIfAbsent v (tID t) (case logs of None \<Rightarrow> [] | Some l \<Rightarrow> l) exitCode source w)"

text \<open>The last \<open>n\<close> lines: \<open>i\<close> runs down from the end; a newline at the very end is not counted.\<close>

fun tail_start :: "string \<Rightarrow> int \<Rightarrow> nat \<Rightarrow> int \<Rightarrow> nat option" where
  "tail_start blob n 0 lines = None"
| "tail_start blob n (Suc i) lines =
     (if blob ! i = CHR 0x0A \<and> i + 1 < length blob then
        (if lines + 1 \<ge> n then Some (i + 1) else tail_start blob n i (lines + 1))
      else tail_start blob n i lines)"

definition tailLines :: "string \<Rightarrow> int \<Rightarrow> string" where
  "tailLines blob n =
     (if n \<le> 0 \<or> length blob = 0 then blob
      else case tail_start blob n (length blob) 0 of
        None \<Rightarrow> blob
      | Some start \<Rightarrow> drop start blob)"

record TaskLogsResult =
  tlLogs :: string
  tlState :: task_state
  tlExitCode :: "int option"
  tlLive :: bool

definition stored_task_logs :: "task \<Rightarrow> int \<Rightarrow> 'd worker \<Rightarrow> TaskLogsResult \<times> 'd worker" where
  "stored_task_logs t tail w =
     (case getStoredLogs (tID t) w of
        (Some l, w) \<Rightarrow> (\<lparr>tlLogs = tailLines (lLogs l) tail, tlState = tState t, tlExitCode = lExitCode l, tlLive = False\<rparr>, w)
      | (None, w) \<Rightarrow> (\<lparr>tlLogs = [], tlState = tState t, tlExitCode = None, tlLive = False\<rparr>, w))"

definition GetTaskLogs :: "'d wenv \<Rightarrow> task \<Rightarrow> int \<Rightarrow> 'd worker \<Rightarrow> TaskLogsResult \<times> 'd worker" where
  "GetTaskLogs v t tail w =
     (if tContainerID t = [] \<or> NewDocker (veApi v) \<noteq> None then stored_task_logs t tail w
      else case docker_Inspect v (tContainerID t) w of
        (Inl err, w) \<Rightarrow> stored_task_logs t tail w
      | (Inr resp, w) \<Rightarrow>
          (case docker_Logs v (tContainerID t) tail w of
             (Inl err, w) \<Rightarrow> stored_task_logs t tail w
           | (Inr logs, w) \<Rightarrow>
               (\<lparr>tlLogs = (case logs of None \<Rightarrow> [] | Some l \<Rightarrow> l), tlState = tState t,
                 tlExitCode = (case inState resp of None \<Rightarrow> None | Some s \<Rightarrow> Some (csExitCode s)), tlLive = True\<rparr>, w)))"

section \<open>Accepting events\<close>

definition wk_enqueue :: "task \<Rightarrow> 'd worker \<Rightarrow> 'd worker" where
  "wk_enqueue t w =
     w\<lparr>wQueue := Enqueue (wQueue w) t, wRunWaker := Wake (wRunWaker w), wUpdateWaker := Wake (wUpdateWaker w)\<rparr>"

text \<open>What an accepted start knows of the container: the event's IDs, else those on record.\<close>

definition adopt :: "task \<Rightarrow> task \<Rightarrow> task" where
  "adopt t persisted =
     (let t = (if tContainerID t = [] then t\<lparr>tContainerID := tContainerID persisted\<rparr> else t)
      in if tHostPorts t = [] then t\<lparr>tHostPorts := tHostPorts persisted\<rparr> else t)"

definition accept_start :: "'d wenv \<Rightarrow> task \<Rightarrow> 'd worker \<Rightarrow> gerror option \<times> 'd worker" where
  "accept_start v t w =
     (case wk_Get (tID t) w of
        (r, w) \<Rightarrow>
          (case r of
             Inl err \<Rightarrow>
               if \<not> errors_Is err ErrNotFound
               then (Some (wrapf (''getting worker task '' @ veIdString v (tID t) @ '': '') err), w)
               else (case wk_Put (tID t) t w of
                  (Some err, w) \<Rightarrow> (Some (wrapf (''storing worker task '' @ veIdString v (tID t) @ '': '') err), w)
                | (None, w) \<Rightarrow> (None, wk_enqueue t w))
           | Inr persisted \<Rightarrow>
               (let t = adopt t persisted in
                case wk_Put (tID t) t w of
                  (Some err, w) \<Rightarrow> (Some (wrapf (''storing worker task '' @ veIdString v (tID t) @ '': '') err), w)
                | (None, w) \<Rightarrow> (None, wk_enqueue t w))))"

definition unknown_task :: "'d wenv \<Rightarrow> uuid \<Rightarrow> gerror" where
  "unknown_task v i = GErr (''task '' @ veIdString v i @ '' is not known to this worker: '' @ err_msg not_found) [ErrNotFound]"

definition wk_AddTask :: "'d wenv \<Rightarrow> task \<Rightarrow> 'd worker \<Rightarrow> gerror option \<times> 'd worker" where
  "wk_AddTask v t w =
     (case Validate (veExt v) t of
        Some err \<Rightarrow> (Some err, w)
      | None \<Rightarrow>
          if wDb w = None then (Some db_is_nil, w)
          else if tState t = Scheduled then accept_start v t w
          else case wk_Get (tID t) w of
            (Inl err, w) \<Rightarrow>
              (Some (if errors_Is err ErrNotFound then unknown_task v (tID t)
                     else wrapf (''getting worker task '' @ veIdString v (tID t) @ '': '') err), w)
          | (Inr _, w) \<Rightarrow> (None, wk_enqueue t w))"

end
