(* ===== verification/WorkerRuns.thy ===== *)
theory WorkerRuns
  imports Workers
begin

text \<open>
  The worker's loops, \<open>worker/worker.go\<close>: running a queued event, forgetting a task, refreshing the
  records of running tasks, timeouts, statistics and the inventory of occupied host ports.
\<close>

section \<open>Starting and stopping\<close>

definition mergeQueuedWithPersisted :: "task \<Rightarrow> task \<Rightarrow> task" where
  "mergeQueuedWithPersisted queued persisted =
     (let queued = (if tContainerID queued = [] then queued\<lparr>tContainerID := tContainerID persisted\<rparr> else queued)
      in if tState queued = Completed \<and> tContainerID persisted \<noteq> []
         then queued\<lparr>tContainerID := tContainerID persisted\<rparr> else queued)"

text \<open>The record of a start that failed.\<close>

definition fail_start :: "task \<Rightarrow> string \<Rightarrow> 'd worker \<Rightarrow> 'd worker" where
  "fail_start t reason w = setTask (t\<lparr>tState := Failed, tFailureReason := reason\<rparr>) w"

text \<open>The container runs: its ports are read back when the inspection has them.\<close>

definition record_started :: "'d wenv \<Rightarrow> task \<Rightarrow> string \<Rightarrow> 'd worker \<Rightarrow> 'd worker" where
  "record_started v t i w =
     (let t = t\<lparr>tContainerID := i, tState := Running\<rparr> in
      case docker_Inspect v i w of
        (Inl err, w) \<Rightarrow> setTask t w
      | (Inr resp, w) \<Rightarrow>
          setTask (case inPorts resp of None \<Rightarrow> t | Some ps \<Rightarrow> t\<lparr>tHostPorts := PortMappingsFromPortMap ps\<rparr>) w)"

definition run_container :: "'d wenv \<Rightarrow> task \<Rightarrow> 'd worker \<Rightarrow> DockerResult \<times> 'd worker" where
  "run_container v t w =
     (case docker_Run v t w of
        (result, w) \<Rightarrow>
          (case drError result of
             Some err \<Rightarrow>
               (result, fail_start (if drContainerID result \<noteq> [] then t\<lparr>tContainerID := drContainerID result\<rparr> else t)
                          (''container failed to start: '' @ err_msg err) w)
           | None \<Rightarrow> (result, record_started v t (drContainerID result) w)))"

definition StartTask :: "'d wenv \<Rightarrow> task \<Rightarrow> 'd worker \<Rightarrow> DockerResult \<times> 'd worker" where
  "StartTask v t w =
     (let w = (if tRestartCount t > 0 \<or> tContainerID t \<noteq> [] then clearStoredLogs (tID t) w else w) in
      case Validate (veExt v) t of
        Some err \<Rightarrow> (docker_error [] err, fail_start (t\<lparr>tHostPorts := []\<rparr>) (err_msg err) w)
      | None \<Rightarrow>
          (let t = t\<lparr>tStartTime := veNow v, tHostPorts := []\<rparr> in
           case NewDocker (veApi v) of
             Some err \<Rightarrow> (docker_error [] err, fail_start t (''could not create docker client: '' @ err_msg err) w)
           | None \<Rightarrow>
               (if tContainerID t = [] then run_container v t w
                else case docker_Stop v (tContainerID t) w of
                  (stopResult, w) \<Rightarrow>
                    (case drError stopResult of
                       Some err \<Rightarrow>
                         (stopResult, fail_start t (''could not remove previous container: '' @ err_msg err) w)
                     | None \<Rightarrow> run_container v (t\<lparr>tContainerID := []\<rparr>) w))))"

definition not_in_db :: "'d wenv \<Rightarrow> uuid \<Rightarrow> gerror" where
  "not_in_db v i = errorf (''error: task with ID '' @ veIdString v i @ '' isn't in the worker db'')"

definition stopped_record :: "'d wenv \<Rightarrow> task \<Rightarrow> task \<Rightarrow> task" where
  "stopped_record v t persisted =
     (let t = t\<lparr>tFinishTime := veNow v\<rparr> in
      if tFailureReason t \<noteq> [] then t\<lparr>tState := Failed\<rparr>
      else if tState persisted = Failed then t\<lparr>tState := Failed, tFailureReason := tFailureReason persisted\<rparr>
      else t\<lparr>tState := Completed\<rparr>)"

definition StopTask :: "'d wenv \<Rightarrow> task \<Rightarrow> 'd worker \<Rightarrow> DockerResult \<times> 'd worker" where
  "StopTask v t w =
     (case NewDocker (veApi v) of
        Some err \<Rightarrow> (docker_error [] err, w)
      | None \<Rightarrow>
          (case docker_Logs v (tContainerID t) (veLogLines v) w of
             (logs, w) \<Rightarrow>
               (case docker_Stop v (tContainerID t) w of
                  (result, w) \<Rightarrow>
                    (case wk_getTask (tID t) w of
                       (None, w) \<Rightarrow> (docker_error [] (not_in_db v (tID t)), w)
                     | (Some persisted, w) \<Rightarrow>
                         (let w = setTask (stopped_record v t persisted) w in
                          (result, case logs of
                             Inr (Some l) \<Rightarrow> storeLogsIfAbsent v (tID t) l (drExitCode result) ''stop'' w
                           | _ \<Rightarrow> w))))))"

section \<open>The run loop\<close>

definition bad_state :: "'d wenv \<Rightarrow> task \<Rightarrow> gerror" where
  "bad_state v t = errorf (''error when trying to run task '' @ veIdString v (tID t)
     @ '': state machine failed on state '' @ state_String (tState t))"

definition bad_transition :: "'d wenv \<Rightarrow> task \<Rightarrow> task_state \<Rightarrow> gerror" where
  "bad_transition v t s = errorf (''invalid transition from '' @ state_String s @ '' to ''
     @ state_String (tState t) @ '' for task '' @ veIdString v (tID t))"

definition not_known :: "'d wenv \<Rightarrow> task \<Rightarrow> gerror" where
  "not_known v t = errorf (''task '' @ veIdString v (tID t) @ '' is not known to this worker (state ''
     @ state_String (tState t) @ ''); refusing to process'')"

text \<open>The record an event runs against; a start of an unknown task creates it.\<close>

definition run_record :: "'d wenv \<Rightarrow> task \<Rightarrow> 'd worker \<Rightarrow> (gerror + task) \<times> 'd worker" where
  "run_record v queued w =
     (case wk_Get (tID queued) w of
        (Inr persisted, w) \<Rightarrow> (Inr persisted, w)
      | (Inl err, w) \<Rightarrow>
          if \<not> errors_Is err ErrNotFound
          then (Inl (wrapf (''getting worker task '' @ veIdString v (tID queued) @ '': '') err), w)
          else if tState queued \<noteq> Scheduled
          then (Inl (not_known v queued), w)
          else case wk_Put (tID queued) queued w of
            (Some err, w) \<Rightarrow> (Inl (wrapf (''storing worker task '' @ veIdString v (tID queued) @ '': '') err), w)
          | (None, w) \<Rightarrow> (Inr queued, w))"

definition run_event :: "'d wenv \<Rightarrow> task \<Rightarrow> 'd worker \<Rightarrow> DockerResult \<times> 'd worker" where
  "run_event v queued w =
     (if wDb w = None then (docker_error [] db_is_nil, w)
      else case run_record v queued w of
        (Inl err, w) \<Rightarrow> (docker_error [] err, w)
      | (Inr persisted, w) \<Rightarrow>
          (let t = mergeQueuedWithPersisted queued persisted in
           if ValidStateTransition (tState persisted) (tState t) then
             (if tState t = Scheduled then StartTask v t w
              else if tState t = Completed then StopTask v t w
              else (docker_error [] (bad_state v t), w))
           else (docker_error [] (bad_transition v t (tState persisted)), w)))"

definition runTask :: "'d wenv \<Rightarrow> 'd worker \<Rightarrow> DockerResult \<times> 'd worker" where
  "runTask v w =
     (case Dequeue (wQueue w) of
        (None, q) \<Rightarrow> (\<lparr>drContainerID = [], drAction = [], drResult = [], drExitCode = None, drError = None\<rparr>, w\<lparr>wQueue := q\<rparr>)
      | (Some queued, q) \<Rightarrow> run_event v queued (w\<lparr>wQueue := q\<rparr>))"

text \<open>One turn of \<open>RunTasks\<close>.\<close>

definition RunTasks_turn :: "'d wenv \<Rightarrow> 'd worker \<Rightarrow> 'd worker" where
  "RunTasks_turn v w =
     (if queue_Len (wQueue w) = 0 then w
      else case runTask v w of
        (result, w) \<Rightarrow> if drError result \<noteq> None then w else w\<lparr>wUpdateWaker := Wake (wUpdateWaker w)\<rparr>)"

section \<open>Forgetting\<close>

definition active :: "task \<Rightarrow> bool" where
  "active t \<longleftrightarrow> tState t = Scheduled \<or> tState t = Running"

definition reactivated :: "'d wenv \<Rightarrow> uuid \<Rightarrow> gerror" where
  "reactivated v i = errorf (''task '' @ veIdString v i @ '' became active again while being forgotten'')"

definition forget_record :: "'d wenv \<Rightarrow> uuid \<Rightarrow> 'd worker \<Rightarrow> gerror option \<times> 'd worker" where
  "forget_record v i w =
     (if wDb w = None then (Some db_is_nil, w)
      else case wk_Get i w of
        (Inl err, w) \<Rightarrow> (if errors_Is err ErrNotFound then None else Some err, w)
      | (Inr current, w) \<Rightarrow>
          if tContainerID current \<noteq> [] \<and> active current then (Some (reactivated v i), w)
          else case db_Delete i (wDb w) of
            (Some err, d) \<Rightarrow> (Some err, w\<lparr>wDb := d\<rparr>)
          | (None, d) \<Rightarrow> (None, clearStoredLogs i (w\<lparr>wDb := d\<rparr>)))"

definition ForgetTask :: "'d wenv \<Rightarrow> uuid \<Rightarrow> 'd worker \<Rightarrow> gerror option \<times> 'd worker" where
  "ForgetTask v i w =
     (if wDb w = None then (Some db_is_nil, w)
      else case wk_Get i w of
        (Inl err, w) \<Rightarrow> (Some err, w)
      | (Inr persisted, w) \<Rightarrow>
          (let w = w\<lparr>wQueue := snd (RemoveAllFunc (wQueue w) (\<lambda>t. tID t = i))\<rparr> in
           if active persisted \<and> tContainerID persisted \<noteq> [] then
             (case StopTask v persisted w of
                (result, w) \<Rightarrow>
                  (case drError result of
                     Some err \<Rightarrow>
                       (Some (wrapf (''stopping active task '' @ veIdString v i @ '' before forget: '') err), w)
                   | None \<Rightarrow> forget_record v i w))
           else forget_record v i w))"

section \<open>Refreshing running tasks\<close>

definition InspectTask :: "'d wenv \<Rightarrow> task \<Rightarrow> 'd worker \<Rightarrow> (gerror + inspection) \<times> 'd worker" where
  "InspectTask v t w =
     (case NewDocker (veApi v) of
        Some err \<Rightarrow> (Inl err, w)
      | None \<Rightarrow> docker_Inspect v (tContainerID t) w)"

definition PullImage :: "'d wenv \<Rightarrow> string \<Rightarrow> 'd worker \<Rightarrow> (gerror option \<times> bool) \<times> 'd worker" where
  "PullImage v img w =
     (case NewDocker (veApi v) of
        Some err \<Rightarrow> ((Some (wrapf ''creating docker client: '' err), False), w)
      | None \<Rightarrow> (case d_Pull (veApi v) img (wDocker w) of (r, d) \<Rightarrow> (r, w\<lparr>wDocker := d\<rparr>)))"

definition healthCheckFailureReason :: "docker_health option \<Rightarrow> string" where
  "healthCheckFailureReason health =
     (case health of
        None \<Rightarrow> ''container reported unhealthy by the docker health check''
      | Some h \<Rightarrow>
          (case (if dhLog h = [] then None else last (dhLog h)) of
             Some (code, out) \<Rightarrow>
               (let output = trim_space out; reason = ''docker healthcheck failed with exit code '' @ itoa code
                in if output \<noteq> [] then reason @ '': '' @ output else reason)
           | None \<Rightarrow>
               ''container reported unhealthy by the docker health check (failing streak: ''
                 @ itoa (dhFailingStreak h) @ '')''))"

definition StateExited :: string where "StateExited = ''exited''"

definition Unhealthy :: string where "Unhealthy = ''unhealthy''"

text \<open>
  The record after an inspection, and what to capture: the exit code and the source. The ports are
  those the container has now.
\<close>

definition refreshed :: "'d wenv \<Rightarrow> inspection \<Rightarrow> container_state \<Rightarrow> task \<Rightarrow> task \<times> (int option \<times> string) option" where
  "refreshed v resp s t =
     (let t = t\<lparr>tHostPorts := (case inPorts resp of None \<Rightarrow> [] | Some ps \<Rightarrow> PortMappingsFromPortMap ps)\<rparr> in
      if csStatus s = StateExited then
        (if csExitCode s = 0
         then t\<lparr>tState := Completed, tFinishTime := veNow v, tFailureReason := []\<rparr>
         else t\<lparr>tState := Failed, tFailureReason := ''container exited with code '' @ itoa (csExitCode s)\<rparr>,
         Some (Some (csExitCode s), ''exit''))
      else if (case csHealth s of None \<Rightarrow> False | Some h \<Rightarrow> dhStatus h = Unhealthy)
      then (t\<lparr>tState := Failed, tFailureReason := healthCheckFailureReason (csHealth s)\<rparr>, Some (None, ''unhealthy''))
      else (t, None))"

definition lost_container :: "gerror option \<Rightarrow> task \<Rightarrow> task" where
  "lost_container err t =
     t\<lparr>tState := Failed, tHostPorts := [],
       tFailureReason := (case err of
          Some err \<Rightarrow> ''container inspection failed: '' @ err_msg err
        | None \<Rightarrow> ''container inspection returned no state'')\<rparr>"

definition time_Since :: "gotime \<Rightarrow> gotime \<Rightarrow> duration" where
  "time_Since now start = max (- (2 ^ 63)) (min (2 ^ 63 - 1) (now - start))"

definition taskTimedOut :: "gotime \<Rightarrow> task \<Rightarrow> bool" where
  "taskTimedOut now t \<longleftrightarrow>
     \<not> (tTimeout t \<le> 0 \<or> time_IsZero (tStartTime t)) \<and> time_Since now (tStartTime t) > seconds (tTimeout t)"

definition timed_out :: "task \<Rightarrow> task \<Rightarrow> task" where
  "timed_out t persisted =
     persisted\<lparr>tState := Failed, tFailureReason := ''task timed out after '' @ itoa (tTimeout t) @ '' seconds'',
       tHostPorts := []\<rparr>"

definition timeout_container :: "'d wenv \<Rightarrow> task \<Rightarrow> 'd worker \<Rightarrow> 'd worker" where
  "timeout_container v t w =
     (if tContainerID t = [] \<or> NewDocker (veApi v) \<noteq> None then w
      else case docker_Logs v (tContainerID t) (veLogLines v) w of
        (logs, w) \<Rightarrow>
          (let w = snd (docker_Stop v (tContainerID t) w) in
           case logs of Inr (Some l) \<Rightarrow> storeLogsIfAbsent v (tID t) l None ''timeout'' w | _ \<Rightarrow> w))"

definition timeoutTask :: "'d wenv \<Rightarrow> task \<Rightarrow> 'd worker \<Rightarrow> 'd worker" where
  "timeoutTask v t w =
     (let w = timeout_container v t w in
      if wDb w = None then w
      else case wk_Get (tID t) w of
        (Inl err, w) \<Rightarrow> w
      | (Inr persisted, w) \<Rightarrow>
          if tState persisted \<noteq> Running then w
          else snd (wk_Put (tID persisted) (timed_out t persisted) w))"

definition refresh_task :: "'d wenv \<Rightarrow> task \<Rightarrow> 'd worker \<Rightarrow> 'd worker" where
  "refresh_task v running w =
     (case InspectTask v running w of
        (resp, w) \<Rightarrow>
          if wDb w = None then w
          else case wk_Get (tID running) w of
            (Inl err, w) \<Rightarrow> w
          | (Inr persisted, w) \<Rightarrow>
              if tState persisted \<noteq> Running then w
              else case resp of
                Inl err \<Rightarrow> snd (wk_Put (tID running) (lost_container (Some err) persisted) w)
              | Inr r \<Rightarrow>
                  (case inState r of
                     None \<Rightarrow> snd (wk_Put (tID running) (lost_container None persisted) w)
                   | Some s \<Rightarrow>
                       (case refreshed v r s persisted of
                          (updated, capture) \<Rightarrow>
                            (let w = snd (wk_Put (tID running) updated w) in
                             case capture of
                               None \<Rightarrow> w
                             | Some (exitCode, source) \<Rightarrow> captureLogs v updated exitCode source w))))"

definition wk_updateTasks :: "'d wenv \<Rightarrow> 'd worker \<Rightarrow> 'd worker" where
  "wk_updateTasks v w =
     (case wk_getTasks w of
        (ts, w) \<Rightarrow>
          fold (\<lambda>t w. if taskTimedOut (veNow v) t then timeoutTask v t w else refresh_task v t w)
            (filter (\<lambda>t. tState t = Running) ts) w)"

section \<open>Lemmas\<close>

definition wk_view :: "'d worker \<Rightarrow> uuid \<rightharpoonup> task" where
  "wk_view w = db_view (wDb w)"

text \<open>The worker's task store works, and keeps every record under its own ID.\<close>

definition wk_ok :: "'d worker \<Rightarrow> bool" where
  "wk_ok w \<longleftrightarrow> db_healthy (wDb w) \<and> db_wf (wDb w) \<and> (\<forall>i t. wk_view w i = Some t \<longrightarrow> tID t = i)"

lemma wk_io:
  "wk_Get i w = (fst (db_Get i (wDb w)), w\<lparr>wDb := snd (db_Get i (wDb w))\<rparr>)"
  "wk_Put i t w = (fst (db_Put i t (wDb w)), w\<lparr>wDb := snd (db_Put i t (wDb w))\<rparr>)"
  by (simp_all add: wk_Get_def wk_Put_def case_prod_beta)

text \<open>An operation that changes nothing but \<open>f\<close> on the daemon's containers, and the logs.\<close>

definition wk_quiet :: "'d worker \<Rightarrow> 'd worker \<Rightarrow> bool" where
  "wk_quiet w w' \<longleftrightarrow> wDb w' = wDb w \<and> wQueue w' = wQueue w"

lemma wk_quiet_refl [simp]: "wk_quiet w w"
  by (simp add: wk_quiet_def)

lemma wk_quiet_trans: "wk_quiet a b \<Longrightarrow> wk_quiet b c \<Longrightarrow> wk_quiet a c"
  by (simp add: wk_quiet_def)

lemma wk_quietD: "wk_quiet w w' \<Longrightarrow> wk_view w' = wk_view w" "wk_quiet w w' \<Longrightarrow> wk_ok w' = wk_ok w"
  by (simp_all add: wk_quiet_def wk_view_def wk_ok_def)

lemma wk_quiet_logs [simp]:
  "wk_quiet w (storeLogsIfAbsent v i l c s w)" "wk_quiet w (clearStoredLogs i w)" "wk_quiet w (snd (peekStoredLogs i w))"
  by (simp_all add: wk_quiet_def storeLogsIfAbsent_def clearStoredLogs_def peekStoredLogs_def case_prod_beta
      split: sum.split)

lemma wk_docker_logs [simp]:
  "wDocker (storeLogsIfAbsent v i l c s w) = wDocker w" "wDocker (clearStoredLogs i w) = wDocker w"
  "wDocker (snd (peekStoredLogs i w)) = wDocker w"
  by (simp_all add: storeLogsIfAbsent_def clearStoredLogs_def peekStoredLogs_def case_prod_beta split: sum.split)

lemma wk_quiet_docker [simp]:
  "wk_quiet w (snd (docker_Logs v i n w))" "wk_quiet w (snd (docker_Inspect v i w))"
  "wk_quiet w (snd (docker_Stop v i w))" "wk_quiet w (snd (docker_Run v t w))"
  by (simp_all add: wk_quiet_def docker_Logs_def docker_Inspect_def docker_Stop_def docker_Run_def case_prod_beta)

lemma docker_live:
  assumes "docker_laws live (veApi v)"
  shows "live (wDocker (snd (docker_Logs v i n w))) = live (wDocker w)"
    and "live (wDocker (snd (docker_Inspect v i w))) = live (wDocker w)"
    and "if drError (fst (docker_Stop v i w)) = None
         then i \<noteq> [] \<and> live (wDocker (snd (docker_Stop v i w))) = live (wDocker w) - {i}
         else live (wDocker (snd (docker_Stop v i w))) = live (wDocker w)"
    and "drContainerID (fst (docker_Run v t w)) = [] \<and> drError (fst (docker_Run v t w)) \<noteq> None
          \<and> live (wDocker (snd (docker_Run v t w))) = live (wDocker w)
        \<or> drContainerID (fst (docker_Run v t w)) \<notin> live (wDocker w)
          \<and> live (wDocker (snd (docker_Run v t w))) = insert (drContainerID (fst (docker_Run v t w))) (live (wDocker w))"
  using d_Logs_live [OF assms, of i n "wDocker w"] d_Inspect_live [OF assms, of i "wDocker w"]
    d_Stop_live [OF assms, of i "wDocker w"]
    d_Run_live [OF assms, of "veExt v" "veDefaults v" "NewConfig t" "wDocker w"]
  by (simp_all add: docker_Logs_def docker_Inspect_def docker_Stop_def docker_Run_def case_prod_beta)

lemma setTask_effect:
  assumes "wk_ok w"
  shows "wk_view (setTask t w) = (wk_view w)(tID t \<mapsto> t)" "wk_ok (setTask t w)"
    "wDocker (setTask t w) = wDocker w" "wQueue (setTask t w) = wQueue w"
proof -
  have h: "db_healthy (wDb w)" "wDb w \<noteq> None" using assms by (simp_all add: wk_ok_def)
  then show v: "wk_view (setTask t w) = (wk_view w)(tID t \<mapsto> t)"
    by (simp add: setTask_def wk_io wk_view_def db_Put_view del: not_None_eq)
  have "db_healthy (wDb (setTask t w))" "db_wf (wDb (setTask t w))"
    using assms h by (simp_all add: setTask_def wk_io wk_ok_def del: not_None_eq)
  then show "wk_ok (setTask t w)" using assms v by (simp add: wk_ok_def)
  show "wDocker (setTask t w) = wDocker w" "wQueue (setTask t w) = wQueue w"
    by (simp_all add: setTask_def wk_io)
qed

text \<open>
  The record of task \<open>i\<close>, whose container was \<open>c\<close>, is replaced: no container appears except the one the
  new record names, and \<open>c\<close> does not stay behind unnamed.
\<close>

definition replaced :: "('d \<Rightarrow> string set) \<Rightarrow> uuid \<Rightarrow> string \<Rightarrow> 'd worker \<Rightarrow> 'd worker \<Rightarrow> bool" where
  "replaced live i c w w' \<longleftrightarrow> wk_ok w' \<and> wQueue w' = wQueue w \<and> (\<exists>q. tID q = i \<and> wk_view w' = (wk_view w)(i \<mapsto> q)
     \<and> live (wDocker w') \<subseteq> insert (tContainerID q) (live (wDocker w))
     \<and> (c \<noteq> [] \<longrightarrow> c \<in> live (wDocker w') \<longrightarrow> tContainerID q = c))"

lemma replaced_set:
  assumes "wk_ok w" "tID q = i" "wk_quiet w w1" "live (wDocker w1) \<subseteq> insert (tContainerID q) (live (wDocker w))"
    and "c \<noteq> [] \<Longrightarrow> c \<in> live (wDocker w1) \<Longrightarrow> tContainerID q = c"
  shows "replaced live i c w (setTask q w1)"
proof -
  have ok: "wk_ok w1" using assms(1,3) wk_quietD(2) by blast
  have "wk_view w1 = wk_view w" "wQueue w1 = wQueue w" using assms(3) by (simp_all add: wk_quiet_def wk_view_def)
  with setTask_effect [OF ok, of q] assms(2,4,5) show ?thesis unfolding replaced_def by auto
qed

lemma replaced_quiet:
  assumes "replaced live i c w1 w'" "wk_quiet w w1" "wDocker w1 = wDocker w"
  shows "replaced live i c w w'"
  using assms by (simp add: replaced_def wk_quiet_def wk_view_def)

section \<open>A worker for concrete runs\<close>

definition demo_wenv :: "string list wenv" where
  "demo_wenv = \<lparr>veNow = 1000000000, veExt = std_ext, veIdString = (\<lambda>i. []), veDefaults = hc_defaults0,
     veLogLines = 100, veApi = memory_docker\<rparr>"

definition demo_worker :: "string list \<Rightarrow> task list \<Rightarrow> string list worker" where
  "demo_worker containers records =
     \<lparr>wName = ''w'', wQueue = queue_New, wDb = Some (new_store\<lparr>st_data := map (\<lambda>t. (tID t, t)) records\<rparr>),
      wLogDb = Some new_store, wStats = None, wRunWaker = NewWaker, wUpdateWaker = NewWaker, wBoltDb = False,
      wPrevCpuTotal = 0, wPrevCpuIdle = 0, wHavePrevCpu = False, wDocker = containers\<rparr>"

definition contained :: "string \<Rightarrow> task" where
  "contained c = zero_task\<lparr>tID := 1, tState := Running, tContainerID := c\<rparr>"

lemma demo_worker_ok:
  "wk_ok (demo_worker cs [])" "wk_ok (demo_worker cs [t])"
  "wk_view (demo_worker cs []) = Map.empty" "wk_view (demo_worker cs [t]) = [tID t \<mapsto> t]"
  "wDocker (demo_worker cs ts) = cs"
  by (auto simp: wk_ok_def demo_worker_def db_healthy_def db_wf_def wk_view_def store_view_def new_store_def
      store_wf_def al_wf_def split: if_splits)

end
