(* ===== verification/Capture.thy ===== *)
theory Capture
  imports WorkerRuns
begin

text \<open>
  What a worker keeps of a task's output: the tail of a log, the capture of the logs when a task
  ends, and the timeout that ends it.
\<close>

section \<open>The tail of a log\<close>

text \<open>The line breaks before the last character: one less than the number of lines.\<close>

definition breaks :: "string \<Rightarrow> nat" where
  "breaks s = length (filter (\<lambda>c. c = CHR 0x0A) (butlast s))"

definition breaks_between :: "string \<Rightarrow> nat \<Rightarrow> nat \<Rightarrow> nat set" where
  "breaks_between s a b = {j. a \<le> j \<and> j < b \<and> j + 1 < length s \<and> s ! j = CHR 0x0A}"

lemma breaks_between_Suc:
  "breaks_between s a (Suc i) =
     (if a \<le> i \<and> s ! i = CHR 0x0A \<and> i + 1 < length s then insert i (breaks_between s a i) else breaks_between s a i)"
  by (auto simp: breaks_between_def less_Suc_eq)

lemma breaks_between_finite [simp]: "finite (breaks_between s a b)" "i \<notin> breaks_between s a i" "breaks_between s a a = {}"
  by (auto simp: breaks_between_def intro: finite_subset [of _ "{..<b}"])

lemma tail_start_spec:
  assumes "k < n"
  shows "case tail_start blob n i k of
      None \<Rightarrow> k + int (card (breaks_between blob 0 i)) < n
    | Some s \<Rightarrow> 0 < s \<and> s \<le> i \<and> s < length blob \<and> blob ! (s - 1) = CHR 0x0A
        \<and> k + 1 + int (card (breaks_between blob s i)) = n"
  using assms
proof (induction i arbitrary: k)
  case (Suc i)
  show ?case
  proof (cases "blob ! i = CHR 0x0A \<and> i + 1 < length blob")
    case True
    show ?thesis
    proof (cases "k + 1 \<ge> n")
      case False
      with Suc.IH [of "k + 1"] True show ?thesis by (auto simp: breaks_between_Suc split: option.splits)
    next
      case last: True
      have "breaks_between blob (Suc i) (Suc i) = {}" by simp
      with True last Suc.prems show ?thesis by auto
    qed
  next
    case False
    with Suc.IH [OF Suc.prems] show ?thesis by (auto simp: breaks_between_Suc split: option.splits)
  qed
qed simp

lemma breaks_card:
  assumes "s \<le> length blob"
  shows "card (breaks_between blob s (length blob)) = breaks (drop s blob)"
proof -
  have "breaks (drop s blob) = card {j. j < length blob - s - 1 \<and> blob ! (s + j) = CHR 0x0A}"
    using assms by (auto simp: breaks_def length_filter_conv_card nth_butlast intro!: arg_cong [where f = card])
  also have "\<dots> = card ((+) s ` {j. j < length blob - s - 1 \<and> blob ! (s + j) = CHR 0x0A})"
    by (rule card_image [symmetric]) simp
  also have "(+) s ` {j. j < length blob - s - 1 \<and> blob ! (s + j) = CHR 0x0A} = breaks_between blob s (length blob)"
  proof (intro set_eqI iffI)
    fix x assume "x \<in> breaks_between blob s (length blob)"
    then show "x \<in> (+) s ` {j. j < length blob - s - 1 \<and> blob ! (s + j) = CHR 0x0A}"
      by (intro image_eqI [of _ _ "x - s"]) (auto simp: breaks_between_def)
  qed (auto simp: breaks_between_def)
  finally show ?thesis ..
qed

text \<open>
  \<open>tailLines\<close> returns the last \<open>n\<close> lines of a log: a suffix that starts after a line break and
  has \<open>n\<close> lines, or the whole log when it has no more lines than that. A line break at the very end
  ends the last line, it does not start another one.
\<close>

theorem tailLines_exact:
  assumes "0 < n"
  shows "\<exists>p. blob = p @ tailLines blob n
    \<and> (p = [] \<and> int (breaks blob) < n
       \<or> p \<noteq> [] \<and> last p = CHR 0x0A \<and> tailLines blob n \<noteq> [] \<and> int (breaks (tailLines blob n)) + 1 = n)"
proof (cases "blob = []")
  case True
  then show ?thesis using assms by (simp add: tailLines_def breaks_def)
next
  case False
  note spec = tail_start_spec [OF assms, of blob "length blob"]
  show ?thesis
  proof (cases "tail_start blob n (length blob) 0")
    case None
    with spec have "int (breaks blob) < n" using breaks_card [of 0 blob] by simp
    with None False assms show ?thesis by (simp add: tailLines_def)
  next
    case (Some s)
    with spec have s: "0 < s" "s < length blob" "blob ! (s - 1) = CHR 0x0A"
      "1 + int (breaks (drop s blob)) = n" using breaks_card [of s blob] by auto
    have "last (take s blob) = CHR 0x0A" using s False by (simp add: last_conv_nth)
    moreover have "tailLines blob n = drop s blob" using Some False assms by (simp add: tailLines_def)
    ultimately show ?thesis using s False by (intro exI [of _ "take s blob"]) auto
  qed
qed

theorem tailLines_exact_witness:
  "\<exists>p. ''a'' @ [CHR 0x0A] @ ''b'' @ [CHR 0x0A] = p @ tailLines (''a'' @ [CHR 0x0A] @ ''b'' @ [CHR 0x0A]) 1
    \<and> (p = [] \<and> int (breaks (''a'' @ [CHR 0x0A] @ ''b'' @ [CHR 0x0A])) < 1
       \<or> p \<noteq> [] \<and> last p = CHR 0x0A \<and> tailLines (''a'' @ [CHR 0x0A] @ ''b'' @ [CHR 0x0A]) 1 \<noteq> []
         \<and> int (breaks (tailLines (''a'' @ [CHR 0x0A] @ ''b'' @ [CHR 0x0A]) 1)) + 1 = 1)"
  by (rule tailLines_exact) simp

section \<open>Captured logs\<close>

definition has_log :: "uuid \<Rightarrow> task_logs \<Rightarrow> 'd worker \<Rightarrow> bool" where
  "has_log i l w \<longleftrightarrow> db_view (wLogDb w) i = Some l"

lemma logdb_io [simp]:
  "wLogDb (snd (wk_Get i w)) = wLogDb w" "wLogDb (snd (wk_Put i t w)) = wLogDb w"
  "wLogDb (snd (wk_getTask i w)) = wLogDb w" "wLogDb (setTask t w) = wLogDb w"
  "wLogDb (snd (docker_Logs v c n w)) = wLogDb w" "wLogDb (snd (docker_Inspect v c w)) = wLogDb w"
  "wLogDb (snd (docker_Stop v c w)) = wLogDb w" "wLogDb (snd (InspectTask v t w)) = wLogDb w"
  "wLogDb (snd (wk_getTasks w)) = wLogDb w"
  by (simp_all add: wk_io wk_getTask_def setTask_def docker_Logs_def docker_Inspect_def docker_Stop_def
      InspectTask_def wk_getTasks_def wk_listTasks_def case_prod_beta split: option.split sum.split)

lemma has_log_cong: "wLogDb w' = wLogDb w \<Longrightarrow> has_log i l w \<Longrightarrow> has_log i l w'"
  by (simp add: has_log_def)

lemma has_log_store:
  assumes "has_log i l w"
  shows "has_log i l (storeLogsIfAbsent v j x code source w)"
proof (cases "wLogDb w = None")
  case False
  obtain r d where g: "db_Get j (wLogDb w) = (r, d)" by fastforce
  have d: "db_view d = db_view (wLogDb w)" using db_read_view(1) [of j "wLogDb w"] g by simp
  show ?thesis
  proof (cases r)
    case (Inl e)
    show ?thesis
    proof (cases "errors_Is e ErrNotFound")
      case True
      then have "j \<noteq> i" using db_Get_NotFound [of j "wLogDb w" e] g Inl assms by (auto simp: has_log_def)
      with True False g Inl d assms show ?thesis
        by (simp add: storeLogsIfAbsent_def has_log_def db_Put_view del: not_None_eq)
    next
      case no: False
      with False g Inl d assms show ?thesis by (simp add: storeLogsIfAbsent_def has_log_def del: not_None_eq)
    qed
  next
    case (Inr y)
    with False g d assms show ?thesis by (simp add: storeLogsIfAbsent_def has_log_def del: not_None_eq)
  qed
qed (use assms in \<open>simp add: storeLogsIfAbsent_def\<close>)

lemma has_log_peek:
  assumes "has_log i l w"
  shows "has_log i l (snd (peekStoredLogs j w))"
proof -
  have "db_view (wLogDb (snd (peekStoredLogs j w))) = db_view (wLogDb w)"
    by (simp add: peekStoredLogs_def case_prod_beta split: sum.split)
  with assms show ?thesis by (simp add: has_log_def)
qed

lemma has_log_docker: "has_log i l w \<Longrightarrow> has_log i l (snd (docker_Logs v c n w))"
  "has_log i l w \<Longrightarrow> has_log i l (snd (docker_Stop v c w))" "has_log i l w \<Longrightarrow> has_log i l (snd (wk_Put j t w))"
  "has_log i l w \<Longrightarrow> has_log i l (snd (wk_Get j w))" "has_log i l w \<Longrightarrow> has_log i l (snd (wk_getTask j w))"
  "has_log i l w \<Longrightarrow> has_log i l (setTask t w)" "has_log i l w \<Longrightarrow> has_log i l (snd (InspectTask v t w))"
  "has_log i l w \<Longrightarrow> has_log i l (snd (wk_getTasks w))"
  by (simp_all add: has_log_def)

lemmas has_log_intros = has_log_store has_log_peek has_log_docker

lemma has_log_capture:
  assumes "has_log i l w"
  shows "has_log i l (captureLogs v t code source w)"
proof -
  obtain p w1 where p: "peekStoredLogs (tID t) w = (p, w1)" by fastforce
  obtain g w2 where g: "docker_Logs v (tContainerID t) (veLogLines v) w1 = (g, w2)" by fastforce
  have 1: "has_log i l w1" using has_log_peek [OF assms, of "tID t"] p by simp
  then have 2: "has_log i l w2" using has_log_docker(1) [OF 1, of v "tContainerID t" "veLogLines v"] g by simp
  show ?thesis using assms 1 2 p g
    by (simp add: captureLogs_def has_log_store split: option.split sum.split)
qed

lemma has_log_stop:
  assumes "has_log i l w"
  shows "has_log i l (snd (StopTask v t w))"
proof -
  obtain g w1 where g: "docker_Logs v (tContainerID t) (veLogLines v) w = (g, w1)" by fastforce
  obtain s w2 where s: "docker_Stop v (tContainerID t) w1 = (s, w2)" by fastforce
  obtain p w3 where p: "wk_getTask (tID t) w2 = (p, w3)" by fastforce
  have 1: "has_log i l w1" using has_log_docker(1) [OF assms, of v "tContainerID t" "veLogLines v"] g by simp
  have 2: "has_log i l w2" using has_log_docker(2) [OF 1, of v "tContainerID t"] s by simp
  have 3: "has_log i l w3" using has_log_docker(5) [OF 2, of "tID t"] p by simp
  show ?thesis
  proof (cases "NewDocker (veApi v)")
    case (Some e)
    then show ?thesis using assms by (simp add: StopTask_def)
  next
    case None
    show ?thesis
    proof (cases p)
      case none: None
      then show ?thesis using 3 None g s p by (simp add: StopTask_def)
    next
      case (Some q)
      have 4: "has_log i l (setTask (stopped_record v t q) w3)" by (rule has_log_docker(6) [OF 3])
      have "snd (StopTask v t w) = (case g of
          Inr (Some x) \<Rightarrow> storeLogsIfAbsent v (tID t) x (drExitCode s) ''stop'' (setTask (stopped_record v t q) w3)
        | _ \<Rightarrow> setTask (stopped_record v t q) w3)"
        by (simp only: StopTask_def None g s p Some option.case prod.case Let_def snd_conv)
      then show ?thesis using 4 by (auto simp: has_log_store split: sum.split option.split)
    qed
  qed
qed

lemma has_log_timeout:
  assumes "has_log i l w"
  shows "has_log i l (timeoutTask v t w)"
proof -
  obtain g w1 where g: "docker_Logs v (tContainerID t) (veLogLines v) w = (g, w1)" by fastforce
  have 1: "has_log i l w1" using has_log_docker(1) [OF assms, of v "tContainerID t" "veLogLines v"] g by simp
  have 2: "has_log i l (timeout_container v t w)"
    using assms g has_log_docker(2) [OF 1, of v "tContainerID t"]
    by (simp add: timeout_container_def has_log_store Let_def split: option.split sum.split)
  obtain r w2 where r: "wk_Get (tID t) (timeout_container v t w) = (r, w2)" by fastforce
  then have 3: "has_log i l w2" using has_log_docker(4) [OF 2, of "tID t"] by simp
  then show ?thesis using 2 r has_log_docker(3) [OF 3]
    by (simp add: timeoutTask_def Let_def split: sum.split)
qed

lemma has_log_refresh:
  assumes "has_log i l w"
  shows "has_log i l (refresh_task v t w)"
proof -
  obtain resp w1 where r: "InspectTask v t w = (resp, w1)" by fastforce
  obtain q w2 where q: "wk_Get (tID t) w1 = (q, w2)" by fastforce
  have 1: "has_log i l w1" using has_log_docker(7) [OF assms, of v t] r by simp
  have 2: "has_log i l w2" using has_log_docker(4) [OF 1, of "tID t"] q by simp
  note put = has_log_docker(3) [OF 2]
  show ?thesis using 1 2 r q put has_log_capture [OF put]
    by (simp add: refresh_task_def Let_def split: sum.split option.split prod.split)
qed

definition kept_log :: task_logs where
  "kept_log = \<lparr>lTaskID = 1, lExitCode = Some 3, lLogs = ''out'', lCapturedAt = 5, lSource = ''exit''\<rparr>"

definition logged_worker :: "string list \<Rightarrow> string list worker" where
  "logged_worker cs = (demo_worker cs [])\<lparr>wLogDb := Some (new_store\<lparr>st_data := [(1, kept_log)]\<rparr>)\<rparr>"

text \<open>
  The first capture of a lifecycle wins: once the logs of a task are stored, neither a stop nor a
  refresh of the running tasks (an exit, a timeout, a failed health check) replaces them, whatever
  the daemon and the stores answer.
\<close>

theorem first_capture_wins:
  assumes "db_view (wLogDb w) i = Some l"
  shows "db_view (wLogDb (wk_updateTasks v w)) i = Some l \<and> db_view (wLogDb (snd (StopTask v t w))) i = Some l"
proof -
  have h: "has_log i l w" using assms by (simp add: has_log_def)
  have fold: "has_log i l (fold f ts w)" if "has_log i l w" "\<And>t w. has_log i l w \<Longrightarrow> has_log i l (f t w)"
    for f :: "task \<Rightarrow> 'a worker \<Rightarrow> 'a worker" and ts w
    using that(1) by (induction ts arbitrary: w) (simp_all add: that(2))
  obtain ts w1 where g: "wk_getTasks w = (ts, w1)" by fastforce
  then have "has_log i l w1" using has_log_docker(8) [OF h] by simp
  then have "has_log i l (wk_updateTasks v w)"
    unfolding wk_updateTasks_def g prod.case by (rule fold) (simp add: has_log_timeout has_log_refresh)
  with has_log_stop [OF h, of v t] show ?thesis by (simp add: has_log_def)
qed

theorem first_capture_wins_witness:
  "db_view (wLogDb (snd (StopTask demo_wenv zero_task (logged_worker [''c''])))) 1 = Some kept_log"
proof -
  have "db_view (wLogDb (logged_worker [''c''])) 1 = Some kept_log"
    by (simp add: logged_worker_def demo_worker_def new_store_def store_view_def)
  from first_capture_wins [OF this] show ?thesis by blast
qed

section \<open>Timeouts\<close>



end
