(* ===== verification/Containers.thy ===== *)
theory Containers
  imports Capture
begin

text \<open>
  Which containers a worker leaves behind: starts, stops, timeouts and refreshes keep every container
  of the daemon named by a record, and where that fails (stale events, forgotten failed tasks).
\<close>

section \<open>Starting and stopping replace a record\<close>

lemma run_container_replaced:
  assumes "docker_laws live (veApi v)" "wk_ok w" "wk_quiet w w1" "live (wDocker w1) \<subseteq> live (wDocker w)"
    and "tID t = i" "tContainerID t = []" "c \<noteq> [] \<Longrightarrow> c \<notin> live (wDocker w1)"
  shows "replaced live i c w (snd (run_container v t w1))"
proof -
  obtain r w2 where r: "docker_Run v t w1 = (r, w2)" by fastforce
  have q: "wk_quiet w w2" using wk_quiet_docker(4) [of w1 v t] assms(3) wk_quiet_trans r by fastforce
  have l: "live (wDocker w2) \<subseteq> insert (drContainerID r) (live (wDocker w1))"
    using docker_live(4) [OF assms(1), of t w1] r by auto
  have named: "replaced live i c w (setTask q (snd (docker_Inspect v x w2)))"
      "replaced live i c w (setTask q w2)"
    if "tID q = i" "tContainerID q = drContainerID r" for q x
  proof -
    have *: "live (wDocker w2) \<subseteq> insert (tContainerID q) (live (wDocker w))"
      using l assms(4) that(2) by auto
    have **: "tContainerID q = c" if "c \<noteq> []" "c \<in> live (wDocker w2)"
      using l assms(7) that \<open>tContainerID q = drContainerID r\<close> by auto
    show "replaced live i c w (setTask q w2)"
      by (rule replaced_set) (use assms(2) that(1) q * ** in auto)
    show "replaced live i c w (setTask q (snd (docker_Inspect v x w2)))"
      by (rule replaced_set)
        (use assms(2) that(1) wk_quiet_trans [OF q wk_quiet_docker(2)] * ** docker_live(2) [OF assms(1), of x w2]
         in auto)
  qed
  show ?thesis
  proof (cases "drError r")
    case None
    then show ?thesis using assms(5) named
      by (auto simp: run_container_def r record_started_def Let_def case_prod_beta split: sum.split option.split)
  next
    case (Some e)
    then show ?thesis using assms(5,6) named(2)
      by (simp add: run_container_def r fail_start_def)
  qed
qed

lemma StartTask_replaced:
  assumes "docker_laws live (veApi v)" "wk_ok w" "tID t = i"
  shows "replaced live i (tContainerID t) w (snd (StartTask v t w))"
proof -
  define w1 where "w1 = (if tRestartCount t > 0 \<or> tContainerID t \<noteq> [] then clearStoredLogs (tID t) w else w)"
  have q: "wk_quiet w w1" and d: "wDocker w1 = wDocker w" by (simp_all add: w1_def)
  have fail: "replaced live i (tContainerID t) w (fail_start q e w2)"
    if "tID q = i" "tContainerID q = tContainerID t" "wk_quiet w w2" "live (wDocker w2) = live (wDocker w)" for q e w2
    unfolding fail_start_def by (rule replaced_set) (use assms(2) that in auto)
  show ?thesis
  proof (cases "Validate (veExt v) t")
    case (Some e)
    then show ?thesis using fail [of "t\<lparr>tHostPorts := []\<rparr>" w1] q d assms(3)
      by (simp add: StartTask_def w1_def [symmetric])
  next
    case valid: None
    define u where "u = t\<lparr>tStartTime := veNow v, tHostPorts := []\<rparr>"
    have u: "tID u = i" "tContainerID u = tContainerID t" using assms(3) by (simp_all add: u_def)
    show ?thesis
    proof (cases "NewDocker (veApi v)")
      case (Some e)
      then show ?thesis using valid fail [of u w1] u q d by (simp add: StartTask_def w1_def [symmetric] u_def [symmetric])
    next
      case new: None
      show ?thesis
      proof (cases "tContainerID t = []")
        case True
        have "replaced live i [] w (snd (run_container v u w1))"
          by (rule run_container_replaced [OF assms(1,2) q]) (use d u True in auto)
        with True valid new u show ?thesis
          by (simp add: StartTask_def w1_def u_def Let_def)
      next
        case False
        obtain s w2 where s: "docker_Stop v (tContainerID t) w1 = (s, w2)" by fastforce
        then have s': "docker_Stop v (tContainerID t) (clearStoredLogs (tID t) w) = (s, w2)"
          using False by (simp add: w1_def)
        have q2: "wk_quiet w w2" using wk_quiet_trans [OF q wk_quiet_docker(3)] s by (metis snd_conv)
        note stop = docker_live(3) [OF assms(1), of "tContainerID t" w1, unfolded s fst_conv snd_conv]
        show ?thesis
        proof (cases "drError s")
          case (Some e)
          then show ?thesis using False valid new u s' q2 fail [of u w2] stop d
            by (simp add: StartTask_def u_def [symmetric] Let_def)
        next
          case None
          have "replaced live i (tContainerID t) w (snd (run_container v (u\<lparr>tContainerID := []\<rparr>) w2))"
            by (rule run_container_replaced [OF assms(1,2) q2]) (use stop None d u in auto)
          with None False valid new u s' show ?thesis
            by (simp add: StartTask_def u_def [symmetric] Let_def)
        qed
      qed
    qed
  qed
qed

lemma wk_getTask_effect:
  assumes "wk_ok w"
  shows "fst (wk_getTask i w) = wk_view w i" "wk_view (snd (wk_getTask i w)) = wk_view w"
    "wk_ok (snd (wk_getTask i w))" "wDocker (snd (wk_getTask i w)) = wDocker w"
    "wQueue (snd (wk_getTask i w)) = wQueue w"
proof -
  have h: "db_healthy (wDb w)" "wDb w \<noteq> None" using assms by (simp_all add: wk_ok_def)
  then show "fst (wk_getTask i w) = wk_view w i"
    by (simp add: wk_getTask_def wk_io wk_view_def db_healthy_Get case_prod_beta split: option.split del: not_None_eq)
  show v: "wk_view (snd (wk_getTask i w)) = wk_view w"
    using h by (simp add: wk_getTask_def wk_io wk_view_def case_prod_beta split: sum.split)
  have "db_healthy (wDb (snd (wk_getTask i w)))" "db_wf (wDb (snd (wk_getTask i w)))"
    using assms h by (simp_all add: wk_getTask_def wk_io wk_ok_def case_prod_beta split: sum.split)
  then show "wk_ok (snd (wk_getTask i w))" using assms v by (simp add: wk_ok_def)
  show "wDocker (snd (wk_getTask i w)) = wDocker w" "wQueue (snd (wk_getTask i w)) = wQueue w"
    using h by (simp_all add: wk_getTask_def wk_io case_prod_beta split: sum.split)
qed

lemma replaced_after:
  assumes "replaced live i c w w1" "wk_quiet w1 w2" "wDocker w2 = wDocker w1"
  shows "replaced live i c w w2"
  using assms wk_quietD [OF assms(2)] by (simp add: replaced_def wk_quiet_def)

lemma stopped_record_ids [simp]:
  "tID (stopped_record v t p) = tID t" "tContainerID (stopped_record v t p) = tContainerID t"
  by (simp_all add: stopped_record_def Let_def)

lemma StopTask_no_client: "NewDocker (veApi v) = Some e \<Longrightarrow> StopTask v t w = (docker_error [] e, w)"
  by (simp add: StopTask_def)

lemma StopTask_effect:
  assumes "docker_laws live (veApi v)" "wk_ok w" "wk_view w (tID t) = Some p" "NewDocker (veApi v) = None"
  shows "wk_ok (snd (StopTask v t w))" "wQueue (snd (StopTask v t w)) = wQueue w"
    "wk_view (snd (StopTask v t w)) = (wk_view w)(tID t \<mapsto> stopped_record v t p)"
    "if drError (fst (StopTask v t w)) = None
     then tContainerID t \<noteq> [] \<and> live (wDocker (snd (StopTask v t w))) = live (wDocker w) - {tContainerID t}
     else live (wDocker (snd (StopTask v t w))) = live (wDocker w)"
proof -
  obtain l w1 where l: "docker_Logs v (tContainerID t) (veLogLines v) w = (l, w1)" by fastforce
  obtain s w2 where s: "docker_Stop v (tContainerID t) w1 = (s, w2)" by fastforce
  have q: "wk_quiet w w2"
    using wk_quiet_trans [OF wk_quiet_docker(1) wk_quiet_docker(3)] l s by (metis snd_conv)
  have d: "live (wDocker w1) = live (wDocker w)" using docker_live(1) [OF assms(1)] l by (metis snd_conv)
  note stop = docker_live(3) [OF assms(1), of "tContainerID t" w1, unfolded s fst_conv snd_conv d]
  have ok: "wk_ok w2" "wk_view w2 = wk_view w" using wk_quietD [OF q] assms(2) by simp_all
  obtain w3 where g: "wk_getTask (tID t) w2 = (Some p, w3)"
    using wk_getTask_effect(1) [OF ok(1), of "tID t"] ok(2) assms(3) by (cases "wk_getTask (tID t) w2") auto
  have w3: "wk_ok w3" "wk_view w3 = wk_view w" "wDocker w3 = wDocker w2" "wQueue w3 = wQueue w"
    using wk_getTask_effect(2-5) [OF ok(1), of "tID t"] g ok(2) q by (simp_all add: wk_quiet_def)
  let ?w4 = "setTask (stopped_record v t p) w3"
  note set = setTask_effect [OF w3(1), of "stopped_record v t p", unfolded w3 stopped_record_ids]
  have eq: "StopTask v t w = (s, case l of
      Inr (Some x) \<Rightarrow> storeLogsIfAbsent v (tID t) x (drExitCode s) ''stop'' ?w4 | _ \<Rightarrow> ?w4)"
    by (simp only: StopTask_def assms(4) l s g option.case prod.case Let_def)
  then have w': "wk_quiet ?w4 (snd (StopTask v t w))" "wDocker (snd (StopTask v t w)) = wDocker ?w4"
    by (simp_all split: sum.split option.split)
  show "wk_ok (snd (StopTask v t w))" "wQueue (snd (StopTask v t w)) = wQueue w"
    "wk_view (snd (StopTask v t w)) = (wk_view w)(tID t \<mapsto> stopped_record v t p)"
    using set wk_quietD [OF w'(1)] w'(1) by (simp_all add: wk_quiet_def)
  show "if drError (fst (StopTask v t w)) = None
     then tContainerID t \<noteq> [] \<and> live (wDocker (snd (StopTask v t w))) = live (wDocker w) - {tContainerID t}
     else live (wDocker (snd (StopTask v t w))) = live (wDocker w)"
    using stop unfolding w'(2) set(3) by (simp add: eq)
qed

lemma StopTask_replaced:
  assumes "docker_laws live (veApi v)" "wk_ok w" "wk_view w (tID t) = Some p" "tContainerID p = tContainerID t"
  shows "replaced live (tID t) (tContainerID t) w (snd (StopTask v t w))"
proof (cases "NewDocker (veApi v)")
  case (Some e)
  have "tID p = tID t" using assms(2,3) by (simp add: wk_ok_def)
  moreover have "wk_view w = (wk_view w)(tID t \<mapsto> p)" using assms(3) by (simp add: map_upd_triv)
  ultimately show ?thesis using Some assms(2,4) by (auto simp: StopTask_def replaced_def)
next
  case None
  note e = StopTask_effect [OF assms(1-3) None]
  show ?thesis unfolding replaced_def
    by (intro conjI exI [of _ "stopped_record v t p"]) (use e in \<open>auto split: if_splits\<close>)
qed

section \<open>Every container is named by a record\<close>

definition known :: "('d \<Rightarrow> string set) \<Rightarrow> string set \<Rightarrow> 'd worker \<Rightarrow> bool" where
  "known live foreign w \<longleftrightarrow>
     (\<forall>c\<in>live (wDocker w). c = [] \<or> c \<in> foreign \<or> (\<exists>i t. wk_view w i = Some t \<and> tContainerID t = c))"

lemma known_upd:
  assumes "known live F w" "wk_view w' = (wk_view w)(i \<mapsto> q)"
    and "live (wDocker w') \<subseteq> insert (tContainerID q) (live (wDocker w))"
    and "\<And>p. wk_view w i = Some p \<Longrightarrow> tContainerID p \<noteq> [] \<Longrightarrow> tContainerID p \<in> live (wDocker w')
           \<Longrightarrow> tContainerID q = tContainerID p"
  shows "known live F w'"
  unfolding known_def
proof
  fix d assume d: "d \<in> live (wDocker w')"
  show "d = [] \<or> d \<in> F \<or> (\<exists>j t. wk_view w' j = Some t \<and> tContainerID t = d)"
  proof (cases "d = tContainerID q")
    case True
    then show ?thesis using assms(2) by auto
  next
    case False
    with d assms(3) have "d \<in> live (wDocker w)" by auto
    then consider "d = [] \<or> d \<in> F" | j t where "wk_view w j = Some t" "tContainerID t = d" "d \<noteq> []"
      using assms(1) unfolding known_def by blast
    then show ?thesis
    proof cases
      case 2
      have "j \<noteq> i"
      proof
        assume "j = i"
        with 2 assms(4) [of t] d have "tContainerID q = d" by simp
        with False show False by simp
      qed
      with 2(1) have "wk_view w' j = Some t" by (simp add: assms(2))
      with 2(2) show ?thesis by blast
    next
      case 1
      then show ?thesis by blast
    qed
  qed
qed

lemma known_replaced:
  assumes "known live F w" "replaced live i c w w'" "\<And>p. wk_view w i = Some p \<Longrightarrow> tContainerID p = c"
  shows "known live F w'" "wk_ok w'"
proof -
  obtain q where "wk_view w' = (wk_view w)(i \<mapsto> q)"
      "live (wDocker w') \<subseteq> insert (tContainerID q) (live (wDocker w))"
      "c \<noteq> [] \<longrightarrow> c \<in> live (wDocker w') \<longrightarrow> tContainerID q = c" and ok: "wk_ok w'"
    using assms(2) unfolding replaced_def by blast
  note q = this
  show "known live F w'"
    by (rule known_upd [OF assms(1) q(1,2)]) (use q(3) assms(3) in auto)
  show "wk_ok w'" by (rule ok)
qed

lemma known_quiet:
  assumes "known live F w" "wk_view w' = wk_view w" "live (wDocker w') \<subseteq> live (wDocker w)"
  shows "known live F w'"
  using assms unfolding known_def by auto

lemma wk_Put_effect:
  assumes "wk_ok w" "tID t = i"
  shows "wk_view (snd (wk_Put i t w)) = (wk_view w)(i \<mapsto> t)" "wk_ok (snd (wk_Put i t w))"
    "wDocker (snd (wk_Put i t w)) = wDocker w" "wQueue (snd (wk_Put i t w)) = wQueue w" "fst (wk_Put i t w) = None"
proof -
  have h: "wDb w \<noteq> None" "db_healthy (wDb w)" using assms by (simp_all add: wk_ok_def)
  have "setTask t w = snd (wk_Put i t w)" using h(1) assms(2) by (simp add: setTask_def del: not_None_eq)
  with setTask_effect [OF assms(1), of t] assms(2)
  show "wk_view (snd (wk_Put i t w)) = (wk_view w)(i \<mapsto> t)" "wk_ok (snd (wk_Put i t w))"
    "wDocker (snd (wk_Put i t w)) = wDocker w" "wQueue (snd (wk_Put i t w)) = wQueue w" by simp_all
  show "fst (wk_Put i t w) = None" using h(2) by (simp add: wk_io del: not_None_eq)
qed

lemma wk_Get_effect:
  assumes "wk_ok w"
  shows "fst (wk_Get i w) = (case wk_view w i of None \<Rightarrow> Inl not_found | Some t \<Rightarrow> Inr t)"
    "wk_view (snd (wk_Get i w)) = wk_view w" "wk_ok (snd (wk_Get i w))"
    "wDocker (snd (wk_Get i w)) = wDocker w" "wQueue (snd (wk_Get i w)) = wQueue w"
proof -
  have h: "db_healthy (wDb w)" "wDb w \<noteq> None" using assms by (simp_all add: wk_ok_def)
  then show "fst (wk_Get i w) = (case wk_view w i of None \<Rightarrow> Inl not_found | Some t \<Rightarrow> Inr t)"
    by (simp add: wk_io wk_view_def db_healthy_Get)
  show v: "wk_view (snd (wk_Get i w)) = wk_view w" by (simp add: wk_io wk_view_def)
  have "db_healthy (wDb (snd (wk_Get i w)))" "db_wf (wDb (snd (wk_Get i w)))"
    using assms h by (simp_all add: wk_io wk_ok_def)
  then show "wk_ok (snd (wk_Get i w))" using assms v by (simp add: wk_ok_def)
  show "wDocker (snd (wk_Get i w)) = wDocker w" "wQueue (snd (wk_Get i w)) = wQueue w" by (simp_all add: wk_io)
qed

text \<open>An event is current when it names no container, or the one on record.\<close>

definition event_current :: "'d worker \<Rightarrow> task \<Rightarrow> bool" where
  "event_current w t \<longleftrightarrow>
     tContainerID t = [] \<or> (case wk_view w (tID t) of None \<Rightarrow> True | Some p \<Rightarrow> tContainerID t = tContainerID p)"

lemma merged_ids [simp]:
  "tID (mergeQueuedWithPersisted t p) = tID t" "tState (mergeQueuedWithPersisted t p) = tState t"
  by (simp_all add: mergeQueuedWithPersisted_def Let_def)

lemma merged_container:
  "tContainerID t = [] \<or> tContainerID t = tContainerID p \<Longrightarrow>
     tContainerID (mergeQueuedWithPersisted t p) = tContainerID p"
  by (auto simp: mergeQueuedWithPersisted_def Let_def)

lemma run_record_effect:
  assumes "wk_ok w" "event_current w t" "known live F w"
  shows "case fst (run_record v t w) of
      Inl e \<Rightarrow> known live F (snd (run_record v t w)) \<and> wk_ok (snd (run_record v t w))
    | Inr p \<Rightarrow> wk_ok (snd (run_record v t w)) \<and> known live F (snd (run_record v t w))
        \<and> wk_view (snd (run_record v t w)) (tID t) = Some p
        \<and> tContainerID (mergeQueuedWithPersisted t p) = tContainerID p"
proof -
  obtain r w1 where g: "wk_Get (tID t) w = (r, w1)" by fastforce
  have w1: "r = (case wk_view w (tID t) of None \<Rightarrow> Inl not_found | Some t \<Rightarrow> Inr t)"
      "wk_view w1 = wk_view w" "wk_ok w1" "wDocker w1 = wDocker w"
    using wk_Get_effect [OF assms(1), of "tID t"] g by simp_all
  have k1: "known live F w1" by (rule known_quiet [OF assms(3)]) (simp_all add: w1)
  show ?thesis
  proof (cases "wk_view w (tID t)")
    case (Some p)
    then have "tContainerID t = [] \<or> tContainerID t = tContainerID p"
      using assms(2) by (simp add: event_current_def)
    with Some show ?thesis using g w1 k1 merged_container by (simp add: run_record_def)
  next
    case None
    then have e: "r = Inl not_found" using w1(1) by simp
    show ?thesis
    proof (cases "tState t = Scheduled")
      case False
      then show ?thesis using g e k1 w1 by (simp add: run_record_def not_found_def)
    next
      case True
      obtain w2 where p: "wk_Put (tID t) t w1 = (None, w2)"
        using wk_Put_effect(5) [OF w1(3), of t] by (cases "wk_Put (tID t) t w1") auto
      have w2: "wk_view w2 = (wk_view w)(tID t \<mapsto> t)" "wk_ok w2" "wDocker w2 = wDocker w"
        using wk_Put_effect [OF w1(3), of t "tID t"] p w1 by simp_all
      have "known live F w2"
        by (rule known_upd [OF assms(3) w2(1)]) (use w2(3) None in auto)
      with True e g p w2 show ?thesis
        by (simp add: run_record_def not_found_def merged_container)
    qed
  qed
qed

lemma run_event_known:
  assumes "docker_laws live (veApi v)" "wk_ok w" "known live F w" "event_current w t"
  shows "known live F (snd (run_event v t w)) \<and> wk_ok (snd (run_event v t w))"
proof -
  obtain r w1 where r: "run_record v t w = (r, w1)" by fastforce
  note rec = run_record_effect [OF assms(2,4,3), of v, unfolded r fst_conv snd_conv]
  have db: "wDb w \<noteq> None" using assms(2) by (simp add: wk_ok_def)
  show ?thesis
  proof (cases r)
    case (Inl e)
    then show ?thesis using rec db by (simp add: run_event_def r del: not_None_eq)
  next
    case (Inr p)
    define u where "u = mergeQueuedWithPersisted t p"
    have u: "tID u = tID t" "tState u = tState t" by (simp_all add: u_def)
    have p: "wk_ok w1" "known live F w1" "wk_view w1 (tID u) = Some p" "tContainerID p = tContainerID u"
      using rec Inr by (simp_all add: u_def)
    have c: "tContainerID x = tContainerID u" if "wk_view w1 (tID u) = Some x" for x using p(3,4) that by simp
    have "known live F (snd (StartTask v u w1)) \<and> wk_ok (snd (StartTask v u w1))"
      using known_replaced [OF p(2) StartTask_replaced [OF assms(1) p(1) refl] c] by blast
    moreover have "known live F (snd (StopTask v u w1)) \<and> wk_ok (snd (StopTask v u w1))"
      using known_replaced [OF p(2) StopTask_replaced [OF assms(1) p(1,3,4)] c] by blast
    ultimately show ?thesis using Inr db p(1,2)
      by (simp add: run_event_def r u_def [symmetric] Let_def del: not_None_eq)
  qed
qed

lemma adopt_ids:
  "tID (adopt t p) = tID t" "tContainerID (adopt t p) = (if tContainerID t = [] then tContainerID p else tContainerID t)"
  by (simp_all add: adopt_def Let_def)

lemma wk_enqueue_effect [simp]:
  "wk_view (wk_enqueue t w) = wk_view w" "wDocker (wk_enqueue t w) = wDocker w" "wk_ok (wk_enqueue t w) = wk_ok w"
  "known live F (wk_enqueue t w) = known live F w"
  by (simp_all add: wk_enqueue_def wk_view_def wk_ok_def known_def)

lemma wk_AddTask_known:
  assumes "wk_ok w" "known live F w" "event_current w t"
  shows "known live F (snd (wk_AddTask v t w)) \<and> wk_ok (snd (wk_AddTask v t w))"
proof -
  obtain r w1 where g: "wk_Get (tID t) w = (r, w1)" by fastforce
  have w1: "r = (case wk_view w (tID t) of None \<Rightarrow> Inl not_found | Some t \<Rightarrow> Inr t)"
      "wk_view w1 = wk_view w" "wk_ok w1" "wDocker w1 = wDocker w"
    using wk_Get_effect [OF assms(1), of "tID t"] g by simp_all
  have k1: "known live F w1" by (rule known_quiet [OF assms(2)]) (simp_all add: w1)
  have put: "known live F (snd (wk_Put (tID t) q w1)) \<and> wk_ok (snd (wk_Put (tID t) q w1))
      \<and> fst (wk_Put (tID t) q w1) = None"
    if "tID q = tID t" "\<And>p. wk_view w (tID t) = Some p \<Longrightarrow> tContainerID q = tContainerID p" for q
  proof -
    note e = wk_Put_effect [OF w1(3) that(1)]
    have "known live F (snd (wk_Put (tID t) q w1))"
      by (rule known_upd [OF k1 e(1)]) (use e(3) w1 that(2) in auto)
    with e show ?thesis by simp
  qed
  have "known live F (snd (accept_start v t w)) \<and> wk_ok (snd (accept_start v t w))"
  proof (cases "wk_view w (tID t)")
    case None
    then have "r = Inl not_found" using w1(1) by simp
    then show ?thesis using put [of t] None g
      by (cases "wk_Put (tID t) t w1") (simp add: accept_start_def not_found_def)
  next
    case (Some p)
    then have "r = Inr p" using w1(1) by simp
    moreover have "tContainerID (adopt t p) = tContainerID p"
      using assms(3) Some by (auto simp: adopt_ids event_current_def)
    ultimately show ?thesis using put [of "adopt t p"] Some g
      by (cases "wk_Put (tID t) (adopt t p) w1") (simp add: accept_start_def adopt_ids)
  qed
  moreover have "wDb w \<noteq> None" using assms(1) by (simp add: wk_ok_def)
  ultimately show ?thesis using g k1 w1(3) assms
    by (auto simp: wk_AddTask_def split: option.split sum.split)
qed

section \<open>Refreshing keeps the records' containers\<close>

text \<open>A step that shrinks the set of containers and keeps every record's container ID.\<close>

definition keeps :: "('d \<Rightarrow> string set) \<Rightarrow> 'd worker \<Rightarrow> 'd worker \<Rightarrow> bool" where
  "keeps live w w' \<longleftrightarrow> wk_ok w' \<and> live (wDocker w') \<subseteq> live (wDocker w) \<and> wQueue w' = wQueue w
     \<and> (\<forall>i. map_option tContainerID (wk_view w' i) = map_option tContainerID (wk_view w i))"

lemma keeps_refl: "wk_ok w \<Longrightarrow> keeps live w w"
  by (simp add: keeps_def)

lemma keeps_trans: "keeps live a b \<Longrightarrow> keeps live b c \<Longrightarrow> keeps live a c"
  by (auto simp: keeps_def)

lemma keeps_quiet: "wk_ok w \<Longrightarrow> wk_quiet w w' \<Longrightarrow> live (wDocker w') \<subseteq> live (wDocker w) \<Longrightarrow> keeps live w w'"
  using wk_quietD [of w w'] by (simp add: keeps_def) (simp add: wk_quiet_def)

lemma keeps_known:
  assumes "keeps live w w'" "known live F w"
  shows "known live F w'"
  unfolding known_def
proof
  fix c assume "c \<in> live (wDocker w')"
  then have "c \<in> live (wDocker w)" using assms(1) by (auto simp: keeps_def)
  then consider "c = [] \<or> c \<in> F" | i t where "wk_view w i = Some t" "tContainerID t = c"
    using assms(2) unfolding known_def by blast
  then show "c = [] \<or> c \<in> F \<or> (\<exists>i t. wk_view w' i = Some t \<and> tContainerID t = c)"
  proof cases
    case 1
    then show ?thesis by blast
  next
    case 2
    then have "map_option tContainerID (wk_view w' i) = Some c" using assms(1) by (simp add: keeps_def)
    then obtain t' where "wk_view w' i = Some t'" "tContainerID t' = c" by (cases "wk_view w' i") simp_all
    then show ?thesis by blast
  qed
qed

lemma keeps_Put:
  assumes "wk_ok w" "wk_view w i = Some p" "tID q = i" "tContainerID q = tContainerID p"
  shows "keeps live w (snd (wk_Put i q w))"
  using wk_Put_effect [OF assms(1,3)] assms(2,4) by (simp add: keeps_def)

lemma keeps_logs [simp]:
  "wk_ok w \<Longrightarrow> keeps live w (storeLogsIfAbsent v i l c s w)" "wk_ok w \<Longrightarrow> keeps live w (snd (wk_Get i w))"
  using wk_Get_effect [of w i] by (simp_all add: keeps_quiet) (simp add: keeps_def)

lemma wk_ok_docker [simp]:
  "wk_ok (snd (docker_Logs v i n w)) = wk_ok w" "wk_ok (snd (docker_Inspect v i w)) = wk_ok w"
  "wk_ok (snd (docker_Stop v i w)) = wk_ok w" "wk_ok (snd (peekStoredLogs j w)) = wk_ok w"
  by (simp_all add: wk_quietD(2) [OF wk_quiet_docker(1)] wk_quietD(2) [OF wk_quiet_docker(2)]
      wk_quietD(2) [OF wk_quiet_docker(3)] wk_quietD(2) [OF wk_quiet_logs(3)])

lemma docker_keeps:
  assumes "docker_laws live (veApi v)" "wk_ok w"
  shows "keeps live w (snd (docker_Logs v i n w))" "keeps live w (snd (docker_Inspect v i w))"
    "keeps live w (snd (docker_Stop v i w))"
proof -
  show "keeps live w (snd (docker_Logs v i n w))"
    by (rule keeps_quiet [OF assms(2) wk_quiet_docker(1)]) (simp add: docker_live(1) [OF assms(1)])
  show "keeps live w (snd (docker_Inspect v i w))"
    by (rule keeps_quiet [OF assms(2) wk_quiet_docker(2)]) (simp add: docker_live(2) [OF assms(1)])
  have "live (wDocker (snd (docker_Stop v i w))) \<subseteq> live (wDocker w)"
    using docker_live(3) [OF assms(1), of i w] by (auto split: if_splits)
  then show "keeps live w (snd (docker_Stop v i w))"
    by (rule keeps_quiet [OF assms(2) wk_quiet_docker(3)])
qed

lemma captureLogs_keeps:
  assumes "docker_laws live (veApi v)" "wk_ok w"
  shows "keeps live w (captureLogs v t code src w)"
proof -
  obtain l w1 where l: "peekStoredLogs (tID t) w = (l, w1)" by fastforce
  then have w1: "keeps live w w1" "wk_ok w1"
    using keeps_quiet [where live = live, OF assms(2) wk_quiet_logs(3), of "tID t"] wk_docker_logs(3) [of "tID t" w] wk_ok_docker(4) [of "tID t" w] assms(2)
    by simp_all
  obtain g w2 where g: "docker_Logs v (tContainerID t) (veLogLines v) w1 = (g, w2)" by fastforce
  then have w2: "keeps live w w2" "wk_ok w2"
    using keeps_trans [OF w1(1) docker_keeps(1) [OF assms(1) w1(2)]] wk_ok_docker(1) w1(2) by (metis snd_conv)+
  have "keeps live w (storeLogsIfAbsent v (tID t) x code src w2)" for x
    by (rule keeps_trans [OF w2(1)]) (simp add: w2(2))
  then show ?thesis using l g w1 w2 assms(2)
    by (simp add: captureLogs_def keeps_refl split: option.split sum.split)
qed

lemma timeout_container_keeps:
  assumes "docker_laws live (veApi v)" "wk_ok w"
  shows "keeps live w (timeout_container v t w)"
proof -
  obtain l w1 where l: "docker_Logs v (tContainerID t) (veLogLines v) w = (l, w1)" by fastforce
  have w1: "keeps live w w1" "wk_ok w1"
    using docker_keeps(1) [OF assms] wk_ok_docker(1) assms(2) l by (metis snd_conv)+
  let ?w2 = "snd (docker_Stop v (tContainerID t) w1)"
  have w2: "keeps live w ?w2" "wk_ok ?w2"
    using keeps_trans [OF w1(1) docker_keeps(3) [OF assms(1) w1(2)]] w1(2) by simp_all
  have "keeps live w (storeLogsIfAbsent v (tID t) x code src ?w2)" for x code src
    by (rule keeps_trans [OF w2(1)]) (simp add: w1(2))
  then show ?thesis using l w2 assms(2)
    by (simp add: timeout_container_def keeps_refl Let_def split: option.split sum.split)
qed

lemma timeoutTask_keeps:
  assumes "docker_laws live (veApi v)" "wk_ok w"
  shows "keeps live w (timeoutTask v t w)"
proof -
  define w1 where "w1 = timeout_container v t w"
  have w1: "keeps live w w1" "wk_ok w1" "wDb w1 \<noteq> None"
    using timeout_container_keeps [OF assms, of t] by (simp_all add: w1_def keeps_def wk_ok_def)
  obtain r w2 where g: "wk_Get (tID t) w1 = (r, w2)" by fastforce
  have w2: "keeps live w w2" "wk_ok w2" "wk_view w2 = wk_view w1"
    using keeps_trans [OF w1(1) keeps_logs(2) [OF w1(2)]] wk_Get_effect(2,3) [OF w1(2)] g by (metis snd_conv)+
  have "keeps live w (snd (wk_Put (tID p) (timed_out t p) w2))" if "r = Inr p" for p
  proof (rule keeps_trans [OF w2(1)])
    have "wk_view w1 (tID t) = Some p" using wk_Get_effect(1) [OF w1(2), of "tID t"] g that by (auto split: option.splits)
    moreover from this have "tID p = tID t" using w1(2) by (simp add: wk_ok_def)
    ultimately show "keeps live w2 (snd (wk_Put (tID p) (timed_out t p) w2))"
      using w2 by (intro keeps_Put [of _ _ p]) (simp_all add: timed_out_def)
  qed
  then show ?thesis using g w1 w2
    by (simp add: timeoutTask_def w1_def [symmetric] Let_def split: sum.split del: not_None_eq)
qed

lemma refreshed_ids:
  assumes "refreshed v r s t = (u, capture)"
  shows "tID u = tID t" "tContainerID u = tContainerID t"
proof -
  have "tID (fst (refreshed v r s t)) = tID t \<and> tContainerID (fst (refreshed v r s t)) = tContainerID t"
    by (simp add: refreshed_def Let_def)
  then show "tID u = tID t" "tContainerID u = tContainerID t" using assms by simp_all
qed

lemma InspectTask_keeps:
  assumes "docker_laws live (veApi v)" "wk_ok w"
  shows "keeps live w (snd (InspectTask v t w))"
  using docker_keeps(2) [OF assms] keeps_refl [OF assms(2)] by (simp add: InspectTask_def split: option.split)

lemma refresh_task_keeps:
  assumes "docker_laws live (veApi v)" "wk_ok w"
  shows "keeps live w (refresh_task v t w)"
proof -
  obtain resp w1 where i: "InspectTask v t w = (resp, w1)" by fastforce
  have w1: "keeps live w w1" "wk_ok w1" "wDb w1 \<noteq> None"
    using InspectTask_keeps [OF assms, of t] i by (simp_all add: keeps_def wk_ok_def)
  obtain r w2 where g: "wk_Get (tID t) w1 = (r, w2)" by fastforce
  have w2: "keeps live w w2" "wk_ok w2" "wk_view w2 = wk_view w1"
    using keeps_trans [OF w1(1) keeps_logs(2) [OF w1(2)]] wk_Get_effect(2,3) [OF w1(2)] g by (metis snd_conv)+
  have p: "wk_view w2 (tID t) = Some p" "tID p = tID t" if "r = Inr p" for p
  proof -
    show v: "wk_view w2 (tID t) = Some p"
      using wk_Get_effect(1) [OF w1(2), of "tID t"] g that w2(3) by (auto split: option.splits)
    then show "tID p = tID t" using w2(2) by (simp add: wk_ok_def)
  qed
  have put: "keeps live w (snd (wk_Put (tID t) q w2))"
    if "r = Inr p" "tID q = tID p" "tContainerID q = tContainerID p" for p q
    by (rule keeps_trans [OF w2(1) keeps_Put [OF w2(2) p(1) [OF that(1)]]]) (use p(2) [OF that(1)] that in auto)
  have capture: "keeps live w (captureLogs v q c o' (snd (wk_Put (tID t) q w2)))"
    if "r = Inr p" "tID q = tID p" "tContainerID q = tContainerID p" for p q c o'
  proof (rule keeps_trans [OF put [OF that]])
    have "wk_ok (snd (wk_Put (tID t) q w2))" using put [OF that] by (simp add: keeps_def)
    then show "keeps live (snd (wk_Put (tID t) q w2)) (captureLogs v q c o' (snd (wk_Put (tID t) q w2)))"
      by (rule captureLogs_keeps [OF assms(1)])
  qed
  show ?thesis
  proof (cases r)
    case (Inl e)
    then show ?thesis using i g w1 w2 by (simp add: refresh_task_def del: not_None_eq)
  next
    case (Inr p)
    have lost: "keeps live w (snd (wk_Put (tID t) (lost_container e p) w2))" for e
      by (rule put [OF Inr]) (simp_all add: lost_container_def)
    have refr: "keeps live w (case refreshed v x s p of (u, capture) \<Rightarrow>
        let w = snd (wk_Put (tID t) u w2) in
          case capture of None \<Rightarrow> w | Some (c, o') \<Rightarrow> captureLogs v u c o' w)" for x s
    proof (cases "refreshed v x s p")
      case (Pair u c)
      note ids = refreshed_ids [OF Pair]
      show ?thesis using put [OF Inr ids] capture [OF Inr ids] Pair by (simp add: Let_def split: option.split prod.split)
    qed
    show ?thesis using i g w1(3) w2(1) Inr lost refr
      by (simp add: refresh_task_def split: sum.split option.split del: not_None_eq)
  qed
qed

lemma keeps_fold:
  assumes "\<And>t w. wk_ok w \<Longrightarrow> keeps live w (f t w)" "wk_ok w"
  shows "keeps live w (fold f ts w)"
  using assms(2)
proof (induction ts arbitrary: w)
  case Nil
  then show ?case by (simp add: keeps_refl)
next
  case (Cons t ts)
  have "keeps live w (f t w)" by (rule assms(1) [OF Cons.prems])
  moreover from this have "wk_ok (f t w)" by (simp add: keeps_def)
  ultimately show ?case using Cons.IH [of "f t w"] by (simp add: keeps_trans)
qed

lemma wk_getTasks_keeps:
  assumes "wk_ok w"
  shows "keeps live w (snd (wk_getTasks w))"
proof -
  have h: "wDb w \<noteq> None" "db_healthy (wDb w)" using assms by (simp_all add: wk_ok_def)
  have "snd (wk_getTasks w) = w\<lparr>wDb := snd (db_List (wDb w))\<rparr>"
    using h(1) by (simp add: wk_getTasks_def wk_listTasks_def case_prod_beta split: sum.split del: not_None_eq)
  with assms h show ?thesis by (simp add: keeps_def wk_ok_def wk_view_def)
qed

lemma wk_updateTasks_keeps:
  assumes "docker_laws live (veApi v)" "wk_ok w"
  shows "keeps live w (wk_updateTasks v w)"
proof -
  obtain ts w1 where g: "wk_getTasks w = (ts, w1)" by fastforce
  have w1: "keeps live w w1" using wk_getTasks_keeps [OF assms(2), of live] g by simp
  then have "keeps live w1 (wk_updateTasks v w)" unfolding wk_updateTasks_def g prod.case
    by (intro keeps_fold) (simp_all add: keeps_def [of live w] timeoutTask_keeps refresh_task_keeps assms(1))
  with w1 show ?thesis by (rule keeps_trans)
qed

section \<open>Runs of a worker\<close>

text \<open>
  Submissions, turns of the run loop and refreshes, in any order; the clock and configuration may
  change from step to step. Submitted events and those a turn runs are current.
\<close>

inductive wk_reach :: "'d docker_api \<Rightarrow> 'd worker \<Rightarrow> 'd worker \<Rightarrow> bool" for api w0 where
  wk_start: "wk_reach api w0 w0"
| wk_add: "wk_reach api w0 w \<Longrightarrow> veApi v = api \<Longrightarrow> event_current w t \<Longrightarrow> wk_reach api w0 (snd (wk_AddTask v t w))"
| wk_run: "wk_reach api w0 w \<Longrightarrow> veApi v = api \<Longrightarrow>
    (case fst (Dequeue (wQueue w)) of None \<Rightarrow> True | Some t \<Rightarrow> event_current w t) \<Longrightarrow>
    wk_reach api w0 (RunTasks_turn v w)"
| wk_refresh: "wk_reach api w0 w \<Longrightarrow> veApi v = api \<Longrightarrow> wk_reach api w0 (wk_updateTasks v w)"

lemma RunTasks_turn_known:
  assumes "docker_laws live (veApi v)" "wk_ok w" "known live F w"
    "case fst (Dequeue (wQueue w)) of None \<Rightarrow> True | Some t \<Rightarrow> event_current w t"
  shows "known live F (RunTasks_turn v w) \<and> wk_ok (RunTasks_turn v w)"
proof -
  have upd: "wk_ok (w\<lparr>wQueue := q\<rparr>) = wk_ok w" "known live F (w\<lparr>wQueue := q\<rparr>) = known live F w"
    "event_current (w\<lparr>wQueue := q\<rparr>) = event_current w"
    "wk_ok (x\<lparr>wUpdateWaker := u\<rparr>) = wk_ok x" "known live F (x\<lparr>wUpdateWaker := u\<rparr>) = known live F x" for q x u
    by (simp_all add: wk_ok_def known_def wk_view_def event_current_def fun_eq_iff)
  obtain e q where q: "Dequeue (wQueue w) = (e, q)" by fastforce
  have "known live F (snd (runTask v w)) \<and> wk_ok (snd (runTask v w))"
  proof (cases e)
    case None
    then show ?thesis using assms(2,3) q upd by (simp add: runTask_def)
  next
    case (Some t)
    have "known live F (snd (run_event v t (w\<lparr>wQueue := q\<rparr>))) \<and> wk_ok (snd (run_event v t (w\<lparr>wQueue := q\<rparr>)))"
      by (rule run_event_known [OF assms(1)]) (use assms(2-4) Some q upd in auto)
    then show ?thesis using Some q by (simp add: runTask_def)
  qed
  then show ?thesis using assms(2,3) upd by (simp add: RunTasks_turn_def case_prod_beta)
qed

text \<open>
  No container gets lost. Whatever a worker does from a state with a working task store, if
  every container of the daemon was foreign or named by a record, it stays so: a start removes the
  container it replaces, a failed start keeps the ID of a container it could not clean up, a failed
  stop keeps the record's container ID.
\<close>

theorem containers_known:
  assumes "docker_laws live api" "wk_ok w0" "known live foreign w0" "wk_reach api w0 w"
  shows "known live foreign w"
proof -
  from assms(4) have "known live foreign w \<and> wk_ok w"
  proof induction
    case wk_start
    then show ?case using assms(2,3) by simp
  next
    case (wk_add w v t)
    then show ?case using wk_AddTask_known by blast
  next
    case (wk_run w v)
    then show ?case using RunTasks_turn_known [of live v w foreign] assms(1) by simp
  next
    case (wk_refresh w v)
    then have "keeps live w (wk_updateTasks v w)" using wk_updateTasks_keeps [of live v w] assms(1) by simp
    then show ?case using keeps_known wk_refresh.IH by (auto simp: keeps_def)
  qed
  then show ?thesis ..
qed

text \<open>A worker whose task is to be restarted: a start is queued.\<close>

definition demo_restarting :: "string list worker" where
  "demo_restarting = (demo_worker [''other'', ''c''] [contained ''c''])
     \<lparr>wQueue := \<lparr>q_items = [(contained [])\<lparr>tState := Scheduled\<rparr>]\<rparr>\<rparr>"

lemma demo_restarting_ok:
  "wk_ok demo_restarting" "wk_view demo_restarting = [1 \<mapsto> contained ''c'']" "wDocker demo_restarting = [''other'', ''c'']"
proof -
  let ?w = "demo_worker [''other'', ''c''] [contained ''c'']"
  have db: "wDb demo_restarting = wDb ?w" and docker: "wDocker demo_restarting = wDocker ?w"
    by (simp_all add: demo_restarting_def)
  have id: "tID (contained ''c'') = 1" by (simp add: contained_def)
  show "wk_ok demo_restarting"
    using demo_worker_ok(2) unfolding wk_ok_def wk_view_def db .
  show "wk_view demo_restarting = [1 \<mapsto> contained ''c'']"
    using demo_worker_ok(4) [of "[''other'', ''c'']" "contained ''c''"] unfolding wk_view_def db id .
  show "wDocker demo_restarting = [''other'', ''c'']" unfolding docker by (rule demo_worker_ok)
qed

theorem containers_known_witness:
  "known set {''other''} (wk_updateTasks demo_wenv (RunTasks_turn demo_wenv demo_restarting))"
proof (rule containers_known [OF memory_docker_laws demo_restarting_ok(1)])
  show "known set {''other''} demo_restarting"
    by (simp add: known_def demo_restarting_ok contained_def)
  have api: "veApi demo_wenv = memory_docker" by (simp add: demo_wenv_def)
  have current: "event_current demo_restarting t" if "tContainerID t = []" for t
    using that by (simp add: event_current_def)
  show "wk_reach memory_docker demo_restarting (wk_updateTasks demo_wenv (RunTasks_turn demo_wenv demo_restarting))"
    by (rule wk_refresh [OF wk_run [OF wk_start api] api])
      (simp add: demo_restarting_def Dequeue_def event_current_def contained_def)
qed

section \<open>Where containers get lost\<close>

text \<open>
  A worker trusts the container ID of a start over its own record. An accepted start that names
  another container than the one on record overwrites the record at once: the recorded container
  stays, and the record of its task no longer names it. Running the event later stops the container
  it names, if it exists, not the one that was on record. So a start that was answered too late and
  is sent again with the container ID of the failed run leaves a running container behind.
\<close>

theorem stale_start_orphans:
  assumes "wk_ok w" "wk_view w (tID t) = Some p" "tState t = Scheduled" "Validate (veExt v) t = None"
    and "tContainerID t \<noteq> []" "tContainerID t \<noteq> tContainerID p"
  shows "fst (wk_AddTask v t w) = None \<and> wDocker (snd (wk_AddTask v t w)) = wDocker w
    \<and> (\<exists>q. wk_view (snd (wk_AddTask v t w)) = (wk_view w)(tID t \<mapsto> q) \<and> tContainerID q = tContainerID t)"
proof -
  obtain r w1 where g: "wk_Get (tID t) w = (r, w1)" by fastforce
  have w1: "r = Inr p" "wk_view w1 = wk_view w" "wk_ok w1" "wDocker w1 = wDocker w"
    using wk_Get_effect [OF assms(1), of "tID t"] g assms(2) by simp_all
  obtain x w2 where put: "wk_Put (tID t) (adopt t p) w1 = (x, w2)" by fastforce
  note e = wk_Put_effect [OF w1(3) adopt_ids(1), of t p, unfolded put fst_conv snd_conv w1]
  have db: "wDb w \<noteq> None" using assms(1) by (simp add: wk_ok_def)
  have "wk_AddTask v t w = (None, wk_enqueue (adopt t p) w2)"
    using assms(3,4) db g w1(1) put e(5) by (simp add: wk_AddTask_def accept_start_def adopt_ids del: not_None_eq)
  then show ?thesis
    using e assms(5) by (auto simp: adopt_ids)
qed

theorem stale_start_orphans_witness:
  "fst (wk_AddTask demo_wenv ((contained ''old'')\<lparr>tState := Scheduled\<rparr>) (demo_worker [''new''] [contained ''new''])) = None
   \<and> wDocker (snd (wk_AddTask demo_wenv ((contained ''old'')\<lparr>tState := Scheduled\<rparr>)
       (demo_worker [''new''] [contained ''new'']))) = [''new'']"
proof -
  let ?t = "(contained ''old'')\<lparr>tState := Scheduled\<rparr>" and ?w = "demo_worker [''new''] [contained ''new'']"
  have view: "wk_view ?w (tID ?t) = Some (contained ''new'')" by (simp add: demo_worker_ok contained_def)
  have valid: "Validate (veExt demo_wenv) ?t = None"
    by (simp add: demo_wenv_def Validate_None [OF std_ext_ok] task_ok_def contained_def zero_task_def ports_ok_def)
  have ids: "tContainerID ?t \<noteq> []" "tContainerID ?t \<noteq> tContainerID (contained ''new'')" "tState ?t = Scheduled"
    by (simp_all add: contained_def)
  show ?thesis
    using stale_start_orphans [OF demo_worker_ok(2) view ids(3) valid ids(1,2)] by (simp add: demo_worker_ok)
qed

lemma stopped_record_inactive: "tState (stopped_record v t p) \<noteq> Running" "tState (stopped_record v t p) \<noteq> Scheduled"
  by (simp_all add: stopped_record_def Let_def)

lemma forget_record_effect:
  assumes "wk_ok w" "case wk_view w i of None \<Rightarrow> True | Some p \<Rightarrow> \<not> active p \<or> tContainerID p = []"
  shows "fst (forget_record v i w) = None \<and> wk_view (snd (forget_record v i w)) = (wk_view w)(i := None)
    \<and> wDocker (snd (forget_record v i w)) = wDocker w \<and> wQueue (snd (forget_record v i w)) = wQueue w"
proof -
  have db: "wDb w \<noteq> None" using assms(1) by (simp add: wk_ok_def)
  obtain r w1 where g: "wk_Get i w = (r, w1)" by fastforce
  have w1: "r = (case wk_view w i of None \<Rightarrow> Inl not_found | Some t \<Rightarrow> Inr t)"
      "wk_view w1 = wk_view w" "wk_ok w1" "wDocker w1 = wDocker w" "wQueue w1 = wQueue w"
    using wk_Get_effect [OF assms(1), of i] g by simp_all
  show ?thesis
  proof (cases "wk_view w i")
    case None
    then have "(wk_view w)(i := None) = wk_view w" by auto
    with None show ?thesis using db g w1 by (simp add: forget_record_def not_found_def del: not_None_eq)
  next
    case (Some p)
    have ok: "db_healthy (wDb w1)" "wDb w1 \<noteq> None" using w1(3) by (simp_all add: wk_ok_def)
    obtain x d where d: "db_Delete i (wDb w1) = (x, d)" by fastforce
    have x: "x = None" "db_view d = (wk_view w1)(i := None)"
      using db_healthy_ops(6) [OF ok(1), of i] db_Delete_view [of i "wDb w1"] ok(2) d by (auto simp: wk_view_def)
    have not: "\<not> (tContainerID p \<noteq> [] \<and> active p)" using assms(2) Some by auto
    have "wk_quiet (w1\<lparr>wDb := d\<rparr>) (clearStoredLogs i (w1\<lparr>wDb := d\<rparr>))" by simp
    then have "wk_view (clearStoredLogs i (w1\<lparr>wDb := d\<rparr>)) = db_view d"
        "wQueue (clearStoredLogs i (w1\<lparr>wDb := d\<rparr>)) = wQueue w1"
      by (simp_all add: wk_quiet_def wk_view_def)
    with Some not x d show ?thesis using db g w1
      by (simp add: forget_record_def del: not_None_eq)
  qed
qed

subsection \<open>Stored logs\<close>

definition other_logs_kept :: "uuid \<Rightarrow> 'd worker \<Rightarrow> 'd worker \<Rightarrow> bool" where
  "other_logs_kept i w w' \<longleftrightarrow> (db_healthy (wLogDb w) \<longrightarrow> db_healthy (wLogDb w'))
     \<and> (\<forall>j. j \<noteq> i \<longrightarrow> db_view (wLogDb w') j = db_view (wLogDb w) j)"

lemma other_logs_same: "wLogDb w' = wLogDb w \<Longrightarrow> other_logs_kept i w w'"
  by (simp add: other_logs_kept_def)

lemma other_logs_trans: "other_logs_kept i a b \<Longrightarrow> other_logs_kept i b c \<Longrightarrow> other_logs_kept i a c"
  by (simp add: other_logs_kept_def)

lemma other_logs_store: "other_logs_kept i w (storeLogsIfAbsent v i l c s w)"
proof (cases "wLogDb w = None")
  case False
  then show ?thesis
    by (auto simp: other_logs_kept_def storeLogsIfAbsent_def case_prod_beta db_Put_view split: sum.split)
qed (simp add: other_logs_kept_def storeLogsIfAbsent_def)

lemma other_logs_clear:
  "other_logs_kept i w (clearStoredLogs i w)"
  "db_healthy (wLogDb w) \<Longrightarrow> db_view (wLogDb (clearStoredLogs i w)) i = None"
  by (auto simp: other_logs_kept_def clearStoredLogs_def db_Delete_view)

lemma other_logs_StopTask: "other_logs_kept (tID t) w (snd (StopTask v t w))"
proof (cases "NewDocker (veApi v)")
  case (Some e)
  then show ?thesis by (simp add: StopTask_def other_logs_same)
next
  case None
  obtain l w1 where l: "docker_Logs v (tContainerID t) (veLogLines v) w = (l, w1)" by fastforce
  obtain r w2 where r: "docker_Stop v (tContainerID t) w1 = (r, w2)" by fastforce
  obtain g w3 where g: "wk_getTask (tID t) w2 = (g, w3)" by fastforce
  have same: "wLogDb w3 = wLogDb w"
    using logdb_io(3) [of "tID t" w2] logdb_io(5) [of v "tContainerID t" "veLogLines v" w]
      logdb_io(7) [of v "tContainerID t" w1] l r g by simp
  have eq: "StopTask v t w = (case g of
      None \<Rightarrow> (docker_error [] (not_in_db v (tID t)), w3)
    | Some p \<Rightarrow> (r, case l of
        Inr (Some x) \<Rightarrow> storeLogsIfAbsent v (tID t) x (drExitCode r) ''stop'' (setTask (stopped_record v t p) w3)
      | _ \<Rightarrow> setTask (stopped_record v t p) w3))"
    by (simp only: StopTask_def None l r g option.case prod.case Let_def)
  have stored: "other_logs_kept (tID t) w (storeLogsIfAbsent v (tID t) x c src (setTask q w3))" for x c src q
    by (rule other_logs_trans [OF other_logs_same other_logs_store]) (simp add: same)
  show ?thesis unfolding eq by (simp add: stored other_logs_same same split: option.split sum.split)
qed

lemma forget_record_logs:
  assumes "wk_ok w" "wk_view w i = Some p" "\<not> active p \<or> tContainerID p = []"
  shows "wLogDb (snd (forget_record v i w)) = wLogDb (clearStoredLogs i w)"
proof -
  have db: "wDb w \<noteq> None" using assms(1) by (simp add: wk_ok_def)
  obtain r w1 where g: "wk_Get i w = (r, w1)" by fastforce
  have w1: "r = Inr p" "wk_ok w1" "wLogDb w1 = wLogDb w"
    using wk_Get_effect [OF assms(1), of i] assms(2) g logdb_io(1) [of i w] by simp_all
  obtain x d where d: "db_Delete i (wDb w1) = (x, d)" by fastforce
  have "x = None" using w1(2) d db_healthy_ops(6) [of "wDb w1" i] by (simp add: wk_ok_def)
  with d g w1 db assms(3) show ?thesis
    by (auto simp: forget_record_def clearStoredLogs_def simp del: not_None_eq)
qed

text \<open>
  C17: while the task store works, a forget request ends a task on its worker. Its queued events are
  dropped. When it succeeds, so are the record and, if the log store works too, the task's stored logs,
  and the container of an active task is removed; when it fails, the container could not be removed and
  the record still names it. No other record and no other task's logs change. But the container of a
  failed or completed record, one that exited or that a stop could not remove, is left on the daemon
  and nothing names it any more.
\<close>

theorem forget_settled:
  assumes "docker_laws live (veApi v)" "wk_ok w" "wk_view w i = Some p"
  shows "(\<forall>t\<in>set (q_items (wQueue (snd (ForgetTask v i w)))). tID t \<noteq> i)
    \<and> (if active p \<and> tContainerID p \<noteq> []
       then (fst (ForgetTask v i w) = None \<and> wk_view (snd (ForgetTask v i w)) = (wk_view w)(i := None)
             \<and> live (wDocker (snd (ForgetTask v i w))) = live (wDocker w) - {tContainerID p})
         \<or> (fst (ForgetTask v i w) \<noteq> None \<and> live (wDocker (snd (ForgetTask v i w))) = live (wDocker w)
             \<and> map_option tContainerID (wk_view (snd (ForgetTask v i w)) i) = Some (tContainerID p))
       else fst (ForgetTask v i w) = None \<and> wk_view (snd (ForgetTask v i w)) = (wk_view w)(i := None)
         \<and> wDocker (snd (ForgetTask v i w)) = wDocker w)
    \<and> (\<forall>j. j \<noteq> i \<longrightarrow> wk_view (snd (ForgetTask v i w)) j = wk_view w j)
    \<and> (\<forall>j. j \<noteq> i \<longrightarrow> db_view (wLogDb (snd (ForgetTask v i w))) j = db_view (wLogDb w) j)
    \<and> (fst (ForgetTask v i w) = None \<longrightarrow> db_healthy (wLogDb w)
         \<longrightarrow> db_view (wLogDb (snd (ForgetTask v i w))) i = None)"
proof -
  have db: "wDb w \<noteq> None" and id: "tID p = i" using assms(2,3) by (simp_all add: wk_ok_def)
  obtain r w1 where g: "wk_Get i w = (r, w1)" by fastforce
  have w1: "r = Inr p" "wk_view w1 = wk_view w" "wk_ok w1" "wDocker w1 = wDocker w" "wQueue w1 = wQueue w"
    using wk_Get_effect [OF assms(2), of i] g assms(3) by simp_all
  define w2 where "w2 = w1\<lparr>wQueue := snd (RemoveAllFunc (wQueue w1) (\<lambda>t. tID t = i))\<rparr>"
  have w2: "wk_ok w2" "wk_view w2 = wk_view w" "wDocker w2 = wDocker w" "\<forall>t\<in>set (q_items (wQueue w2)). tID t \<noteq> i"
      "wLogDb w2 = wLogDb w"
    using w1 logdb_io(1) [of i w] g by (auto simp: w2_def wk_ok_def wk_view_def RemoveAllFunc_eq)
  have cleared: "(\<forall>j. j \<noteq> i \<longrightarrow> db_view (wLogDb w4) j = db_view (wLogDb w) j)
      \<and> (db_healthy (wLogDb w) \<longrightarrow> db_view (wLogDb w4) i = None)"
    if "other_logs_kept i w w3" "wLogDb w4 = wLogDb (clearStoredLogs i w3)" for w3 w4
    using that other_logs_clear(1) [of i w3] other_logs_clear(2) [of w3 i] by (simp add: other_logs_kept_def)
  show ?thesis
  proof (cases "active p \<and> tContainerID p \<noteq> []")
    case False
    then have eq: "ForgetTask v i w = forget_record v i w2"
      using db g w1(1) by (auto simp: ForgetTask_def w2_def)
    have "case wk_view w2 i of None \<Rightarrow> True | Some p \<Rightarrow> \<not> active p \<or> tContainerID p = []"
      using False assms(3) w2(2) by auto
    note rec = forget_record_effect [OF w2(1) this, of v]
    have "wk_view w2 i = Some p" "\<not> active p \<or> tContainerID p = []" using False assms(3) w2(2) by auto
    note logs = cleared [OF other_logs_same [OF w2(5)] forget_record_logs [OF w2(1) this, of v]]
    show ?thesis using rec logs False w2 by (auto simp: eq)
  next
    case True
    obtain s w3 where s: "StopTask v p w2 = (s, w3)" by fastforce
    have eq: "ForgetTask v i w = (case drError s of
        Some err \<Rightarrow> (Some (wrapf (''stopping active task '' @ veIdString v i @ '' before forget: '') err), w3)
      | None \<Rightarrow> forget_record v i w3)"
      using True db g w1(1) s by (simp add: ForgetTask_def w2_def [symmetric] Let_def del: not_None_eq)
    show ?thesis
    proof (cases "NewDocker (veApi v)")
      case (Some e)
      then have "s = docker_error [] e" "w3 = w2" using s StopTask_no_client [OF Some, of p w2] by simp_all
      then show ?thesis using True eq w2 assms(3) by (auto simp: docker_error_def)
    next
      case None
      have view: "wk_view w2 (tID p) = Some p" using assms(3) w2(2) id by simp
      have kept: "other_logs_kept i w w3"
        using other_logs_trans [OF other_logs_same [OF w2(5)] other_logs_StopTask [of p w2 v]] by (simp add: s id)
      note stop = StopTask_effect [OF assms(1) w2(1) view None, unfolded s fst_conv snd_conv id w2(2,3)]
      show ?thesis
      proof (cases "drError s")
        case (Some e)
        then show ?thesis using True eq stop w2(2,4) kept by (auto simp: other_logs_kept_def)
      next
        case None
        have "case wk_view w3 i of None \<Rightarrow> True | Some p \<Rightarrow> \<not> active p \<or> tContainerID p = []"
          by (simp add: stop(3) active_def stopped_record_inactive)
        note rec = forget_record_effect [OF stop(1) this, of v]
        have "wk_view w3 i = Some (stopped_record v p p)" "\<not> active (stopped_record v p p) \<or> tContainerID (stopped_record v p p) = []"
          by (simp_all add: stop(3) active_def stopped_record_inactive)
        note logs = cleared [OF kept forget_record_logs [OF stop(1) this, of v]]
        show ?thesis using True None eq stop w2(2,4) rec logs by auto
      qed
    qed
  qed
qed

theorem forget_settled_witness:
  "(let failed = (contained ''c'')\<lparr>tState := Failed\<rparr> in
    wDocker (snd (ForgetTask demo_wenv 1 (demo_worker [''c''] [failed]))) = [''c'']
    \<and> wk_view (snd (ForgetTask demo_wenv 1 (demo_worker [''c''] [failed]))) 1 = None)
   \<and> 1 \<notin> tID ` set (q_items (wQueue (snd (ForgetTask demo_wenv 1 demo_restarting))))"
proof -
  let ?f = "(contained ''c'')\<lparr>tState := Failed\<rparr>"
  have api: "docker_laws set (veApi demo_wenv)" by (simp add: demo_wenv_def memory_docker_laws)
  have 1: "wk_view (demo_worker [''c''] [?f]) 1 = Some ?f" by (simp add: demo_worker_ok contained_def)
  have 2: "wk_view demo_restarting 1 = Some (contained ''c'')" by (simp add: demo_restarting_ok)
  show ?thesis
    using forget_settled [OF api demo_worker_ok(2) 1] forget_settled [OF api demo_restarting_ok(1) 2]
    by (fastforce simp: Let_def active_def demo_worker_ok)
qed

end
