(* ===== verification/WorkerApi.thy ===== *)
theory WorkerApi
  imports ManagerApi Containers Capture
begin

text \<open>
  What a worker reports, \<open>CollectStats\<close> and \<open>hostPorts\<close> of \<open>worker/worker.go\<close>, and its HTTP handlers,
  \<open>worker/handlers.go\<close>: each maps the decoded request to a reply and the new worker. The kernel's
  socket tables are read by a library: \<open>netstat\<close> is what it returns, before the filter it is given.
\<close>

section \<open>Statistics\<close>

definition cpu_fraction :: "fpu \<Rightarrow> u64 \<Rightarrow> u64 \<Rightarrow> 'd worker \<Rightarrow> float64" where
  "cpu_fraction F totalCpu idle w =
     (if wHavePrevCpu w \<and> totalCpu \<ge> wPrevCpuTotal w \<and> idle \<ge> wPrevCpuIdle w then
        (let dTotal = totalCpu - wPrevCpuTotal w in
         if dTotal > 0 then
           (let dIdle = idle - wPrevCpuIdle w;
                dIdle = (if dIdle > dTotal then dTotal else dIdle)
            in fDiv F (fOfInt F (uint (dTotal - dIdle))) (fOfInt F (uint dTotal)))
         else 0)
      else 0)"

fun running_totals :: "task list \<Rightarrow> int \<Rightarrow> i64 \<Rightarrow> int \<times> i64" where
  "running_totals [] n mem = (n, mem)"
| "running_totals (t # ts) n mem =
     (if tState t \<noteq> Running then running_totals ts n mem
      else running_totals ts (n + 1) (wrap64 (mem + tMemory t)))"

text \<open>One pass of \<open>CollectStats\<close>; \<open>fresh\<close> is what \<open>stats.GetStats\<close> returned.\<close>

definition CollectStats_pass :: "fpu \<Rightarrow> int \<Rightarrow> stats \<Rightarrow> 'd worker \<Rightarrow> 'd worker" where
  "CollectStats_pass F numCPU fresh w =
     (let (idle, nonIdle) = CpuUsageSplit fresh;
          totalCpu = idle + nonIdle;
          cpuUsage = cpu_fraction F totalCpu idle w;
          w = w\<lparr>wPrevCpuTotal := totalCpu, wPrevCpuIdle := idle, wHavePrevCpu := True\<rparr>;
          fresh = fresh\<lparr>stCpuUsage := cpuUsage, stCores := numCPU\<rparr>
      in case wk_getTasks w of
           (ts, w) \<Rightarrow>
             (case running_totals ts 0 0 of
                (n, mem) \<Rightarrow> w\<lparr>wStats := Some (fresh\<lparr>stTaskCount := n, stMemoryAllocated := mem\<rparr>)\<rparr>))"

section \<open>Occupied host ports\<close>

record sock =
  skListen :: bool
  skPort :: "int option"

record netstat =
  nsTCP :: "gerror + sock list"
  nsTCP6 :: "gerror + sock list"
  nsUDP :: "gerror + sock list"
  nsUDP6 :: "gerror + sock list"

definition add_port :: "int \<Rightarrow> int list \<Rightarrow> int list" where
  "add_port p xs = (if p \<noteq> 0 \<and> p \<notin> set xs then xs @ [p] else xs)"

definition add_socks :: "sock list \<Rightarrow> int list \<Rightarrow> int list" where
  "add_socks es xs = fold (\<lambda>e xs. case skPort e of None \<Rightarrow> xs | Some p \<Rightarrow> add_port p xs) es xs"

definition tcpListen :: "sock \<Rightarrow> bool" where
  "tcpListen s \<longleftrightarrow> skListen s \<and> skPort s \<noteq> None"

text \<open>One family of sockets: the ports seen so far and the errors so far.\<close>

definition read_socks ::
  "string \<Rightarrow> (sock \<Rightarrow> bool) \<Rightarrow> gerror + sock list \<Rightarrow> int list \<times> gerror list \<Rightarrow> int list \<times> gerror list" where
  "read_socks what accept r st =
     (case st of (xs, errs) \<Rightarrow>
        (case r of
           Inl err \<Rightarrow> (xs, errs @ [wrapf (''reading '' @ what @ '' sockets: '') err])
         | Inr es \<Rightarrow> (add_socks (filter accept es) xs, errs)))"

text \<open>The mappings of a task: none skipped but port 0; any other protocol ends the whole inventory.\<close>

fun add_mappings :: "port_mapping list \<Rightarrow> int list \<times> int list \<Rightarrow> (int list \<times> int list) option" where
  "add_mappings [] occ = Some occ"
| "add_mappings (pm # pms) (tcp, udp) =
     (if HostPort pm = 0 then add_mappings pms (tcp, udp)
      else if Protocol pm = [] \<or> Protocol pm = ''tcp'' then add_mappings pms (add_port (HostPort pm) tcp, udp)
      else if Protocol pm = ''udp'' then add_mappings pms (tcp, add_port (HostPort pm) udp)
      else None)"

definition StateRunning :: string where "StateRunning = ''running''"

definition StateRestarting :: string where "StateRestarting = ''restarting''"

text \<open>
  The mappings a running task occupies now: none for a record whose container no longer runs, an
  error when the inspection does not tell.
\<close>

definition running_mappings :: "'d wenv \<Rightarrow> task \<Rightarrow> gerror + inspection \<Rightarrow> gerror + port_mapping list" where
  "running_mappings v t r =
     (case r of
        Inl err \<Rightarrow> Inl (wrapf (''inspecting task '' @ veIdString v (tID t) @ '': '') err)
      | Inr resp \<Rightarrow>
          (case inState resp of
             None \<Rightarrow> Inl (errorf (''inspecting task '' @ veIdString v (tID t) @ '' returned no container state''))
           | Some s \<Rightarrow>
               if csStatus s \<noteq> StateRunning \<and> csStatus s \<noteq> StateRestarting then Inr []
               else (case inPorts resp of
                  None \<Rightarrow> Inl (errorf (''inspecting task '' @ veIdString v (tID t) @ '' returned no network settings''))
                | Some ps \<Rightarrow> Inr (PortMappingsFromPortMap ps))))"

definition task_mappings :: "'d wenv \<Rightarrow> task \<Rightarrow> 'd worker \<Rightarrow> (gerror + port_mapping list) \<times> 'd worker" where
  "task_mappings v t w =
     (if tState t = Scheduled then (Inr (tPorts t), w)
      else if tState t = Running \<and> (\<exists>pm\<in>set (tPorts t). HostPort pm \<noteq> 0)
      then (case InspectTask v t w of (r, w) \<Rightarrow> (running_mappings v t r, w))
      else (Inr [], w))"

definition bad_protocol :: gerror where
  "bad_protocol = errorf (''non '' @ [CHR 0x27, CHR 0x27, CHR ''/'', CHR 0x27] @ ''tcp'' @ [CHR 0x27, CHR ''/'', CHR 0x27]
     @ ''udp'' @ [CHR 0x27] @ '' mapping entry ended up in the portmappings slice'')"

fun task_ports ::
  "'d wenv \<Rightarrow> task list \<Rightarrow> int list \<times> int list \<Rightarrow> gerror list \<Rightarrow> 'd worker
     \<Rightarrow> ((int list \<times> int list) \<times> gerror list) option \<times> 'd worker" where
  "task_ports v [] occ errs w = (Some (occ, errs), w)"
| "task_ports v (t # ts) occ errs w =
     (case task_mappings v t w of
        (Inl err, w) \<Rightarrow> task_ports v ts occ (errs @ [err]) w
      | (Inr pms, w) \<Rightarrow>
          (case add_mappings pms occ of
             None \<Rightarrow> (None, w)
           | Some occ \<Rightarrow> task_ports v ts occ errs w))"

definition hostPorts :: "'d wenv \<Rightarrow> netstat \<Rightarrow> 'd worker \<Rightarrow> (occupied_ports \<times> gerror option) \<times> 'd worker" where
  "hostPorts v ns w =
     (let (tcp, errs) = read_socks ''TCP listening'' tcpListen (nsTCP6 ns)
                          (read_socks ''TCP listening'' tcpListen (nsTCP ns) ([], []));
          (udp, errs) = read_socks ''UDP'' (\<lambda>s. True) (nsUDP6 ns) (read_socks ''UDP'' (\<lambda>s. True) (nsUDP ns) ([], errs))
      in case wk_listTasks w of
           (listed, w) \<Rightarrow>
             (case (case listed of
                      Inl err \<Rightarrow> task_ports v [] (tcp, udp) (errs @ [wrapf ''listing worker tasks: '' err]) w
                    | Inr ts \<Rightarrow> task_ports v ts (tcp, udp) errs w) of
                (None, w) \<Rightarrow> ((\<lparr>occTCP = [], occUDP = []\<rparr>, Some bad_protocol), w)
              | (Some ((tcp, udp), errs), w) \<Rightarrow> ((\<lparr>occTCP = sort tcp, occUDP = sort udp\<rparr>, errors_Join errs), w)))"

section \<open>Handlers\<close>

definition wk_StartTaskHandler :: "'d wenv \<Rightarrow> gerror + task_event \<Rightarrow> 'd worker \<Rightarrow> reply \<times> 'd worker" where
  "wk_StartTaskHandler v request w =
     (case request of
        Inl err \<Rightarrow> (unmarshalling_error err, w)
      | Inr te \<Rightarrow>
          (case (if eState te \<noteq> Completed \<and> tState (eTask te) \<noteq> Completed
                 then ValidatePortMappings (veExt v) (tPorts (eTask te)) else None) of
             Some err \<Rightarrow> (HttpResponseHelper (err_msg err) 400, w)
           | None \<Rightarrow>
               (case wk_AddTask v (eTask te) w of
                  (Some err, w) \<Rightarrow>
                    (HttpResponseHelper (err_msg err) (if errors_Is err ErrNotFound then 404 else 500), w)
                | (None, w) \<Rightarrow> (\<lparr>rpStatus = 201, rpHeader = [], rpBody = TaskBody (eTask te)\<rparr>, w))))"

definition wk_GetTasksHandler :: "'d worker \<Rightarrow> reply \<times> 'd worker" where
  "wk_GetTasksHandler w = (case wk_getTasks w of (ts, w) \<Rightarrow> (json_reply 200 (TaskList ts), w))"

definition ForgetTaskHandler :: "'d wenv \<Rightarrow> string \<Rightarrow> 'd worker \<Rightarrow> reply \<times> 'd worker" where
  "ForgetTaskHandler v taskID w =
     (if taskID = [] then (plain 400, w)
      else case uuid_Parse (veExt v) taskID of
        None \<Rightarrow> (plain 400, w)
      | Some i \<Rightarrow>
          (case ForgetTask v i w of
             (Some err, w) \<Rightarrow>
               (if errors_Is err ErrNotFound then plain 404 else HttpResponseHelper (err_msg err) 500, w)
           | (None, w) \<Rightarrow> (plain 204, w)))"

definition GetStatsHandler :: "'d worker \<Rightarrow> reply" where
  "GetStatsHandler w = json_reply 200 (StatsBody (wStats w))"

definition GetPortsHandler :: "'d wenv \<Rightarrow> netstat \<Rightarrow> 'd worker \<Rightarrow> reply \<times> 'd worker" where
  "GetPortsHandler v ns w =
     (case hostPorts v ns w of
        ((ports, Some err), w) \<Rightarrow> (HttpResponseHelper (''error reading occupied host ports: '' @ err_msg err) 500, w)
      | ((ports, None), w) \<Rightarrow> (json_reply 200 (PortsBody ports), w))"

definition wk_PullImageHandler :: "'d wenv \<Rightarrow> gerror + string \<Rightarrow> 'd worker \<Rightarrow> reply \<times> 'd worker" where
  "wk_PullImageHandler v request w =
     (case request of
        Inl err \<Rightarrow> (unmarshalling_error err, w)
      | Inr raw \<Rightarrow>
          (let img = trim_space raw in
           if img = [] then (HttpResponseHelper (''field '' @ go_quote ''image'' @ '' is required'') 400, w)
           else case PullImage v img w of
             ((Some err, _), w) \<Rightarrow>
               (HttpResponseHelper (''error pulling image '' @ go_quote img @ '': '' @ err_msg err) 500, w)
           | ((None, pulled), w) \<Rightarrow> (json_reply 200 (PulledBody img pulled), w)))"

definition logs_reply :: "task \<Rightarrow> TaskLogsResult \<Rightarrow> reply" where
  "logs_reply t r =
     \<lparr>rpStatus = 200,
      rpHeader = text_plain # (''X-Task-State'', state_String (tState t))
        # (case tlExitCode r of None \<Rightarrow> [] | Some c \<Rightarrow> [(''X-Exit-Code'', itoa c)]),
      rpBody = (if tlLogs r = [] then NoBody else TextBody (tlLogs r))\<rparr>"

definition wk_GetTaskLogsHandler :: "'d wenv \<Rightarrow> string \<Rightarrow> string \<Rightarrow> 'd worker \<Rightarrow> reply \<times> 'd worker" where
  "wk_GetTaskLogsHandler v ref rawTail w =
     (if ref = [] then (plain 400, w)
      else case wk_resolveTask v ref w of
        ((t, found, ambiguous), w) \<Rightarrow>
          if ambiguous
          then (HttpResponseHelper (''multiple tasks named '' @ go_quote ref @ '' exist; fetch logs by task UUID instead'') 409, w)
          else if \<not> found then (plain 404, w)
          else (case GetTaskLogs v t (ParseTail rawTail) w of (r, w) \<Rightarrow> (logs_reply t r, w)))"

section \<open>The inventory is complete\<close>



lemma add_port_set [simp]: "set (add_port p xs) = set xs \<union> {p} - (if p \<in> set xs then {} else {0} \<inter> {p})"
  by (auto simp: add_port_def)








section \<open>Accepting events\<close>

text \<open>The task as an accepted start leaves it: what it does not say itself comes from the record it replaces.\<close>

definition started_as :: "task option \<Rightarrow> task \<Rightarrow> task" where
  "started_as recorded t =
     (case recorded of
        None \<Rightarrow> t
      | Some p \<Rightarrow> t\<lparr>tContainerID := if tContainerID t = [] then tContainerID p else tContainerID t,
                     tHostPorts := if tHostPorts t = [] then tHostPorts p else tHostPorts t\<rparr>)"

lemma started_as_adopt: "started_as (Some p) t = adopt t p"
  by (simp add: started_as_def adopt_def Let_def)

lemma wk_AddTask_effect:
  assumes "wk_ok w"
  shows "case Validate (veExt v) t of
      Some err \<Rightarrow> wk_AddTask v t w = (Some err, w)
    | None \<Rightarrow>
        if tState t \<noteq> Scheduled \<and> wk_view w (tID t) = None
        then fst (wk_AddTask v t w) = Some (unknown_task v (tID t)) \<and> wk_view (snd (wk_AddTask v t w)) = wk_view w
          \<and> wQueue (snd (wk_AddTask v t w)) = wQueue w
        else fst (wk_AddTask v t w) = None
          \<and> (if tState t = Scheduled
             then (let q = started_as (wk_view w (tID t)) t in
                   wk_view (snd (wk_AddTask v t w)) = (wk_view w)(tID t \<mapsto> q)
                   \<and> q_items (wQueue (snd (wk_AddTask v t w))) = q_items (wQueue w) @ [q])
             else wk_view (snd (wk_AddTask v t w)) = wk_view w
               \<and> q_items (wQueue (snd (wk_AddTask v t w))) = q_items (wQueue w) @ [t])"
proof (cases "Validate (veExt v) t")
  case (Some err)
  then show ?thesis by (simp add: wk_AddTask_def)
next
  case None
  have db: "wDb w \<noteq> None" using assms by (simp add: wk_ok_def)
  obtain r w1 where g: "wk_Get (tID t) w = (r, w1)" by fastforce
  have w1: "r = (case wk_view w (tID t) of None \<Rightarrow> Inl not_found | Some t \<Rightarrow> Inr t)"
      "wk_view w1 = wk_view w" "wk_ok w1" "wQueue w1 = wQueue w"
    using wk_Get_effect [OF assms, of "tID t"] g by simp_all
  have enq: "q_items (wQueue (wk_enqueue e w)) = q_items (wQueue w) @ [e]" for e and w :: "'a worker"
    by (simp add: wk_enqueue_def Enqueue_def)
  have put: "\<exists>w2. wk_Put (tID t) q w1 = (None, w2) \<and> wk_view w2 = (wk_view w)(tID t \<mapsto> q) \<and> wQueue w2 = wQueue w"
    if "tID q = tID t" for q
    using wk_Put_effect [OF w1(3) that] w1(2,4) by (cases "wk_Put (tID t) q w1") simp
  show ?thesis
  proof (cases "tState t = Scheduled")
    case False
    then show ?thesis using None db g w1 enq
      by (cases "wk_view w (tID t)") (simp_all add: wk_AddTask_def not_found_def del: not_None_eq)
  next
    case True
    show ?thesis
    proof (cases "wk_view w (tID t)")
      case n: None
      obtain w2 where "wk_Put (tID t) t w1 = (None, w2)" "wk_view w2 = (wk_view w)(tID t \<mapsto> t)" "wQueue w2 = wQueue w"
        using put [of t] by auto
      with True None n db g w1(1) enq show ?thesis
        by (auto simp: wk_AddTask_def accept_start_def not_found_def started_as_def Let_def)
    next
      case (Some p)
      obtain w2 where "wk_Put (tID t) (adopt t p) w1 = (None, w2)"
          "wk_view w2 = (wk_view w)(tID t \<mapsto> adopt t p)" "wQueue w2 = wQueue w"
        using put [of "adopt t p"] by (auto simp: adopt_ids)
      with True None Some db g w1(1) enq show ?thesis
        by (auto simp: wk_AddTask_def accept_start_def adopt_ids started_as_adopt Let_def)
    qed
  qed
qed

lemma Validate_ports: "Validate x t = None \<Longrightarrow> ValidatePortMappings x (tPorts t) = None"
  by (simp only: Validate_def errors_Join_None map_filter_id_Nil set_simps ball_simps simp_thms)

text \<open>
  C24: what a worker answers to a submission, while its task store works. An invalid task is refused and
  changes nothing. A valid start is answered with 201: the task as submitted, with the container and
  the host ports of the record it replaces where it names none itself, is on record, and that very task
  waits at the end of the queue; no other record changes. A valid event of another state is answered
  with 201 and queued as it came when the task is on record; otherwise it is answered with 404 and
  nothing changes.
\<close>

theorem worker_reply:
  assumes "wk_StartTaskHandler v (Inr te) w = (rep, w')" "wk_ok w"
  shows "if Validate (veExt v) (eTask te) \<noteq> None then rpStatus rep \<in> {400, 404, 500} \<and> w' = w
    else if tState (eTask te) \<noteq> Scheduled \<and> wk_view w (tID (eTask te)) = None
    then rpStatus rep = 404 \<and> wk_view w' = wk_view w \<and> wQueue w' = wQueue w
    else rpStatus rep = 201 \<and> rpBody rep = TaskBody (eTask te)
      \<and> (if tState (eTask te) = Scheduled
         then (let q = started_as (wk_view w (tID (eTask te))) (eTask te) in
               wk_view w' = (wk_view w)(tID (eTask te) \<mapsto> q) \<and> q_items (wQueue w') = q_items (wQueue w) @ [q])
         else wk_view w' = wk_view w \<and> q_items (wQueue w') = q_items (wQueue w) @ [eTask te])"
proof -
  let ?t = "eTask te"
  obtain r w1 where a: "wk_AddTask v ?t w = (r, w1)" by fastforce
  note eff = wk_AddTask_effect [OF assms(2), of ?t v, unfolded a fst_conv snd_conv]
  have unknown: "errors_Is (unknown_task v i) ErrNotFound" for i by (simp add: unknown_task_def errors_Is_def)
  show ?thesis
  proof (cases "Validate (veExt v) ?t")
    case (Some err)
    then have "r = Some err" "w1 = w" using eff by simp_all
    with assms(1) a Some show ?thesis
      by (auto simp: wk_StartTaskHandler_def HttpResponseHelper_def split: option.splits if_splits)
  next
    case None
    then have pre: "(if eState te \<noteq> Completed \<and> tState ?t \<noteq> Completed
        then ValidatePortMappings (veExt v) (tPorts ?t) else None) = None" using Validate_ports by simp
    have h: "(rep, w') = (case r of
        Some err \<Rightarrow> (HttpResponseHelper (err_msg err) (if errors_Is err ErrNotFound then 404 else 500), w1)
      | None \<Rightarrow> (\<lparr>rpStatus = 201, rpHeader = [], rpBody = TaskBody ?t\<rparr>, w1))"
      using assms(1) unfolding wk_StartTaskHandler_def sum.case pre a prod.case by simp
    show ?thesis
    proof (cases "tState ?t \<noteq> Scheduled \<and> wk_view w (tID ?t) = None")
      case True
      with eff None h unknown show ?thesis by (simp add: HttpResponseHelper_def)
    next
      case False
      then have c: "(tState ?t \<noteq> Scheduled \<and> wk_view w (tID ?t) = None) = False" by blast
      note e = eff [unfolded None option.case c if_False]
      then have "rpStatus rep = 201" "rpBody rep = TaskBody ?t" "w' = w1" using h by simp_all
      with e show ?thesis unfolding None c if_False by simp
    qed
  qed
qed

section \<open>Lost starts\<close>

text \<open>Record \<open>p\<close> of task \<open>i\<close> is left alone by the refreshes, which write running records only.\<close>

definition spared :: "uuid \<Rightarrow> task \<Rightarrow> 'd worker \<Rightarrow> bool" where
  "spared i p w \<longleftrightarrow> wk_ok w \<and> wk_view w i = Some p"

lemma spared_quiet: "spared i p w \<Longrightarrow> wk_quiet w w' \<Longrightarrow> spared i p w'"
  using wk_quietD [of w w'] by (simp add: spared_def)

lemma spared_Put:
  assumes "spared i p w" "tID q = j" "j \<noteq> i"
  shows "spared i p (snd (wk_Put j q w))"
  using wk_Put_effect(1,2) [of w q j] assms by (simp add: spared_def)

lemma spared_Get: "spared i p w \<Longrightarrow> spared i p (snd (wk_Get j w))"
  using wk_Get_effect(2,3) [of w j] by (simp add: spared_def)

lemma captureLogs_quiet: "wk_quiet w (captureLogs v t c s w)"
proof -
  obtain p w1 where p: "peekStoredLogs (tID t) w = (p, w1)" by fastforce
  obtain g w2 where g: "docker_Logs v (tContainerID t) (veLogLines v) w1 = (g, w2)" by fastforce
  have "wk_quiet w w1" using wk_quiet_logs(3) [of w "tID t"] p by simp
  moreover have "wk_quiet w1 w2" using wk_quiet_docker(1) [of w1 v] g by (metis snd_conv)
  ultimately have "wk_quiet w w1" "wk_quiet w w2" by (simp_all add: wk_quiet_trans)
  moreover have "wk_quiet w (storeLogsIfAbsent v j x c s w2)" for j x
    using \<open>wk_quiet w w2\<close> wk_quiet_logs(1) by (rule wk_quiet_trans)
  ultimately show ?thesis using p g by (simp add: captureLogs_def split: option.split sum.split)
qed

lemma timeout_container_quiet: "wk_quiet w (timeout_container v t w)"
proof -
  obtain g w1 where g: "docker_Logs v (tContainerID t) (veLogLines v) w = (g, w1)" by fastforce
  have 1: "wk_quiet w w1" using wk_quiet_docker(1) [of w v] g by (metis snd_conv)
  have 2: "wk_quiet w (snd (docker_Stop v c w1))" for c by (rule wk_quiet_trans [OF 1 wk_quiet_docker(3)])
  have "wk_quiet w (storeLogsIfAbsent v j x e s (snd (docker_Stop v c w1)))" for j x e s c
    by (rule wk_quiet_trans [OF 2 wk_quiet_logs(1)])
  with 2 g show ?thesis by (simp add: timeout_container_def Let_def split: option.split sum.split)
qed

lemma spared_timeout:
  assumes "spared i p w" "tState p \<noteq> Running"
  shows "spared i p (timeoutTask v t w)"
proof -
  define w1 where "w1 = timeout_container v t w"
  have 1: "spared i p w1" unfolding w1_def by (rule spared_quiet [OF assms(1) timeout_container_quiet])
  obtain r w2 where g: "wk_Get (tID t) w1 = (r, w2)" by fastforce
  have 2: "spared i p w2" using spared_Get [OF 1, of "tID t"] g by simp
  have "spared i p (snd (wk_Put (tID q) (timed_out t q) w2))" if "r = Inr q" "tState q = Running" for q
  proof (rule spared_Put [OF 2])
    have ok: "wk_ok w1" using 1 by (simp add: spared_def)
    then have "wk_view w1 (tID t) = Some q" using wk_Get_effect(1) [OF ok, of "tID t"] g that(1) by (auto split: option.splits)
    moreover from this have "tID q = tID t" using ok by (simp add: wk_ok_def)
    ultimately show "tID q \<noteq> i" using 1 assms(2) that(2) by (auto simp: spared_def)
  qed (simp add: timed_out_def)
  then show ?thesis using 1 2 g by (simp add: timeoutTask_def w1_def [symmetric] Let_def split: sum.split)
qed

lemma spared_refresh:
  assumes "spared i p w" "tState p \<noteq> Running"
  shows "spared i p (refresh_task v t w)"
proof -
  obtain resp w1 where r: "InspectTask v t w = (resp, w1)" by fastforce
  have "wk_quiet w (snd (InspectTask v t w))" by (simp add: InspectTask_def split: option.split)
  then have "wk_quiet w w1" using r by simp
  then have 1: "spared i p w1" by (rule spared_quiet [OF assms(1)])
  obtain x w2 where g: "wk_Get (tID t) w1 = (x, w2)" by fastforce
  have 2: "spared i p w2" using spared_Get [OF 1, of "tID t"] g by simp
  have put: "spared i p (snd (wk_Put (tID t) u w2))" if "x = Inr q" "tState q = Running" "tID u = tID q" for q u
  proof -
    have ok: "wk_ok w1" using 1 by (simp add: spared_def)
    then have v: "wk_view w1 (tID t) = Some q" using wk_Get_effect(1) [OF ok, of "tID t"] g that(1) by (auto split: option.splits)
    then have "tID q = tID t" using ok by (simp add: wk_ok_def)
    moreover have "tID t \<noteq> i" using v 1 assms(2) that(2) by (auto simp: spared_def)
    ultimately show ?thesis using spared_Put [OF 2, of u] that(3) by simp
  qed
  have lost: "spared i p (snd (wk_Put (tID t) (lost_container e q) w2))" if "x = Inr q" "tState q = Running" for q e
    by (rule put [OF that]) (simp add: lost_container_def)
  have refr: "spared i p (case refreshed v y s q of (u, capture) \<Rightarrow>
        let w = snd (wk_Put (tID t) u w2) in
          case capture of None \<Rightarrow> w | Some (c, o') \<Rightarrow> captureLogs v u c o' w)"
    if "x = Inr q" "tState q = Running" for q y s
  proof (cases "refreshed v y s q")
    case (Pair u c)
    note w3 = put [OF that refreshed_ids(1) [OF Pair]]
    show ?thesis using w3 spared_quiet [OF w3 captureLogs_quiet] Pair by (simp add: Let_def split: option.split prod.split)
  qed
  show ?thesis using r g 1 2 lost refr
    by (simp add: refresh_task_def split: sum.split option.split)
qed

lemma spared_update:
  assumes "spared i p w" "tState p \<noteq> Running"
  shows "spared i p (wk_updateTasks v w)"
proof -
  have fold: "spared i p (fold (\<lambda>t w. if taskTimedOut (veNow v) t then timeoutTask v t w else refresh_task v t w) ts w)"
    if "spared i p w" for ts w
    using that by (induction ts arbitrary: w) (simp_all add: spared_timeout spared_refresh assms(2))
  obtain ts w1 where g: "wk_getTasks w = (ts, w1)" by fastforce
  have "wk_ok w" using assms(1) by (simp add: spared_def)
  then have "wk_ok w1" using wk_getTasks_keeps [of w "\<lambda>d. {}"] g by (simp add: keeps_def)
  moreover have "wk_view (snd (wk_getTasks w)) = wk_view w"
    by (simp add: wk_getTasks_def wk_listTasks_def wk_view_def case_prod_beta split: sum.split)
  then have "wk_view w1 = wk_view w" using g by simp
  ultimately have "spared i p w1" using assms(1) by (simp add: spared_def)
  then show ?thesis unfolding wk_updateTasks_def g prod.case by (rule fold)
qed

text \<open>
  C26: a start that is accepted but not run survives as a record, not as work. The queue lives in
  memory: on a worker whose queue is empty, as after a new start of the worker process, no loop
  touches the record again, and a stop event, although accepted, is refused by the state machine
  when it runs. The task stays scheduled until it is started once more or forgotten.
\<close>

theorem lost_start_stuck:
  assumes "wk_ok w" "wk_view w i = Some p" "tState p = Scheduled" "q_items (wQueue w) = []"
    and "tID t = i" "tState t = Completed"
  shows "RunTasks_turn v w = w \<and> wk_view (wk_updateTasks v w) i = Some p
    \<and> wk_view (snd (run_event v t w)) = wk_view w \<and> drError (fst (run_event v t w)) \<noteq> None"
proof (intro conjI)
  show "RunTasks_turn v w = w" using assms(4) by (simp add: RunTasks_turn_def queue_Len_def)
  have "spared i p w" using assms(1,2) by (simp add: spared_def)
  then show "wk_view (wk_updateTasks v w) i = Some p" using spared_update [of i p w v] assms(3) by (simp add: spared_def)
  have db: "wDb w \<noteq> None" using assms(1) by (simp add: wk_ok_def)
  obtain w1 where g: "wk_Get i w = (Inr p, w1)" "wk_view w1 = wk_view w"
    using wk_Get_effect(1,2) [OF assms(1), of i] assms(2) by (cases "wk_Get i w") simp
  define u where "u = mergeQueuedWithPersisted t p"
  have "tState u = Completed" using assms(6) by (simp add: u_def)
  moreover have "\<not> ValidStateTransition Scheduled Completed" by (simp add: ValidStateTransition_def)
  ultimately have "run_event v t w = (docker_error [] (bad_transition v u (tState p)), w1)"
    using db g(1) assms(3,5) by (simp add: run_event_def run_record_def u_def [symmetric] Let_def del: not_None_eq)
  then show "wk_view (snd (run_event v t w)) = wk_view w" "drError (fst (run_event v t w)) \<noteq> None"
    using g(2) by simp_all
qed

definition scheduled_worker :: "string list worker" where
  "scheduled_worker = demo_worker [] [zero_task\<lparr>tID := 1, tState := Scheduled\<rparr>]"

lemma scheduled_worker_ok:
  "wk_ok scheduled_worker" "wk_view scheduled_worker = [1 \<mapsto> zero_task\<lparr>tID := 1, tState := Scheduled\<rparr>]"
  "q_items (wQueue scheduled_worker) = []"
  using demo_worker_ok(2,4) [of "[]" "zero_task\<lparr>tID := 1, tState := Scheduled\<rparr>"]
  by (simp_all add: scheduled_worker_def) (simp add: demo_worker_def queue_New_def)

theorem lost_start_stuck_witness:
  "drError (fst (run_event demo_wenv (zero_task\<lparr>tID := 1, tState := Completed\<rparr>) scheduled_worker)) \<noteq> None
   \<and> RunTasks_turn demo_wenv scheduled_worker = scheduled_worker"
proof -
  let ?p = "zero_task\<lparr>tID := 1, tState := Scheduled\<rparr>" and ?t = "zero_task\<lparr>tID := 1, tState := Completed\<rparr>"
  have p: "wk_view scheduled_worker 1 = Some ?p" "tState ?p = Scheduled" "tID ?t = 1" "tState ?t = Completed"
    by (simp_all add: scheduled_worker_ok)
  show ?thesis
    using lost_start_stuck [OF scheduled_worker_ok(1) p(1,2) scheduled_worker_ok(3) p(3,4), of demo_wenv] by blast
qed

theorem worker_reply_witness:
  "\<exists>rep w'. wk_StartTaskHandler demo_wenv
       (Inr \<lparr>eID = 5, eState = Scheduled, eTimestamp = 0, eTask = zero_task\<lparr>tID := 1, tState := Scheduled\<rparr>\<rparr>)
       (demo_worker [''c''] [contained ''c'']) = (rep, w') \<and> rpStatus rep = 201
     \<and> wk_view w' 1 = Some ((contained ''c'')\<lparr>tState := Scheduled\<rparr>)
     \<and> q_items (wQueue w') = [(contained ''c'')\<lparr>tState := Scheduled\<rparr>]"
proof -
  let ?t = "zero_task\<lparr>tID := 1, tState := Scheduled\<rparr>"
  let ?te = "\<lparr>eID = 5, eState = Scheduled, eTimestamp = 0, eTask = ?t\<rparr>"
  let ?w = "demo_worker [''c''] [contained ''c'']"
  obtain rep w' where h: "wk_StartTaskHandler demo_wenv (Inr ?te) ?w = (rep, w')" by fastforce
  have valid: "Validate (veExt demo_wenv) (eTask ?te) = None"
    by (simp add: demo_wenv_def Validate_None [OF std_ext_ok] task_ok_def zero_task_def ports_ok_def)
  have view: "wk_view ?w 1 = Some (contained ''c'')" by (simp add: demo_worker_ok contained_def)
  have q: "q_items (wQueue ?w) = []" by (simp add: demo_worker_def queue_New_def)
  have "started_as (Some (contained ''c'')) ?t = (contained ''c'')\<lparr>tState := Scheduled\<rparr>"
    by (simp add: started_as_def contained_def zero_task_def)
  then show ?thesis using worker_reply [OF h demo_worker_ok(2)] h valid view q by (auto simp: Let_def)
qed

section \<open>Reported statistics\<close>

lemma running_totals_eq:
  "running_totals ts n mem = (n + int (length (filter (\<lambda>t. tState t = Running) ts)),
     fold (\<lambda>t m. wrap64 (m + tMemory t)) (filter (\<lambda>t. tState t = Running) ts) mem)"
  by (induction ts arbitrary: n mem) simp_all

lemma wrap64_add: "wrap64 (wrap64 a + b) = wrap64 (a + b)"
proof -
  have "wrap64 a + b + 2 ^ 63 = (a + 2 ^ 63) mod 2 ^ 64 + b" by (simp add: wrap64_def)
  then show ?thesis unfolding wrap64_def by (simp add: mod_add_left_eq) (metis (no_types) add.assoc add.commute mod_add_left_eq)
qed

lemma running_memory: "fold (\<lambda>t m. wrap64 (m + tMemory t)) ts (wrap64 a) = wrap64 (a + sum_list (map tMemory ts))"
proof (induction ts arbitrary: a)
  case (Cons t ts)
  show ?case using Cons.IH [of "a + tMemory t"] by (simp add: wrap64_add add.assoc)
qed simp

lemma cpu_fraction_bounds:
  "cpu_fraction F totalCpu idle w = 0
   \<or> (\<exists>a b. cpu_fraction F totalCpu idle w = fDiv F (fOfInt F a) (fOfInt F b) \<and> 0 \<le> a \<and> a \<le> b \<and> 0 < b \<and> b < 2 ^ 64)"
proof (cases "cpu_fraction F totalCpu idle w = 0")
  case False
  define dt where "dt = totalCpu - wPrevCpuTotal w"
  define di where "di = (if idle - wPrevCpuIdle w > dt then dt else idle - wPrevCpuIdle w)"
  have pos: "0 < dt" using False by (auto simp: cpu_fraction_def dt_def Let_def split: if_splits)
  have "cpu_fraction F totalCpu idle w = fDiv F (fOfInt F (uint (dt - di))) (fOfInt F (uint dt))"
    using False pos unfolding cpu_fraction_def dt_def di_def by (simp add: Let_def split: if_splits)
  moreover have "dt - di \<le> dt" by (simp add: di_def word_sub_le)
  moreover have "0 < uint dt" using pos by (simp add: word_less_def)
  moreover have "uint dt < 2 ^ 64" using uint_lt2p [of dt] by simp
  ultimately show ?thesis by (intro disjI2 exI [of _ "uint (dt - di)"] exI [of _ "uint dt"]) (simp add: word_le_def)
qed simp

text \<open>
  What a worker reports of itself: how many of its records are running and the memory they
  reserve (modulo 64 bits), with a CPU usage that is 0 on the first sample and whenever the counters
  did not advance, and otherwise a quotient of integers between 0 and 1, never divided by 0.
\<close>

theorem stats_collected:
  assumes "wk_ok w"
  shows "\<exists>s ts. wStats (CollectStats_pass F cores fresh w) = Some s \<and> set ts = ran (wk_view w)
    \<and> stTaskCount s = int (length (filter (\<lambda>t. tState t = Running) ts))
    \<and> stMemoryAllocated s = wrap64 (sum_list (map tMemory (filter (\<lambda>t. tState t = Running) ts)))
    \<and> stCores s = cores
    \<and> (stCpuUsage s = 0 \<or> wHavePrevCpu w \<and>
        (\<exists>a b. stCpuUsage s = fDiv F (fOfInt F a) (fOfInt F b) \<and> 0 \<le> a \<and> a \<le> b \<and> 0 < b))"
proof -
  obtain idle nonIdle where split: "CpuUsageSplit fresh = (idle, nonIdle)" by fastforce
  define w1 where "w1 = w\<lparr>wPrevCpuTotal := idle + nonIdle, wPrevCpuIdle := idle, wHavePrevCpu := True\<rparr>"
  have db: "wDb w1 \<noteq> None" "db_healthy (wDb w1)" "db_wf (wDb w1)" using assms by (simp_all add: w1_def wk_ok_def)
  obtain ts where ts: "fst (db_List (wDb w1)) = Inr ts" using db_healthy_List [OF db(2)] ..
  have mem: "set ts = ran (wk_view w)" using db_List_Inr [OF db(3) ts] by (simp add: wk_view_def w1_def)
  obtain w2 where g: "wk_getTasks w1 = (ts, w2)"
    using db(1) ts by (cases "db_List (wDb w1)") (simp add: wk_getTasks_def wk_listTasks_def del: not_None_eq)
  define u where "u = cpu_fraction F (idle + nonIdle) idle w"
  have first: "u = 0 \<or> wHavePrevCpu w" by (simp add: u_def cpu_fraction_def)
  have "wStats (CollectStats_pass F cores fresh w) = Some (fresh\<lparr>stCpuUsage := u, stCores := cores,
      stTaskCount := int (length (filter (\<lambda>t. tState t = Running) ts)),
      stMemoryAllocated := wrap64 (sum_list (map tMemory (filter (\<lambda>t. tState t = Running) ts)))\<rparr>)"
    using running_memory [of "filter (\<lambda>t. tState t = Running) ts" 0]
    by (simp add: CollectStats_pass_def split Let_def w1_def [symmetric] u_def [symmetric] g running_totals_eq)
  then show ?thesis
    using mem first cpu_fraction_bounds [of F "idle + nonIdle" idle w]
    by (intro exI [of _ "fresh\<lparr>stCpuUsage := u, stCores := cores,
      stTaskCount := int (length (filter (\<lambda>t. tState t = Running) ts)),
      stMemoryAllocated := wrap64 (sum_list (map tMemory (filter (\<lambda>t. tState t = Running) ts)))\<rparr>"] exI [of _ ts])
      (auto simp: u_def [symmetric])
qed

theorem stats_collected_witness:
  "\<forall>F. \<exists>s ts. wStats (CollectStats_pass F 4 zero_stats scheduled_worker) = Some s
     \<and> set ts = {zero_task\<lparr>tID := 1, tState := Scheduled\<rparr>} \<and> stCores s = 4"
proof
  fix F
  have "ran (wk_view scheduled_worker) = {zero_task\<lparr>tID := 1, tState := Scheduled\<rparr>}"
    by (simp add: scheduled_worker_ok)
  with stats_collected [OF scheduled_worker_ok(1), of F 4 zero_stats]
  show "\<exists>s ts. wStats (CollectStats_pass F 4 zero_stats scheduled_worker) = Some s
     \<and> set ts = {zero_task\<lparr>tID := 1, tState := Scheduled\<rparr>} \<and> stCores s = 4" by auto
qed

end
