(* ===== verification/Routes.thy ===== *)
theory Routes
  imports Auth WorkerApi
begin

text \<open>
  The HTTP APIs, \<open>manager/api.go\<close> and \<open>worker/api.go\<close>: which handler and which role a route has, and what
  the middleware does before it runs. Matching a request against the patterns is the router's; an
  endpoint is a matched pattern with its parameter.
\<close>

section \<open>The manager's API\<close>

datatype endpoint = EpGetTasks | EpStartTask | EpTaskLogs string | EpStopTask string | EpGetNodes | EpPullImage

definition mgr_pattern :: "endpoint \<Rightarrow> string \<times> string" where
  "mgr_pattern ep =
     (case ep of
        EpGetTasks \<Rightarrow> (''GET'', ''/tasks/'')
      | EpStartTask \<Rightarrow> (''POST'', ''/tasks/'')
      | EpTaskLogs taskID \<Rightarrow> (''GET'', ''/tasks/logs/{taskID}'')
      | EpStopTask taskID \<Rightarrow> (''DELETE'', ''/tasks/{taskID}/'')
      | EpGetNodes \<Rightarrow> (''GET'', ''/nodes/'')
      | EpPullImage \<Rightarrow> (''POST'', ''/images/''))"

definition mgr_role :: "endpoint \<Rightarrow> string" where
  "mgr_role ep =
     (case ep of
        EpGetTasks \<Rightarrow> RoleViewer
      | EpStartTask \<Rightarrow> RoleAdmin
      | EpTaskLogs taskID \<Rightarrow> RoleViewer
      | EpStopTask taskID \<Rightarrow> RoleAdmin
      | EpGetNodes \<Rightarrow> RoleViewer
      | EpPullImage \<Rightarrow> RoleAdmin)"

text \<open>
  What a request carries besides its route: the decoded bodies, the \<open>tail\<close> parameter, a fresh ID and
  how the workers answer.
\<close>

record mgr_request =
  rqTask :: "gerror + task_event"
  rqFresh :: uuid
  rqTail :: string
  rqImage :: "gerror + string \<times> string list"
  rqLogs :: "string \<Rightarrow> string \<Rightarrow> gerror + (string \<Rightarrow> string) \<times> string http_response"
  rqPull :: "string \<Rightarrow> string \<Rightarrow> gerror option \<times> bool"

definition mgr_handler :: "menv \<Rightarrow> mgr_request \<Rightarrow> endpoint \<Rightarrow> manager \<Rightarrow> reply \<times> manager" where
  "mgr_handler e rq ep m =
     (case ep of
        EpGetTasks \<Rightarrow> GetTasksHandler m
      | EpStartTask \<Rightarrow> StartTaskHandler e (rqFresh rq) (rqTask rq) m
      | EpTaskLogs taskID \<Rightarrow> GetTaskLogsHandler e (rqLogs rq) taskID (rqTail rq) m
      | EpStopTask taskID \<Rightarrow> StopTaskHandler e taskID m
      | EpGetNodes \<Rightarrow> (GetNodesHandler m, m)
      | EpPullImage \<Rightarrow> (PullImageHandler (rqPull rq) (rqImage rq) m, m))"

text \<open>\<open>a\<close> is the token store, none when authentication is disabled.\<close>

definition mgr_serve ::
  "crypto \<Rightarrow> token_store option \<Rightarrow> menv \<Rightarrow> mgr_request \<Rightarrow> endpoint \<Rightarrow> string \<Rightarrow> manager \<Rightarrow> reply \<times> manager" where
  "mgr_serve x a e rq ep header m =
     (case a of
        None \<Rightarrow> mgr_handler e rq ep m
      | Some store \<Rightarrow>
          BearerAuth x (Some store) (RequireRoleHandler (mgr_role ep) (\<lambda>ctx. mgr_handler e rq ep)) header m)"

section \<open>The worker's API\<close>

text \<open>A worker has no users: whoever may connect (holders of a cluster certificate) may do everything.\<close>

datatype wk_endpoint = WkStartTask | WkGetTasks | WkTaskLogs string | WkForgetTask string | WkGetStats | WkGetPorts
  | WkPullImage

definition wk_pattern :: "wk_endpoint \<Rightarrow> string \<times> string" where
  "wk_pattern ep =
     (case ep of
        WkStartTask \<Rightarrow> (''POST'', ''/tasks/'')
      | WkGetTasks \<Rightarrow> (''GET'', ''/tasks/'')
      | WkTaskLogs taskID \<Rightarrow> (''GET'', ''/tasks/logs/{taskID}'')
      | WkForgetTask taskID \<Rightarrow> (''DELETE'', ''/tasks/{taskID}/'')
      | WkGetStats \<Rightarrow> (''GET'', ''/stats/'')
      | WkGetPorts \<Rightarrow> (''GET'', ''/ports/'')
      | WkPullImage \<Rightarrow> (''POST'', ''/images/''))"

record wk_request =
  wqTask :: "gerror + task_event"
  wqTail :: string
  wqImage :: "gerror + string"
  wqNet :: netstat

definition wk_serve :: "'d wenv \<Rightarrow> wk_request \<Rightarrow> wk_endpoint \<Rightarrow> 'd worker \<Rightarrow> reply \<times> 'd worker" where
  "wk_serve v rq ep w =
     (case ep of
        WkStartTask \<Rightarrow> wk_StartTaskHandler v (wqTask rq) w
      | WkGetTasks \<Rightarrow> wk_GetTasksHandler w
      | WkTaskLogs taskID \<Rightarrow> wk_GetTaskLogsHandler v taskID (wqTail rq) w
      | WkForgetTask taskID \<Rightarrow> ForgetTaskHandler v taskID w
      | WkGetStats \<Rightarrow> (GetStatsHandler w, w)
      | WkGetPorts \<Rightarrow> GetPortsHandler v (wqNet rq) w
      | WkPullImage \<Rightarrow> wk_PullImageHandler v (wqImage rq) w)"

section \<open>Authorization\<close>

lemma getTaskViews_reads:
  "task_view (snd (getTaskViews m)) = task_view m" "asg_view (snd (getTaskViews m)) = asg_view m"
  "mPending (snd (getTaskViews m)) = mPending m" "mReservations (snd (getTaskViews m)) = mReservations m"
  "mOutbox (snd (getTaskViews m)) = mOutbox m"
  by (simp_all add: getTaskViews_def task_io task_view_def asg_view_def case_prod_beta Let_def
      split: sum.split del: db_view_task db_view_asg)

lemma taskWorker_reads:
  "task_view (snd (taskWorker i m)) = task_view m" "asg_view (snd (taskWorker i m)) = asg_view m"
  "mPending (snd (taskWorker i m)) = mPending m" "mReservations (snd (taskWorker i m)) = mReservations m"
  "mOutbox (snd (taskWorker i m)) = mOutbox m"
  by (simp_all add: task_io task_view_def asg_view_def del: db_view_task db_view_asg)

text \<open>What a request may have changed: the records, owners, queue, reservations and outgoing requests.\<close>

definition same_work :: "manager \<Rightarrow> manager \<Rightarrow> bool" where
  "same_work m m' \<longleftrightarrow> task_view m' = task_view m \<and> asg_view m' = asg_view m \<and> mPending m' = mPending m
     \<and> mReservations m' = mReservations m \<and> mOutbox m' = mOutbox m"

lemma same_work_refl [simp]: "same_work m m"
  by (simp add: same_work_def)

lemma resolveTask_reads: "same_work m (snd (resolveTask e ref m))"
proof -
  have "snd (resolveTask e ref m) = snd (getTasks m)" by (simp add: resolveTask_def case_prod_beta)
  then have "reads_tasks m (snd (resolveTask e ref m))" by (simp add: getTasks_alt)
  from reads_tasksD [OF this] show ?thesis by (simp add: same_work_def)
qed

lemma GetTaskLogsHandler_reads: "same_work m (snd (GetTaskLogsHandler e get ref raw m))"
proof -
  obtain t found ambiguous m1 where r: "resolveTask e ref m = ((t, found, ambiguous), m1)" by (metis prod.exhaust)
  obtain wk m2 where w: "taskWorker (tID t) m1 = (wk, m2)" by fastforce
  have 1: "same_work m m1" using resolveTask_reads [of m e ref] r by simp
  have 2: "same_work m m2" using 1 taskWorker_reads [of "tID t" m1] w by (simp add: same_work_def)
  have "snd (GetTaskLogsHandler e get ref raw m) \<in> {m, m1, m2}"
    by (simp add: GetTaskLogsHandler_def r w Let_def split: sum.split)
  with 1 2 show ?thesis by auto
qed

text \<open>
  C18: authorization is enforced before anything happens. With authentication enabled, a request
  whose token does not verify is answered with 401, one whose role does not allow the route with
  403, and neither changes the manager; any other request gets what its handler gives. Without a
  token store every request is served.
\<close>

theorem authorization_enforced:
  "(let (i, ok) = authenticate x (Some store) header in
    if \<not> ok then rpStatus (fst (mgr_serve x (Some store) e rq ep header m)) = 401
      \<and> snd (mgr_serve x (Some store) e rq ep header m) = m
    else if \<not> Allows (idRole i) (mgr_role ep) then rpStatus (fst (mgr_serve x (Some store) e rq ep header m)) = 403
      \<and> snd (mgr_serve x (Some store) e rq ep header m) = m
    else mgr_serve x (Some store) e rq ep header m = mgr_handler e rq ep m)
   \<and> mgr_serve x None e rq ep header m = mgr_handler e rq ep m"
  by (simp add: mgr_serve_def BearerAuth_def RequireRoleHandler_def roleDenied_def with_bearer_def
      HttpResponseHelper_def case_prod_beta Let_def)

text \<open>
  C19: a viewer reads. Whatever a request of a user without the role "admin" is, the records of the
  tasks, their owners, the queue, the reservations and the requests sent to workers stay as they are.
\<close>

theorem viewer_reads_only:
  assumes "authenticate x (Some store) header = (i, ok)" "idRole i \<noteq> RoleAdmin"
  shows "same_work m (snd (mgr_serve x (Some store) e rq ep header m))"
proof (cases "ok \<and> Allows (idRole i) (mgr_role ep)")
  case False
  then have "snd (mgr_serve x (Some store) e rq ep header m) = m"
    using assms(1) by (auto simp: mgr_serve_def BearerAuth_def RequireRoleHandler_def roleDenied_def)
  then show ?thesis by simp
next
  case True
  then have "mgr_role ep \<noteq> RoleAdmin" using assms(2) by (auto simp: Allows_def)
  moreover have "mgr_serve x (Some store) e rq ep header m = mgr_handler e rq ep m"
    using assms(1) True by (simp add: mgr_serve_def BearerAuth_def RequireRoleHandler_def roleDenied_def)
  moreover have "same_work m (snd (GetTasksHandler m))"
    using getTaskViews_reads [of m] by (simp add: GetTasksHandler_def same_work_def case_prod_beta)
  ultimately show ?thesis
    using GetTaskLogsHandler_reads by (cases ep) (simp_all add: mgr_role_def mgr_handler_def)
qed

theorem viewer_reads_only_witness:
  "\<forall>e rq. same_work demo_manager
     (snd (mgr_serve demo_crypto (Some (demo_store ''viewer'')) e rq (EpStopTask ''web'') (''Bearer '' @ demo_token) demo_manager))"
proof (intro allI)
  fix e rq
  obtain i ok where a: "authenticate demo_crypto (Some (demo_store ''viewer'')) (''Bearer '' @ demo_token) = (i, ok)" by fastforce
  have "idRole i \<noteq> RoleAdmin"
  proof (cases ok)
    case True
    with a have "authenticate demo_crypto (Some (demo_store ''viewer'')) (''Bearer '' @ demo_token) = (i, True)" by simp
    from this [unfolded authenticate_spec [OF demo_tokens [OF demo_role]]] show ?thesis
      by (auto simp: demo_entry_def RoleAdmin_def)
  next
    case False
    show ?thesis
      using a False unfolding authenticate_def Verify_def demo_store_def
      by (auto simp: no_identity_def RoleAdmin_def Let_def split: prod.splits if_splits)
  qed
  from viewer_reads_only [OF a this]
  show "same_work demo_manager
     (snd (mgr_serve demo_crypto (Some (demo_store ''viewer'')) e rq (EpStopTask ''web'') (''Bearer '' @ demo_token) demo_manager))" .
qed

end
