(* ===== verification/Clients.thy ===== *)
theory Clients
  imports Auth
begin

text \<open>
  TLS configuration, \<open>auth/tls.go\<close>, and the shared HTTP clients, \<open>httpclient/client.go\<close>. Reading files and
  parsing certificates are parameters; a configuration records which files it was made from.
\<close>

section \<open>TLS configurations\<close>

record tls_config =
  tcCertificate :: "(string \<times> string) option"
  tcClientCAs :: "string option"
  tcRequireClientCert :: bool
  tcRootCAs :: "string option"

definition empty_tls :: tls_config where
  "empty_tls = \<lparr>tcCertificate = None, tcClientCAs = None, tcRequireClientCert = False, tcRootCAs = None\<rparr>"

record files =
  flRead :: "string \<Rightarrow> gerror + string"
  flKeyPair :: "string \<Rightarrow> string \<Rightarrow> gerror option"
  flPEM :: "string \<Rightarrow> bool"

definition LoadCAPool :: "files \<Rightarrow> string \<Rightarrow> gerror option" where
  "LoadCAPool fs path =
     (case flRead fs path of
        Inl err \<Rightarrow> Some err
      | Inr pem \<Rightarrow> if \<not> flPEM fs pem then Some (errorf (path @ '' contains no valid PEM certificates'')) else None)"

definition set_together :: gerror where
  "set_together = errorf ''cert_file and key_file must be set together''"

text \<open>No configuration, plain HTTP, is \<open>None\<close>.\<close>

definition ServerTLSConfig :: "files \<Rightarrow> string \<Rightarrow> string \<Rightarrow> string \<Rightarrow> gerror + tls_config option" where
  "ServerTLSConfig fs certFile keyFile clientCAFile =
     (if certFile = [] \<and> keyFile = [] then Inr None
      else if certFile = [] \<or> keyFile = [] then Inl set_together
      else case flKeyPair fs certFile keyFile of
        Some err \<Rightarrow> Inl (wrapf (''loading server certificate '' @ certFile @ ''/'' @ keyFile @ '': '') err)
      | None \<Rightarrow>
          (let cfg = empty_tls\<lparr>tcCertificate := Some (certFile, keyFile)\<rparr> in
           if clientCAFile \<noteq> [] then
             (case LoadCAPool fs clientCAFile of
                Some err \<Rightarrow> Inl (wrapf (''loading client CA '' @ clientCAFile @ '': '') err)
              | None \<Rightarrow> Inr (Some (cfg\<lparr>tcClientCAs := Some clientCAFile, tcRequireClientCert := True\<rparr>)))
           else Inr (Some cfg)))"

definition client_certificate :: "files \<Rightarrow> string \<Rightarrow> string \<Rightarrow> tls_config \<Rightarrow> gerror + tls_config option" where
  "client_certificate fs certFile keyFile cfg =
     (if certFile \<noteq> [] then
        (case flKeyPair fs certFile keyFile of
           Some err \<Rightarrow> Inl (wrapf (''loading client certificate '' @ certFile @ ''/'' @ keyFile @ '': '') err)
         | None \<Rightarrow> Inr (Some (cfg\<lparr>tcCertificate := Some (certFile, keyFile)\<rparr>)))
      else Inr (Some cfg))"

definition ClientTLSConfig :: "files \<Rightarrow> string \<Rightarrow> string \<Rightarrow> string \<Rightarrow> gerror + tls_config option" where
  "ClientTLSConfig fs caFile certFile keyFile =
     (if caFile = [] \<and> certFile = [] \<and> keyFile = [] then Inr None
      else if (certFile = []) \<noteq> (keyFile = []) then Inl set_together
      else if caFile \<noteq> [] then
        (case LoadCAPool fs caFile of
           Some err \<Rightarrow> Inl (wrapf (''loading CA bundle '' @ caFile @ '': '') err)
         | None \<Rightarrow> client_certificate fs certFile keyFile (empty_tls\<lparr>tcRootCAs := Some caFile\<rparr>))
      else client_certificate fs certFile keyFile empty_tls)"

section \<open>HTTP clients\<close>

record options =
  TLSConfig :: "tls_config option"
  BearerToken :: string

text \<open>
  A client's transport: the default one (\<open>rcCustom\<close> false), or a clone with a TLS configuration and a
  bearer token added to every request.
\<close>

record role_client =
  rcCustom :: bool
  rcTLS :: "tls_config option"
  rcToken :: string
  tlsOn :: bool

definition client_configure :: "options \<Rightarrow> role_client" where
  "client_configure opts =
     \<lparr>rcCustom = (TLSConfig opts \<noteq> None \<or> BearerToken opts \<noteq> []), rcTLS = TLSConfig opts,
      rcToken = BearerToken opts, tlsOn = (TLSConfig opts \<noteq> None)\<rparr>"

definition client_reset :: role_client where
  "client_reset = \<lparr>rcCustom = False, rcTLS = None, rcToken = [], tlsOn = False\<rparr>"

definition client_scheme :: "role_client \<Rightarrow> string" where
  "client_scheme rc = (if tlsOn rc then ''https'' else ''http'')"

definition ManagerURL :: "role_client \<Rightarrow> string \<Rightarrow> string \<Rightarrow> string" where
  "ManagerURL rc address path = client_scheme rc @ ''://'' @ address @ path"

definition WorkerURL :: "role_client \<Rightarrow> string \<Rightarrow> string \<Rightarrow> string" where
  "WorkerURL rc address path = client_scheme rc @ ''://'' @ address @ path"

text \<open>The Authorization header of a request sent through the client, empty when it has none.\<close>

definition RoundTrip :: "role_client \<Rightarrow> string" where
  "RoundTrip rc = (if rcToken rc \<noteq> [] then ''Bearer '' @ rcToken rc else [])"

section \<open>What a configuration guarantees\<close>

text \<open>
  A server that speaks TLS presents the configured certificate, and requires client certificates
  exactly when a client CA is configured. There is no TLS exactly when neither certificate nor key is
  configured, also if a client CA is: the server then runs plain HTTP and requires nothing.
\<close>

theorem server_tls_correct:
  assumes "ServerTLSConfig fs cert key ca = Inr r"
  shows "case r of
      None \<Rightarrow> cert = [] \<and> key = []
    | Some c \<Rightarrow> tcCertificate c = Some (cert, key) \<and> cert \<noteq> [] \<and> key \<noteq> []
        \<and> (tcRequireClientCert c \<longleftrightarrow> ca \<noteq> []) \<and> (ca \<noteq> [] \<longrightarrow> tcClientCAs c = Some ca \<and> LoadCAPool fs ca = None)"
  using assms by (auto simp: ServerTLSConfig_def empty_tls_def Let_def split: if_splits option.splits)

theorem server_tls_correct_witness:
  "\<exists>fs. ServerTLSConfig fs [] [] ''ca.pem'' = Inr None
     \<and> ServerTLSConfig fs ''c'' ''k'' ''ca.pem'' = Inr (Some \<lparr>tcCertificate = Some (''c'', ''k''), tcClientCAs = Some ''ca.pem'',
          tcRequireClientCert = True, tcRootCAs = None\<rparr>)"
proof -
  define fs where "fs = \<lparr>flRead = (\<lambda>p. Inr p), flKeyPair = (\<lambda>c k. None), flPEM = (\<lambda>p. True)\<rparr>"
  obtain r where r: "ServerTLSConfig fs ''c'' ''k'' ''ca.pem'' = Inr (Some r)"
    by (simp add: ServerTLSConfig_def fs_def LoadCAPool_def Let_def)
  have n: "ServerTLSConfig fs [] [] ''ca.pem'' = Inr None" by (simp add: ServerTLSConfig_def)
  have "tcRootCAs r = None" using r by (auto simp: ServerTLSConfig_def fs_def LoadCAPool_def Let_def empty_tls_def)
  with server_tls_correct [OF r] r n show ?thesis by (intro exI [of _ fs]) (cases r, simp)
qed

text \<open>A client configured with a TLS configuration uses https, and nothing else does.\<close>

lemma scheme_tls: "client_scheme (client_configure opts) = ''https'' \<longleftrightarrow> TLSConfig opts \<noteq> None"
  by (simp add: client_scheme_def client_configure_def)

text \<open>
  The output of the token command works from end to end. A token generated from random bytes,
  whose hash is an entry of an accepted token file, makes a client that is configured with it send
  requests that authenticate as the user and with the role of that entry.
\<close>

theorem token_roundtrip:
  assumes "GenerateToken (Inr raw) = Inr token" "ParseTokenFile x (Inr recs) = Inr store"
    and "rec \<in> set recs" "trTokenHash rec = HashToken x token" "length (sum256 x token) = 32"
  shows "authenticate x (Some store) (RoundTrip (client_configure \<lparr>TLSConfig = t, BearerToken = token\<rparr>))
    = (\<lparr>idUser = trUser rec, idRole = trRole rec\<rparr>, True)"
proof -
  have "token \<noteq> []" using assms(1) by (auto simp: GenerateToken_def)
  then have "RoundTrip (client_configure \<lparr>TLSConfig = t, BearerToken = token\<rparr>) = ''Bearer '' @ token"
    by (simp add: RoundTrip_def client_configure_def)
  then show ?thesis using token_accepted [OF assms] by simp
qed

theorem token_roundtrip_witness:
  "authenticate demo_crypto (Some (demo_store ''viewer''))
     (RoundTrip (client_configure \<lparr>TLSConfig = None, BearerToken = demo_token\<rparr>))
     = (\<lparr>idUser = ''ann'', idRole = ''viewer''\<rparr>, True)"
proof -
  have g: "GenerateToken (Inr [1, 2]) = Inr demo_token" by (simp add: GenerateToken_def demo_token_def)
  have r: "trTokenHash (demo_entry ''viewer'') = HashToken demo_crypto demo_token"
    "length (sum256 demo_crypto demo_token) = 32"
    "demo_entry ''viewer'' \<in> set [demo_entry ''viewer'']"
    by (simp_all add: demo_entry_def demo_crypto_def)
  show ?thesis
    using token_roundtrip [OF g demo_tokens [OF demo_role] r(3,1,2)] by (simp add: demo_entry_def)
qed

end
