(* ===== verification/Config.thy ===== *)
theory Config
  imports Clients Schedulers
begin

text \<open>
  The configuration file, \<open>cmd/config.go\<close>: how its values override flag defaults and the package
  variables of the other packages, and what validation they pass. The variables are one record;
  flags are kept by the command library, an interface \<open>flagset\<close>; \<open>time.ParseDuration\<close>, files and paths
  are parameters.
\<close>

section \<open>The file's sections\<close>

record tls_files =
  CertFile :: "string option"
  KeyFile :: "string option"
  CAFile :: "string option"
  ClientCAFile :: "string option"

record http_config =
  ClientTimeout :: "string option"
  LongOpTimeout :: "string option"

record manager_config =
  mcHost :: "string option"
  mcPort :: "int option"
  mcWorkers :: "string list"
  mcScheduler :: "string option"
  mcDBType :: "string option"
  mcTLS :: "tls_files option"
  mcTokenFile :: "string option option"
  mcDbFile :: "string option"
  mcDbTaskBucket :: "string option"
  mcDbEventBucket :: "string option"
  mcMaxRestarts :: "int option"
  mcRestartBackoffBase :: "string option"
  mcRestartBackoffMax :: "string option"
  mcLoopInterval :: "string option"
  mcApiShutdownTimeout :: "string option"

record worker_config =
  wcHost :: "string option"
  wcPort :: "int option"
  wcName :: "string option"
  wcDBType :: "string option"
  wcTLS :: "tls_files option"
  wcDbFilename :: "string option"
  wcDbBucketName :: "string option"
  wcDbLogBucketName :: "string option"
  wcLogCaptureMaxLines :: "int option"
  wcLoopInterval :: "string option"
  wcApiShutdownTimeout :: "string option"

record node_config =
  ncStatsQueryMaxRetries :: "int option"
  ncStatsQuerySleepPeriod :: "string option"
  ncPortsQueryTimeout :: "string option"

record scheduler_config =
  scEpvmMaxJobs :: "int option"
  scEpvmMaxSafeCPUUtil :: "float64 option"

record task_config =
  tcInterval :: "int option"
  tcTimeout :: "int option"
  tcRetries :: "int option"
  tcStartPeriod :: "int option"

record client_config =
  ccManager :: "string option"
  ccTLS :: "tls_files option"
  ccToken :: "string option"
  ccTokenFile :: "string option"

record config_file =
  cfManager :: "manager_config option"
  cfWorker :: "worker_config option"
  cfNode :: "node_config option"
  cfScheduler :: "scheduler_config option"
  cfTask :: "task_config option"
  cfClient :: "client_config option"
  cfHTTP :: "http_config option"

section \<open>The variables\<close>

record tunables =
  tnClientTimeout :: duration
  tnLongOpTimeout :: duration
  tnDbFile :: string
  tnDbTaskBucket :: string
  tnDbEventBucket :: string
  tnMaxRestarts :: int
  tnRestartBackoffBase :: duration
  tnRestartBackoffMax :: duration
  tnManagerLoopInterval :: duration
  tnManagerShutdownTimeout :: duration
  tnDbFilename :: string
  tnDbBucketName :: string
  tnDbLogBucketName :: string
  tnLogCaptureMaxLines :: int
  tnWorkerLoopInterval :: duration
  tnWorkerShutdownTimeout :: duration
  tnStatsQueryMaxRetries :: int
  tnStatsQuerySleepPeriod :: duration
  tnPortsQueryTimeout :: duration
  tnEpvmMaxJobs :: int
  tnEpvmMaxSafeCPUUtil :: float64
  tnTask :: hc_defaults
  tnManagerClient :: role_client
  tnWorkerClient :: role_client

section \<open>Validators\<close>

definition cfgErr :: "string \<Rightarrow> string \<Rightarrow> gerror" where
  "cfgErr fld msg = errorf (''config '' @ fld @ '': '' @ msg)"

definition validateNonEmpty :: "string \<Rightarrow> string \<Rightarrow> gerror option" where
  "validateNonEmpty fld v = (if v = [] then Some (cfgErr fld ''must not be empty'') else None)"

definition validatePosInt :: "string \<Rightarrow> int \<Rightarrow> gerror option" where
  "validatePosInt fld v = (if v \<le> 0 then Some (cfgErr fld (''must be > 0, got '' @ itoa v)) else None)"

definition validateNonNegInt :: "string \<Rightarrow> int \<Rightarrow> gerror option" where
  "validateNonNegInt fld v = (if v < 0 then Some (cfgErr fld (''must be >= 0, got '' @ itoa v)) else None)"

text \<open>\<open>show\<close> is how the \<open>%v\<close> verb prints a double.\<close>

definition validateFraction :: "(float64 \<Rightarrow> string) \<Rightarrow> string \<Rightarrow> float64 \<Rightarrow> gerror option" where
  "validateFraction show_float fld v =
     (if f_le v 0 \<or> f_lt f_1_0 v then Some (cfgErr fld (''must be in (0, 1], got '' @ show_float v)) else None)"

text \<open>\<open>strings.ReplaceAll\<close> with the empty text, from left to right.\<close>

fun remove_all :: "string \<Rightarrow> string \<Rightarrow> string" where
  "remove_all pat [] = []"
| "remove_all pat (c # cs) =
     (if pat \<noteq> [] \<and> has_prefix pat (c # cs) then remove_all pat (drop (length pat - 1) cs) else c # remove_all pat cs)"

definition validateDbFilename :: "string \<Rightarrow> string \<Rightarrow> gerror option" where
  "validateDbFilename fld v =
     (if v = [] then Some (cfgErr fld ''must not be empty'')
      else if \<not> str_contains ''%s'' v
      then Some (cfgErr fld (''must contain a %s verb for the worker name, got '' @ go_quote v))
      else if CHR ''%'' \<in> set (remove_all ''%s'' v)
      then Some (cfgErr fld (''must contain only the %s verb, got '' @ go_quote v))
      else None)"

definition parsePosDuration :: "(string \<Rightarrow> gerror + duration) \<Rightarrow> string \<Rightarrow> string \<Rightarrow> gerror + duration" where
  "parsePosDuration pd fld raw =
     (case pd raw of
        Inl err \<Rightarrow> Inl (wrapf (''config '' @ fld @ '': not a valid duration '' @ go_quote raw @ '': '') err)
      | Inr d \<Rightarrow> if d \<le> 0 then Inl (cfgErr fld (''must be > 0, got '' @ raw)) else Inr d)"

definition validateClientToken :: "string \<Rightarrow> gerror option" where
  "validateClientToken token =
     (if has_prefix ''sha256:'' token
      then Some (errorf (''configured token is a token_hash, not a token; put the raw token printed by ''
             @ go_quote ''philharmonic token'' @ '' (starts with '' @ go_quote ''ph_'' @ '') in client.token/token_file''))
      else if str_contains ''- user:'' token
      then Some (errorf (''configured token looks like the YAML entry from the manager'' @ [CHR 0x27] @ ''s token file; put only the raw token printed by ''
             @ go_quote ''philharmonic token'' @ '' (starts with '' @ go_quote ''ph_'' @ '') in client.token/token_file''))
      else None)"

section \<open>Overriding the variables\<close>

text \<open>
  Assignments run in order and stop at the first error; what was assigned before stays. \<open>assign\<close> is
  one: an absent key changes nothing, a present one is checked and stored.
\<close>

type_synonym 's step = "gerror option \<times> 's"

definition and_then :: "'s step \<Rightarrow> ('s \<Rightarrow> 's step) \<Rightarrow> 's step" where
  "and_then r f = (case r of (Some err, s) \<Rightarrow> (Some err, s) | (None, s) \<Rightarrow> f s)"

definition assign :: "'v option \<Rightarrow> ('v \<Rightarrow> gerror + 'w) \<Rightarrow> ('w \<Rightarrow> 's \<Rightarrow> 's) \<Rightarrow> 's \<Rightarrow> 's step" where
  "assign v check upd s =
     (case v of
        None \<Rightarrow> (None, s)
      | Some raw \<Rightarrow> (case check raw of Inl err \<Rightarrow> (Some err, s) | Inr x \<Rightarrow> (None, upd x s)))"

definition checked :: "('v \<Rightarrow> gerror option) \<Rightarrow> 'v \<Rightarrow> gerror + 'v" where
  "checked validate v = (case validate v of Some err \<Rightarrow> Inl err | None \<Rightarrow> Inr v)"

definition applyHTTPRuntime :: "(string \<Rightarrow> gerror + duration) \<Rightarrow> http_config option \<Rightarrow> tunables \<Rightarrow> tunables step" where
  "applyHTTPRuntime pd h s =
     (case h of
        None \<Rightarrow> (None, s)
      | Some h \<Rightarrow>
          and_then (assign (ClientTimeout h) (parsePosDuration pd ''http.client_timeout'') (\<lambda>d s. s\<lparr>tnClientTimeout := d\<rparr>) s)
            (assign (LongOpTimeout h) (parsePosDuration pd ''http.long_op_timeout'') (\<lambda>d s. s\<lparr>tnLongOpTimeout := d\<rparr>)))"

definition backoff_order :: "tunables \<Rightarrow> tunables step" where
  "backoff_order s =
     (if tnRestartBackoffMax s < tnRestartBackoffBase s
      then (Some (cfgErr ''manager.restart_backoff_max'' ''must be >= manager.restart_backoff_base''), s)
      else (None, s))"

definition applyManagerRuntime :: "(string \<Rightarrow> gerror + duration) \<Rightarrow> manager_config option \<Rightarrow> tunables \<Rightarrow> tunables step" where
  "applyManagerRuntime pd m s =
     (case m of
        None \<Rightarrow> (None, s)
      | Some m \<Rightarrow>
          foldl and_then (None, s)
            [assign (mcDbFile m) (checked (validateNonEmpty ''manager.db_file'')) (\<lambda>v s. s\<lparr>tnDbFile := v\<rparr>),
             assign (mcDbTaskBucket m) (checked (validateNonEmpty ''manager.db_task_bucket'')) (\<lambda>v s. s\<lparr>tnDbTaskBucket := v\<rparr>),
             assign (mcDbEventBucket m) (checked (validateNonEmpty ''manager.db_event_bucket'')) (\<lambda>v s. s\<lparr>tnDbEventBucket := v\<rparr>),
             assign (mcMaxRestarts m) (checked (validateNonNegInt ''manager.max_restarts'')) (\<lambda>v s. s\<lparr>tnMaxRestarts := v\<rparr>),
             assign (mcRestartBackoffBase m) (parsePosDuration pd ''manager.restart_backoff_base'') (\<lambda>d s. s\<lparr>tnRestartBackoffBase := d\<rparr>),
             assign (mcRestartBackoffMax m) (parsePosDuration pd ''manager.restart_backoff_max'') (\<lambda>d s. s\<lparr>tnRestartBackoffMax := d\<rparr>),
             backoff_order,
             assign (mcLoopInterval m) (parsePosDuration pd ''manager.loop_interval'') (\<lambda>d s. s\<lparr>tnManagerLoopInterval := d\<rparr>),
             assign (mcApiShutdownTimeout m) (parsePosDuration pd ''manager.api_shutdown_timeout'') (\<lambda>d s. s\<lparr>tnManagerShutdownTimeout := d\<rparr>)])"

definition applyWorkerRuntime :: "(string \<Rightarrow> gerror + duration) \<Rightarrow> worker_config option \<Rightarrow> tunables \<Rightarrow> tunables step" where
  "applyWorkerRuntime pd w s =
     (case w of
        None \<Rightarrow> (None, s)
      | Some w \<Rightarrow>
          foldl and_then (None, s)
            [assign (wcDbFilename w) (checked (validateDbFilename ''worker.db_filename'')) (\<lambda>v s. s\<lparr>tnDbFilename := v\<rparr>),
             assign (wcDbBucketName w) (checked (validateNonEmpty ''worker.db_bucket_name'')) (\<lambda>v s. s\<lparr>tnDbBucketName := v\<rparr>),
             assign (wcDbLogBucketName w) (checked (validateNonEmpty ''worker.db_log_bucket_name'')) (\<lambda>v s. s\<lparr>tnDbLogBucketName := v\<rparr>),
             assign (wcLogCaptureMaxLines w) (checked (validatePosInt ''worker.log_capture_max_lines'')) (\<lambda>v s. s\<lparr>tnLogCaptureMaxLines := v\<rparr>),
             assign (wcLoopInterval w) (parsePosDuration pd ''worker.loop_interval'') (\<lambda>d s. s\<lparr>tnWorkerLoopInterval := d\<rparr>),
             assign (wcApiShutdownTimeout w) (parsePosDuration pd ''worker.api_shutdown_timeout'') (\<lambda>d s. s\<lparr>tnWorkerShutdownTimeout := d\<rparr>)])"

definition applyNodeRuntime :: "(string \<Rightarrow> gerror + duration) \<Rightarrow> node_config option \<Rightarrow> tunables \<Rightarrow> tunables step" where
  "applyNodeRuntime pd n s =
     (case n of
        None \<Rightarrow> (None, s)
      | Some n \<Rightarrow>
          foldl and_then (None, s)
            [assign (ncStatsQueryMaxRetries n) (checked (validatePosInt ''node.stats_query_max_retries'')) (\<lambda>v s. s\<lparr>tnStatsQueryMaxRetries := v\<rparr>),
             assign (ncStatsQuerySleepPeriod n) (parsePosDuration pd ''node.stats_query_sleep_period'') (\<lambda>d s. s\<lparr>tnStatsQuerySleepPeriod := d\<rparr>),
             assign (ncPortsQueryTimeout n) (parsePosDuration pd ''node.ports_query_timeout'') (\<lambda>d s. s\<lparr>tnPortsQueryTimeout := d\<rparr>)])"

definition applySchedulerRuntime :: "(float64 \<Rightarrow> string) \<Rightarrow> scheduler_config option \<Rightarrow> tunables \<Rightarrow> tunables step" where
  "applySchedulerRuntime show_float c s =
     (case c of
        None \<Rightarrow> (None, s)
      | Some c \<Rightarrow>
          foldl and_then (None, s)
            [assign (scEpvmMaxJobs c) (checked (validatePosInt ''scheduler.epvm_max_jobs'')) (\<lambda>v s. s\<lparr>tnEpvmMaxJobs := v\<rparr>),
             assign (scEpvmMaxSafeCPUUtil c) (checked (validateFraction show_float ''scheduler.epvm_max_safe_cpu_util''))
               (\<lambda>v s. s\<lparr>tnEpvmMaxSafeCPUUtil := v\<rparr>)])"

definition applyTaskRuntime :: "task_config option \<Rightarrow> tunables \<Rightarrow> tunables step" where
  "applyTaskRuntime t s =
     (case t of
        None \<Rightarrow> (None, s)
      | Some t \<Rightarrow>
          foldl and_then (None, s)
            [assign (tcInterval t) (checked (validatePosInt ''task.health_check_default_interval''))
               (\<lambda>v s. s\<lparr>tnTask := (tnTask s)\<lparr>HealthCheckDefaultInterval := v\<rparr>\<rparr>),
             assign (tcTimeout t) (checked (validatePosInt ''task.health_check_default_timeout''))
               (\<lambda>v s. s\<lparr>tnTask := (tnTask s)\<lparr>HealthCheckDefaultTimeout := v\<rparr>\<rparr>),
             assign (tcRetries t) (checked (validatePosInt ''task.health_check_default_retries''))
               (\<lambda>v s. s\<lparr>tnTask := (tnTask s)\<lparr>HealthCheckDefaultRetries := v\<rparr>\<rparr>),
             assign (tcStartPeriod t) (checked (validateNonNegInt ''task.health_check_default_start_period''))
               (\<lambda>v s. s\<lparr>tnTask := (tnTask s)\<lparr>HealthCheckDefaultStartPeriod := v\<rparr>\<rparr>)])"

section \<open>Paths, TLS and tokens\<close>

text \<open>The file system and the path functions, with the directory of the configuration file.\<close>

record host_env =
  heFiles :: files
  heConfigDir :: string
  heIsAbs :: "string \<Rightarrow> bool"
  heJoin :: "string \<Rightarrow> string \<Rightarrow> string"
  heTokenEnv :: string
  heUnmarshalTokens :: "string \<Rightarrow> gerror + token_record list"
  heCrypto :: crypto

definition strVal :: "string option \<Rightarrow> string" where
  "strVal v = (case v of None \<Rightarrow> [] | Some s \<Rightarrow> s)"

definition resolvePath :: "host_env \<Rightarrow> string \<Rightarrow> string" where
  "resolvePath he p = (if p = [] \<or> heIsAbs he p then p else heJoin he (heConfigDir he) p)"

definition tls_path :: "host_env \<Rightarrow> string option \<Rightarrow> string" where
  "tls_path he v = resolvePath he (strVal v)"

definition prefixed :: "string \<Rightarrow> gerror + 'a \<Rightarrow> gerror + 'a" where
  "prefixed what r = (case r of Inl err \<Rightarrow> Inl (wrapf what err) | Inr c \<Rightarrow> Inr c)"

definition managerServerTLS :: "host_env \<Rightarrow> manager_config option \<Rightarrow> gerror + tls_config option" where
  "managerServerTLS he m =
     (case m of None \<Rightarrow> Inr None | Some m \<Rightarrow>
       (case mcTLS m of
          None \<Rightarrow> Inr None
        | Some t \<Rightarrow> prefixed ''manager.tls: ''
            (ServerTLSConfig (heFiles he) (tls_path he (CertFile t)) (tls_path he (KeyFile t)) (tls_path he (ClientCAFile t)))))"

definition managerWorkerClientTLS :: "host_env \<Rightarrow> manager_config option \<Rightarrow> gerror + tls_config option" where
  "managerWorkerClientTLS he m =
     (case m of None \<Rightarrow> Inr None | Some m \<Rightarrow>
       (case mcTLS m of
          None \<Rightarrow> Inr None
        | Some t \<Rightarrow> prefixed ''manager.tls: ''
            (ClientTLSConfig (heFiles he) (tls_path he (CAFile t)) (tls_path he (CertFile t)) (tls_path he (KeyFile t)))))"

definition workerServerTLS :: "host_env \<Rightarrow> worker_config option \<Rightarrow> gerror + tls_config option" where
  "workerServerTLS he w =
     (case w of None \<Rightarrow> Inr None | Some w \<Rightarrow>
       (case wcTLS w of
          None \<Rightarrow> Inr None
        | Some t \<Rightarrow> prefixed ''worker.tls: ''
            (ServerTLSConfig (heFiles he) (tls_path he (CertFile t)) (tls_path he (KeyFile t)) (tls_path he (ClientCAFile t)))))"

definition managerTokenStore :: "host_env \<Rightarrow> manager_config option \<Rightarrow> gerror + token_store option" where
  "managerTokenStore he m =
     (case m of None \<Rightarrow> Inr None | Some m \<Rightarrow>
       (case mcTokenFile m of
          None \<Rightarrow> Inr None
        | Some f \<Rightarrow>
            (let path = tls_path he f in
             if path = [] then Inr None
             else prefixed ''manager.auth.token_file: ''
               (map_sum id Some (LoadTokenFile (heCrypto he) (flRead (heFiles he)) (heUnmarshalTokens he) path)))))"

definition clientToken :: "host_env \<Rightarrow> client_config option \<Rightarrow> gerror + string" where
  "clientToken he c =
     (if heTokenEnv he \<noteq> [] then Inr (heTokenEnv he)
      else case c of None \<Rightarrow> Inr [] | Some c \<Rightarrow>
        if strVal (ccToken c) \<noteq> [] then
          (case validateClientToken (strVal (ccToken c)) of Some err \<Rightarrow> Inl err | None \<Rightarrow> Inr (strVal (ccToken c)))
        else (let path = tls_path he (ccTokenFile c) in
          if path \<noteq> [] then
            (case flRead (heFiles he) path of
               Inl err \<Rightarrow> Inl (wrapf ''client.token_file: '' err)
             | Inr data \<Rightarrow>
                 (let token = trim_space data in
                  if token = [] then Inl (errorf (''client.token_file: '' @ path @ '' is empty''))
                  else case validateClientToken token of
                    Some err \<Rightarrow> Inl (wrapf ''client.token_file: '' err)
                  | None \<Rightarrow> Inr token))
          else Inr []))"

definition applyClientRuntime :: "host_env \<Rightarrow> client_config option \<Rightarrow> tunables \<Rightarrow> tunables step" where
  "applyClientRuntime he c s =
     (case clientToken he c of
        Inl err \<Rightarrow> (Some err, s)
      | Inr token \<Rightarrow>
          (case (case c of None \<Rightarrow> Inr None | Some c \<Rightarrow>
                   (case ccTLS c of
                      None \<Rightarrow> Inr None
                    | Some t \<Rightarrow> prefixed ''client.tls: ''
                        (ClientTLSConfig (heFiles he) (tls_path he (CAFile t)) (tls_path he (CertFile t)) (tls_path he (KeyFile t))))) of
             Inl err \<Rightarrow> (Some err, s)
           | Inr tlsCfg \<Rightarrow>
               (None, s\<lparr>tnManagerClient := client_configure \<lparr>TLSConfig = tlsCfg, BearerToken = token\<rparr>,
                        tnWorkerClient := client_configure \<lparr>TLSConfig = tlsCfg, BearerToken = []\<rparr>\<rparr>)))"

section \<open>Commands\<close>

definition applyRuntimeConfig ::
  "host_env \<Rightarrow> (string \<Rightarrow> gerror + duration) \<Rightarrow> (float64 \<Rightarrow> string) \<Rightarrow> config_file \<Rightarrow> string \<Rightarrow> tunables \<Rightarrow> tunables step" where
  "applyRuntimeConfig he pd show_float cf name s =
     and_then (applyHTTPRuntime pd (cfHTTP cf) s) (\<lambda>s.
       if name = ''manager'' then
         foldl and_then (None, s)
           [applyManagerRuntime pd (cfManager cf), applyNodeRuntime pd (cfNode cf),
            applySchedulerRuntime show_float (cfScheduler cf), applyTaskRuntime (cfTask cf)]
       else if name = ''worker'' then
         foldl and_then (None, s) [applyWorkerRuntime pd (cfWorker cf), applyTaskRuntime (cfTask cf)]
       else if name = ''nodes'' then
         foldl and_then (None, s) [applyNodeRuntime pd (cfNode cf), applyClientRuntime he (cfClient cf)]
       else if name \<in> {''run'', ''status'', ''stop'', ''logs''} then applyClientRuntime he (cfClient cf) s
       else (None, s))"

text \<open>The command's flags: \<open>flGet\<close> is a flag's value, \<open>flChanged\<close> whether it was set on the command line.\<close>

record 'f flagset =
  flGet :: "string \<Rightarrow> 'f \<Rightarrow> string"
  flChanged :: "string \<Rightarrow> 'f \<Rightarrow> bool"
  flSet :: "string \<Rightarrow> string \<Rightarrow> 'f \<Rightarrow> gerror option \<times> 'f"

definition setStr :: "'f flagset \<Rightarrow> string \<Rightarrow> string option \<Rightarrow> 'f \<Rightarrow> 'f step" where
  "setStr fl name v f =
     (case v of None \<Rightarrow> (None, f)
      | Some v \<Rightarrow> if v = [] \<or> flChanged fl name f then (None, f) else flSet fl name v f)"

definition setInt :: "'f flagset \<Rightarrow> string \<Rightarrow> int option \<Rightarrow> 'f \<Rightarrow> 'f step" where
  "setInt fl name v f =
     (case v of None \<Rightarrow> (None, f)
      | Some v \<Rightarrow> if flChanged fl name f then (None, f) else flSet fl name (itoa v) f)"

definition setSlice :: "'f flagset \<Rightarrow> string \<Rightarrow> string list \<Rightarrow> 'f \<Rightarrow> 'f step" where
  "setSlice fl name v f =
     (if v = [] \<or> flChanged fl name f then (None, f) else flSet fl name (str_join '','' v) f)"

definition applyConfig :: "'f flagset \<Rightarrow> config_file \<Rightarrow> string \<Rightarrow> 'f \<Rightarrow> 'f step" where
  "applyConfig fl cf name f =
     (if name = ''manager'' then
        (case cfManager cf of None \<Rightarrow> (None, f) | Some m \<Rightarrow>
           foldl and_then (None, f)
             [setStr fl ''host'' (mcHost m), setInt fl ''port'' (mcPort m), setSlice fl ''workers'' (mcWorkers m),
              setStr fl ''scheduler'' (mcScheduler m), setStr fl ''dbtype'' (mcDBType m)])
      else if name = ''worker'' then
        (case cfWorker cf of None \<Rightarrow> (None, f) | Some w \<Rightarrow>
           foldl and_then (None, f)
             [setStr fl ''host'' (wcHost w), setInt fl ''port'' (wcPort w), setStr fl ''name'' (wcName w),
              setStr fl ''dbtype'' (wcDBType w)])
      else if name \<in> {''nodes'', ''run'', ''status'', ''stop'', ''logs''} then
        (case cfClient cf of None \<Rightarrow> (None, f) | Some c \<Rightarrow> setStr fl ''manager'' (ccManager c) f)
      else (None, f))"

section \<open>Validation\<close>

text \<open>What validation guarantees of the variables, whatever a run was configured with.\<close>

definition tunables_ok :: "tunables \<Rightarrow> bool" where
  "tunables_ok s \<longleftrightarrow> (0 < tnClientTimeout s \<and> 0 < tnLongOpTimeout s)
     \<and> (tnDbFile s \<noteq> [] \<and> tnDbTaskBucket s \<noteq> [] \<and> tnDbEventBucket s \<noteq> [])
     \<and> (0 \<le> tnMaxRestarts s \<and> 0 < tnRestartBackoffBase s \<and> 0 < tnRestartBackoffMax s)
     \<and> (0 < tnManagerLoopInterval s \<and> 0 < tnManagerShutdownTimeout s)
     \<and> (tnDbFilename s \<noteq> [] \<and> tnDbBucketName s \<noteq> [] \<and> tnDbLogBucketName s \<noteq> [] \<and> 0 < tnLogCaptureMaxLines s)
     \<and> (0 < tnWorkerLoopInterval s \<and> 0 < tnWorkerShutdownTimeout s)
     \<and> (0 < tnStatsQueryMaxRetries s \<and> 0 < tnStatsQuerySleepPeriod s \<and> 0 < tnPortsQueryTimeout s)
     \<and> (0 < tnEpvmMaxJobs s \<and> (f_isnan (tnEpvmMaxSafeCPUUtil s) \<or> f_lt 0 (tnEpvmMaxSafeCPUUtil s)
          \<and> f_le (tnEpvmMaxSafeCPUUtil s) f_1_0))
     \<and> (0 < HealthCheckDefaultInterval (tnTask s) \<and> 0 < HealthCheckDefaultTimeout (tnTask s)
          \<and> 0 < HealthCheckDefaultRetries (tnTask s) \<and> 0 \<le> HealthCheckDefaultStartPeriod (tnTask s))"

text \<open>Steps that keep a property of the variables, whether or not they fail.\<close>

definition stable :: "('s \<Rightarrow> bool) \<Rightarrow> ('s \<Rightarrow> 's step) \<Rightarrow> bool" where
  "stable P f \<longleftrightarrow> (\<forall>s. P s \<longrightarrow> P (snd (f s)))"

lemma stableD: "stable P f \<Longrightarrow> P s \<Longrightarrow> P (snd (f s))"
  by (simp add: stable_def)

lemma stable_assign:
  assumes "\<And>s x. P s \<Longrightarrow> (\<exists>raw. v = Some raw \<and> check raw = Inr x) \<Longrightarrow> P (upd x s)"
  shows "stable P (assign v check upd)"
  using assms by (auto simp: stable_def assign_def split: option.split sum.split)

lemma stable_then: "P (snd r) \<Longrightarrow> stable P f \<Longrightarrow> P (snd (and_then r f))"
  by (cases r) (auto simp: and_then_def stable_def split: option.split)

lemma stable_steps:
  assumes "list_all (stable P) fs"
  shows "stable P (\<lambda>s. foldl and_then (None, s) fs)"
proof -
  have "P (snd (foldl and_then r fs))" if "P (snd r)" for r
    using that assms by (induction fs arbitrary: r) (simp_all add: stable_then)
  then show ?thesis by (simp add: stable_def)
qed

lemma stable_if: "stable P f \<Longrightarrow> stable P g \<Longrightarrow> stable P (\<lambda>s. if c then f s else g s)"
  by (simp add: stable_def)

lemma stable_skip: "stable P (\<lambda>s. (None, s))"
  by (simp add: stable_def)

lemma stable_option: "(\<And>x. stable P (f x)) \<Longrightarrow> stable P (\<lambda>s. case v of None \<Rightarrow> (None, s) | Some x \<Rightarrow> f x s)"
  by (simp add: stable_def split: option.split)

lemma checked_Inr: "checked validate raw = Inr x \<longleftrightarrow> x = raw \<and> validate raw = None"
  by (auto simp: checked_def split: option.splits)

lemma checks_sound:
  "validateNonEmpty fld t = None \<longleftrightarrow> t \<noteq> []" "validatePosInt fld n = None \<longleftrightarrow> 0 < n"
  "validateNonNegInt fld n = None \<longleftrightarrow> 0 \<le> n" "parsePosDuration pd fld raw = Inr d \<Longrightarrow> 0 < d"
  "validateDbFilename fld t = None \<Longrightarrow> t \<noteq> []"
  by (auto simp: validateNonEmpty_def validatePosInt_def validateNonNegInt_def parsePosDuration_def
      validateDbFilename_def split: sum.splits if_splits)

lemma fraction_sound:
  "validateFraction sf fld x = None \<longleftrightarrow> f_isnan x \<or> f_lt 0 x \<and> f_le x f_1_0"
proof -
  have "\<not> f_isnan 0" "\<not> f_isnan f_1_0" by (simp_all add: f_isnan_def f_1_0_def)
  then show ?thesis by (auto simp: validateFraction_def f_le_def f_lt_def f_eq_def)
qed

lemma tunables_upd:
  assumes "tunables_ok s"
  shows "0 < d \<Longrightarrow> tunables_ok (s\<lparr>tnClientTimeout := d\<rparr>)" "0 < d \<Longrightarrow> tunables_ok (s\<lparr>tnLongOpTimeout := d\<rparr>)"
    "t \<noteq> [] \<Longrightarrow> tunables_ok (s\<lparr>tnDbFile := t\<rparr>)" "t \<noteq> [] \<Longrightarrow> tunables_ok (s\<lparr>tnDbTaskBucket := t\<rparr>)"
    "t \<noteq> [] \<Longrightarrow> tunables_ok (s\<lparr>tnDbEventBucket := t\<rparr>)" "0 \<le> n \<Longrightarrow> tunables_ok (s\<lparr>tnMaxRestarts := n\<rparr>)"
    "0 < d \<Longrightarrow> tunables_ok (s\<lparr>tnRestartBackoffBase := d\<rparr>)" "0 < d \<Longrightarrow> tunables_ok (s\<lparr>tnRestartBackoffMax := d\<rparr>)"
    "0 < d \<Longrightarrow> tunables_ok (s\<lparr>tnManagerLoopInterval := d\<rparr>)" "0 < d \<Longrightarrow> tunables_ok (s\<lparr>tnManagerShutdownTimeout := d\<rparr>)"
    "t \<noteq> [] \<Longrightarrow> tunables_ok (s\<lparr>tnDbFilename := t\<rparr>)" "t \<noteq> [] \<Longrightarrow> tunables_ok (s\<lparr>tnDbBucketName := t\<rparr>)"
    "t \<noteq> [] \<Longrightarrow> tunables_ok (s\<lparr>tnDbLogBucketName := t\<rparr>)" "0 < n \<Longrightarrow> tunables_ok (s\<lparr>tnLogCaptureMaxLines := n\<rparr>)"
    "0 < d \<Longrightarrow> tunables_ok (s\<lparr>tnWorkerLoopInterval := d\<rparr>)" "0 < d \<Longrightarrow> tunables_ok (s\<lparr>tnWorkerShutdownTimeout := d\<rparr>)"
    "0 < n \<Longrightarrow> tunables_ok (s\<lparr>tnStatsQueryMaxRetries := n\<rparr>)" "0 < d \<Longrightarrow> tunables_ok (s\<lparr>tnStatsQuerySleepPeriod := d\<rparr>)"
    "0 < d \<Longrightarrow> tunables_ok (s\<lparr>tnPortsQueryTimeout := d\<rparr>)" "0 < n \<Longrightarrow> tunables_ok (s\<lparr>tnEpvmMaxJobs := n\<rparr>)"
    "f_isnan x \<or> f_lt 0 x \<and> f_le x f_1_0 \<Longrightarrow> tunables_ok (s\<lparr>tnEpvmMaxSafeCPUUtil := x\<rparr>)"
    "0 < n \<Longrightarrow> tunables_ok (s\<lparr>tnTask := (tnTask s)\<lparr>HealthCheckDefaultInterval := n\<rparr>\<rparr>)"
    "0 < n \<Longrightarrow> tunables_ok (s\<lparr>tnTask := (tnTask s)\<lparr>HealthCheckDefaultTimeout := n\<rparr>\<rparr>)"
    "0 < n \<Longrightarrow> tunables_ok (s\<lparr>tnTask := (tnTask s)\<lparr>HealthCheckDefaultRetries := n\<rparr>\<rparr>)"
    "0 \<le> n \<Longrightarrow> tunables_ok (s\<lparr>tnTask := (tnTask s)\<lparr>HealthCheckDefaultStartPeriod := n\<rparr>\<rparr>)"
    "tunables_ok (s\<lparr>tnManagerClient := a, tnWorkerClient := b\<rparr>)"
  using assms by (simp_all add: tunables_ok_def)

text \<open>Each section's assignments keep the variables valid, and all but the manager's the backoffs.\<close>

lemmas runtime_defs = applyHTTPRuntime_def applyManagerRuntime_def applyWorkerRuntime_def applyNodeRuntime_def
  applySchedulerRuntime_def applyTaskRuntime_def

lemma HTTP_steps:
  "applyHTTPRuntime pd h s = (case h of None \<Rightarrow> (None, s) | Some h \<Rightarrow> foldl and_then (None, s)
     [assign (ClientTimeout h) (parsePosDuration pd ''http.client_timeout'') (\<lambda>d s. s\<lparr>tnClientTimeout := d\<rparr>),
      assign (LongOpTimeout h) (parsePosDuration pd ''http.long_op_timeout'') (\<lambda>d s. s\<lparr>tnLongOpTimeout := d\<rparr>)])"
  by (simp add: applyHTTPRuntime_def and_then_def split: option.split)

lemma runtime_valid:
  "stable tunables_ok (applyHTTPRuntime pd h)" "stable tunables_ok (applyManagerRuntime pd m)"
  "stable tunables_ok (applyWorkerRuntime pd w)" "stable tunables_ok (applyNodeRuntime pd n)"
  "stable tunables_ok (applySchedulerRuntime sf c)" "stable tunables_ok (applyTaskRuntime t)"
  "stable tunables_ok (applyClientRuntime he cl)"
proof -
  note sound = checked_Inr checks_sound(1-3) fraction_sound
  have order: "stable tunables_ok backoff_order" by (simp add: stable_def backoff_order_def)
  show "stable tunables_ok (applyHTTPRuntime pd h)"
    unfolding HTTP_steps by (rule stable_option, rule stable_steps)
      (auto intro!: stable_assign tunables_upd dest: checks_sound(4))
  show "stable tunables_ok (applyManagerRuntime pd m)"
    unfolding applyManagerRuntime_def by (rule stable_option, rule stable_steps)
      (auto intro!: stable_assign tunables_upd order simp: sound dest: checks_sound(4))
  show "stable tunables_ok (applyWorkerRuntime pd w)"
    unfolding applyWorkerRuntime_def by (rule stable_option, rule stable_steps)
      (auto intro!: stable_assign tunables_upd simp: sound dest: checks_sound(4,5))
  show "stable tunables_ok (applyNodeRuntime pd n)"
    unfolding applyNodeRuntime_def by (rule stable_option, rule stable_steps)
      (auto intro!: stable_assign tunables_upd simp: sound dest: checks_sound(4))
  show "stable tunables_ok (applySchedulerRuntime sf c)"
    unfolding applySchedulerRuntime_def by (rule stable_option, rule stable_steps)
      (auto intro!: stable_assign tunables_upd simp: sound)
  show "stable tunables_ok (applyTaskRuntime t)"
    unfolding applyTaskRuntime_def by (rule stable_option, rule stable_steps)
      (auto intro!: stable_assign tunables_upd simp: sound)
  show "stable tunables_ok (applyClientRuntime he cl)"
    by (simp add: stable_def applyClientRuntime_def tunables_upd split: sum.split)
qed

text \<open>A run that passes a check has what it checked, if the rest of the run does not change it.\<close>

lemma and_then_simps [simp]: "and_then (None, s) f = f s" "and_then (Some e, s) f = (Some e, s)"
  by (simp_all add: and_then_def)

lemma steps_error [simp]: "foldl and_then (Some e, s) fs = (Some e, s)"
  by (induction fs) simp_all

definition backoff_ordered :: "tunables \<Rightarrow> bool" where
  "backoff_ordered s \<longleftrightarrow> tnRestartBackoffBase s \<le> tnRestartBackoffMax s"

lemma runtime_ordered:
  "stable backoff_ordered (applyHTTPRuntime pd h)" "stable backoff_ordered (applyWorkerRuntime pd w)"
  "stable backoff_ordered (applyNodeRuntime pd n)" "stable backoff_ordered (applySchedulerRuntime sf c)"
  "stable backoff_ordered (applyTaskRuntime t)" "stable backoff_ordered (applyClientRuntime he cl)"
proof -
  show "stable backoff_ordered (applyHTTPRuntime pd h)"
    unfolding HTTP_steps by (rule stable_option, rule stable_steps)
      (auto intro!: stable_assign simp: backoff_ordered_def)
  show "stable backoff_ordered (applyWorkerRuntime pd w)" "stable backoff_ordered (applyNodeRuntime pd n)"
    "stable backoff_ordered (applySchedulerRuntime sf c)" "stable backoff_ordered (applyTaskRuntime t)"
    unfolding runtime_defs by (rule stable_option, rule stable_steps,
      auto intro!: stable_assign simp: backoff_ordered_def)+
  show "stable backoff_ordered (applyClientRuntime he cl)"
    by (simp add: stable_def applyClientRuntime_def backoff_ordered_def split: sum.split)
qed

lemma steps_checked:
  assumes "fst (foldl and_then (None, s) (fs @ backoff_order # gs)) = None" "list_all (stable backoff_ordered) gs"
  shows "backoff_ordered (snd (foldl and_then (None, s) (fs @ backoff_order # gs)))"
  using assms(1)
proof (induction fs arbitrary: s)
  case Nil
  show ?case
  proof (cases "backoff_ordered s")
    case True
    then have "backoff_order s = (None, s)" by (simp add: backoff_order_def backoff_ordered_def)
    with stableD [OF stable_steps [OF assms(2)] True] show ?thesis by simp
  next
    case False
    then obtain e where "backoff_order s = (Some e, s)"
      by (simp add: backoff_order_def backoff_ordered_def)
    with Nil show ?thesis by simp
  qed
next
  case (Cons f fs)
  obtain r s' where f: "f s = (r, s')" by fastforce
  show ?case using Cons by (cases r) (simp_all add: f)
qed

lemma manager_ordered:
  assumes "backoff_ordered s" "fst (applyManagerRuntime pd m s) = None"
  shows "backoff_ordered (snd (applyManagerRuntime pd m s))"
proof (cases m)
  case None
  then show ?thesis using assms by (simp add: applyManagerRuntime_def)
next
  case (Some mc)
  obtain fs gs where split: "\<And>s. applyManagerRuntime pd m s = foldl and_then (None, s) (fs @ backoff_order # gs)"
      "list_all (stable backoff_ordered) gs"
  proof
    let ?gs = "[assign (mcLoopInterval mc) (parsePosDuration pd ''manager.loop_interval'') (\<lambda>d s. s\<lparr>tnManagerLoopInterval := d\<rparr>),
        assign (mcApiShutdownTimeout mc) (parsePosDuration pd ''manager.api_shutdown_timeout'') (\<lambda>d s. s\<lparr>tnManagerShutdownTimeout := d\<rparr>)]"
    show "applyManagerRuntime pd m s = foldl and_then (None, s)
      ([assign (mcDbFile mc) (checked (validateNonEmpty ''manager.db_file'')) (\<lambda>v s. s\<lparr>tnDbFile := v\<rparr>),
        assign (mcDbTaskBucket mc) (checked (validateNonEmpty ''manager.db_task_bucket'')) (\<lambda>v s. s\<lparr>tnDbTaskBucket := v\<rparr>),
        assign (mcDbEventBucket mc) (checked (validateNonEmpty ''manager.db_event_bucket'')) (\<lambda>v s. s\<lparr>tnDbEventBucket := v\<rparr>),
        assign (mcMaxRestarts mc) (checked (validateNonNegInt ''manager.max_restarts'')) (\<lambda>v s. s\<lparr>tnMaxRestarts := v\<rparr>),
        assign (mcRestartBackoffBase mc) (parsePosDuration pd ''manager.restart_backoff_base'') (\<lambda>d s. s\<lparr>tnRestartBackoffBase := d\<rparr>),
        assign (mcRestartBackoffMax mc) (parsePosDuration pd ''manager.restart_backoff_max'') (\<lambda>d s. s\<lparr>tnRestartBackoffMax := d\<rparr>)]
       @ backoff_order # ?gs)" for s
      unfolding applyManagerRuntime_def Some option.case append.simps ..
    show "list_all (stable backoff_ordered) ?gs" by (auto intro!: stable_assign simp: backoff_ordered_def)
  qed
  show ?thesis using assms(2) unfolding split(1) by (rule steps_checked [OF _ split(2)])
qed

text \<open>
  C39: a configuration never makes the variables nonsensical. Whatever the file says, and whether it
  is accepted or rejected, durations, counts and names stay as their users require them, positive,
  not negative or not empty; when it is accepted, the largest restart backoff is not below the
  smallest. The CPU limit of the scheduler is in (0, 1], or not a number: a NaN passes its check.
\<close>

theorem config_validated:
  assumes "tunables_ok s" "backoff_ordered s"
    and "applyRuntimeConfig he pd show_float cf name s = (r, s')"
  shows "tunables_ok s' \<and> (r = None \<longrightarrow> backoff_ordered s')"
proof
  obtain h s1 where h: "applyHTTPRuntime pd (cfHTTP cf) s = (h, s1)" by fastforce
  have s1: "tunables_ok s1" "backoff_ordered s1"
    using stableD [OF runtime_valid(1) assms(1), of pd "cfHTTP cf"]
      stableD [OF runtime_ordered(1) assms(2), of pd "cfHTTP cf"] h by simp_all
  define F where "F s =
      (if name = ''manager'' then
         foldl and_then (None, s)
           [applyManagerRuntime pd (cfManager cf), applyNodeRuntime pd (cfNode cf),
            applySchedulerRuntime show_float (cfScheduler cf), applyTaskRuntime (cfTask cf)]
       else if name = ''worker'' then
         foldl and_then (None, s) [applyWorkerRuntime pd (cfWorker cf), applyTaskRuntime (cfTask cf)]
       else if name = ''nodes'' then
         foldl and_then (None, s) [applyNodeRuntime pd (cfNode cf), applyClientRuntime he (cfClient cf)]
       else if name \<in> {''run'', ''status'', ''stop'', ''logs''} then applyClientRuntime he (cfClient cf) s
       else (None, s))" for s
  have run: "applyRuntimeConfig he pd show_float cf name s = and_then (h, s1) F"
    unfolding applyRuntimeConfig_def h F_def ..
  have "stable tunables_ok F" unfolding F_def
    by (intro stable_if stable_steps stable_skip runtime_valid) (simp_all only: list.pred_inject runtime_valid simp_thms)
  then show "tunables_ok s'" using s1(1) assms(3) run by (cases h) (auto dest: stableD)
  have "backoff_ordered (snd (F s1))" if "fst (F s1) = None"
  proof (cases "name = ''manager''")
    case True
    let ?rest = "[applyNodeRuntime pd (cfNode cf), applySchedulerRuntime show_float (cfScheduler cf), applyTaskRuntime (cfTask cf)]"
    obtain e s2 where m: "applyManagerRuntime pd (cfManager cf) s1 = (e, s2)" by fastforce
    have F: "F s1 = foldl and_then (e, s2) ?rest" unfolding F_def if_P [OF True] by (simp add: m)
    with that have "e = None" by (cases e) simp_all
    moreover from this have "backoff_ordered s2" using manager_ordered [OF s1(2), of pd "cfManager cf"] m by simp
    moreover have "stable backoff_ordered (\<lambda>s. foldl and_then (None, s) ?rest)"
      by (rule stable_steps) (simp only: list.pred_inject runtime_ordered simp_thms)
    ultimately show ?thesis unfolding F by (metis stableD)
  next
    case False
    have "stable backoff_ordered (\<lambda>s.
      (if name = ''worker'' then
         foldl and_then (None, s) [applyWorkerRuntime pd (cfWorker cf), applyTaskRuntime (cfTask cf)]
       else if name = ''nodes'' then
         foldl and_then (None, s) [applyNodeRuntime pd (cfNode cf), applyClientRuntime he (cfClient cf)]
       else if name \<in> {''run'', ''status'', ''stop'', ''logs''} then applyClientRuntime he (cfClient cf) s
       else (None, s)))"
      by (intro stable_if stable_steps stable_skip runtime_ordered) (simp_all only: list.pred_inject runtime_ordered simp_thms)
    from stableD [OF this s1(2)] show ?thesis unfolding F_def if_not_P [OF False] .
  qed
  then show "r = None \<longrightarrow> backoff_ordered s'" using assms(3) run by (cases h) auto
qed

text \<open>The values built into the packages.\<close>

definition defaults :: tunables where
  "defaults =
     \<lparr>tnClientTimeout = 10 * second, tnLongOpTimeout = 900 * second,
      tnDbFile = ''philharmonic.db'', tnDbTaskBucket = ''tasks'', tnDbEventBucket = ''events'',
      tnMaxRestarts = 3, tnRestartBackoffBase = 10 * second, tnRestartBackoffMax = 300 * second,
      tnManagerLoopInterval = 10 * second, tnManagerShutdownTimeout = 10 * second,
      tnDbFilename = ''%s.db'', tnDbBucketName = ''tasks'', tnDbLogBucketName = ''logs'', tnLogCaptureMaxLines = 1000,
      tnWorkerLoopInterval = 10 * second, tnWorkerShutdownTimeout = 10 * second,
      tnStatsQueryMaxRetries = 3, tnStatsQuerySleepPeriod = 3 * second, tnPortsQueryTimeout = 5 * second,
      tnEpvmMaxJobs = 12, tnEpvmMaxSafeCPUUtil = 0x3FECCCCCCCCCCCCD, tnTask = hc_defaults0,
      tnManagerClient = client_reset, tnWorkerClient = client_reset\<rparr>"

lemma defaults_ok: "tunables_ok defaults" "backoff_ordered defaults"
  by (simp_all add: tunables_ok_def backoff_ordered_def defaults_def second_def hc_defaults0_def f_lt_def f_le_def
      f_isnan_def f_key_def f_1_0_def bit_numeral_word_iff)

definition no_config :: config_file where
  "no_config = \<lparr>cfManager = None, cfWorker = None, cfNode = None, cfScheduler = None, cfTask = None,
     cfClient = None, cfHTTP = None\<rparr>"

definition nan :: float64 where "nan = 0x7FF8000000000000"

theorem config_validated_witness:
  "\<exists>s'. (\<forall>he pd sf. applyRuntimeConfig he pd sf
       (no_config\<lparr>cfScheduler := Some \<lparr>scEpvmMaxJobs = Some 5, scEpvmMaxSafeCPUUtil = Some nan\<rparr>\<rparr>) ''manager'' defaults = (None, s'))
     \<and> tunables_ok s' \<and> backoff_ordered s' \<and> tnEpvmMaxJobs s' = 5 \<and> f_isnan (tnEpvmMaxSafeCPUUtil s')"
proof -
  define s' where "s' = defaults\<lparr>tnEpvmMaxJobs := 5, tnEpvmMaxSafeCPUUtil := nan\<rparr>"
  have nan: "f_isnan nan" by (simp add: f_isnan_def nan_def)
  have run: "applyRuntimeConfig he pd sf
      (no_config\<lparr>cfScheduler := Some \<lparr>scEpvmMaxJobs = Some 5, scEpvmMaxSafeCPUUtil = Some nan\<rparr>\<rparr>) ''manager'' defaults
      = (None, s')" for he pd sf
  proof -
    have "checked (validatePosInt fld) 5 = Inr 5" "checked (validateFraction sf fld) nan = Inr nan" for fld
      using nan by (simp_all only: checked_Inr checks_sound fraction_sound) simp_all
    then show ?thesis by (simp add: applyRuntimeConfig_def no_config_def runtime_defs assign_def s'_def)
  qed
  from config_validated [OF defaults_ok run] have "tunables_ok s' \<and> backoff_ordered s'" by blast
  with run nan show ?thesis by (intro exI [of _ s']) (simp add: s'_def)
qed

section \<open>Flags\<close>

text \<open>What the flag library documents: setting a flag changes no other flag, and marks none as unchanged.\<close>

definition flag_laws :: "'f flagset \<Rightarrow> bool" where
  "flag_laws fl \<longleftrightarrow> (\<forall>n v f m. m \<noteq> n \<longrightarrow> flGet fl m (snd (flSet fl n v f)) = flGet fl m f
     \<and> (flChanged fl m f \<longrightarrow> flChanged fl m (snd (flSet fl n v f))))"

definition given :: "'f flagset \<Rightarrow> string \<Rightarrow> string \<Rightarrow> 'f \<Rightarrow> bool" where
  "given fl n v f \<longleftrightarrow> flChanged fl n f \<and> flGet fl n f = v"

lemma given_set:
  assumes "flag_laws fl"
  shows "stable (given fl n v) (setStr fl m x)" "stable (given fl n v) (setInt fl m y)"
    "stable (given fl n v) (setSlice fl m z)"
  using assms
  by (cases "m = n"; fastforce simp: stable_def given_def setStr_def setInt_def setSlice_def flag_laws_def
      split: option.split)+

text \<open>
  An explicit flag beats the configuration file. A flag given on the command line has the same
  value after the configuration was applied, for every command and every file.
\<close>

theorem flags_win:
  assumes "flag_laws fl" "flChanged fl n f"
  shows "flGet fl n (snd (applyConfig fl cf name f)) = flGet fl n f"
proof -
  have "stable (given fl n (flGet fl n f)) (applyConfig fl cf name)"
    unfolding applyConfig_def
    by (intro stable_if stable_option stable_steps stable_skip given_set [OF assms(1)])
      (simp_all only: list.pred_inject given_set [OF assms(1)] simp_thms)
  then have "given fl n (flGet fl n f) (snd (applyConfig fl cf name f))"
    by (rule stableD) (simp add: given_def assms(2))
  then show ?thesis by (simp add: given_def)
qed

text \<open>Flags kept in a map from names to values, with the set of those that were set.\<close>

definition map_flags :: "((string \<Rightarrow> string) \<times> string set) flagset" where
  "map_flags = \<lparr>flGet = (\<lambda>n f. fst f n), flChanged = (\<lambda>n f. n \<in> snd f),
     flSet = (\<lambda>n v f. (None, ((fst f)(n := v), insert n (snd f))))\<rparr>"

theorem flags_win_witness:
  "fst (snd (applyConfig map_flags (no_config\<lparr>cfClient := Some \<lparr>ccManager = Some ''b:1'', ccTLS = None, ccToken = None,
       ccTokenFile = None\<rparr>\<rparr>) ''run'' ((\<lambda>n. ''a:1''), {''manager''}))) ''manager'' = ''a:1''"
proof -
  have laws: "flag_laws map_flags" by (simp add: flag_laws_def map_flags_def)
  have c: "flChanged map_flags ''manager'' ((\<lambda>n. ''a:1''), {''manager''})" by (simp add: map_flags_def)
  have get: "flGet map_flags n f = fst f n" for n f by (simp add: map_flags_def)
  show ?thesis using flags_win [OF laws c] by (simp only: get fst_conv)
qed

section \<open>Credentials\<close>

lemma clientToken_cases:
  assumes "clientToken he c = Inr token" "token \<noteq> []"
  shows "token = heTokenEnv he \<or> \<not> has_prefix ''sha256:'' token"
proof -
  have "validateClientToken t = None \<Longrightarrow> \<not> has_prefix ''sha256:'' t" for t
    by (simp only: validateClientToken_def split: if_splits) simp_all
  then show ?thesis using assms
    by (auto simp: clientToken_def Let_def split: if_splits option.splits sum.splits)
qed

text \<open>
  A user's bearer token goes to the manager and nowhere else. After a client command is set up, the
  requests to the manager carry exactly the token that was resolved, from the environment, the file's
  token or the token file in this order, which is no token hash unless the environment gave one; the
  requests to workers carry none; and both go over https exactly when a TLS configuration was made.
\<close>

theorem credentials_stay:
  assumes "applyClientRuntime he c s = (None, s')"
  shows "\<exists>token. clientToken he c = Inr token
    \<and> RoundTrip (tnManagerClient s') = (if token = [] then [] else ''Bearer '' @ token)
    \<and> (token \<noteq> [] \<longrightarrow> token = heTokenEnv he \<or> \<not> has_prefix ''sha256:'' token)
    \<and> RoundTrip (tnWorkerClient s') = []
    \<and> (client_scheme (tnWorkerClient s') = ''https'' \<longleftrightarrow> rcTLS (tnWorkerClient s') \<noteq> None)
    \<and> client_scheme (tnManagerClient s') = client_scheme (tnWorkerClient s')"
proof -
  obtain token tls where r: "clientToken he c = Inr token"
      "s' = s\<lparr>tnManagerClient := client_configure \<lparr>TLSConfig = tls, BearerToken = token\<rparr>,
              tnWorkerClient := client_configure \<lparr>TLSConfig = tls, BearerToken = []\<rparr>\<rparr>"
    using assms by (auto simp: applyClientRuntime_def split: sum.splits)
  show ?thesis
    using clientToken_cases [OF r(1)]
    by (intro exI [of _ token]) (auto simp: r RoundTrip_def client_configure_def client_scheme_def)
qed

theorem credentials_stay_witness:
  "\<exists>s'. applyClientRuntime \<lparr>heFiles = \<lparr>flRead = (\<lambda>p. Inr p), flKeyPair = (\<lambda>c k. None), flPEM = (\<lambda>p. True)\<rparr>,
       heConfigDir = [], heIsAbs = (\<lambda>p. True), heJoin = (@), heTokenEnv = ''ph_x'',
       heUnmarshalTokens = (\<lambda>d. Inr []), heCrypto = demo_crypto\<rparr> None defaults = (None, s')
     \<and> RoundTrip (tnWorkerClient s') = []"
proof -
  let ?he = "\<lparr>heFiles = \<lparr>flRead = (\<lambda>p. Inr p), flKeyPair = (\<lambda>c k. None), flPEM = (\<lambda>p. True)\<rparr>,
       heConfigDir = [], heIsAbs = (\<lambda>p. True), heJoin = (@), heTokenEnv = ''ph_x'',
       heUnmarshalTokens = (\<lambda>d. Inr []), heCrypto = demo_crypto\<rparr>"
  obtain s' where s': "applyClientRuntime ?he None defaults = (None, s')"
    by (simp add: applyClientRuntime_def clientToken_def)
  from credentials_stay [OF this] s' show ?thesis by blast
qed

section \<open>The worker's database file\<close>

lemma remove_all_percent:
  "CHR ''%'' \<notin> set (remove_all ''%s'' v) \<longleftrightarrow> (\<forall>a b. v = a @ CHR ''%'' # b \<longrightarrow> (\<exists>c. b = CHR ''s'' # c))"
  (is "_ \<longleftrightarrow> ?ok v")
proof (induction "''%s''" v rule: remove_all.induct)
  case 1
  then show ?case by simp
next
  case (2 c cs)
  have tail: "?ok (c # cs) \<longleftrightarrow> (c = CHR ''%'' \<longrightarrow> (\<exists>d. cs = CHR ''s'' # d)) \<and> ?ok cs"
  proof (intro iffI conjI impI allI)
    assume ok: "?ok (c # cs)"
    show "\<exists>d. cs = CHR ''s'' # d" if "c = CHR ''%''" using ok [rule_format, of "[]" cs] that by simp
    show "\<exists>d. b = CHR ''s'' # d" if "cs = a @ CHR ''%'' # b" for a b
      using ok [rule_format, of "c # a" b] that by simp
  next
    fix a b
    assume h: "(c = CHR ''%'' \<longrightarrow> (\<exists>d. cs = CHR ''s'' # d)) \<and> ?ok cs" "c # cs = a @ CHR ''%'' # b"
    then show "\<exists>d. b = CHR ''s'' # d" by (cases a) auto
  qed
  show ?case
  proof (cases "has_prefix ''%s'' (c # cs)")
    case True
    then obtain r where r: "c = CHR ''%''" "cs = CHR ''s'' # r" by (auto simp: has_prefix_iff)
    have "?ok cs \<longleftrightarrow> ?ok r"
    proof (intro iffI allI impI)
      fix a b assume "?ok cs" "r = a @ CHR ''%'' # b"
      then show "\<exists>c. b = CHR ''s'' # c" using r(2) by (metis append_Cons)
    next
      fix a b assume "?ok r" "cs = a @ CHR ''%'' # b"
      then show "\<exists>c. b = CHR ''s'' # c" using r(2) by (cases a) auto
    qed
    with 2(1) True r tail show ?thesis by simp
  next
    case False
    then have "\<not> (c = CHR ''%'' \<and> (\<exists>d. cs = CHR ''s'' # d))" by (auto simp: has_prefix_iff)
    with 2(2) False tail show ?thesis by auto
  qed
qed

text \<open>
  A database file name is accepted exactly when it has a "%s" and every "%" of it starts one. So
  the format has no other verb; but it may have several, where the worker's name is the only operand.
\<close>

theorem db_filename_exact:
  "validateDbFilename fld v = None \<longleftrightarrow>
     str_contains ''%s'' v \<and> (\<forall>a b. v = a @ CHR ''%'' # b \<longrightarrow> (\<exists>c. b = CHR ''s'' # c))"
proof -
  have "str_contains ''%s'' v \<Longrightarrow> v \<noteq> []" by (cases v) simp_all
  moreover have "validateDbFilename fld v = None \<longleftrightarrow>
      v \<noteq> [] \<and> str_contains ''%s'' v \<and> CHR ''%'' \<notin> set (remove_all ''%s'' v)"
    unfolding validateDbFilename_def by (simp only: split: if_split) simp
  ultimately show ?thesis unfolding remove_all_percent by blast
qed

theorem db_filename_exact_witness:
  "validateDbFilename ''f'' ''%s%s'' = None \<and> validateDbFilename ''f'' ''%s%d'' \<noteq> None"
proof
  show "validateDbFilename ''f'' ''%s%s'' = None" unfolding db_filename_exact
    by (auto simp: has_prefix_def Cons_eq_append_conv)
  have "''%s%d'' = ''%s'' @ CHR ''%'' # ''d''" by simp
  then show "validateDbFilename ''f'' ''%s%d'' \<noteq> None" unfolding db_filename_exact by blast
qed

end
