(* ===== verification/Urls.thy ===== *)
theory Urls
  imports Prelude
begin

text \<open>
  The escaping of \<open>net/url\<close> that the commands rely on: \<open>url.PathEscape\<close>, with which \<open>cmd/stop.go\<close> and
  \<open>cmd/logs.go\<close> put a task reference into a path, and \<open>setPath\<close>, with which a server parses the path of a
  request. A parsed path has two forms: \<open>Path\<close>, unescaped, and \<open>RawPath\<close>, the path as it was sent, which
  is empty when it is what escaping \<open>Path\<close> gives anyway.
\<close>

section \<open>Escaping\<close>

datatype encoding = EncodePath | EncodePathSegment

definition alphanumeric :: "char \<Rightarrow> bool" where
  "alphanumeric c \<longleftrightarrow> (let n = of_char c :: nat in 48 \<le> n \<and> n \<le> 57 \<or> 65 \<le> n \<and> n \<le> 90 \<or> 97 \<le> n \<and> n \<le> 122)"

definition unreserved_marks :: string where "unreserved_marks = ''-_.~''"

definition reserved_marks :: string where "reserved_marks = ''$&+,/:;=?@''"

text \<open>A segment also escapes what separates segments and their parameters.\<close>

definition separators :: string where "separators = ''/;,''"

definition shouldEscape :: "encoding \<Rightarrow> char \<Rightarrow> bool" where
  "shouldEscape mode c =
     (if alphanumeric c \<or> c \<in> set unreserved_marks then False
      else if c \<in> set reserved_marks then
        (case mode of EncodePath \<Rightarrow> c = CHR ''?'' | EncodePathSegment \<Rightarrow> c = CHR ''?'' \<or> c \<in> set separators)
      else True)"

definition upper_hex :: "nat \<Rightarrow> char" where
  "upper_hex d = (if d < 10 then digit d else char_of (55 + d))"

definition escape_char :: "encoding \<Rightarrow> char \<Rightarrow> string" where
  "escape_char mode c =
     (let n = of_char c :: nat in
      if shouldEscape mode c then [CHR ''%'', upper_hex (n div 16), upper_hex (n mod 16)] else [c])"

definition escape :: "encoding \<Rightarrow> string \<Rightarrow> string" where
  "escape mode s = concat (map (escape_char mode) s)"

definition PathEscape :: "string \<Rightarrow> string" where
  "PathEscape s = escape EncodePathSegment s"

section \<open>Unescaping\<close>

definition unhex :: "char \<Rightarrow> nat option" where
  "unhex c =
     (let n = of_char c :: nat in
      if 48 \<le> n \<and> n \<le> 57 then Some (n - 48)
      else if 97 \<le> n \<and> n \<le> 102 then Some (n - 87)
      else if 65 \<le> n \<and> n \<le> 70 then Some (n - 55)
      else None)"

text \<open>\<open>None\<close> is an \<open>EscapeError\<close>: a percent sign without two hex digits.\<close>

fun unescape :: "string \<Rightarrow> string option" where
  "unescape [] = Some []"
| "unescape (c # cs) =
     (if c = CHR ''%'' then
        (case cs of
           h # l # rest \<Rightarrow>
             (case (unhex h, unhex l) of
                (Some x, Some y) \<Rightarrow> map_option (Cons (char_of (16 * x + y))) (unescape rest)
              | _ \<Rightarrow> None)
         | _ \<Rightarrow> None)
      else map_option (Cons c) (unescape cs))"

text \<open>The two forms of a path that was sent as \<open>p\<close>.\<close>

definition setPath :: "string \<Rightarrow> (string \<times> string) option" where
  "setPath p =
     (case unescape p of
        None \<Rightarrow> None
      | Some path \<Rightarrow> Some (path, if p = escape EncodePath path then [] else p))"

section \<open>Round trip\<close>

lemma escape_simps [simp]:
  "escape mode [] = []" "escape mode (c # cs) = escape_char mode c @ escape mode cs"
  "escape mode (as @ bs) = escape mode as @ escape mode bs"
  by (simp_all add: escape_def)

lemma unhex_upper_hex [simp]: "d < 16 \<Longrightarrow> unhex (upper_hex d) = Some d"
  by (auto simp: unhex_def upper_hex_def digit_def Let_def)

lemma percent_escaped: "shouldEscape mode CHR ''%''"
  by (simp add: shouldEscape_def alphanumeric_def unreserved_marks_def reserved_marks_def)

lemma unescape_escape_char: "unescape (escape_char mode c @ s) = map_option (Cons c) (unescape s)"
proof (cases "shouldEscape mode c")
  case True
  have "of_char c < (256 :: nat)" by simp
  then have "unhex (upper_hex (of_char c div 16)) = Some (of_char c div 16)"
    "unhex (upper_hex (of_char c mod 16)) = Some (of_char c mod 16)"
    by (intro unhex_upper_hex; simp add: less_mult_imp_div_less)+
  moreover have "char_of (16 * (of_char c div 16) + of_char c mod 16 :: nat) = c"
    by (simp only: mult_div_mod_eq char_of_char)
  ultimately show ?thesis
    using True by (simp add: escape_char_def Let_def)
next
  case False
  then have "c \<noteq> CHR ''%''" using percent_escaped by metis
  with False show ?thesis by (simp add: escape_char_def)
qed

lemma unescape_escape: "unescape (escape mode s) = Some s"
  by (induction s) (simp_all add: unescape_escape_char)

section \<open>When the two forms differ\<close>

lemma separator_escape:
  assumes "c \<in> set separators"
  shows "shouldEscape EncodePathSegment c" "\<not> shouldEscape EncodePath c" "\<not> alphanumeric c" "c \<noteq> CHR ''%''"
  using assms
  by (auto simp: shouldEscape_def separators_def alphanumeric_def unreserved_marks_def reserved_marks_def)

lemma other_escape: "c \<notin> set separators \<Longrightarrow> escape_char EncodePathSegment c = escape_char EncodePath c"
  by (auto simp: escape_char_def shouldEscape_def)

lemma upper_hex_alphanumeric: "d < 16 \<Longrightarrow> alphanumeric (upper_hex d)"
  by (auto simp: alphanumeric_def upper_hex_def digit_def Let_def)

lemma escape_char_set: "set (escape_char mode c) \<subseteq> insert (CHR ''%'') ({d. alphanumeric d} \<union> {c. \<not> shouldEscape mode c})"
proof -
  have "of_char c < (256 :: nat)" by simp
  then have "of_char c div 16 < (16 :: nat)" by (simp add: less_mult_imp_div_less)
  then show ?thesis by (auto simp: escape_char_def Let_def intro!: upper_hex_alphanumeric)
qed

text \<open>An escaped segment holds no separator: it stays one segment of the path.\<close>

lemma PathEscape_separators: "c \<in> set separators \<Longrightarrow> c \<notin> set (PathEscape s)"
proof (induction s)
  case Nil
  then show ?case by (simp add: PathEscape_def)
next
  case (Cons d s)
  then show ?case
    using escape_char_set [of EncodePathSegment d] separator_escape [OF Cons.prems]
    by (auto simp: PathEscape_def)
qed

lemma escape_separator: "c \<in> set separators \<Longrightarrow> c \<in> set s \<Longrightarrow> c \<in> set (escape EncodePath s)"
  by (induction s) (auto simp: escape_char_def Let_def separator_escape)

lemma PathEscape_agrees: "PathEscape s = escape EncodePath s \<longleftrightarrow> \<not> contains_any s separators"
proof
  assume eq: "PathEscape s = escape EncodePath s"
  show "\<not> contains_any s separators"
  proof
    assume "contains_any s separators"
    then obtain c where c: "c \<in> set separators" "c \<in> set s" by (auto simp: contains_any_def list_ex_iff)
    with eq PathEscape_separators escape_separator show False by metis
  qed
next
  assume "\<not> contains_any s separators"
  then have "\<forall>c\<in>set s. c \<notin> set separators" by (auto simp: contains_any_def list_ex_iff)
  then show "PathEscape s = escape EncodePath s"
    by (induction s) (simp_all add: PathEscape_def other_escape)
qed

text \<open>
  The path of a request for a task, \<open>prefix\<close> and the escaped reference: \<open>Path\<close> has the reference itself,
  and \<open>RawPath\<close> is set, to the escaped form, exactly when the reference holds a separator.
\<close>

lemma setPath_segment:
  assumes "escape EncodePath prefix = prefix" "\<forall>c\<in>set prefix. c \<noteq> CHR ''%''"
  shows "setPath (prefix @ PathEscape s) =
     Some (prefix @ s, if contains_any s separators then prefix @ PathEscape s else [])"
proof -
  have "unescape (prefix @ PathEscape s) = Some (prefix @ s)"
    using assms(2) unescape_escape [of EncodePathSegment s] by (induction prefix) (simp_all add: PathEscape_def)
  then show ?thesis using assms(1) by (simp add: setPath_def PathEscape_agrees)
qed

end
