(* ===== verification/Cli.thy ===== *)
theory Cli
  imports Routes Config Urls
begin

text \<open>
  The commands of the command line, \<open>cmd/*.go\<close>: what each sends, prints and returns. A command's outcome
  is the text it wrote and its error. HTTP exchanges, JSON decoding and \<open>units.HumanDuration\<close> are the
  environment's; tables are the text handed to \<open>text/tabwriter\<close>, cells ending in tabs, before it aligns
  the columns. Reading a flag that is defined cannot fail.
\<close>

type_synonym outcome = "string \<times> gerror option"

text \<open>
  What a response is to a command: its status, its headers, and the bytes of its body with the error
  that cut them short, if any.
\<close>

record api_response =
  arStatus :: int
  arHeader :: "string \<Rightarrow> string"
  arBody :: "string \<times> gerror option"

text \<open>\<open>io.ReadAll\<close>, when its error is looked at.\<close>

definition read_all :: "api_response \<Rightarrow> gerror + string" where
  "read_all resp = (case arBody resp of (body, None) \<Rightarrow> Inr body | (body, Some err) \<Rightarrow> Inl err)"

record cli_env =
  ceNewRequest :: "string \<Rightarrow> gerror option"
  ceDo :: "string \<Rightarrow> string \<Rightarrow> string \<Rightarrow> gerror + api_response"
  ceMessage :: "string \<Rightarrow> string option"
  ceTasks :: "string \<Rightarrow> gerror + task option list"
  ceTask :: "string \<Rightarrow> gerror + task"
  ceNodes :: "string \<Rightarrow> gerror + node option list"
  ceNow :: "nat \<Rightarrow> gotime"
  ceHumanDuration :: "duration \<Rightarrow> string"
  ceIDString :: "uuid \<Rightarrow> string"
  ceClient :: role_client

section \<open>HTTP clients\<close>

text \<open>
  The package state of \<open>httpclient\<close> is part of the variables: the two clients' transports and the two
  timeouts. An \<open>http.Client\<close> is a timeout and what its transport adds to a request.
\<close>

record http_client =
  clTimeout :: duration
  clTransport :: role_client

definition role_client_client :: "duration \<Rightarrow> role_client \<Rightarrow> http_client" where
  "role_client_client timeout rc = \<lparr>clTimeout = timeout, clTransport = rc\<rparr>"

definition ConfigureManagerClient :: "options \<Rightarrow> tunables \<Rightarrow> tunables" where
  "ConfigureManagerClient opts s = s\<lparr>tnManagerClient := client_configure opts\<rparr>"

definition ConfigureWorkerClient :: "options \<Rightarrow> tunables \<Rightarrow> tunables" where
  "ConfigureWorkerClient opts s = s\<lparr>tnWorkerClient := client_configure opts\<rparr>"

definition http_Reset :: "tunables \<Rightarrow> tunables" where
  "http_Reset s = s\<lparr>tnManagerClient := client_reset, tnWorkerClient := client_reset\<rparr>"

definition http_Manager :: "tunables \<Rightarrow> http_client" where
  "http_Manager s = role_client_client (tnClientTimeout s) (tnManagerClient s)"

definition http_Worker :: "tunables \<Rightarrow> http_client" where
  "http_Worker s = role_client_client (tnClientTimeout s) (tnWorkerClient s)"

definition http_WorkerLongOp :: "tunables \<Rightarrow> http_client" where
  "http_WorkerLongOp s = role_client_client (tnLongOpTimeout s) (tnWorkerClient s)"

text \<open>The client that probes user workloads has the default transport.\<close>

definition http_Plain :: "tunables \<Rightarrow> http_client" where
  "http_Plain s = role_client_client (tnClientTimeout s) client_reset"

definition ManagerScheme :: "tunables \<Rightarrow> string" where
  "ManagerScheme s = client_scheme (tnManagerClient s)"

definition WorkerScheme :: "tunables \<Rightarrow> string" where
  "WorkerScheme s = client_scheme (tnWorkerClient s)"

section \<open>Errors of a response\<close>

text \<open>\<open>ceMessage\<close> is the \<open>Message\<close> of a body that decodes as a \<open>handlers.HTTPResponse\<close>.\<close>

definition responseBodyMessage :: "cli_env \<Rightarrow> string \<Rightarrow> string" where
  "responseBodyMessage c body =
     (let trimmed = trim_space body in
      if trimmed = [] then []
      else case ceMessage c body of
        None \<Rightarrow> trimmed
      | Some message \<Rightarrow> (let msg = trim_space message in if msg \<noteq> [] then msg else trimmed))"

definition manager_returned :: "int \<Rightarrow> string" where
  "manager_returned status = ''manager returned status '' @ itoa status"

definition refused_request :: "cli_env \<Rightarrow> string \<Rightarrow> api_response \<Rightarrow> gerror" where
  "refused_request c unreadable resp =
     (case read_all resp of
        Inl err \<Rightarrow> wrapf (manager_returned (arStatus resp) @ unreadable) err
      | Inr body \<Rightarrow> errorf (manager_returned (arStatus resp) @ '': '' @ responseBodyMessage c body))"

text \<open>For \<open>stop\<close> and \<open>logs\<close>, which take what could be read of the body.\<close>

definition unexpected_status :: "cli_env \<Rightarrow> string \<Rightarrow> string \<Rightarrow> api_response \<Rightarrow> gerror" where
  "unexpected_status c doing url resp =
     errorf (doing @ '': unexpected status '' @ itoa (arStatus resp) @ '' from '' @ url @ '': ''
       @ responseBodyMessage c (fst (arBody resp)))"

section \<open>The status command\<close>

definition tab :: string where "tab = [CHR 0x09]"

definition knownStateNames :: "string list" where
  "knownStateNames = map state_String [Pending, Scheduled, Running, Completed, Failed]"

text \<open>
  \<open>strings.EqualFold\<close> against an ASCII text: the only other characters that fold to ASCII letters are
  U+017F and U+212A, which fold to s and k.
\<close>

fun fold_ascii :: "string \<Rightarrow> string" where
  "fold_ascii [] = []"
| "fold_ascii (c # cs) =
     (if c = CHR 0xC5 then
        (case cs of d # ds \<Rightarrow> if d = CHR 0xBF then CHR ''s'' # fold_ascii ds else c # fold_ascii cs | [] \<Rightarrow> [c])
      else if c = CHR 0xE2 then
        (case cs of
           d # x # ds \<Rightarrow> if d = CHR 0x84 \<and> x = CHR 0xAA then CHR ''k'' # fold_ascii ds else c # fold_ascii cs
         | _ \<Rightarrow> c # fold_ascii cs)
      else ascii_lower c # fold_ascii cs)"

definition EqualFold :: "string \<Rightarrow> string \<Rightarrow> bool" where
  "EqualFold s t \<longleftrightarrow> fold_ascii s = fold_ascii t"

definition invalid_filter :: "string \<Rightarrow> gerror" where
  "invalid_filter wanted =
     errorf (''invalid --filter '' @ go_quote wanted @ '': want one of '' @ str_join '', '' knownStateNames)"

definition taskHasPorts :: "task option \<Rightarrow> bool" where
  "taskHasPorts t =
     (case t of
        None \<Rightarrow> False
      | Some t \<Rightarrow> tState t = Running \<and> list_ex (\<lambda>pm. HostPort pm \<noteq> 0) (tHostPorts t))"

definition port_text :: "port_mapping \<Rightarrow> string" where
  "port_text pm =
     (let protocol = to_lower (Protocol pm) in
      ''0.0.0.0:'' @ itoa (HostPort pm) @ ''->'' @ itoa (ContainerPort pm) @ ''/''
        @ (if protocol = [] then ''tcp'' else protocol))"

definition taskPorts :: "task \<Rightarrow> string" where
  "taskPorts t =
     (if \<not> taskHasPorts (Some t) then []
      else str_join '', '' (map port_text (filter (\<lambda>pm. HostPort pm \<noteq> 0) (tHostPorts t))))"

definition statusFailure :: "string \<Rightarrow> string" where
  "statusFailure reason =
     (let reason = trim_space reason in
      if reason = [] then ''-''
      else map (\<lambda>c. if c \<in> set [CHR 0x0A, CHR 0x0D, CHR 0x09] then CHR '' '' else c) reason)"

definition statusContainerID :: "task \<Rightarrow> string" where
  "statusContainerID t =
     (let i = trim_space (tContainerID t) in if i = [] then ''-'' else if length i > 12 then take 12 i else i)"

text \<open>\<open>time.Time.Sub\<close> stays within a \<open>Duration\<close>.\<close>

definition time_Sub :: "gotime \<Rightarrow> gotime \<Rightarrow> duration" where
  "time_Sub t u = max (- (2 ^ 63)) (min (2 ^ 63 - 1) (t - u))"

definition task_age :: "cli_env \<Rightarrow> gotime \<Rightarrow> task \<Rightarrow> string" where
  "task_age c now t =
     (if time_IsZero (tStartTime t) then ''-'' else ceHumanDuration c (time_Sub now (tStartTime t)) @ '' ago'')"

definition matches_filter :: "string \<Rightarrow> task \<Rightarrow> bool" where
  "matches_filter wanted t \<longleftrightarrow> wanted = [] \<or> to_lower (state_String (tState t)) = wanted"

definition status_header :: "bool \<Rightarrow> bool \<Rightarrow> string list" where
  "status_header showPorts showFailureDetails =
     [''ID'', ''NAME'', ''AGE'', ''STATE'', ''CONTAINERID'', ''IMAGE'']
       @ (if showPorts then [''PORTS''] else []) @ (if showFailureDetails then [''RESTARTS'', ''FAILURE''] else [])"

definition status_row :: "cli_env \<Rightarrow> bool \<Rightarrow> bool \<Rightarrow> nat \<Rightarrow> task \<Rightarrow> string list" where
  "status_row c showPorts showFailureDetails i t =
     [ceIDString c (tID t), tName t, task_age c (ceNow c i) t, state_String (tState t), statusContainerID t, tImage t]
       @ (if showPorts then [taskPorts t] else [])
       @ (if showFailureDetails then [itoa (tRestartCount t), statusFailure (tFailureReason t)] else [])"

text \<open>A line of a table: every cell ends in a tab.\<close>

definition table_line :: "string list \<Rightarrow> string" where
  "table_line cells = concat (map (\<lambda>cell. cell @ tab) cells) @ newline"

definition writeTaskStatus :: "cli_env \<Rightarrow> task option list \<Rightarrow> string \<Rightarrow> string" where
  "writeTaskStatus c tasks wanted =
     (let wanted = to_lower (trim_space wanted);
          showFailureDetails = (wanted = to_lower (state_String Failed));
          visibleTasks = filter (matches_filter wanted) (List.map_filter id tasks);
          showPorts = list_ex (\<lambda>t. taskHasPorts (Some t)) visibleTasks
      in table_line (status_header showPorts showFailureDetails)
         @ concat (map (\<lambda>(i, t). table_line (status_row c showPorts showFailureDetails i t)) (enumerate 0 visibleTasks)))"

definition statusCmd :: "cli_env \<Rightarrow> string \<Rightarrow> string \<Rightarrow> outcome" where
  "statusCmd c manager wanted =
     (let wanted = trim_space wanted in
      if wanted \<noteq> [] \<and> \<not> list_ex (\<lambda>s. EqualFold s wanted) knownStateNames then ([], Some (invalid_filter wanted))
      else case ceDo c ''GET'' (ManagerURL (ceClient c) manager ''/tasks'') [] of
        Inl err \<Rightarrow> ([], Some err)
      | Inr resp \<Rightarrow>
          if arStatus resp \<noteq> StatusOK
          then ([], Some (refused_request c '', couldn't read the response body: '' resp))
          else case read_all resp of
            Inl err \<Rightarrow> ([], Some err)
          | Inr body \<Rightarrow>
              (case ceTasks c body of
                 Inl err \<Rightarrow> ([], Some (wrapf ''error unmarshalling tasks: '' err))
               | Inr tasks \<Rightarrow> (writeTaskStatus c tasks wanted, None)))"

section \<open>The nodes command\<close>

text \<open>\<open>neShow2\<close> and \<open>neShow4\<close> are the verbs \<open>%.2f\<close> and \<open>%.4f\<close>, \<open>neTimes100\<close> multiplies by 100.\<close>

record nodes_env =
  nePU :: fpu
  neShow2 :: "float64 \<Rightarrow> string"
  neShow4 :: "float64 \<Rightarrow> string"
  neTimes100 :: "float64 \<Rightarrow> float64"
  neStats :: "string \<Rightarrow> nat \<Rightarrow> gerror + stats http_response"
  neMaxRetries :: int
  nePeriod :: duration

definition nodeNotAvailable :: string where "nodeNotAvailable = ''Not avail.''"

definition memoryDivisor :: int where "memoryDivisor = 1024"

definition storageDivisor :: int where "storageDivisor = memoryDivisor * memoryDivisor * memoryDivisor"

definition nodes_header :: "string list" where
  "nodes_header = [''NAME'', ''MEMORY (MiB)'', ''MEMORY AVAILABLE (MiB)'', ''DISK (GiB)'', ''DISK AVAILABLE (GiB)'',
     ''CPU USAGE (%)'', ''ROLE'', ''TASKS'']"

definition writeUnavailableNode :: "string \<Rightarrow> string" where
  "writeUnavailableNode address = table_line (address # replicate 7 nodeNotAvailable)"

definition invalid_cpu :: "nodes_env \<Rightarrow> node \<Rightarrow> float64 \<Rightarrow> gerror" where
  "invalid_cpu ne n usage = errorf (''node '' @ nAddress n @ '' returned invalid CPU usage '' @ neShow4 ne usage)"

definition f_isinf :: "float64 \<Rightarrow> bool" where
  "f_isinf x \<longleftrightarrow> take_bit 63 x = 0x7FF0000000000000"

definition cpu_invalid :: "float64 \<Rightarrow> bool" where
  "cpu_invalid usage \<longleftrightarrow> f_isnan usage \<or> f_isinf usage \<or> f_lt usage 0 \<or> f_lt f_1_0 usage"

text \<open>A value no larger than the total: the available amounts are cut off there.\<close>

definition at_most :: "u64 \<Rightarrow> u64 \<Rightarrow> u64" where
  "at_most available most = (if available > most then most else available)"

definition writeNodeStats :: "nodes_env \<Rightarrow> node \<Rightarrow> stats \<Rightarrow> string \<times> gerror option" where
  "writeNodeStats ne n s =
     (let memoryTotal = MemTotalKb s; memoryAvailable = at_most (MemAvailableKb s) memoryTotal;
          diskTotal = DiskTotal s; diskAvailable = at_most (DiskFree s) diskTotal;
          invalid = cpu_invalid (stCpuUsage s);
          cpuUsage = (if invalid then nodeNotAvailable else neShow2 ne (neTimes100 ne (stCpuUsage s)));
          mib = (\<lambda>kb. neShow2 ne (fDiv (nePU ne) (fOfInt (nePU ne) (uint kb)) (fOfInt (nePU ne) memoryDivisor)));
          gib = (\<lambda>b. neShow2 ne (fDiv (nePU ne) (fOfInt (nePU ne) (uint b)) (fOfInt (nePU ne) storageDivisor)))
      in (table_line [nAddress n, mib memoryTotal, mib memoryAvailable, gib diskTotal, gib diskAvailable, cpuUsage,
                      nRole n, itoa (stTaskCount s)],
          if invalid then Some (invalid_cpu ne n (stCpuUsage s)) else None))"

definition null_node :: gerror where "null_node = errorf ''manager returned a null node''"

text \<open>The line of a node and what went wrong with it.\<close>

definition node_line :: "nodes_env \<Rightarrow> node option \<Rightarrow> string \<times> gerror option" where
  "node_line ne n =
     (case n of
        None \<Rightarrow> (writeUnavailableNode nodeNotAvailable, Some null_node)
      | Some n \<Rightarrow>
          (case node_GetStats (neStats ne (nAddress n)) (neMaxRetries ne) (nePeriod ne) n of
             (Inl err, n) \<Rightarrow> (writeUnavailableNode (nAddress n), Some err)
           | (Inr s, n) \<Rightarrow> writeNodeStats ne n s))"

definition node_table :: "nodes_env \<Rightarrow> node option list \<Rightarrow> outcome" where
  "node_table ne nodes =
     (let lines = map (node_line ne) nodes in
      (table_line nodes_header @ concat (map fst lines), errors_Join (List.map_filter snd lines)))"

definition nodesCmd :: "cli_env \<Rightarrow> nodes_env \<Rightarrow> string \<Rightarrow> outcome" where
  "nodesCmd c ne manager =
     (case ceDo c ''GET'' (ManagerURL (ceClient c) manager ''/nodes'') [] of
        Inl err \<Rightarrow> ([], Some (wrapf ''error connecting to manager: '' err))
      | Inr resp \<Rightarrow>
          if arStatus resp \<noteq> StatusOK
          then ([], Some (refused_request c '', couldn't read the response body: '' resp))
          else case read_all resp of
            Inl err \<Rightarrow> ([], Some (wrapf ''reading manager response: '' err))
          | Inr body \<Rightarrow>
              (case ceNodes c body of
                 Inl err \<Rightarrow> ([], Some (wrapf ''error unmarshalling nodes: '' err))
               | Inr nodes \<Rightarrow> node_table ne nodes))"

section \<open>The run command\<close>

text \<open>\<open>fAbs\<close> is \<open>filepath.Abs\<close>; a directory opened as a root, in which a file is read.\<close>

record file_env =
  feAbs :: "string \<Rightarrow> gerror + string"
  feOpenRoot :: "string \<Rightarrow> gerror option"
  feReadFile :: "string \<Rightarrow> string \<Rightarrow> (gerror \<times> bool) + string"

text \<open>\<open>filepath.Split\<close>: the path up to and with its last slash, and the rest.\<close>

definition path_split :: "string \<Rightarrow> string \<times> string" where
  "path_split p = (let file = rev (takeWhile (\<lambda>c. c \<noteq> CHR ''/'') (rev p)) in (take (length p - length file) p, file))"

definition readFile :: "file_env \<Rightarrow> string \<Rightarrow> gerror + string" where
  "readFile fe filename =
     (case path_split filename of
        (dir, file) \<Rightarrow>
          (let dir = (if dir = [] then ''.'' else dir) in
           case feOpenRoot fe dir of
             Some err \<Rightarrow> Inl err
           | None \<Rightarrow> (case feReadFile fe dir file of Inl (err, _) \<Rightarrow> Inl err | Inr data \<Rightarrow> Inr data)))"

definition using_text :: "string \<Rightarrow> string \<Rightarrow> string" where
  "using_text manager path = ''Using manager: '' @ manager @ newline @ ''Using file: '' @ path @ newline"

definition created_text :: "cli_env \<Rightarrow> task \<Rightarrow> string" where
  "created_text c t =
     (let stopRef = (if tName t = [] then ceIDString c (tID t) else tName t) in
      ''Successfully created task '' @ go_quote (tName t) @ '' (id '' @ ceIDString c (tID t) @ '')'' @ newline
        @ ''Stop it later with: philharmonic stop '' @ stopRef @ newline)"

definition runCmd :: "cli_env \<Rightarrow> file_env \<Rightarrow> string \<Rightarrow> string \<Rightarrow> outcome" where
  "runCmd c fe manager filename =
     (case feAbs fe filename of
        Inl err \<Rightarrow> ([], Some err)
      | Inr fullFilePath \<Rightarrow>
          (case readFile fe filename of
             Inl err \<Rightarrow> ([], Some (wrapf (''unable to read file '' @ filename @ '': '') err))
           | Inr data \<Rightarrow>
               (let out = using_text manager fullFilePath in
                case ceDo c ''POST'' (ManagerURL (ceClient c) manager ''/tasks'') data of
                  Inl err \<Rightarrow> (out, Some err)
                | Inr resp \<Rightarrow>
                    if arStatus resp \<noteq> StatusCreated
                    then (out, Some (refused_request c '', couldn't read body: '' resp))
                    else case read_all resp of
                      Inl err \<Rightarrow> (out, Some (wrapf ''reading manager response: '' err))
                    | Inr body \<Rightarrow>
                        (case ceTask c body of
                           Inl err \<Rightarrow> (out, Some (wrapf ''decoding manager response: '' err))
                         | Inr created \<Rightarrow> (out @ created_text c created, None)))))"

section \<open>The stop and logs commands\<close>

definition stop_url :: "cli_env \<Rightarrow> string \<Rightarrow> string \<Rightarrow> string" where
  "stop_url c manager ref = ManagerURL (ceClient c) manager (''/tasks/'' @ PathEscape ref)"

definition stopCmd :: "cli_env \<Rightarrow> string \<Rightarrow> string \<Rightarrow> outcome" where
  "stopCmd c manager ref =
     (let requestURL = stop_url c manager ref in
      case ceNewRequest c requestURL of
        Some err \<Rightarrow> ([], Some (wrapf (''error creating request '' @ requestURL @ '': '') err))
      | None \<Rightarrow> case ceDo c ''DELETE'' requestURL [] of
        Inl err \<Rightarrow> ([], Some (wrapf (''error connecting to '' @ requestURL @ '': '') err))
      | Inr resp \<Rightarrow>
          if arStatus resp \<noteq> 204
          then ([], Some (unexpected_status c ''error sending request'' requestURL resp))
          else (''Sent request to stop task '' @ ref @ ''.'' @ newline, None))"

definition logs_url :: "cli_env \<Rightarrow> string \<Rightarrow> string \<Rightarrow> int \<Rightarrow> string" where
  "logs_url c manager ref tail =
     ManagerURL (ceClient c) manager (''/tasks/logs/'' @ PathEscape ref) @ (if tail > 0 then ''?tail='' @ itoa tail else [])"

definition logsCmd :: "cli_env \<Rightarrow> string \<Rightarrow> string \<Rightarrow> int \<Rightarrow> outcome" where
  "logsCmd c manager ref tail =
     (let requestURL = logs_url c manager ref tail in
      case ceDo c ''GET'' requestURL [] of
        Inl err \<Rightarrow> ([], Some (wrapf (''error connecting to '' @ requestURL @ '': '') err))
      | Inr resp \<Rightarrow>
          if arStatus resp \<noteq> StatusOK
          then ([], Some (unexpected_status c ''error fetching logs'' requestURL resp))
          else (let state = arHeader resp ''X-Task-State''; exitCode = arHeader resp ''X-Exit-Code'';
                    header = ''state='' @ (if state = [] then ''unknown'' else state)
                      @ '' exit='' @ (if exitCode = [] then ''-'' else exitCode) @ newline
                in (header @ fst (arBody resp), snd (arBody resp))))"

section \<open>The token command\<close>

definition token_entry :: "crypto \<Rightarrow> string \<Rightarrow> string \<Rightarrow> string \<Rightarrow> token_record" where
  "token_entry x user role token = \<lparr>trUser = user, trRole = role, trTokenHash = HashToken x token\<rparr>"

definition entry_text :: "token_record \<Rightarrow> string" where
  "entry_text rec =
     ''- user: '' @ go_quote (trUser rec) @ newline @ ''  role: '' @ go_quote (trRole rec) @ newline
       @ ''  token_hash: '' @ go_quote (trTokenHash rec) @ newline"

definition token_text :: "string \<Rightarrow> token_record \<Rightarrow> string" where
  "token_text token rec =
     ''token: '' @ token @ newline @ newline
       @ ''Append this entry to the manager's token file (manager.auth.token_file):'' @ newline @ entry_text rec
       @ newline @ ''Treat the token like a password; only its hash is stored on the manager.'' @ newline"

definition wrong_role :: "string \<Rightarrow> gerror" where
  "wrong_role role =
     errorf (''--role must be '' @ go_quote RoleAdmin @ '' or '' @ go_quote RoleViewer @ '', got '' @ go_quote role)"

definition tokenCmd :: "crypto \<Rightarrow> gerror + 8 word list \<Rightarrow> string \<Rightarrow> string \<Rightarrow> outcome" where
  "tokenCmd x entropy user role =
     (if trim_space user = [] then ([], Some (errorf ''--user must not be empty''))
      else if role \<noteq> RoleAdmin \<and> role \<noteq> RoleViewer then ([], Some (wrong_role role))
      else case GenerateToken entropy of
        Inl err \<Rightarrow> ([], Some err)
      | Inr token \<Rightarrow> (token_text token (token_entry x user role token), None))"

section \<open>The manager and worker commands\<close>

definition defaultWorkerAddress :: string where "defaultWorkerAddress = ''localhost:5556''"

definition isDefaultWorkerList :: "string list \<Rightarrow> bool" where
  "isDefaultWorkerList workers \<longleftrightarrow> length workers = 1 \<and> workers ! 0 = defaultWorkerAddress"

definition manager_start_text :: "string list \<Rightarrow> string" where
  "manager_start_text workers =
     ''Starting manager...'' @ newline
       @ (if isDefaultWorkerList workers
          then ''Notice: using the default worker list: ['' @ str_join '' '' workers @ '']'' @ newline else [])"

definition auth_warning :: "token_store option \<Rightarrow> tls_config option \<Rightarrow> string" where
  "auth_warning tokens serverTLS =
     (if tokens = None
      then ''Warning: manager API auth is disabled (no manager.auth.token_file configured)'' @ newline
      else if serverTLS = None
      then ''Warning: bearer tokens will travel over plain HTTP (no manager.tls configured)'' @ newline
      else [])"

text \<open>
  How the process ends once its loops run: the server's start returns (with its error, if any), or a
  signal arrives first, \<open>None\<close>. Either way the server is shut down and the node closed, and the first
  error is the command's.
\<close>

definition run_error :: "gerror option option \<Rightarrow> gerror option \<Rightarrow> gerror option \<Rightarrow> gerror option" where
  "run_error started shutdown closed =
     (case started of
        Some err \<Rightarrow> first_error [err, shutdown, closed]
      | None \<Rightarrow> first_error [shutdown, closed])"

text \<open>
  What the start of a manager leads to: an error with the text printed so far, or the node, the API's
  TLS configuration and tokens, and the configured client for workers.
\<close>

definition managerCmd ::
  "host_env \<Rightarrow> manager_config option \<Rightarrow> string list \<Rightarrow> gerror option + manager \<Rightarrow> tunables
     \<Rightarrow> string \<times> (gerror option + manager \<times> tls_config option \<times> token_store option) \<times> tunables" where
  "managerCmd he mc workers new s =
     (let out = manager_start_text workers in
      case managerServerTLS he mc of
        Inl err \<Rightarrow> (out, Inl (Some err), s)
      | Inr serverTLS \<Rightarrow>
          (case managerWorkerClientTLS he mc of
             Inl err \<Rightarrow> (out, Inl (Some err), s)
           | Inr workerTLS \<Rightarrow>
               (case managerTokenStore he mc of
                  Inl err \<Rightarrow> (out, Inl (Some err), s)
                | Inr tokens \<Rightarrow>
                    (let s = ConfigureWorkerClient \<lparr>TLSConfig = workerTLS, BearerToken = []\<rparr> s;
                         out = out @ auth_warning tokens serverTLS
                     in case new of
                          Inl err \<Rightarrow> (out, Inl err, s)
                        | Inr m \<Rightarrow> (out, Inr (m, serverTLS, tokens), s)))))"

text \<open>\<open>hostname\<close> is \<open>os.Hostname\<close>, \<open>fresh\<close> a new UUID's text.\<close>

definition worker_name :: "gerror + string \<Rightarrow> string \<Rightarrow> string \<Rightarrow> string" where
  "worker_name hostname fresh name =
     (if name = [] then
        (case hostname of Inl err \<Rightarrow> fresh | Inr h \<Rightarrow> if trim_space h = [] then fresh else h)
      else name)"

definition mtls_notice :: "tls_config option \<Rightarrow> string" where
  "mtls_notice serverTLS =
     (case serverTLS of
        None \<Rightarrow> []
      | Some c \<Rightarrow>
          if tcClientCAs c = None
          then ''Notice: worker TLS is enabled without client_ca_file; ''
            @ ''any client will be accepted. Set worker.tls.client_ca_file to require ''
            @ ''manager certificates (mTLS).'' @ newline
          else [])"

definition workerCmd ::
  "host_env \<Rightarrow> worker_config option \<Rightarrow> string \<Rightarrow> gerror option + 'd worker
     \<Rightarrow> string \<times> (gerror option + 'd worker \<times> tls_config option)" where
  "workerCmd he wc name new =
     (let out = ''Starting worker...'' @ newline @ ''Worker name: '' @ name @ newline in
      case workerServerTLS he wc of
        Inl err \<Rightarrow> (out, Inl (Some err))
      | Inr serverTLS \<Rightarrow>
          (let out = out @ mtls_notice serverTLS in
           case new of
             Inl err \<Rightarrow> (out, Inl err)
           | Inr w \<Rightarrow> (out, Inr (w, serverTLS))))"

section \<open>The root command\<close>

text \<open>
  The configuration file is read in the directory it lies in; a missing file leaves the configuration
  as it was. \<open>unmarshal\<close> decodes into the current configuration. The result is the error, the
  directory for relative paths and the configuration.
\<close>

definition loadConfig ::
  "file_env \<Rightarrow> (string \<Rightarrow> config_file \<Rightarrow> gerror option \<times> config_file) \<Rightarrow> string \<Rightarrow> string \<times> config_file
     \<Rightarrow> gerror option \<times> string \<times> config_file" where
  "loadConfig fe unmarshal path st =
     (case st of (configDir, cf) \<Rightarrow>
      case feAbs fe path of
        Inl err \<Rightarrow> (Some (wrapf (''resolving config path '' @ path @ '': '') err), configDir, cf)
      | Inr abs_path \<Rightarrow>
          (case path_split abs_path of
             (dir, file) \<Rightarrow>
               (case feOpenRoot fe dir of
                  Some err \<Rightarrow> (Some (wrapf (''opening config directory '' @ dir @ '': '') err), dir, cf)
                | None \<Rightarrow>
                    (case feReadFile fe dir file of
                       Inl (err, notExist) \<Rightarrow>
                         (if notExist then None else Some (wrapf (''reading config '' @ path @ '': '') err), dir, cf)
                     | Inr data \<Rightarrow>
                         (case unmarshal data cf of
                            (Some err, cf) \<Rightarrow> (Some (wrapf (''parsing config '' @ path @ '': '') err), dir, cf)
                          | (None, cf) \<Rightarrow> (None, dir, cf))))))"

text \<open>\<open>exe\<close> is \<open>os.Executable\<close>, \<open>dir_of\<close> and \<open>join\<close> are \<open>filepath.Dir\<close> and \<open>filepath.Join\<close>.\<close>

definition defaultConfigPath :: "(string \<Rightarrow> string) \<Rightarrow> (string \<Rightarrow> string \<Rightarrow> string) \<Rightarrow> gerror + string \<Rightarrow> string" where
  "defaultConfigPath dir_of join exe =
     (case exe of Inl err \<Rightarrow> ''philharmonic.yaml'' | Inr e \<Rightarrow> join (dir_of e) ''philharmonic.yaml'')"

text \<open>
  What runs before every command: the file is loaded, then overrides the flags, then the variables. A
  command runs only when all three succeeded. The host environment takes the directory of the file.
\<close>

definition before_command ::
  "file_env \<Rightarrow> (string \<Rightarrow> config_file \<Rightarrow> gerror option \<times> config_file) \<Rightarrow> host_env \<Rightarrow> (string \<Rightarrow> gerror + duration)
     \<Rightarrow> (float64 \<Rightarrow> string) \<Rightarrow> 'f flagset \<Rightarrow> string \<Rightarrow> string \<Rightarrow> config_file \<times> 'f \<times> tunables
     \<Rightarrow> gerror option \<times> config_file \<times> 'f \<times> tunables" where
  "before_command fe unmarshal he pd show_float fl path name st =
     (case st of (cf, f, s) \<Rightarrow>
      case loadConfig fe unmarshal path ([], cf) of
        (Some err, dir, cf) \<Rightarrow> (Some err, cf, f, s)
      | (None, dir, cf) \<Rightarrow>
          (case applyConfig fl cf name f of
             (Some err, f) \<Rightarrow> (Some err, cf, f, s)
           | (None, f) \<Rightarrow>
               (case applyRuntimeConfig (he\<lparr>heConfigDir := dir\<rparr>) pd show_float cf name s of
                  (err, s) \<Rightarrow> (err, cf, f, s))))"

text \<open>The process's exit status: \<open>Execute\<close>.\<close>

definition exit_status :: "gerror option \<Rightarrow> int" where
  "exit_status err = (if err = None then 0 else 1)"

end
