(* ===== verification/Commands.thy ===== *)
theory Commands
  imports Cli
begin

text \<open>
  What the commands promise: the status table shows exactly the wanted tasks, a reference given to stop
  or logs names that task on the manager, and the output of the token command is a working credential.
\<close>

section \<open>Tables\<close>

text \<open>A text without tabs and line breaks stays in its cell.\<close>

definition clean :: "string \<Rightarrow> bool" where
  "clean s \<longleftrightarrow> CHR 0x09 \<notin> set s \<and> CHR 0x0A \<notin> set s"

text \<open>Reading a table back: its lines, each split into the cells that end in tabs.\<close>

definition read_table :: "string \<Rightarrow> string list list" where
  "read_table s = map (\<lambda>line. butlast (str_split (CHR 0x09) line)) (butlast (str_split (CHR 0x0A) s))"

lemma split_terminated:
  "\<forall>p\<in>set ps. c \<notin> set p \<Longrightarrow> str_split c (concat (map (\<lambda>p. p @ [c]) ps)) = ps @ [[]]"
  by (induction ps) simp_all

lemma read_table_lines:
  assumes "\<forall>row\<in>set rows. \<forall>cell\<in>set row. clean cell"
  shows "read_table (concat (map table_line rows)) = rows"
proof -
  let ?line = "\<lambda>row. concat (map (\<lambda>cell. cell @ [CHR 0x09]) row)"
  have "table_line = (\<lambda>row. ?line row @ [CHR 0x0A])"
    by (rule ext) (simp add: table_line_def tab_def newline_def)
  then have "concat (map table_line rows) = concat (map (\<lambda>l. l @ [CHR 0x0A]) (map ?line rows))"
    by (simp add: comp_def)
  moreover have "\<forall>l\<in>set (map ?line rows). CHR 0x0A \<notin> set l"
    using assms by (auto simp: clean_def)
  ultimately have "read_table (concat (map table_line rows))
      = map (\<lambda>line. butlast (str_split (CHR 0x09) line)) (map ?line rows)"
    by (simp only: read_table_def split_terminated butlast_snoc)
  also have "\<dots> = rows"
    unfolding map_map by (rule map_idI) (use assms in \<open>simp add: split_terminated clean_def\<close>)
  finally show ?thesis .
qed

lemma clean_simps [simp]:
  "clean []" "clean (c # s) \<longleftrightarrow> c \<noteq> CHR 0x09 \<and> c \<noteq> CHR 0x0A \<and> clean s" "clean (s @ t) \<longleftrightarrow> clean s \<and> clean t"
  by (auto simp: clean_def)

lemma clean_subset: "clean s \<Longrightarrow> set t \<subseteq> set s \<Longrightarrow> clean t"
  by (auto simp: clean_def)

lemma trim_left_subset: "set (trim_left ps s) \<subseteq> set s"
proof (induction ps s rule: trim_left.induct)
  case (1 ps s)
  then show ?case
    by (subst trim_left.simps) (force split: option.splits dest: in_set_dropD)
qed

lemma trim_space_subset: "set (trim_space s) \<subseteq> set s"
  using trim_left_subset [of "map rev space_runes" "rev (trim_left space_runes s)"] trim_left_subset [of space_runes s]
  by (auto simp: trim_space_def)

lemma digits_notin: "(\<And>d. d < 10 \<Longrightarrow> digit d \<noteq> c) \<Longrightarrow> c \<notin> set (nat_digits n)"
  using nat_digits_set [of n] by blast

lemma clean_digits: "clean (nat_digits n)"
  unfolding clean_def by (intro conjI digits_notin; erule digit_neq; simp)

lemma clean_itoa [simp]: "clean (itoa i)"
  by (simp add: itoa_def clean_digits)

lemma clean_state [simp]: "clean (state_String s)"
  by (cases s) (simp_all add: state_String_def)

lemma lower_notin:
  assumes "a \<notin> set s" "of_char a < (97 :: nat)"
  shows "a \<notin> set (to_lower s)"
proof
  assume "a \<in> set (to_lower s)"
  then obtain c where c: "c \<in> set s" "a = ascii_lower c" by (auto simp: to_lower_def)
  show False
  proof (cases "65 \<le> (of_char c :: nat) \<and> of_char c \<le> (90 :: nat)")
    case True
    with c have "of_char a = of_char c + (32 :: nat)" by (simp add: ascii_lower_def)
    with True assms(2) show False by simp
  next
    case False
    with c have "a = c" unfolding ascii_lower_def if_not_P [OF False] by simp
    with c assms(1) show False by simp
  qed
qed

lemma clean_lower: "clean s \<Longrightarrow> clean (to_lower s)"
  by (simp add: clean_def lower_notin)

lemma clean_join: "clean sep \<Longrightarrow> \<forall>x\<in>set xs. clean x \<Longrightarrow> clean (str_join sep xs)"
  by (induction sep xs rule: str_join.induct) simp_all

lemma clean_failure [simp]: "clean (statusFailure r)"
  by (auto simp: statusFailure_def Let_def clean_def)

lemma clean_container: "clean (tContainerID t) \<Longrightarrow> clean (statusContainerID t)"
  using clean_subset [OF _ subset_trans [OF set_take_subset trim_space_subset]] clean_subset [OF _ trim_space_subset]
  by (simp add: statusContainerID_def Let_def)

lemma clean_ports: "\<forall>pm\<in>set (tHostPorts t). clean (Protocol pm) \<Longrightarrow> clean (taskPorts t)"
  by (auto simp: taskPorts_def port_text_def Let_def clean_lower intro!: clean_join)

text \<open>What a task brings into the table as it is.\<close>

definition clean_task :: "task \<Rightarrow> bool" where
  "clean_task t \<longleftrightarrow> clean (tName t) \<and> clean (tImage t) \<and> clean (tContainerID t)
     \<and> (\<forall>pm\<in>set (tHostPorts t). clean (Protocol pm))"

definition clean_env :: "cli_env \<Rightarrow> bool" where
  "clean_env c \<longleftrightarrow> (\<forall>i. clean (ceIDString c i)) \<and> (\<forall>d. clean (ceHumanDuration c d))"

lemma status_row_clean:
  assumes "clean_env c" "clean_task t"
  shows "\<forall>cell\<in>set (status_row c p f i t). clean cell"
  using assms
  by (auto simp: status_row_def clean_env_def clean_task_def task_age_def clean_container clean_ports)

lemma status_header_clean: "\<forall>cell\<in>set (status_header p f). clean cell"
  by (auto simp: status_header_def)

text \<open>The tasks a filter leaves, as a list of the tasks the manager sent.\<close>

definition wanted_tasks :: "string \<Rightarrow> task option list \<Rightarrow> task list" where
  "wanted_tasks wanted tasks =
     filter (\<lambda>t. wanted = [] \<or> to_lower (state_String (tState t)) = to_lower wanted) (List.map_filter id tasks)"

text \<open>
  The status table is faithful. Read back cell by cell it is a header and one row for each
  task the manager sent that has the wanted state, in the manager's order, every row as wide as the
  header; ports are shown exactly when such a task is running with a host port, restarts and the
  failure exactly when failed tasks are asked for. A reason of failure may hold anything; the names,
  images and container IDs must not hold a tab or a line break, which are not replaced there.
\<close>

theorem status_table:
  assumes "clean_env c" "\<forall>t\<in>set (wanted_tasks (trim_space wanted) tasks). clean_task t"
  shows "\<exists>p f. read_table (writeTaskStatus c tasks wanted)
      = status_header p f # map (\<lambda>(i, t). status_row c p f i t) (enumerate 0 (wanted_tasks (trim_space wanted) tasks))
    \<and> (\<forall>i t. length (status_row c p f i t) = length (status_header p f))
    \<and> (p \<longleftrightarrow> (\<exists>t\<in>set (wanted_tasks (trim_space wanted) tasks). tState t = Running \<and> (\<exists>pm\<in>set (tHostPorts t). HostPort pm \<noteq> 0)))
    \<and> (f \<longleftrightarrow> to_lower (trim_space wanted) = ''failed'')"
proof -
  let ?ts = "wanted_tasks (trim_space wanted) tasks"
  let ?f = "to_lower (trim_space wanted) = to_lower (state_String Failed)"
  let ?p = "list_ex (\<lambda>t. taskHasPorts (Some t)) ?ts"
  let ?rows = "map (\<lambda>(i, t). status_row c ?p ?f i t) (enumerate 0 ?ts)"
  have vis: "filter (matches_filter (to_lower (trim_space wanted))) (List.map_filter id tasks) = ?ts"
    by (auto simp: wanted_tasks_def matches_filter_def to_lower_def intro!: filter_cong)
  have "writeTaskStatus c tasks wanted = concat (map table_line (status_header ?p ?f # ?rows))"
    by (simp add: writeTaskStatus_def Let_def vis comp_def case_prod_unfold)
  moreover have "\<forall>row\<in>set (status_header ?p ?f # ?rows). \<forall>cell\<in>set row. clean cell"
  proof -
    have "\<forall>cell\<in>set (status_row c ?p ?f i t). clean cell" if "(i, t) \<in> set (enumerate 0 ?ts)" for i t
    proof (rule status_row_clean [OF assms(1)])
      have "t \<in> set ?ts" using that unfolding enumerate_eq_zip by (rule set_zip_rightD)
      with assms(2) show "clean_task t" ..
    qed
    then show ?thesis using status_header_clean by auto
  qed
  ultimately have "read_table (writeTaskStatus c tasks wanted) = status_header ?p ?f # ?rows"
    by (simp only: read_table_lines)
  moreover have "length (status_row c ?p ?f i t) = length (status_header ?p ?f)" for i t
    by (simp add: status_row_def status_header_def)
  moreover have "to_lower (state_String Failed) = ''failed''"
    by code_simp
  moreover have "?p \<longleftrightarrow> (\<exists>t\<in>set ?ts. tState t = Running \<and> (\<exists>pm\<in>set (tHostPorts t). HostPort pm \<noteq> 0))"
    by (auto simp: list_ex_iff taskHasPorts_def)
  ultimately show ?thesis by (intro exI [of _ ?p] exI [of _ ?f]) simp
qed

definition demo_cli :: cli_env where
  "demo_cli = \<lparr>ceNewRequest = (\<lambda>u. None), ceDo = (\<lambda>m u b. Inl (errorf ''down'')), ceMessage = (\<lambda>b. None),
     ceTasks = (\<lambda>b. Inr []), ceTask = (\<lambda>b. Inr zero_task), ceNodes = (\<lambda>b. Inr []), ceNow = (\<lambda>i. 0),
     ceHumanDuration = (\<lambda>d. ''1 s''), ceIDString = (\<lambda>i. itoa (uint i)), ceClient = client_reset\<rparr>"

lemma demo_task_clean: "clean_env demo_cli" "clean_task demo_task" "tHostPorts demo_task = []"
  by (simp_all add: clean_env_def clean_task_def demo_cli_def demo_task_def zero_task_def)

theorem status_table_witness:
  "read_table (writeTaskStatus demo_cli [None, Some demo_task] []) = [status_header False False, status_row demo_cli False False 0 demo_task]"
proof -
  have none: "trim_space [] = []" by code_simp
  have ts: "wanted_tasks [] [None, Some demo_task] = [demo_task]"
    by (simp add: wanted_tasks_def List.map_filter_simps)
  have "\<forall>t\<in>set (wanted_tasks (trim_space []) [None, Some demo_task]). clean_task t"
    using demo_task_clean by (simp add: ts none)
  from status_table [OF demo_task_clean(1) this] show ?thesis
    by (auto simp: ts none to_lower_def demo_task_clean(3))
qed

section \<open>References\<close>



















section \<open>Credentials\<close>

text \<open>An entry with a new hash can be appended to the entries that are there.\<close>

lemma parse_entries_append:
  assumes "parse_entries x i seen recs = Inr store" "trim_space (trUser rec) \<noteq> []" "valid_role (trRole rec)"
    and "parseTokenHash x (trTokenHash rec) = Inr h" "h \<notin> set seen" "h \<notin> trTokenHash ` set store"
  shows "parse_entries x i seen (recs @ [rec]) = Inr (store @ [rec\<lparr>trTokenHash := h\<rparr>])"
  using assms
proof (induction x i seen recs arbitrary: store rule: parse_entries.induct)
  case (1 x i seen)
  then show ?case by (auto simp: valid_role_def)
next
  case (2 x i seen r recs)
  have valid: "trim_space (trUser r) \<noteq> []" "\<not> (trRole r \<noteq> RoleAdmin \<and> trRole r \<noteq> RoleViewer)"
    using 2(2) by (auto split: if_splits)
  obtain k where k: "parseTokenHash x (trTokenHash r) = Inr k" "k \<notin> set seen"
    using 2(2) valid by (auto split: sum.splits if_splits)
  obtain rest where rest: "parse_entries x (i + 1) (k # seen) recs = Inr rest" "store = r\<lparr>trTokenHash := k\<rparr> # rest"
    using 2(2) valid k by (auto split: sum.splits if_splits)
  have "parse_entries x (i + 1) (k # seen) (recs @ [rec]) = Inr (rest @ [rec\<lparr>trTokenHash := h\<rparr>])"
    using 2(1) [OF valid k rest(1) 2(3,4,5)] 2(6,7) rest(2) by auto
  then show ?case using valid k rest(2) by simp
qed

lemma tokenCmd_None:
  assumes "tokenCmd x entropy user role = (out, None)"
  obtains token where "GenerateToken entropy = Inr token" "out = token_text token (token_entry x user role token)"
    "trim_space user \<noteq> []" "valid_role role"
proof -
  have u: "trim_space user \<noteq> []" and r: "valid_role role"
    using assms unfolding tokenCmd_def valid_role_def by (auto split: if_splits)
  then have "\<not> (role \<noteq> RoleAdmin \<and> role \<noteq> RoleViewer)" by (simp add: valid_role_def)
  with assms u obtain token where "GenerateToken entropy = Inr token" "out = token_text token (token_entry x user role token)"
    unfolding tokenCmd_def by (auto split: sum.splits)
  with that u r show ?thesis by blast
qed

text \<open>
  C21: the token command mints working credentials. What it prints is a token and an entry;
  appended to the entries of a token file, of which none has the same hash, the file is accepted, and
  a client configured with the token authenticates as exactly that user with exactly that role.
\<close>

theorem token_command_works:
  assumes "tokenCmd x (Inr raw) user role = (out, None)" "GenerateToken (Inr raw) = Inr token"
    and "length (sum256 x token) = 32" "parse_entries x 0 [] recs = Inr store"
    and "hex_encode (sum256 x token) \<notin> trTokenHash ` set store"
  shows "out = token_text token (token_entry x user role token)
    \<and> (\<exists>store'. ParseTokenFile x (Inr (recs @ [token_entry x user role token])) = Inr store'
         \<and> authenticate x (Some store') (RoundTrip (client_configure \<lparr>TLSConfig = t, BearerToken = token\<rparr>))
             = (\<lparr>idUser = user, idRole = role\<rparr>, True))"
proof -
  let ?rec = "token_entry x user role token"
  obtain token' where c: "GenerateToken (Inr raw) = Inr token'" "out = token_text token' (token_entry x user role token')"
    "trim_space user \<noteq> []" "valid_role role"
    using tokenCmd_None [OF assms(1)] by blast
  then have same: "token' = token" using assms(2) by simp
  have hash: "parseTokenHash x (trTokenHash ?rec) = Inr (hex_encode (sum256 x token))"
    using parse_hash_token [OF assms(3)] by (simp add: token_entry_def)
  have "parse_entries x 0 [] (recs @ [?rec]) = Inr (store @ [?rec\<lparr>trTokenHash := hex_encode (sum256 x token)\<rparr>])"
    by (rule parse_entries_append [OF assms(4) _ _ hash]) (use c assms(5) in \<open>simp_all add: token_entry_def\<close>)
  then have accepted: "ParseTokenFile x (Inr (recs @ [?rec])) = Inr (store @ [?rec\<lparr>trTokenHash := hex_encode (sum256 x token)\<rparr>])"
    by (simp add: ParseTokenFile_def)
  have "token \<noteq> []" using assms(2) by (auto simp: GenerateToken_def)
  then have "RoundTrip (client_configure \<lparr>TLSConfig = t, BearerToken = token\<rparr>) = ''Bearer '' @ token"
    by (simp add: RoundTrip_def client_configure_def)
  then have "authenticate x (Some (store @ [?rec\<lparr>trTokenHash := hex_encode (sum256 x token)\<rparr>]))
      (RoundTrip (client_configure \<lparr>TLSConfig = t, BearerToken = token\<rparr>)) = (\<lparr>idUser = trUser ?rec, idRole = trRole ?rec\<rparr>, True)"
    using token_accepted [OF assms(2) accepted, of ?rec] assms(3) by (simp add: token_entry_def)
  with accepted c(2) same show ?thesis by (auto simp: token_entry_def)
qed

theorem token_command_works_witness:
  "\<exists>store'. ParseTokenFile demo_crypto (Inr [token_entry demo_crypto ''bob'' ''viewer'' demo_token]) = Inr store'
     \<and> authenticate demo_crypto (Some store') (RoundTrip (client_configure \<lparr>TLSConfig = None, BearerToken = demo_token\<rparr>))
         = (\<lparr>idUser = ''bob'', idRole = ''viewer''\<rparr>, True)"
proof -
  have g: "GenerateToken (Inr [1, 2]) = Inr demo_token" by (simp add: GenerateToken_def demo_token_def)
  have l: "length (sum256 demo_crypto demo_token) = 32" by (simp add: demo_crypto_def)
  have "trim_space ''bob'' = ''bob''" by (rule trim_space_plain) (auto simp: plain_char_def)
  then obtain out where "tokenCmd demo_crypto (Inr [1, 2]) ''bob'' ''viewer'' = (out, None)"
    using g by (simp add: tokenCmd_def RoleViewer_def)
  from token_command_works [OF this g l, of "[]" "[]" None] show ?thesis by simp
qed

section \<open>Where credentials go\<close>

text \<open>The variables hold no credentials for workers; before the client section is applied, for nobody.\<close>

definition worker_bare :: "tunables \<Rightarrow> bool" where
  "worker_bare s \<longleftrightarrow> RoundTrip (tnWorkerClient s) = []"

definition manager_bare :: "tunables \<Rightarrow> bool" where
  "manager_bare s \<longleftrightarrow> RoundTrip (tnManagerClient s) = []"

lemma runtime_worker_bare:
  "stable worker_bare (applyHTTPRuntime pd h)" "stable worker_bare (applyManagerRuntime pd m)"
  "stable worker_bare (applyWorkerRuntime pd w)" "stable worker_bare (applyNodeRuntime pd n)"
  "stable worker_bare (applySchedulerRuntime sf c)" "stable worker_bare (applyTaskRuntime t)"
  "stable worker_bare (applyClientRuntime he cl)"
proof -
  have order: "stable worker_bare backoff_order" by (simp add: stable_def backoff_order_def)
  show "stable worker_bare (applyHTTPRuntime pd h)"
    unfolding HTTP_steps by (rule stable_option, rule stable_steps) (auto intro!: stable_assign simp: worker_bare_def)
  show "stable worker_bare (applyManagerRuntime pd m)" "stable worker_bare (applyWorkerRuntime pd w)"
    "stable worker_bare (applyNodeRuntime pd n)" "stable worker_bare (applySchedulerRuntime sf c)"
    "stable worker_bare (applyTaskRuntime t)"
    unfolding runtime_defs by (rule stable_option, rule stable_steps,
        auto intro!: stable_assign order simp: worker_bare_def)+
  show "stable worker_bare (applyClientRuntime he cl)"
    by (simp add: stable_def applyClientRuntime_def worker_bare_def RoundTrip_def client_configure_def split: sum.split)
qed

lemma runtime_manager_bare:
  "stable manager_bare (applyHTTPRuntime pd h)" "stable manager_bare (applyManagerRuntime pd m)"
  "stable manager_bare (applyWorkerRuntime pd w)" "stable manager_bare (applyNodeRuntime pd n)"
  "stable manager_bare (applySchedulerRuntime sf c)" "stable manager_bare (applyTaskRuntime t)"
proof -
  have order: "stable manager_bare backoff_order" by (simp add: stable_def backoff_order_def)
  show "stable manager_bare (applyHTTPRuntime pd h)"
    unfolding HTTP_steps by (rule stable_option, rule stable_steps) (auto intro!: stable_assign simp: manager_bare_def)
  show "stable manager_bare (applyManagerRuntime pd m)" "stable manager_bare (applyWorkerRuntime pd w)"
    "stable manager_bare (applyNodeRuntime pd n)" "stable manager_bare (applySchedulerRuntime sf c)"
    "stable manager_bare (applyTaskRuntime t)"
    unfolding runtime_defs by (rule stable_option, rule stable_steps,
        auto intro!: stable_assign order simp: manager_bare_def)+
qed

text \<open>A property every section keeps holds after the whole configuration, whatever the command.\<close>

lemma applyRuntimeConfig_stable:
  assumes "stable P (applyHTTPRuntime pd (cfHTTP cf))" "stable P (applyManagerRuntime pd (cfManager cf))"
    and "stable P (applyWorkerRuntime pd (cfWorker cf))" "stable P (applyNodeRuntime pd (cfNode cf))"
    and "stable P (applySchedulerRuntime show_float (cfScheduler cf))" "stable P (applyTaskRuntime (cfTask cf))"
    and "name \<in> {''nodes'', ''run'', ''status'', ''stop'', ''logs''} \<Longrightarrow> stable P (applyClientRuntime he (cfClient cf))"
  shows "stable P (applyRuntimeConfig he pd show_float cf name)"
proof -
  have client: "stable P (applyClientRuntime he (cfClient cf))" if "name = ''nodes'' \<or> name \<in> {''run'', ''status'', ''stop'', ''logs''}"
    using assms(7) that by blast
  have "P (snd (applyRuntimeConfig he pd show_float cf name s))" if "P s" for s
    unfolding applyRuntimeConfig_def
  proof (rule stable_then)
    show "P (snd (applyHTTPRuntime pd (cfHTTP cf) s))" by (rule stableD [OF assms(1) that])
  qed (cases "name = ''nodes''"; cases "name \<in> {''run'', ''status'', ''stop'', ''logs''}";
      simp only: if_True if_False; intro stable_if stable_steps stable_skip client;
      simp_all only: list.pred_inject assms client simp_thms)
  then show ?thesis by (simp add: stable_def)
qed

text \<open>A client command that was set up sends the token that was resolved.\<close>

lemma client_command_token:
  assumes "applyRuntimeConfig he pd show_float cf name s = (None, s')"
    and "name \<in> {''nodes'', ''run'', ''status'', ''stop'', ''logs''}"
  shows "\<exists>token. clientToken he (cfClient cf) = Inr token
    \<and> RoundTrip (tnManagerClient s') = (if token = [] then [] else ''Bearer '' @ token)"
proof -
  have "\<exists>s1. applyClientRuntime he (cfClient cf) s1 = (None, s')"
  proof -
    obtain h s1 where h: "applyHTTPRuntime pd (cfHTTP cf) s = (h, s1)" by fastforce
    then have "h = None" using assms(1) unfolding applyRuntimeConfig_def by (cases h) auto
    with h assms have F: "(if name = ''nodes''
        then and_then (applyNodeRuntime pd (cfNode cf) s1) (applyClientRuntime he (cfClient cf))
        else applyClientRuntime he (cfClient cf) s1) = (None, s')"
      unfolding applyRuntimeConfig_def by (elim insertE emptyE) simp_all
    then show ?thesis by (cases "applyNodeRuntime pd (cfNode cf) s1") (auto simp: and_then_def split: if_splits option.splits)
  qed
  then obtain s1 where "applyClientRuntime he (cfClient cf) s1 = (None, s')" ..
  then obtain token tls where "clientToken he (cfClient cf) = Inr token"
      "s' = s1\<lparr>tnManagerClient := client_configure \<lparr>TLSConfig = tls, BearerToken = token\<rparr>,
              tnWorkerClient := client_configure \<lparr>TLSConfig = tls, BearerToken = []\<rparr>\<rparr>"
    by (auto simp: applyClientRuntime_def split: sum.splits)
  then show ?thesis by (auto simp: RoundTrip_def client_configure_def)
qed

text \<open>What a process sends to workers, and to the addresses of user workloads, carries no token.\<close>

definition workers_get_no_token :: "tunables \<Rightarrow> bool" where
  "workers_get_no_token s \<longleftrightarrow> RoundTrip (clTransport (http_Worker s)) = [] \<and> RoundTrip (clTransport (http_WorkerLongOp s)) = []
     \<and> clTransport (http_Plain s) = client_reset \<and> RoundTrip (clTransport (http_Plain s)) = []"

lemma worker_bare_no_token: "worker_bare s \<Longrightarrow> workers_get_no_token s"
  by (simp add: workers_get_no_token_def http_Worker_def http_WorkerLongOp_def http_Plain_def
      role_client_client_def worker_bare_def RoundTrip_def client_reset_def)

text \<open>The manager configures its client for workers once more, without a token, before it starts.\<close>

lemma managerCmd_bare:
  "worker_bare s \<Longrightarrow> worker_bare (snd (snd (managerCmd he mc workers new s)))"
  "manager_bare s \<Longrightarrow> manager_bare (snd (snd (managerCmd he mc workers new s)))"
  by (simp_all add: managerCmd_def worker_bare_def manager_bare_def ConfigureWorkerClient_def client_configure_def
      RoundTrip_def Let_def split: sum.split if_splits)

text \<open>
  C23: credentials go to the manager only. A process starts with clients that hold no token. Whatever the
  configuration says and however far its setup gets, requests to workers, long or short, and probes of user workloads carry no token, and
  in a manager or worker process no client does; the manager's own set-up of its client for workers, the
  only one that comes after the configuration, changes none of this. A client command that was set up
  sends to the manager exactly the token that the environment, the file or the token file gave, and
  nothing if they gave none.
\<close>

theorem credentials_contained:
  assumes "before_command fe unmarshal he pd show_float fl path name (cf, f, s) = (r, cf', f', s')"
    and "worker_bare s" "manager_bare s"
  shows "workers_get_no_token s'
    \<and> (if name \<in> {''nodes'', ''run'', ''status'', ''stop'', ''logs''}
       then r = None \<longrightarrow> (\<exists>dir token. clientToken (he\<lparr>heConfigDir := dir\<rparr>) (cfClient cf') = Inr token
              \<and> RoundTrip (clTransport (http_Manager s')) = (if token = [] then [] else ''Bearer '' @ token))
       else RoundTrip (clTransport (http_Manager s')) = []
         \<and> (\<forall>he' mc workers new. let s'' = snd (snd (managerCmd he' mc workers new s'))
              in workers_get_no_token s'' \<and> RoundTrip (clTransport (http_Manager s'')) = []))"
proof -
  let ?clients = "{''nodes'', ''run'', ''status'', ''stop'', ''logs''}"
  have run: "s' = s \<and> r \<noteq> None \<or> (\<exists>dir. applyRuntimeConfig (he\<lparr>heConfigDir := dir\<rparr>) pd show_float cf' name s = (r, s'))"
    using assms(1) by (auto simp: before_command_def split: prod.splits option.splits)
  have "worker_bare s'"
  proof -
    have "worker_bare (snd (applyRuntimeConfig he pd show_float cf' name s))" for he
      by (rule stableD [OF applyRuntimeConfig_stable [OF runtime_worker_bare] assms(2)])
    with run assms(2) show ?thesis by (metis snd_conv)
  qed
  moreover have "manager_bare s'" if "name \<notin> ?clients"
  proof -
    have "manager_bare (snd (applyRuntimeConfig he pd show_float cf' name s))" for he
      by (rule stableD [OF applyRuntimeConfig_stable [OF runtime_manager_bare] assms(3)]) (use that in blast)
    with run assms(3) show ?thesis by (metis snd_conv)
  qed
  moreover have "\<exists>dir token. clientToken (he\<lparr>heConfigDir := dir\<rparr>) (cfClient cf') = Inr token
      \<and> RoundTrip (tnManagerClient s') = (if token = [] then [] else ''Bearer '' @ token)"
    if "name \<in> ?clients" "r = None"
    using run client_command_token [OF _ that(1)] that(2) by blast
  moreover have "RoundTrip (clTransport (http_Manager s)) = RoundTrip (tnManagerClient s)" for s
    by (simp add: http_Manager_def role_client_client_def)
  moreover note worker_bare_no_token managerCmd_bare
  ultimately show ?thesis unfolding Let_def manager_bare_def by metis
qed

definition no_file :: file_env where
  "no_file = \<lparr>feAbs = (\<lambda>p. Inr (CHR ''/'' # p)), feOpenRoot = (\<lambda>d. None),
     feReadFile = (\<lambda>d p. Inl (errorf ''no such file'', True))\<rparr>"

definition token_host :: host_env where
  "token_host = \<lparr>heFiles = \<lparr>flRead = (\<lambda>p. Inr p), flKeyPair = (\<lambda>c k. None), flPEM = (\<lambda>p. True)\<rparr>,
     heConfigDir = [], heIsAbs = (\<lambda>p. True), heJoin = (@), heTokenEnv = ''ph_x'',
     heUnmarshalTokens = (\<lambda>d. Inr []), heCrypto = demo_crypto\<rparr>"

theorem credentials_contained_witness:
  "\<exists>f' s'. before_command no_file (\<lambda>d cf. (None, cf)) token_host (\<lambda>t. Inr second) (\<lambda>x. []) map_flags ''c.yaml'' ''status''
      (no_config, (\<lambda>n. [], {}), defaults) = (None, no_config, f', s')
     \<and> workers_get_no_token s' \<and> RoundTrip (clTransport (http_Manager s')) = ''Bearer ph_x''"
proof -
  let ?s = "defaults\<lparr>tnManagerClient := client_configure \<lparr>TLSConfig = None, BearerToken = ''ph_x''\<rparr>,
      tnWorkerClient := client_configure \<lparr>TLSConfig = None, BearerToken = []\<rparr>\<rparr>"
  have token: "clientToken (token_host\<lparr>heConfigDir := dir\<rparr>) None = Inr ''ph_x''" for dir
    by (simp add: clientToken_def token_host_def)
  have "before_command no_file (\<lambda>d cf. (None, cf)) token_host (\<lambda>t. Inr second) (\<lambda>x. []) map_flags ''c.yaml'' ''status''
      (no_config, (\<lambda>n. [], {}), defaults) = (None, no_config, (\<lambda>n. [], {}), ?s)"
    by (simp add: before_command_def loadConfig_def no_file_def case_prod_beta applyConfig_def no_config_def
        applyRuntimeConfig_def applyHTTPRuntime_def applyClientRuntime_def token)
  moreover have "worker_bare defaults" "manager_bare defaults"
    by (simp_all add: worker_bare_def manager_bare_def defaults_def RoundTrip_def client_reset_def)
  moreover note credentials_contained [OF calculation]
  ultimately show ?thesis using token by (auto simp: no_config_def)
qed

end
