(* ===== verification/Flow.thy ===== *)
theory Flow
  imports Routes Health
begin

text \<open>
  Where the tasks a manager holds come from. The specification of a task is what its submitter wrote;
  everything else in a record is the manager's own book-keeping. No operation writes a specification of
  its own: what it stores or queues is what it found stored or queued, or was given. Each operation's
  lemma says so; \<open>System\<close> puts them together.
\<close>

section \<open>Specifications\<close>

definition spec_of :: "task \<Rightarrow> task" where
  "spec_of t = t\<lparr>tState := Pending, tContainerID := [], tHostPorts := [], tRestartCount := 0, tFailureReason := [],
     tManuallyStopped := False, tNextRetryAt := 0, tStartTime := 0, tFinishTime := 0\<rparr>"

lemma spec_of_update [simp]:
  "spec_of (t\<lparr>tState := s\<rparr>) = spec_of t" "spec_of (t\<lparr>tContainerID := c\<rparr>) = spec_of t"
  "spec_of (t\<lparr>tHostPorts := ps\<rparr>) = spec_of t" "spec_of (t\<lparr>tRestartCount := n\<rparr>) = spec_of t"
  "spec_of (t\<lparr>tFailureReason := r\<rparr>) = spec_of t" "spec_of (t\<lparr>tManuallyStopped := b\<rparr>) = spec_of t"
  "spec_of (t\<lparr>tNextRetryAt := x\<rparr>) = spec_of t" "spec_of (t\<lparr>tStartTime := x\<rparr>) = spec_of t"
  "spec_of (t\<lparr>tFinishTime := x\<rparr>) = spec_of t"
  by (simp_all add: spec_of_def)

lemma spec_of_fields:
  assumes "spec_of t = spec_of u"
  shows "tID t = tID u" "tName t = tName u" "tImage t = tImage u" "tPorts t = tPorts u" "tCmd t = tCmd u"
    "tEnv t = tEnv u" "tRestartPolicy t = tRestartPolicy u" "tSecurity t = tSecurity u" "tTimeout t = tTimeout u"
    "tMaxRestarts t = tMaxRestarts u"
proof -
  have "g (spec_of t) = g (spec_of u)" for g :: "task \<Rightarrow> 'b" using assms by simp
  note same = this
  show "tID t = tID u" "tName t = tName u" "tImage t = tImage u" "tPorts t = tPorts u" "tCmd t = tCmd u"
    "tEnv t = tEnv u" "tRestartPolicy t = tRestartPolicy u" "tSecurity t = tSecurity u" "tTimeout t = tTimeout u"
    "tMaxRestarts t = tMaxRestarts u"
    using same [of tID] same [of tName] same [of tImage] same [of tPorts] same [of tCmd] same [of tEnv]
      same [of tRestartPolicy] same [of tSecurity] same [of tTimeout] same [of tMaxRestarts]
    by (simp_all add: spec_of_def)
qed

text \<open>Validation looks at the specification only.\<close>

lemma Validate_spec:
  assumes "spec_of t = spec_of u"
  shows "Validate x t = Validate x u"
  unfolding Validate_def spec_of_fields [OF assms] ..

lemma spec_of_ops [simp]:
  "spec_of (terminal_task e t r) = spec_of t" "spec_of (restarted t) = spec_of t"
  "spec_of (merge_report e t u) = spec_of t" "spec_of (eTask (outgoing e te)) = spec_of (eTask te)"
  by (simp_all add: terminal_task_def restarted_def merge_report_def outgoing_def Let_def)

section \<open>What a manager holds\<close>

definition held :: "manager \<Rightarrow> task set" where
  "held m = ran (task_view m) \<union> eTask ` set (q_items (mPending m))"

text \<open>
  A step that keeps the stores well-formed and holds nothing but specifications that were held before
  or are given in \<open>A\<close>.
\<close>

definition flows :: "task set \<Rightarrow> manager \<Rightarrow> manager \<Rightarrow> bool" where
  "flows A m m' \<longleftrightarrow> (mgr_wf m \<longrightarrow> mgr_wf m' \<and> spec_of ` held m' \<subseteq> spec_of ` (held m \<union> A))"

lemma flows_refl [simp]: "flows A m m"
  by (auto simp: flows_def)

lemma flows_trans: "flows A a b \<Longrightarrow> flows A b c \<Longrightarrow> flows A a c"
  unfolding flows_def image_Un by blast

lemma flows_mono: "flows A m m' \<Longrightarrow> A \<subseteq> B \<Longrightarrow> flows B m m'"
  unfolding flows_def by blast

lemma flowsD: "flows A m m' \<Longrightarrow> mgr_wf m \<Longrightarrow> mgr_wf m'"
  by (simp add: flows_def)

text \<open>Steps that leave the records and the queue alone.\<close>

lemma flows_frame:
  assumes "task_view m' = task_view m" "mPending m' = mPending m" "mgr_wf m \<Longrightarrow> mgr_wf m'"
  shows "flows A m m'"
  using assms by (auto simp: flows_def held_def)

lemma flows_quiet: "same_stores m m' \<Longrightarrow> mPending m' = mPending m \<Longrightarrow> flows A m m'"
  by (rule flows_frame) (simp_all add: same_storesD)

lemma flows_reads: "reads_tasks m m' \<Longrightarrow> flows A m m'"
  by (rule flows_frame) (simp_all add: reads_tasksD)

lemma ran_update: "ran (f(i \<mapsto> x)) \<subseteq> insert x (ran f)"
  by (auto simp: ran_def)

lemma flows_put:
  assumes "mgr_wf m \<Longrightarrow> tID t = i \<and> spec_of t \<in> spec_of ` (held m \<union> A)"
  shows "flows A m (m\<lparr>mTaskDb := snd (db_Put i t (mTaskDb m))\<rparr>)"
  unfolding flows_def
proof
  assume wf: "mgr_wf m"
  let ?m = "m\<lparr>mTaskDb := snd (db_Put i t (mTaskDb m))\<rparr>"
  have "ran (task_view ?m) \<subseteq> insert t (ran (task_view m))" by (simp add: db_Put_view ran_update subset_insertI)
  then have "held ?m \<subseteq> insert t (held m)" by (auto simp: held_def)
  then show "mgr_wf ?m \<and> spec_of ` held ?m \<subseteq> spec_of ` (held m \<union> A)"
    using assms [OF wf] wf by (auto simp: image_Un)
qed

lemma flows_enqueue:
  assumes "mgr_wf m \<Longrightarrow> spec_of (eTask te) \<in> spec_of ` (held m \<union> A)"
  shows "flows A m (enqueuePending te m)"
  using assms by (auto simp: flows_def held_def image_Un)

lemma held_record: "task_view m i = Some t \<Longrightarrow> t \<in> held m"
  by (auto simp: held_def ran_def)

section \<open>Marks and commits\<close>

lemma flows_markFailed: "flows A m (markFailed e i c r m)"
proof -
  have "spec_of ` held (markFailed e i c r m) \<subseteq> spec_of ` held m"
    using markFailed_view [of e i c r m]
  proof (elim disjE exE conjE)
    fix t assume t: "task_view m i = Some t"
      and v: "task_view (markFailed e i c r m) = (task_view m)(i \<mapsto> t\<lparr>tState := Failed, tRestartCount := c,
        tFailureReason := r, tFinishTime := 0, tNextRetryAt := eNow e + restartBackoff e c\<rparr>)"
    have "spec_of ` ran (task_view (markFailed e i c r m)) \<subseteq> spec_of ` insert t (ran (task_view m))"
      unfolding v by (rule order_trans [OF image_mono [OF ran_update]]) simp
    moreover have "t \<in> ran (task_view m)" using t by (auto simp: ran_def)
    ultimately show ?thesis by (auto simp: held_def markFailed_frame)
  qed (simp add: held_def markFailed_frame)
  then show ?thesis by (auto simp: flows_def image_Un)
qed

lemma flows_stopTaskTerminal: "t \<in> A \<Longrightarrow> flows A m (stopTaskTerminal e t reason m)"
proof -
  assume t: "t \<in> A"
  let ?m1 = "m\<lparr>mAssignments := snd (readAssignment (tID t) (mAssignments m))\<rparr>"
  let ?m2 = "?m1\<lparr>mTaskDb := snd (db_Put (tID t) (terminal_task e t reason) (mTaskDb ?m1))\<rparr>"
  have 1: "flows A m ?m1" by (rule flows_frame) simp_all
  have 2: "flows A ?m1 ?m2" by (rule flows_put) (use t in \<open>auto simp: image_Un\<close>)
  define m3 where "m3 = (if mTaskDb m = None then ?m1 else ?m2)"
  have "flows A m m3" using 1 flows_trans [OF 1 2] by (simp add: m3_def)
  moreover have "same_stores m3 (stopTaskTerminal e t reason m)" "mPending (stopTaskTerminal e t reason m) = mPending m3"
    by (simp_all add: stopTaskTerminal_def m3_def task_io Let_def same_stores_def release_ports_def del: not_None_eq split: option.split)
  ultimately show ?thesis using flows_trans flows_quiet by blast
qed

lemma flows_commit:
  assumes "mgr_wf m \<Longrightarrow> tID t = i \<and> tID orig = i \<and> spec_of t \<in> spec_of ` (held m \<union> A) \<and> orig \<in> held m"
  shows "flows A m (snd (commit i w t orig m))"
proof (cases "mgr_wf m")
  case False
  then show ?thesis by (simp add: flows_def)
next
  case wf: True
  note t = assms [OF wf]
  obtain r1 d1 where ra: "readAssignmentState i (mAssignments m) = (r1, d1)" by fastforce
  let ?m1 = "m\<lparr>mAssignments := d1\<rparr>"
  have m1: "mgr_wf ?m1" "held ?m1 = held m" using mgr_wf_io(7) [OF wf, of i] ra by (simp_all add: held_def)
  have f1: "flows A m ?m1" by (rule flows_frame) (simp_all add: m1)
  show ?thesis
  proof (cases r1)
    case (Inl err)
    with f1 ra show ?thesis by (simp add: commit_def)
  next
    case (Inr old)
    have old: "asTaskID a = i" if "old = Some a" for a
      using readAssignmentState_Inr [of i "mAssignments m" old] ra Inr that wf by (simp add: mgr_wf_def)
    obtain r2 d2 where sa: "setAssignment i w d1 = (r2, d2)" by fastforce
    let ?m2 = "m\<lparr>mAssignments := d2\<rparr>"
    have m2: "mgr_wf ?m2" using mgr_wf_io(8) [OF m1(1), of i w] sa by simp
    have f2: "flows A m ?m2" by (rule flows_frame) (simp_all add: m2)
    show ?thesis
    proof (cases r2)
      case (Some err)
      have "mgr_wf (?m2\<lparr>mAssignments := snd (restoreAssignment i old d2)\<rparr>)"
        using mgr_wf_restore [OF m2 old] by simp
      then have "flows A m (m\<lparr>mAssignments := snd (restoreAssignment i old d2)\<rparr>)"
        by (intro flows_frame) simp_all
      with ra Inr sa Some show ?thesis by (simp add: commit_def)
    next
      case None
      let ?put = "db_Put i t (mTaskDb m)"
      let ?m3 = "m\<lparr>mAssignments := d2, mTaskDb := snd ?put\<rparr>"
      have f3: "flows A m ?m3"
        by (rule flows_trans [OF f2]) (use flows_put [of ?m2 t i A] t in \<open>simp add: held_def\<close>)
      show ?thesis
      proof (cases "fst ?put")
        case none: None
        with ra Inr sa None f3 show ?thesis using t by (simp add: commit_def task_io)
      next
        case (Some err)
        let ?m4 = "m\<lparr>mAssignments := snd (restoreAssignment i old d2), mTaskDb := snd ?put\<rparr>"
        let ?m5 = "m\<lparr>mAssignments := snd (restoreAssignment i old d2), mTaskDb := snd (db_Put i orig (snd ?put))\<rparr>"
        have "?m4 = ?m3\<lparr>mAssignments := snd (restoreAssignment i old (mAssignments ?m3))\<rparr>" by simp
        then have "mgr_wf ?m4" using mgr_wf_restore [OF flowsD [OF f3 wf] old] by (simp only:)
        moreover have view: "db_view (snd ?put) = task_view m" using Some by (simp add: db_Put_view)
        ultimately have f4: "flows A m ?m4" by (intro flows_frame) simp_all
        have "flows A ?m4 ?m5"
          using flows_put [of ?m4 orig i A] t view by (simp add: held_def)
        with f4 have "flows A m ?m5" by (rule flows_trans)
        with ra Inr sa None Some show ?thesis using t by (simp add: commit_def task_io)
      qed
    qed
  qed
qed

section \<open>Acceptance and deletion\<close>

lemma mgr_wf_put:
  "mgr_wf m \<Longrightarrow> tID t = i \<Longrightarrow> mTaskDb m' = snd (db_Put i t (mTaskDb m)) \<Longrightarrow> m' = m\<lparr>mTaskDb := mTaskDb m'\<rparr> \<Longrightarrow> mgr_wf m'"
  using mgr_wf_io(1) [of m t i] by metis

lemma accept_task_wf:
  assumes "accept_task e t m = (r, m')" "mgr_wf m"
  shows "mgr_wf m'"
  using accept_task_cases [OF assms(1)]
proof (elim disjE conjE exE)
  fix m1 m2
  assume a: "reads_tasks m m1" "name_check e (tName t) m1 = (None, m2)"
    "db_Put (tID t) (t\<lparr>tState := Pending\<rparr>) (mTaskDb m2) = (None, mTaskDb m')" "m' = m2\<lparr>mTaskDb := mTaskDb m'\<rparr>"
  have "reads_tasks m m2" using reads_tasks_trans [OF a(1) name_check_reads [of m1 e "tName t"]] a(2) by simp
  then have "mgr_wf m2" using assms(2) by (rule reads_tasksD)
  then show ?thesis using mgr_wf_put [of m2 "t\<lparr>tState := Pending\<rparr>" "tID t" m'] a(3,4) by simp
qed (use assms(2) reads_tasksD in blast)

lemma AddTask_wf:
  assumes "AddTask e te m = (r, m')" "mgr_wf m"
  shows "mgr_wf m'"
  using assms accept_task_wf [of e "eTask te" m]
  by (auto simp: AddTask_def split: option.splits prod.splits if_splits)

text \<open>A refused event leaves nothing behind; an accepted one its task.\<close>

lemma flows_AddTask:
  assumes "AddTask e te m = (r, m')"
  shows "flows (if r = None then {eTask te} else {}) m m'"
proof -
  note v = AddTask_view [OF assms]
  have "spec_of ` held m' \<subseteq> spec_of ` (held m \<union> (if r = None then {eTask te} else {}))"
  proof (cases "r = None")
    case True
    have "ran (task_view m') \<subseteq> insert ((eTask te)\<lparr>tState := Pending\<rparr>) (ran (task_view m))"
      using v True ran_update by (auto split: if_splits)
    then have "held m' \<subseteq> insert ((eTask te)\<lparr>tState := Pending\<rparr>) (insert (eTask te) (held m))"
      using v True by (auto simp: held_def)
    then have "spec_of ` held m' \<subseteq> spec_of ` insert ((eTask te)\<lparr>tState := Pending\<rparr>) (insert (eTask te) (held m))"
      by (rule image_mono)
    then show ?thesis using True by simp
  next
    case False
    with v have "held m' = held m" by (simp add: held_def)
    then show ?thesis by auto
  qed
  then show ?thesis using AddTask_wf [OF assms] by (simp add: flows_def)
qed

lemma deleteTask_wf:
  assumes "mgr_wf m"
  shows "mgr_wf (snd (deleteTask e t m))"
proof -
  let ?m1 = "m\<lparr>mTaskDb := snd (db_Delete (tID t) (mTaskDb m))\<rparr>"
  have 1: "mgr_wf ?m1" using assms by simp
  obtain w m2 where d: "drop_assignment (tID t) ?m1 = (w, m2)" by fastforce
  then have "mgr_wf m2" using drop_assignment_wf [OF 1, of "tID t"] by simp
  then have "mgr_wf (delete_rest e t ?m1)" by (simp add: delete_rest_def d Let_def)
  with assms 1 show ?thesis by (simp add: deleteTask_alt task_io split: option.split)
qed

lemma deleteTask_pending:
  "set (q_items (mPending (snd (deleteTask e t m)))) \<subseteq> set (q_items (mPending m))"
proof -
  let ?m1 = "m\<lparr>mTaskDb := snd (db_Delete (tID t) (mTaskDb m))\<rparr>"
  obtain w m2 where d: "drop_assignment (tID t) ?m1 = (w, m2)" by fastforce
  show ?thesis
    using delete_rest_effect(3) [OF d, of e] by (auto simp: deleteTask_alt task_io split: option.split)
qed

lemma flows_deleteTask: "flows A m (snd (deleteTask e t m))"
proof -
  obtain r m' where d: "deleteTask e t m = (r, m')" by fastforce
  have "ran (task_view m') \<subseteq> ran (task_view m)"
    using deleteTask_records [OF d] by (auto simp: ran_def split: if_splits)
  moreover have "set (q_items (mPending m')) \<subseteq> set (q_items (mPending m))"
    using deleteTask_pending [of e t m] d by simp
  ultimately have "held m' \<subseteq> held m" by (auto simp: held_def)
  moreover have "mgr_wf m \<Longrightarrow> mgr_wf m'" using deleteTask_wf [of m e t] d by simp
  ultimately show ?thesis using d by (auto simp: flows_def)
qed

lemma flows_markStop: "flows A m (snd (markStopRequested e i m))"
proof -
  let ?m1 = "m\<lparr>mTaskDb := snd (db_Get i (mTaskDb m))\<rparr>"
  have 1: "flows A m ?m1" by (rule flows_reads) simp
  show ?thesis
  proof (cases "fst (db_Get i (mTaskDb m))")
    case (Inl err)
    with 1 show ?thesis by (simp add: markStopRequested_def task_io)
  next
    case (Inr p)
    then have p: "task_view m i = Some p" using db_Get_Inr [OF Inr] by simp
    let ?p = "p\<lparr>tManuallyStopped := True\<rparr>"
    have "flows A ?m1 (?m1\<lparr>mTaskDb := snd (db_Put i ?p (mTaskDb ?m1))\<rparr>)"
      by (rule flows_put) (use p held_record [of ?m1 i p] in \<open>auto simp: mgr_wf_def image_Un\<close>)
    from flows_trans [OF 1 this] Inr show ?thesis
      by (simp add: markStopRequested_def task_io split: option.split)
  qed
qed

section \<open>Placement, dispatch and restarts\<close>

lemma flows_rollback: "flows A m (rollbackAcceptedWorkerTask e w t u b m)"
  by (rule flows_quiet [OF quiet_rollback]) (simp add: rollbackAcceptedWorkerTask_def Let_def)

lemma flows_release: "flows A m (release_ports w t m)"
  by (rule flows_quiet) simp_all

lemma flows_select: "flows A m (snd (selectAndReserveWorker e t owner m))"
  by (rule flows_quiet [OF selectAndReserve_stores selectAndReserve_pending])

lemma flows_store_event: "flows A m (store_event te m)"
  by (rule flows_frame) (simp_all add: store_event_def task_io)

lemma flows_wake: "flows A m (wake_update m)"
  by (rule flows_quiet) (simp_all add: same_stores_def wake_update_def)

lemma flows_worker: "flows A m (snd (taskWorker i m))"
  by (rule flows_frame) (simp_all add: task_io)

lemma flows_getTask: "flows A m (snd (getTask i m))"
  by (rule flows_reads) (rule getTask_others)

lemma getTask_held: "getTask i m = (Some t, m') \<Longrightarrow> t \<in> held m \<and> task_view m i = Some t"
  using db_Get_Inr [of i "mTaskDb m" t] held_record by (auto simp: getTask_alt split: sum.splits)

lemma launch_flows:
  assumes "launch e te w rsv m = (r, m')"
  shows "flows A m m'" "r = Some fl \<Longrightarrow> spec_of (ifTask fl) = spec_of (eTask te) \<and> spec_of (eTask (ifEvent fl)) = spec_of (eTask te)"
  using assms flows_release [of A m] by (auto simp: launch_def Let_def split: option.splits if_splits)

text \<open>What an in-flight request holds: its task and its event, the same specification.\<close>

definition carries :: "inflight option \<Rightarrow> task set" where
  "carries r = (case r of None \<Rightarrow> {} | Some fl \<Rightarrow> {ifTask fl, eTask (ifEvent fl)})"

lemma dispatch_owned_flows:
  assumes "dispatch_owned e te owner m = (r, m')"
  shows "flows {eTask te} m m' \<and> spec_of ` carries r \<subseteq> {spec_of (eTask te)}"
proof (cases "workerByAddress owner m")
  case None
  with assms show ?thesis by (auto simp: dispatch_owned_def carries_def image_Un intro: flows_enqueue)
next
  case (Some w)
  show ?thesis
  proof (cases "is_stop te")
    case True
    with assms Some have l: "launch e te w False m = (r, m')" by (simp add: dispatch_owned_def)
    then show ?thesis using launch_flows [OF l] by (auto simp: carries_def split: option.split)
  next
    case False
    obtain rsv rt where t: "TryReserve (nAddress w) (eTask te) (mReservations m) = (rsv, rt)" by fastforce
    let ?m = "m\<lparr>mReservations := rt\<rparr>"
    have f: "flows {eTask te} m ?m" by (rule flows_quiet) (simp_all add: same_stores_def)
    show ?thesis
    proof (cases rsv)
      case True
      with assms Some False t have l: "launch e te w True ?m = (r, m')" by (simp add: dispatch_owned_def)
      then show ?thesis using launch_flows [OF l] flows_trans [OF f] by (auto simp: carries_def split: option.split)
    next
      case no: False
      with assms Some False t show ?thesis
        using flows_trans [OF f flows_markFailed] by (auto simp: dispatch_owned_def carries_def)
    qed
  qed
qed

lemma dispatch_unowned_start_flows:
  assumes "dispatch_unowned_start e te m = (r, m')"
  shows "flows {eTask te} m m' \<and> spec_of ` carries r \<subseteq> {spec_of (eTask te)}"
proof -
  obtain g m1 where g: "getTask (tID (eTask te)) m = (g, m1)" by fastforce
  have f1: "flows {eTask te} m m1" using flows_getTask [of "{eTask te}" m "tID (eTask te)"] g by simp
  show ?thesis
  proof (cases g)
    case None
    with assms g f1 show ?thesis by (simp add: dispatch_unowned_start_def carries_def)
  next
    case (Some t)
    obtain s m2 where s: "selectAndReserveWorker e (eTask te) [] m1 = (s, m2)" by fastforce
    have f2: "flows {eTask te} m m2" using flows_trans [OF f1] flows_select [of _ m1 e "eTask te" "[]"] s by simp
    show ?thesis
    proof (cases s)
      case (Inr w)
      with assms g Some s have l: "launch e te w True m2 = (r, m')" by (simp add: dispatch_unowned_start_def)
      then show ?thesis using launch_flows [OF l] flows_trans [OF f2] by (auto simp: carries_def split: option.split)
    next
      case (Inl err)
      then have "r = None \<and> flows {eTask te} m2 m'"
        using assms g Some s
        by (auto simp: dispatch_unowned_start_def image_Un intro!: flows_enqueue flows_stopTaskTerminal)
      then show ?thesis using flows_trans [OF f2] by (simp add: carries_def)
    qed
  qed
qed

lemma dispatch_unowned_stop_flows: "flows {eTask te} m (dispatch_unowned_stop e te m)"
proof -
  obtain g m1 where g: "getTask (tID (eTask te)) m = (g, m1)" by fastforce
  have f1: "flows {eTask te} m m1" using flows_getTask [of "{eTask te}" m "tID (eTask te)"] g by simp
  show ?thesis
  proof (cases g)
    case None
    with g f1 show ?thesis by (simp add: dispatch_unowned_stop_def)
  next
    case (Some t)
    obtain d m2 where d: "deleteTask e t m1 = (d, m2)" by fastforce
    have f2: "flows {eTask te} m m2" using flows_trans [OF f1] flows_deleteTask [of _ m1 e t] d by simp
    have "flows {eTask te} m2 (enqueuePending te m2)" by (auto intro: flows_enqueue simp: image_Un)
    with g Some d f2 flows_trans [OF f2] show ?thesis
      by (simp add: dispatch_unowned_stop_def split: option.split)
  qed
qed

lemma dispatch_event_flows:
  assumes "dispatch_event e te m = (r, m')"
  shows "flows {eTask te} m m' \<and> spec_of ` carries r \<subseteq> {spec_of (eTask te)}"
proof -
  obtain owner m1 where w: "taskWorker (tID (eTask te)) m = (owner, m1)" by fastforce
  have f: "flows {eTask te} m m1" using flows_worker [of _ m "tID (eTask te)"] w by simp
  have "flows {eTask te} m1 m' \<and> spec_of ` carries r \<subseteq> {spec_of (eTask te)}"
    using assms w dispatch_owned_flows [of e te owner m1 r m'] dispatch_unowned_start_flows [of e te m1 r m']
      dispatch_unowned_stop_flows [of te m1 e]
    by (auto simp: dispatch_event_def carries_def split: if_splits)
  with flows_trans [OF f] show ?thesis by blast
qed

text \<open>An event taken from the queue is held by the request instead.\<close>

lemma dispatch_prepare_flows:
  assumes "dispatch_prepare e m = (r, m')" "mgr_wf m"
  shows "mgr_wf m' \<and> spec_of ` (held m' \<union> carries r) \<subseteq> spec_of ` held m"
proof (cases "q_items (mPending m)")
  case Nil
  then have "r = None \<and> m' = snd (dequeuePending m)" "mPending (snd (dequeuePending m)) = mPending m"
    using assms(1) by (auto simp: dispatch_prepare_def dequeuePending_def Dequeue_def split: prod.splits)
  with assms(2) show ?thesis by (simp add: held_def carries_def)
next
  case (Cons te rest)
  define m1 where "m1 = m\<lparr>mPending := (mPending m)\<lparr>q_items := rest\<rparr>\<rparr>"
  have m1: "dequeuePending m = (Some te, m1)" "q_items (mPending m1) = rest"
    using Cons by (simp_all add: dequeuePending_def Dequeue_def m1_def)
  with assms(1) have d: "dispatch_event e te m1 = (r, m')" by (simp add: dispatch_prepare_def)
  have "same_stores m m1" by (simp add: same_stores_def m1_def)
  then have wf: "mgr_wf m1" "task_view m1 = task_view m" using assms(2) by (simp_all add: same_storesD)
  have "held m1 \<union> {eTask te} = held m" using Cons m1(2) wf(2) by (auto simp: held_def)
  with dispatch_event_flows [OF d] wf(1) show ?thesis
    unfolding flows_def image_Un by blast
qed

lemma commit_start_flows:
  assumes "commit_start fl m = (r, m')" "ifTask fl \<in> A"
  shows "flows A m m'"
proof -
  let ?i = "tID (ifTask fl)"
  let ?m1 = "m\<lparr>mTaskDb := snd (db_Get ?i (mTaskDb m))\<rparr>"
  have f1: "flows A m ?m1" by (rule flows_reads) simp
  show ?thesis
  proof (cases "fst (db_Get ?i (mTaskDb m))")
    case (Inl err)
    have "m' = m \<or> m' = ?m1" using assms(1) Inl by (auto simp: commit_start_def Let_def task_io split: if_splits)
    with f1 show ?thesis by auto
  next
    case (Inr p)
    then have p: "task_view m ?i = Some p" using db_Get_Inr [OF Inr] by simp
    have "flows A ?m1 (snd (commit ?i (ifWorker fl) (ifTask fl) p ?m1))"
      by (rule flows_commit) (use p held_record [of ?m1 ?i p] assms(2) in \<open>auto simp: mgr_wf_def image_Un\<close>)
    moreover have "m' = m \<or> m' = snd (commit ?i (ifWorker fl) (ifTask fl) p ?m1)"
      using assms(1) Inr by (auto simp: commit_start_def Let_def task_io split: if_splits prod.splits)
    ultimately show ?thesis using flows_trans [OF f1] by auto
  qed
qed

lemma start_accepted_flows:
  assumes "ifTask fl \<in> A" "eTask (ifEvent fl) \<in> A"
  shows "flows A m (start_accepted e fl resp m)"
proof -
  obtain r m1 where c: "commit_start fl (store_event (ifEvent fl) m) = (r, m1)" by fastforce
  have f: "flows A m m1"
    by (rule flows_trans [OF flows_store_event]) (rule commit_start_flows [OF c assms(1)])
  have u: "flows A m1 (undo_dispatch e fl resp m1)" by (simp add: undo_dispatch_def flows_rollback)
  have q: "flows A (undo_dispatch e fl resp m1) (enqueuePending (ifEvent fl) (undo_dispatch e fl resp m1))"
    using assms(2) by (auto intro: flows_enqueue simp: image_Un)
  have "start_accepted e fl resp m \<in> {wake_update m1, undo_dispatch e fl resp m1,
      enqueuePending (ifEvent fl) (undo_dispatch e fl resp m1)}"
    by (cases r) (simp_all add: start_accepted_def c)
  then show ?thesis
    using flows_trans [OF f flows_wake] flows_trans [OF f u] flows_trans [OF flows_trans [OF f u] q] by auto
qed

lemma dispatch_finish_flows: "flows (carries (Some fl)) m (dispatch_finish e fl post m)"
proof (cases post)
  case (Inl err)
  have "flows (carries (Some fl)) (release_reserved fl m) (enqueuePending (ifEvent fl) (release_reserved fl m))"
    by (auto intro: flows_enqueue simp: carries_def image_Un)
  moreover have "flows (carries (Some fl)) m (release_reserved fl m)"
    by (simp add: release_reserved_def flows_release)
  ultimately show ?thesis using Inl flows_trans by (simp add: dispatch_finish_def)
next
  case (Inr resp)
  have r: "flows (carries (Some fl)) m (release_reserved fl m)" by (simp add: release_reserved_def flows_release)
  have acc: "flows (carries (Some fl)) m (start_accepted e fl resp m)"
    by (rule start_accepted_flows) (simp_all add: carries_def)
  show ?thesis
    unfolding dispatch_finish_def Inr sum.case Let_def
    by (auto intro: r acc flows_trans [OF flows_store_event] flows_trans [OF flows_wake] flows_release
        flows_trans [OF r flows_markFailed] flows_trans [OF flows_trans [OF flows_store_event flows_wake] flows_release]
        flows_trans [OF flows_store_event flows_release])
qed

lemma restart_prepare_flows:
  assumes "restart_prepare e t m = (r, m')"
  shows "flows {t} m m'" "r = Inr fl \<Longrightarrow> spec_of (ifTask fl) = spec_of t \<and> spec_of (eTask (ifEvent fl)) = spec_of t"
proof -
  obtain owner m1 where w: "taskWorker (tID t) m = (owner, m1)" by fastforce
  obtain s m2 where s: "selectAndReserveWorker e (restarted t) owner m1 = (s, m2)" by fastforce
  have f1: "flows {t} m m1" using flows_worker [of _ m "tID t"] w by simp
  have f2: "flows {t} m m2" using flows_trans [OF f1] flows_select [of _ m1 e "restarted t" owner] s by simp
  have "flows {t} m2 m'"
  proof (cases s)
    case (Inl err)
    with assms w s show ?thesis
      by (auto simp: restart_prepare_def Let_def flows_markFailed flows_stopTaskTerminal split: if_splits)
  next
    case (Inr n)
    with assms w s show ?thesis
      by (auto simp: restart_prepare_def Let_def intro: flows_trans [OF flows_release flows_markFailed] split: option.splits)
  qed
  with flows_trans [OF f2] show "flows {t} m m'" by blast
  show "r = Inr fl \<Longrightarrow> spec_of (ifTask fl) = spec_of t \<and> spec_of (eTask (ifEvent fl)) = spec_of t"
    using assms w s by (auto simp: restart_prepare_def Let_def split: sum.splits option.splits if_splits)
qed

lemma restart_commit_flows:
  assumes "tID (ifTask fl) = tID t" "ifTask fl \<in> A"
  shows "flows A m (snd (restart_commit e fl t resp m))"
proof -
  obtain k m1 where k: "restart_check e t m = (k, m1)" by fastforce
  have f1: "flows A m m1" using flows_reads [OF restart_check_frame [of m e t], of A] k by simp
  show ?thesis
  proof (cases k)
    case (Inl err)
    with k show ?thesis using flows_trans [OF f1 flows_rollback] by (simp add: restart_commit_def undo_restart_def)
  next
    case (Inr p)
    note chk = restart_check_Inr [OF k [unfolded Inr]]
    obtain c m2 where c: "commit (tID t) (ifWorker fl) (ifTask fl) p m1 = (c, m2)" by fastforce
    have p: "task_view m1 (tID t) = Some p" using chk(1,3) by simp
    have "flows A m1 (snd (commit (tID t) (ifWorker fl) (ifTask fl) p m1))"
      by (rule flows_commit) (use p held_record [OF p] assms in \<open>auto simp: mgr_wf_def image_Un\<close>)
    then have f2: "flows A m m2" using flows_trans [OF f1] c by simp
    have old: "flows A m2 (bestEffortStopOldContainer e w t (release_ports w t m2))" for w
      by (rule flows_trans [OF flows_release [of A m2 w t]], rule flows_quiet) simp_all
    have wake: "flows A x (x\<lparr>mUpdateWaker := wk\<rparr>)" for x wk by (rule flows_quiet) (simp_all add: same_stores_def)
    have "flows A m2 (snd (restart_commit e fl t resp m))"
      using k Inr c flows_rollback [of A m2] wake [of m2] flows_trans [OF old wake]
      by (simp add: restart_commit_def undo_restart_def Let_def split: option.split)
    with flows_trans [OF f2] show ?thesis by blast
  qed
qed

lemma restart_finish_flows:
  assumes "tID (ifTask fl) = tID t" "ifTask fl \<in> A"
  shows "flows A m (snd (restart_finish e fl t post m))"
  using restart_commit_flows [OF assms, of m e] flows_trans [OF flows_release flows_markFailed]
  by (simp add: restart_finish_def Let_def split: sum.split)

section \<open>Reports, checkers and start-up\<close>

lemma flows_update_one: "flows A m (update_one e a t m)"
proof -
  let ?m1 = "m\<lparr>mTaskDb := snd (db_Get (tID t) (mTaskDb m))\<rparr>"
  have 1: "flows A m ?m1" by (rule flows_reads) simp
  have out: "flows A m' (forgetTaskOnWorker a i m')" for m' i
    by (rule flows_quiet) (simp_all add: same_stores_def forgetTaskOnWorker_def)
  show ?thesis
  proof (cases "fst (db_Get (tID t) (mTaskDb m))")
    case (Inl err)
    with 1 flows_trans [OF 1 out] show ?thesis by (simp add: update_one_def task_io)
  next
    case (Inr p)
    then have p: "task_view m (tID t) = Some p" using db_Get_Inr [OF Inr] by simp
    have id: "tID (merge_report e p t) = tID p" by (simp add: merge_report_def Let_def)
    have "flows A ?m1 (?m1\<lparr>mTaskDb := snd (db_Put (tID t) (merge_report e p t) (mTaskDb ?m1))\<rparr>)"
      by (rule flows_put) (use p id held_record [of ?m1 "tID t" p] in \<open>auto simp: mgr_wf_def image_Un\<close>)
    from 1 flows_trans [OF 1 this] Inr show ?thesis by (simp add: update_one_def task_io)
  qed
qed

lemma flows_fold: "(\<And>x m. flows A m (f x m)) \<Longrightarrow> flows A m (fold f xs m)"
  by (induction xs arbitrary: m) (auto intro: flows_trans)

lemma flows_update_worker: "flows A m (update_worker e a got m)"
  by (simp add: update_worker_def flows_fold flows_update_one split: sum.split)

lemma flows_updateTasks: "flows A m (updateTasks e get m)"
  unfolding updateTasks_def by (rule flows_fold) (rule flows_update_worker)

lemma flows_getTasks: "flows A m (snd (getTasks m))"
  by (rule flows_reads) (simp add: getTasks_alt)

lemma getTasks_held:
  assumes "mgr_wf m" "getTasks m = (ts, m')"
  shows "set ts \<subseteq> held m"
  using getTasks_records(2) [OF assms] held_record by blast

lemma flows_reconcileCheckers: "flows A m (reconcileCheckers fresh m)"
proof -
  obtain ts m1 where g: "getTasks m = (ts, m1)" by fastforce
  have one: "flows A m' (reconcile_checker fresh t m')" for t m'
    by (rule flows_quiet)
      (simp_all add: same_stores_def reconcile_checker_def stopChecker_def startChecker_def case_prod_beta)
  have "flows A m m1" using flows_getTasks [of A m] g by simp
  then have "flows A m (fold (reconcile_checker fresh) ts m1)" by (rule flows_trans) (rule flows_fold [OF one])
  moreover have last: "flows A m' (m'\<lparr>mCheckers := cs\<rparr>)" for m' cs by (rule flows_quiet) (simp_all add: same_stores_def)
  ultimately show ?thesis using g flows_trans [OF _ last] by (simp add: reconcileCheckers_def Let_def)
qed

lemma flows_refresh: "flows A m (refresh_pass get n p m)"
  by (rule flows_quiet) (simp_all add: same_stores_def refresh_pass_def)

lemma flows_reconcile_one: "t \<in> A \<Longrightarrow> flows A m (reconcile_one e fresh t m)"
proof -
  assume t: "t \<in> A"
  obtain w m1 where w: "taskWorker (tID t) m = (w, m1)" by fastforce
  have 1: "flows A m m1" using flows_worker [of A m "tID t"] w by simp
  have 2: "flows A m1 (m1\<lparr>mReservations := rt\<rparr>)" for rt by (rule flows_quiet) (simp_all add: same_stores_def)
  have 3: "flows A m (enqueuePending \<lparr>eID = i, eState = s, eTimestamp = x, eTask = t\<rparr> m)" for i s x
    using t by (auto intro!: flows_enqueue)
  show ?thesis using 1 3 flows_trans [OF 1 2] w by (simp add: reconcile_one_def)
qed

lemma sweep_wf:
  assumes "db_wf d"
  shows "db_wf (sweepOrphanedAssignments ks d)" "db_view (sweepOrphanedAssignments ks d) \<subseteq>\<^sub>m db_view d"
proof -
  have "db_wf (sweepOrphanedAssignments ks d) \<and> db_view (sweepOrphanedAssignments ks d) \<subseteq>\<^sub>m db_view d"
  proof (cases d)
    case None
    then show ?thesis by (simp add: sweepOrphanedAssignments_def)
  next
    case (Some s)
    obtain r s' where l: "store_List s = (r, s')" by fastforce
    then have s': "store_view s' = store_view s" "store_wf s'"
      using store_List_view [of s] store_ops_wf(3) [of s] assms Some by simp_all
    have "sweepOrphanedAssignments ks d = (case r of Inl _ \<Rightarrow> Some s' | Inr as \<Rightarrow> Some (sweep_loop as ks s'))"
      using Some l by (simp add: sweepOrphanedAssignments_def)
    with s' Some sweep_loop_le [of _ ks s'] show ?thesis by (auto split: sum.split)
  qed
  then show "db_wf (sweepOrphanedAssignments ks d)" "db_view (sweepOrphanedAssignments ks d) \<subseteq>\<^sub>m db_view d"
    by simp_all
qed

text \<open>An operation that only moves what was there.\<close>

lemma flows_own: "flows A m m' \<Longrightarrow> (mgr_wf m \<Longrightarrow> A \<subseteq> held m) \<Longrightarrow> flows {} m m'"
  unfolding flows_def image_Un by blast

lemma flows_fold_in: "(\<And>x m. x \<in> set xs \<Longrightarrow> flows A m (f x m)) \<Longrightarrow> flows A m (fold f xs m)"
proof (induction xs arbitrary: m)
  case (Cons x xs)
  have "flows A m (f x m)" by (rule Cons.prems) simp
  moreover have "flows A (f x m) (fold f xs (f x m))" by (rule Cons.IH) (simp add: Cons.prems)
  ultimately show ?case by (simp add: flows_trans)
qed simp

lemma flows_startup: "flows {} m (snd (reconcileOnStartup e fresh m))"
proof -
  let ?m1 = "m\<lparr>mTaskDb := snd (db_List (mTaskDb m))\<rparr>"
  have 1: "flows A m ?m1" for A by (rule flows_frame) simp_all
  show ?thesis
  proof (cases "fst (db_List (mTaskDb m))")
    case (Inl err)
    with 1 show ?thesis by (simp add: reconcileOnStartup_def task_io)
  next
    case (Inr ts)
    let ?m2 = "fold (reconcile_one e fresh) ts ?m1"
    let ?m3 = "?m2\<lparr>mAssignments := sweepOrphanedAssignments (map tID ts) (mAssignments ?m2)\<rparr>"
    have "flows (set ts) ?m1 ?m2" by (rule flows_fold_in) (rule flows_reconcile_one)
    moreover have "flows (set ts) ?m2 ?m3"
    proof (rule flows_frame)
      assume wf: "mgr_wf ?m2"
      then have "db_wf (mAssignments ?m2)" by (simp add: mgr_wf_def)
      note sw = sweep_wf [OF this, of "map tID ts"]
      have "asTaskID a = i" if "db_view (sweepOrphanedAssignments (map tID ts) (mAssignments ?m2)) i = Some a" for i a
        using wf sw(2) that by (force simp: mgr_wf_def map_le_def)
      with wf sw(1) show "mgr_wf ?m3" by (simp add: mgr_wf_def)
    qed simp_all
    ultimately have "flows (set ts) m ?m3" using flows_trans [OF 1] flows_trans by blast
    moreover have "set ts \<subseteq> held m" if "mgr_wf m"
      using db_List_Inr [OF _ Inr] that by (auto simp: mgr_wf_def held_def)
    ultimately show ?thesis using Inr flows_own by (simp add: reconcileOnStartup_def task_io Let_def)
  qed
qed

section \<open>The API\<close>

text \<open>What a reply tells the user was created.\<close>

fun told :: "body \<Rightarrow> task set" where
  "told (TaskBody t) = {t}"
| "told b = {}"

lemma HttpResponseHelper_told [simp]: "told (rpBody (HttpResponseHelper s c)) = {}" "told (rpBody (plain c)) = {}"
  by (simp_all add: HttpResponseHelper_def plain_def)

lemma flows_StartTask:
  assumes "StartTaskHandler e fresh rq m = (rep, m')"
  shows "flows (told (rpBody rep)) m m' \<and> (\<forall>t\<in>told (rpBody rep). Validate (eExt e) t = None)"
proof (cases "m' = m \<and> told (rpBody rep) = {}")
  case False
  then obtain te0 where rq: "rq = Inr te0" and v: "Validate (eExt e) (eTask te0) = None"
    using assms by (auto simp: StartTaskHandler_def unmarshalling_error_def Let_def split: sum.splits option.splits)
  define te1 where "te1 = te0\<lparr>eID := eFresh e\<rparr>"
  define te where "te = (if tID (eTask te1) = uuid_Nil then te1\<lparr>eTask := (eTask te1)\<lparr>tID := fresh\<rparr>\<rparr> else te1)"
  obtain r m1 where a: "AddTask e te m = (r, m1)" by fastforce
  have "Validate (eExt e) (t\<lparr>tID := i\<rparr>) = Validate (eExt e) t" for t i
  proof -
    have "tPorts (t\<lparr>tID := i\<rparr>) = tPorts t" "tRestartPolicy (t\<lparr>tID := i\<rparr>) = tRestartPolicy t"
      "tEnv (t\<lparr>tID := i\<rparr>) = tEnv t" "tSecurity (t\<lparr>tID := i\<rparr>) = tSecurity t"
      "tTimeout (t\<lparr>tID := i\<rparr>) = tTimeout t" "tMaxRestarts (t\<lparr>tID := i\<rparr>) = tMaxRestarts t" by simp_all
    then show ?thesis by (simp only: Validate_def)
  qed
  moreover have v1: "Validate (eExt e) (eTask te1) = None" using v by (simp add: te1_def)
  ultimately have ok: "Validate (eExt e) (eTask te) = None" by (simp add: te_def)
  have "(case AddTask e te m of
      (Some err, m) \<Rightarrow> (HttpResponseHelper (''Error adding task: '' @ err_msg err @ newline) 409, m)
    | (None, m) \<Rightarrow> (\<lparr>rpStatus = 201, rpHeader = [], rpBody = TaskBody (eTask te)\<rparr>, m)) = (rep, m')"
    using assms v1 unfolding StartTaskHandler_def rq te_def by (simp add: te1_def [symmetric] Let_def)
  with a ok flows_AddTask [OF a] show ?thesis by (cases r) auto
qed auto

lemma flows_stop_running:
  assumes "stop_running e t m = (rep, m')" "t \<in> A"
  shows "flows A m m' \<and> told (rpBody rep) = {}"
proof -
  obtain k m1 where k: "markStopRequested e (tID t) m = (k, m1)" by fastforce
  obtain r m2 where a: "AddTask e (stop_request e t) m1 = (r, m2)" by fastforce
  have 1: "flows A m m1" using flows_markStop [of A m e "tID t"] k by simp
  have "spec_of (eTask (stop_request e t)) = spec_of t" by (simp add: stop_request_def)
  then have "flows A m1 m2"
    using flows_AddTask [OF a] assms(2) unfolding flows_def image_Un by (auto split: if_splits)
  with 1 have "flows A m m2" by (rule flows_trans)
  with assms(1) k a 1 show ?thesis by (cases k; cases r) (auto simp: stop_running_def split: if_splits)
qed

lemma flows_stop_deletes: "flows A m (snd (stop_deletes e t m))"
  using flows_worker [of A m "tID t"] by (simp add: stop_deletes_def case_prod_beta)

lemma flows_resolve: "flows A m (snd (resolveTask e ref m))"
  using flows_getTasks [of A m] by (simp add: resolveTask_def case_prod_beta)

lemma flows_StopTask:
  assumes "StopTaskHandler e ref m = (rep, m')"
  shows "flows {} m m' \<and> told (rpBody rep) = {}"
proof -
  obtain t found amb m1 where r: "resolveTask e ref m = ((t, found, amb), m1)" by (metis prod.exhaust)
  obtain d m2 where d: "stop_deletes e t m1 = (d, m2)" by fastforce
  obtain k m3 where k: "deleteTask e t m2 = (k, m3)" by fastforce
  obtain rep4 m4 where sr: "stop_running e t m2 = (rep4, m4)" by fastforce
  have f1: "flows A m m1" for A using flows_resolve [of A m e ref] r by simp
  have f2: "flows A m m2" for A using flows_trans [OF f1] flows_stop_deletes [of A m1 e t] d by simp
  have f3: "flows A m m3" for A using flows_trans [OF f2] flows_deleteTask [of A m2 e t] k by simp
  have f4: "flows {t} m m4 \<and> told (rpBody rep4) = {}" using flows_stop_running [OF sr, of "{t}"] flows_trans [OF f2] by simp
  have "flows {} m m4" if "found"
  proof (rule flows_own [OF conjunct1 [OF f4]])
    assume wf: "mgr_wf m"
    have "resolveTask e ref m = ((t, True, amb), m1)" using r that by simp
    from resolveTask_found [OF this wf] show "{t} \<subseteq> held m" using held_record by blast
  qed
  with assms r d k sr f1 f3 f4 show ?thesis
    by (cases k; cases d) (auto simp: StopTaskHandler_def split: if_splits)
qed

lemma flows_getTaskViews: "flows A m (snd (getTaskViews m))"
proof (rule flows_frame)
  assume "mgr_wf m"
  then show "mgr_wf (snd (getTaskViews m))"
    by (auto simp: getTaskViews_def task_io mgr_wf_def Let_def case_prod_beta split: sum.split)
qed (simp_all add: getTaskViews_reads)

lemma flows_logs: "flows A m (snd (GetTaskLogsHandler e get ref raw m))"
proof -
  obtain t found amb m1 where r: "resolveTask e ref m = ((t, found, amb), m1)" by (metis prod.exhaust)
  obtain w m2 where w: "taskWorker (tID t) m1 = (w, m2)" by fastforce
  have 1: "flows A m m1" using flows_resolve [of A m e ref] r by simp
  have 2: "flows A m m2" using flows_trans [OF 1] flows_worker [of A m1 "tID t"] w by simp
  have "snd (GetTaskLogsHandler e get ref raw m) \<in> {m, m1, m2}"
    by (simp add: GetTaskLogsHandler_def r w Let_def split: sum.split)
  with 1 2 show ?thesis by auto
qed

text \<open>
  A request, whoever makes it: the only specification it brings in is that of the task its reply
  reports as created.
\<close>

lemma flows_handler:
  assumes "mgr_handler e rq ep m = (rep, m')"
  shows "flows (told (rpBody rep)) m m' \<and> (\<forall>t\<in>told (rpBody rep). Validate (eExt e) t = None)"
proof (cases ep)
  case EpGetTasks
  then have "told (rpBody rep) = {}" "m' = snd (getTaskViews m)"
    using assms by (auto simp: mgr_handler_def GetTasksHandler_def json_reply_def split: prod.splits)
  then show ?thesis using flows_getTaskViews by simp
next
  case EpStartTask
  with assms show ?thesis using flows_StartTask by (simp add: mgr_handler_def)
next
  case (EpTaskLogs i)
  with assms have g: "GetTaskLogsHandler e (rqLogs rq) i (rqTail rq) m = (rep, m')" by (simp add: mgr_handler_def)
  have "told (rpBody rep) = {}"
    using g by (auto simp: GetTaskLogsHandler_def Let_def split: if_splits prod.splits sum.splits)
  with g flows_logs [of "{}" m e "rqLogs rq" i "rqTail rq"] show ?thesis by simp
next
  case (EpStopTask i)
  with assms have "StopTaskHandler e i m = (rep, m')" by (simp add: mgr_handler_def)
  from flows_StopTask [OF this] show ?thesis by simp
next
  case EpGetNodes
  with assms show ?thesis by (auto simp: mgr_handler_def GetNodesHandler_def json_reply_def)
next
  case EpPullImage
  then have "mgr_handler e rq ep m = (PullImageHandler (rqPull rq) (rqImage rq) m, m)" by (simp add: mgr_handler_def)
  moreover have "told (rpBody (PullImageHandler (rqPull rq) (rqImage rq) m)) = {}"
    by (auto simp: PullImageHandler_def json_reply_def unmarshalling_error_def Let_def split: sum.splits prod.splits)
  ultimately show ?thesis using assms by auto
qed

lemma flows_serve:
  assumes "mgr_serve c a e rq ep header m = (rep, m')"
  shows "flows (told (rpBody rep)) m m' \<and> (\<forall>t\<in>told (rpBody rep). Validate (eExt e) t = None)"
proof (cases "mgr_serve c a e rq ep header m = mgr_handler e rq ep m")
  case True
  with assms flows_handler show ?thesis by simp
next
  case False
  then have "m' = m \<and> told (rpBody rep) = {}"
    using assms
    by (cases a) (auto simp: mgr_serve_def BearerAuth_def RequireRoleHandler_def roleDenied_def with_bearer_def
        case_prod_beta Let_def split: if_splits)
  then show ?thesis by simp
qed

end
