(* ===== verification/System.thy ===== *)
theory System
  imports Flow
begin

text \<open>
  The manager as it runs: requests of users, the dispatch loop, the restart loop, the health checkers,
  the reports of the workers and crashes of the process, in any order. Each goroutine acts between the
  points at which it waits for a worker or reads a snapshot; what it holds meanwhile, a request on its
  way or a copy of a record, is its thread. The history keeps the tasks whose creation users were told.
\<close>

section \<open>Steps\<close>

text \<open>
  \<open>Sending\<close>: the dispatch loop with its request at the worker. \<open>Judging\<close>: the restart loop with a task of
  its snapshot. \<open>Checking\<close>: a checker with the record it read before the probe. \<open>Restarting\<close>: a restart with
  its request at the worker.
\<close>

datatype thread = Sending inflight | Judging task | Checking task | Restarting task inflight

record sys =
  sMgr :: manager
  sThreads :: "thread multiset"
  sMade :: "task set"

text \<open>What a thread keeps; the new placement of a restart is for the task that is restarted.\<close>

fun carried :: "thread \<Rightarrow> task set" where
  "carried (Sending fl) = carries (Some fl)"
| "carried (Judging t) = {t}"
| "carried (Checking t) = {t}"
| "carried (Restarting t fl) = {t, ifTask fl}"

fun same_task :: "thread \<Rightarrow> bool" where
  "same_task (Restarting t fl) \<longleftrightarrow> tID (ifTask fl) = tID t"
| "same_task _ \<longleftrightarrow> True"

fun_cases same_task_elim: "same_task (Restarting t fl)"

text \<open>The files of a manager that starts for the first time, and after a crash: what was stored is there.\<close>

definition stored :: "('v store \<Rightarrow> bool) \<Rightarrow> gerror + 'v store \<Rightarrow> bool" where
  "stored P f \<longleftrightarrow> (case f of Inl _ \<Rightarrow> True | Inr s \<Rightarrow> store_wf s \<and> P s)"

definition files_hold ::
  "(uuid \<rightharpoonup> task) \<Rightarrow> (uuid \<rightharpoonup> assignment) \<Rightarrow> bolt_files \<Rightarrow> bool" where
  "files_hold ts as b \<longleftrightarrow> stored (\<lambda>s. store_view s = ts) (bfTasks b) \<and> stored (\<lambda>s. True) (bfEvents b)
     \<and> stored (\<lambda>s. store_view s = as) (bfAssignments b)"

text \<open>A loop that waits takes the token of its waker.\<close>

definition take_dispatch :: "manager \<Rightarrow> manager" where
  "take_dispatch m = m\<lparr>mDispatchWaker := snd (receive (mDispatchWaker m))\<rparr>"

definition take_update :: "manager \<Rightarrow> manager" where
  "take_update m = m\<lparr>mUpdateWaker := snd (receive (mUpdateWaker m))\<rparr>"

lemma flows_take: "flows A m (take_dispatch m)" "flows A m (take_update m)"
  by (rule flows_quiet; simp add: take_dispatch_def take_update_def same_stores_def)+

inductive sys_step :: "ext \<Rightarrow> sys \<Rightarrow> sys \<Rightarrow> bool" for x where
  request:
    "mgr_serve c a e rq ep header (sMgr s) = (rep, m) \<Longrightarrow> eExt e = x
       \<Longrightarrow> sys_step x s (s\<lparr>sMgr := m, sMade := sMade s \<union> told (rpBody rep)\<rparr>)"
| idle:
    "dispatch_prepare e (sMgr s) = (None, m) \<Longrightarrow> sys_step x s (s\<lparr>sMgr := m\<rparr>)"
| send:
    "dispatch_prepare e (sMgr s) = (Some fl, m)
       \<Longrightarrow> sys_step x s (s\<lparr>sMgr := m, sThreads := add_mset (Sending fl) (sThreads s)\<rparr>)"
| sent:
    "sThreads s = add_mset (Sending fl) ths
       \<Longrightarrow> sys_step x s (s\<lparr>sMgr := dispatch_finish e fl post (sMgr s), sThreads := ths\<rparr>)"
| pass:
    "getTasks (sMgr s) = (ts, m)
       \<Longrightarrow> sys_step x s (s\<lparr>sMgr := m, sThreads := sThreads s + mset (map Judging ts)\<rparr>)"
| skip:
    "sThreads s = add_mset (Judging t) ths \<Longrightarrow> restart_decision e now t = Skip
       \<Longrightarrow> sys_step x s (s\<lparr>sThreads := ths\<rparr>)"
| stop:
    "sThreads s = add_mset (Judging t) ths \<Longrightarrow> restart_decision e now t = StopFor reason
       \<Longrightarrow> sys_step x s (s\<lparr>sMgr := stopTaskTerminal e t reason (sMgr s), sThreads := ths\<rparr>)"
| restart:
    "sThreads s = add_mset (Judging t) ths \<Longrightarrow> restart_decision e now t = Restart
       \<Longrightarrow> restart_prepare e t (sMgr s) = (Inr fl, m)
       \<Longrightarrow> sys_step x s (s\<lparr>sMgr := m, sThreads := add_mset (Restarting t fl) ths\<rparr>)"
| restart_fails:
    "sThreads s = add_mset (Judging t) ths \<Longrightarrow> restart_decision e now t = Restart
       \<Longrightarrow> restart_prepare e t (sMgr s) = (Inl err, m)
       \<Longrightarrow> sys_step x s (s\<lparr>sMgr := m, sThreads := ths\<rparr>)"
| restarted:
    "sThreads s = add_mset (Restarting t fl) ths
       \<Longrightarrow> sys_step x s (s\<lparr>sMgr := snd (restart_finish e fl t post (sMgr s)), sThreads := ths\<rparr>)"
| check:
    "getTask i (sMgr s) = (Some t, m) \<Longrightarrow> tState t = Running
       \<Longrightarrow> sys_step x s (s\<lparr>sMgr := m, sThreads := add_mset (Checking t) (sThreads s)\<rparr>)"
| look:
    "getTask i (sMgr s) = (r, m) \<Longrightarrow> (\<And>t. r = Some t \<Longrightarrow> tState t \<noteq> Running)
       \<Longrightarrow> sys_step x s (s\<lparr>sMgr := m\<rparr>)"
| patient:
    "sThreads s = add_mset (Checking t) ths
       \<Longrightarrow> result = (None :: gerror option) \<or> inc failures < retries
            \<or> \<not> AtRestartCap t (eMaxRestarts (e :: menv)) \<and> ShouldRestart (tRestartPolicy t) \<and> eNow e < tNextRetryAt t
       \<Longrightarrow> sys_step x s (s\<lparr>sThreads := ths\<rparr>)"
| give_up:
    "sThreads s = add_mset (Checking t) ths \<Longrightarrow> retries \<le> inc failures
       \<Longrightarrow> AtRestartCap t (eMaxRestarts e) \<or> \<not> ShouldRestart (tRestartPolicy t)
       \<Longrightarrow> checker_verdict e worker retries failures (Some err) t (sMgr s) = (Exited, m)
       \<Longrightarrow> sys_step x s (s\<lparr>sMgr := m, sThreads := ths\<rparr>)"
| replace:
    "sThreads s = add_mset (Checking t) ths \<Longrightarrow> retries \<le> inc failures
       \<Longrightarrow> \<not> AtRestartCap t (eMaxRestarts e) \<Longrightarrow> ShouldRestart (tRestartPolicy t) \<Longrightarrow> tNextRetryAt t \<le> eNow e
       \<Longrightarrow> restart_prepare e t (sMgr s) = (Inr fl, m)
       \<Longrightarrow> sys_step x s (s\<lparr>sMgr := m, sThreads := add_mset (Restarting t fl) ths\<rparr>)"
| replace_fails:
    "sThreads s = add_mset (Checking t) ths \<Longrightarrow> retries \<le> inc failures
       \<Longrightarrow> \<not> AtRestartCap t (eMaxRestarts e) \<Longrightarrow> ShouldRestart (tRestartPolicy t) \<Longrightarrow> tNextRetryAt t \<le> eNow e
       \<Longrightarrow> restart_prepare e t (sMgr s) = (Inl err, m)
       \<Longrightarrow> sys_step x s (s\<lparr>sMgr := m, sThreads := ths\<rparr>)"
| woken_dispatch:
    "sys_step x s (s\<lparr>sMgr := take_dispatch (sMgr s)\<rparr>)"
| woken_update:
    "sys_step x s (s\<lparr>sMgr := take_update (sMgr s)\<rparr>)"
| report:
    "sys_step x s (s\<lparr>sMgr := update_one e a t (sMgr s)\<rparr>)"
| checkers:
    "sys_step x s (s\<lparr>sMgr := reconcileCheckers fresh (sMgr s)\<rparr>)"
| checker_done:
    "sys_step x s (s\<lparr>sMgr := (sMgr s)\<lparr>mCheckers := cs_finished i h (mCheckers (sMgr s))\<rparr>\<rparr>)"
| refresh:
    "sys_step x s (s\<lparr>sMgr := refresh_pass get n p (sMgr s)\<rparr>)"
| reboot:
    "files_hold (task_view (sMgr s)) (asg_view (sMgr s)) b
       \<Longrightarrow> New e fresh url DbFile b workers sched ''bolt'' = Inr m
       \<Longrightarrow> sys_step x s (s\<lparr>sMgr := m, sThreads := {#}\<rparr>)"

inductive sys_reach :: "ext \<Rightarrow> sys \<Rightarrow> bool" for x where
  boot:
    "files_hold Map.empty Map.empty b \<Longrightarrow> New e fresh url DbFile b workers sched dbType = Inr m
       \<Longrightarrow> sys_reach x \<lparr>sMgr = m, sThreads = {#}, sMade = {}\<rparr>"
| next_step: "sys_reach x s \<Longrightarrow> sys_step x s s' \<Longrightarrow> sys_reach x s'"

section \<open>What every state satisfies\<close>

definition sys_inv :: "ext \<Rightarrow> sys \<Rightarrow> bool" where
  "sys_inv x s \<longleftrightarrow> mgr_wf (sMgr s) \<and> spec_of ` held (sMgr s) \<subseteq> spec_of ` sMade s
     \<and> (\<forall>th\<in>#sThreads s. spec_of ` carried th \<subseteq> spec_of ` sMade s \<and> same_task th)
     \<and> (\<forall>t\<in>sMade s. Validate x t = None)"

text \<open>A step of the manager that takes from its threads or its own, and what the threads are then.\<close>

lemma sys_inv_step:
  assumes "sys_inv x s" "flows A (sMgr s) (sMgr s')" "spec_of ` A \<subseteq> spec_of ` sMade s'"
    and "sMade s \<subseteq> sMade s'" "\<And>t. t \<in> sMade s' \<Longrightarrow> t \<notin> sMade s \<Longrightarrow> Validate x t = None"
    and "\<And>th. th \<in># sThreads s' \<Longrightarrow> th \<notin># sThreads s
           \<Longrightarrow> spec_of ` carried th \<subseteq> spec_of ` sMade s' \<and> same_task th"
  shows "sys_inv x s'"
proof -
  have up: "spec_of ` sMade s \<subseteq> spec_of ` sMade s'" using assms(4) by (rule image_mono)
  have wf: "mgr_wf (sMgr s)" and h: "spec_of ` held (sMgr s) \<subseteq> spec_of ` sMade s"
    and th: "\<And>th. th \<in># sThreads s \<Longrightarrow> spec_of ` carried th \<subseteq> spec_of ` sMade s \<and> same_task th"
    and v: "\<And>t. t \<in> sMade s \<Longrightarrow> Validate x t = None"
    using assms(1) unfolding sys_inv_def by blast+
  have m: "mgr_wf (sMgr s')" "spec_of ` held (sMgr s') \<subseteq> spec_of ` held (sMgr s) \<union> spec_of ` A"
    using assms(2) wf unfolding flows_def image_Un by blast+
  then have "spec_of ` held (sMgr s') \<subseteq> spec_of ` sMade s'" using h up assms(3) by blast
  moreover have "spec_of ` carried th \<subseteq> spec_of ` sMade s' \<and> same_task th" if "th \<in># sThreads s'" for th
    using assms(6) [OF that] th [of th] up by blast
  moreover have "Validate x t = None" if "t \<in> sMade s'" for t using assms(5) [OF that] v by blast
  ultimately show ?thesis unfolding sys_inv_def by (intro conjI ballI m(1)) blast+
qed

lemma sys_inv_thread: "sys_inv x s \<Longrightarrow> th \<in># sThreads s \<Longrightarrow> spec_of ` carried th \<subseteq> spec_of ` sMade s \<and> same_task th"
  unfolding sys_inv_def by blast

lemma sys_inv_held: "sys_inv x s \<Longrightarrow> t \<in> held (sMgr s) \<Longrightarrow> spec_of t \<in> spec_of ` sMade s"
  unfolding sys_inv_def by blast

text \<open>A thread that ends, and one that goes on with what it kept.\<close>

lemma sys_inv_ends:
  assumes "sys_inv x s" "sThreads s = add_mset th ths" "flows (carried th) (sMgr s) m"
  shows "sys_inv x (s\<lparr>sMgr := m, sThreads := ths\<rparr>)"
proof (rule sys_inv_step [OF assms(1), of "carried th"])
  have "th \<in># sThreads s" using assms(2) by simp
  with sys_inv_thread [OF assms(1)] show "spec_of ` carried th \<subseteq> spec_of ` sMade (s\<lparr>sMgr := m, sThreads := ths\<rparr>)"
    by simp
qed (use assms in auto)

lemma sys_inv_goes_on:
  assumes "sys_inv x s" "sThreads s = add_mset th ths" "flows (carried th) (sMgr s) m"
    and "spec_of ` carried th' \<subseteq> spec_of ` carried th" "same_task th'"
  shows "sys_inv x (s\<lparr>sMgr := m, sThreads := add_mset th' ths\<rparr>)"
proof (rule sys_inv_step [OF assms(1), of "carried th"])
  have "th \<in># sThreads s" using assms(2) by simp
  with sys_inv_thread [OF assms(1)] have c: "spec_of ` carried th \<subseteq> spec_of ` sMade s" by blast
  then show "spec_of ` carried th \<subseteq> spec_of ` sMade (s\<lparr>sMgr := m, sThreads := add_mset th' ths\<rparr>)" by simp
  fix th''
  assume "th'' \<in># sThreads (s\<lparr>sMgr := m, sThreads := add_mset th' ths\<rparr>)" "th'' \<notin># sThreads s"
  then have "th'' = th'" using assms(2) by auto
  with c assms(4,5) show "spec_of ` carried th'' \<subseteq> spec_of ` sMade (s\<lparr>sMgr := m, sThreads := add_mset th' ths\<rparr>) \<and> same_task th''"
    by auto
qed (use assms in auto)

text \<open>A step of the manager on its own.\<close>

lemma sys_inv_quiet:
  assumes "sys_inv x s" "flows {} (sMgr s) m"
  shows "sys_inv x (s\<lparr>sMgr := m\<rparr>)"
  by (rule sys_inv_step [OF assms(1), of "{}"]) (use assms(2) in auto)

lemma sys_inv_spawn:
  assumes "sys_inv x s" "mgr_wf m" "spec_of ` held m \<subseteq> spec_of ` held (sMgr s)"
    and "\<And>th. th \<in># new \<Longrightarrow> spec_of ` carried th \<subseteq> spec_of ` held (sMgr s) \<and> same_task th"
  shows "sys_inv x (s\<lparr>sMgr := m, sThreads := sThreads s + new\<rparr>)"
proof (rule sys_inv_step [OF assms(1), of "{}"])
  show "flows {} (sMgr s) (sMgr (s\<lparr>sMgr := m, sThreads := sThreads s + new\<rparr>))"
    using assms(2,3) by (simp add: flows_def)
  fix th
  assume "th \<in># sThreads (s\<lparr>sMgr := m, sThreads := sThreads s + new\<rparr>)" "th \<notin># sThreads s"
  then have "th \<in># new" by simp
  moreover have "spec_of ` held (sMgr s) \<subseteq> spec_of ` sMade s" using assms(1) unfolding sys_inv_def by blast
  ultimately show "spec_of ` carried th \<subseteq> spec_of ` sMade (s\<lparr>sMgr := m, sThreads := sThreads s + new\<rparr>) \<and> same_task th"
    using assms(4) by fastforce
qed simp_all

lemma restart_keeps_id:
  assumes "restart_prepare e t m = (Inr fl, m')"
  shows "spec_of ` carried (Restarting t fl) \<subseteq> spec_of ` {t}" "same_task (Restarting t fl)"
  using restart_prepare_flows(2) [OF assms refl] spec_of_fields(1) [of "ifTask fl" t] by auto

text \<open>The files of a crashed manager hold what it held, without the queue.\<close>

lemma New_flows:
  assumes "files_hold ts as b" "New e fresh url DbFile b workers sched dbType = Inr m"
    and "\<And>i t. ts i = Some t \<Longrightarrow> tID t = i" "\<And>i a. as i = Some a \<Longrightarrow> asTaskID a = i"
  shows "mgr_wf m \<and> spec_of ` held m \<subseteq> spec_of ` ran ts"
proof -
  obtain t0 e0 a0 bolt m0 where o: "open_stores dbType DbFile b = Inr (t0, e0, a0, bolt)"
    and m0: "reconcileOnStartup e fresh m0 = (None, m)" "mTaskDb m0 = Some t0" "mEventDb m0 = Some e0"
      "mAssignments m0 = Some a0" "q_items (mPending m0) = []"
    using assms(2) by (auto simp: New_def Let_def queue_New_def split: sum.splits prod.splits option.splits)
  have "store_wf t0 \<and> store_wf e0 \<and> store_wf a0 \<and> (store_view t0 = Map.empty \<or> store_view t0 = ts)
      \<and> (store_view a0 = Map.empty \<or> store_view a0 = as)"
    using o assms(1)
    by (auto simp: open_stores_def files_hold_def stored_def new_store_def store_wf_def store_view_def al_wf_def
        split: if_splits sum.splits option.splits)
  moreover have "task_view m0 = store_view t0" "asg_view m0 = store_view a0"
    using m0 by (simp_all add: task_view_def asg_view_def del: db_view_task db_view_asg)
  ultimately have "mgr_wf m0" "ran (task_view m0) \<subseteq> ran ts" using m0 assms(3,4) by (auto simp: mgr_wf_def)
  moreover have "held m0 = ran (task_view m0)" using m0(5) by (simp add: held_def)
  ultimately have "mgr_wf m \<and> spec_of ` held m \<subseteq> spec_of ` held m0" "spec_of ` held m0 \<subseteq> spec_of ` ran ts"
    using flows_startup [of m0 e fresh] m0(1) by (simp_all add: flows_def image_mono)
  then show ?thesis by blast
qed

lemma sys_step_inv:
  assumes "sys_step x s s'" "sys_inv x s"
  shows "sys_inv x s'"
  using assms
proof (cases rule: sys_step.cases)
  case (request c a e rq ep header rep m)
  note f = flows_serve [OF request(2)]
  show ?thesis unfolding request(1)
    by (rule sys_inv_step [OF assms(2), of "told (rpBody rep)"]) (use f request(3) in auto)
next
  case (idle e m)
  have wf: "mgr_wf (sMgr s)" using assms(2) by (simp add: sys_inv_def)
  from dispatch_prepare_flows [OF idle(2) wf] have "flows {} (sMgr s) m" by (simp add: flows_def carries_def)
  with assms(2) show ?thesis unfolding idle(1) by (rule sys_inv_quiet)
next
  case (send e fl m)
  have wf: "mgr_wf (sMgr s)" using assms(2) by (simp add: sys_inv_def)
  note f = dispatch_prepare_flows [OF send(2) wf]
  have "sys_inv x (s\<lparr>sMgr := m, sThreads := sThreads s + {#Sending fl#}\<rparr>)"
    by (rule sys_inv_spawn [OF assms(2)]) (use f in \<open>auto simp: image_Un\<close>)
  then show ?thesis using send(1) by simp
next
  case (sent fl ths e post)
  show ?thesis unfolding sent(1)
    by (rule sys_inv_ends [OF assms(2) sent(2)]) (simp add: dispatch_finish_flows)
next
  case (pass ts m)
  have wf: "mgr_wf (sMgr s)" using assms(2) by (simp add: sys_inv_def)
  have f: "flows {} (sMgr s) m" using flows_getTasks [of "{}" "sMgr s"] pass(2) by simp
  show ?thesis unfolding pass(1)
    by (rule sys_inv_spawn [OF assms(2)])
      (use f wf getTasks_held [OF wf pass(2)] in \<open>auto simp: flows_def\<close>)
next
  case (skip t ths e now)
  have "sys_inv x (s\<lparr>sMgr := sMgr s, sThreads := ths\<rparr>)" by (rule sys_inv_ends [OF assms(2) skip(2)]) simp
  then show ?thesis using skip(1) by simp
next
  case (stop t ths e now reason)
  show ?thesis unfolding stop(1) by (rule sys_inv_ends [OF assms(2) stop(2)]) (simp add: flows_stopTaskTerminal)
next
  case (restart t ths e now fl m)
  show ?thesis unfolding restart(1)
    by (rule sys_inv_goes_on [OF assms(2) restart(2)])
      (use restart_prepare_flows(1) [OF restart(4)] restart_keeps_id [OF restart(4)] in simp_all)
next
  case (restart_fails t ths e now err m)
  show ?thesis unfolding restart_fails(1)
    by (rule sys_inv_ends [OF assms(2) restart_fails(2)]) (use restart_prepare_flows(1) [OF restart_fails(4)] in simp)
next
  case (restarted t fl ths e post)
  have "tID (ifTask fl) = tID t"
    using sys_inv_thread [OF assms(2), of "Restarting t fl"] restarted(2) by (auto elim: same_task_elim)
  from restart_finish_flows [OF this] show ?thesis unfolding restarted(1)
    by (intro sys_inv_ends [OF assms(2) restarted(2)]) simp
next
  case (check i t m)
  have wf: "mgr_wf (sMgr s)" using assms(2) by (simp add: sys_inv_def)
  have f: "flows {} (sMgr s) m" using flows_getTask [of "{}" "sMgr s" i] check(2) by simp
  have "sys_inv x (s\<lparr>sMgr := m, sThreads := sThreads s + {#Checking t#}\<rparr>)"
    by (rule sys_inv_spawn [OF assms(2)]) (use f wf getTask_held [OF check(2)] in \<open>auto simp: flows_def\<close>)
  then show ?thesis using check(1) by simp
next
  case (look i r m)
  have "flows {} (sMgr s) m" using flows_getTask [of "{}" "sMgr s" i] look(2) by simp
  then show ?thesis unfolding look(1) by (rule sys_inv_quiet [OF assms(2)])
next
  case (patient t ths)
  have "sys_inv x (s\<lparr>sMgr := sMgr s, sThreads := ths\<rparr>)" by (rule sys_inv_ends [OF assms(2) patient(2)]) simp
  then show ?thesis using patient(1) by simp
next
  case (give_up t ths retries failures e worker err m)
  then have "\<exists>reason. m = stopTaskTerminal e t reason (sMgr s)"
    by (auto simp: checker_verdict_def Let_def split: if_splits)
  then have "flows (carried (Checking t)) (sMgr s) m" by (auto simp: flows_stopTaskTerminal)
  then show ?thesis unfolding give_up(1) by (rule sys_inv_ends [OF assms(2) give_up(2)])
next
  case (replace t ths retries failures e fl m)
  show ?thesis unfolding replace(1)
    by (rule sys_inv_goes_on [OF assms(2) replace(2)])
      (use restart_prepare_flows(1) [OF replace(7)] restart_keeps_id [OF replace(7)] in simp_all)
next
  case (replace_fails t ths retries failures e err m)
  show ?thesis unfolding replace_fails(1)
    by (rule sys_inv_ends [OF assms(2) replace_fails(2)]) (use restart_prepare_flows(1) [OF replace_fails(7)] in simp)
next
  case woken_dispatch
  show ?thesis unfolding woken_dispatch by (rule sys_inv_quiet [OF assms(2) flows_take(1)])
next
  case woken_update
  show ?thesis unfolding woken_update by (rule sys_inv_quiet [OF assms(2) flows_take(2)])
next
  case (report e a t)
  show ?thesis unfolding report(1) by (rule sys_inv_quiet [OF assms(2) flows_update_one])
next
  case (checkers fresh)
  show ?thesis unfolding checkers(1) by (rule sys_inv_quiet [OF assms(2) flows_reconcileCheckers])
next
  case (checker_done i h)
  have "flows {} (sMgr s) ((sMgr s)\<lparr>mCheckers := cs_finished i h (mCheckers (sMgr s))\<rparr>)"
    by (rule flows_quiet) (simp_all add: same_stores_def)
  then show ?thesis unfolding checker_done(1) by (rule sys_inv_quiet [OF assms(2)])
next
  case (refresh get n p)
  show ?thesis unfolding refresh(1) by (rule sys_inv_quiet [OF assms(2) flows_refresh])
next
  case (reboot b e fresh url DbFile workers sched m)
  have wf: "mgr_wf (sMgr s)" using assms(2) by (simp add: sys_inv_def)
  have "mgr_wf m \<and> spec_of ` held m \<subseteq> spec_of ` ran (task_view (sMgr s))"
    by (rule New_flows [OF reboot(2,3)]) (use wf in \<open>auto simp: mgr_wf_def\<close>)
  then have "flows {} (sMgr s) m" by (auto simp: flows_def held_def image_Un)
  then show ?thesis unfolding reboot(1) by (intro sys_inv_step [OF assms(2), of "{}"]) simp_all
qed

lemma sys_reach_inv: "sys_reach x s \<Longrightarrow> sys_inv x s"
proof (induction rule: sys_reach.induct)
  case (boot b e fresh url DbFile workers sched dbType m)
  from New_flows [OF boot] show ?case by (simp add: sys_inv_def)
next
  case (next_step s s')
  from sys_step_inv [OF next_step.hyps(2) next_step.IH] show ?case .
qed

section \<open>The turns of the loops\<close>

text \<open>The turns of the code's loops, taken without interruption, are runs of the system.\<close>

lemma run_SendWork: "(sys_step x)\<^sup>*\<^sup>* s (s\<lparr>sMgr := SendWork e worker (sMgr s)\<rparr>)"
proof -
  obtain r m where d: "dispatch_prepare e (sMgr s) = (r, m)" by fastforce
  show ?thesis
  proof (cases r)
    case None
    with d have "sys_step x s (s\<lparr>sMgr := m\<rparr>)" by (auto intro: sys_step.idle)
    with d None show ?thesis by (simp add: SendWork_def r_into_rtranclp)
  next
    case (Some fl)
    let ?s = "s\<lparr>sMgr := m, sThreads := add_mset (Sending fl) (sThreads s)\<rparr>"
    have "sys_step x s ?s" using d Some by (auto intro: sys_step.send)
    moreover have "sys_step x ?s (?s\<lparr>sMgr := dispatch_finish e fl (worker fl) (sMgr ?s), sThreads := sThreads s\<rparr>)"
      by (rule sys_step.sent) simp
    ultimately have "(sys_step x)\<^sup>*\<^sup>* s (?s\<lparr>sMgr := dispatch_finish e fl (worker fl) (sMgr ?s), sThreads := sThreads s\<rparr>)"
      by (rule converse_rtranclp_into_rtranclp [OF _ r_into_rtranclp])
    with d Some show ?thesis by (simp add: SendWork_def)
  qed
qed

text \<open>A restart, once a thread has decided on it.\<close>

lemma run_restart:
  assumes "\<And>fl m. restart_prepare e t (sMgr s) = (Inr fl, m)
      \<Longrightarrow> sys_step x s (s\<lparr>sMgr := m, sThreads := add_mset (Restarting t fl) ths\<rparr>)"
    and "\<And>err m. restart_prepare e t (sMgr s) = (Inl err, m) \<Longrightarrow> sys_step x s (s\<lparr>sMgr := m, sThreads := ths\<rparr>)"
  shows "(sys_step x)\<^sup>*\<^sup>* s (s\<lparr>sMgr := snd (restartTask e worker t (sMgr s)), sThreads := ths\<rparr>)"
proof -
  obtain r m where p: "restart_prepare e t (sMgr s) = (r, m)" by fastforce
  show ?thesis
  proof (cases r)
    case (Inl err)
    with p assms(2) show ?thesis by (simp add: restartTask_def r_into_rtranclp)
  next
    case (Inr fl)
    let ?s = "s\<lparr>sMgr := m, sThreads := add_mset (Restarting t fl) ths\<rparr>"
    have "sys_step x s ?s" using p Inr assms(1) by simp
    moreover have "sys_step x ?s (?s\<lparr>sMgr := snd (restart_finish e fl t (worker fl) (sMgr ?s)), sThreads := ths\<rparr>)"
      by (rule sys_step.restarted) simp
    ultimately have "(sys_step x)\<^sup>*\<^sup>* s (?s\<lparr>sMgr := snd (restart_finish e fl t (worker fl) (sMgr ?s)), sThreads := ths\<rparr>)"
      by (rule converse_rtranclp_into_rtranclp [OF _ r_into_rtranclp])
    with p Inr show ?thesis by (simp add: restartTask_def)
  qed
qed

lemma run_restart_one:
  assumes "sThreads s = add_mset (Judging t) ths"
  shows "(sys_step x)\<^sup>*\<^sup>* s (s\<lparr>sMgr := restart_one now env worker t (sMgr s), sThreads := ths\<rparr>)"
proof (cases "restart_decision (env (tID t)) now t")
  case Skip
  have "sys_step x s (s\<lparr>sThreads := ths\<rparr>)" by (rule sys_step.skip [OF assms Skip])
  with Skip show ?thesis by (simp add: restart_one_def r_into_rtranclp)
next
  case (StopFor reason)
  from sys_step.stop [OF assms StopFor] StopFor show ?thesis by (simp add: restart_one_def r_into_rtranclp)
next
  case Restart
  have "(sys_step x)\<^sup>*\<^sup>* s
      (s\<lparr>sMgr := snd (restartTask (env (tID t)) (worker (tID t)) t (sMgr s)), sThreads := ths\<rparr>)"
    by (rule run_restart) (erule sys_step.restart [OF assms Restart] sys_step.restart_fails [OF assms Restart])+
  with Restart show ?thesis by (simp add: restart_one_def)
qed

lemma run_restart_fold:
  "sThreads s = mset (map Judging ts) + ths
     \<Longrightarrow> (sys_step x)\<^sup>*\<^sup>* s (s\<lparr>sMgr := fold (restart_one now env worker) ts (sMgr s), sThreads := ths\<rparr>)"
proof (induction ts arbitrary: s)
  case (Cons t ts)
  let ?s = "s\<lparr>sMgr := restart_one now env worker t (sMgr s), sThreads := mset (map Judging ts) + ths\<rparr>"
  have "(sys_step x)\<^sup>*\<^sup>* s ?s" by (rule run_restart_one) (simp add: Cons.prems)
  moreover have "(sys_step x)\<^sup>*\<^sup>* ?s (?s\<lparr>sMgr := fold (restart_one now env worker) ts (sMgr ?s), sThreads := ths\<rparr>)"
    by (rule Cons.IH) simp
  ultimately show ?case by (simp add: rtranclp_trans)
qed auto

lemma run_restartFailedTasks: "(sys_step x)\<^sup>*\<^sup>* s (s\<lparr>sMgr := restartFailedTasks now env worker (sMgr s)\<rparr>)"
proof -
  obtain ts m where g: "getTasks (sMgr s) = (ts, m)" by fastforce
  let ?s = "s\<lparr>sMgr := m, sThreads := sThreads s + mset (map Judging ts)\<rparr>"
  have "(sys_step x)\<^sup>*\<^sup>* ?s (?s\<lparr>sMgr := fold (restart_one now env worker) ts (sMgr ?s), sThreads := sThreads s\<rparr>)"
    by (rule run_restart_fold) simp
  with sys_step.pass [OF g, of x] have "(sys_step x)\<^sup>*\<^sup>* s
      (?s\<lparr>sMgr := fold (restart_one now env worker) ts (sMgr ?s), sThreads := sThreads s\<rparr>)"
    by (rule converse_rtranclp_into_rtranclp)
  with g show ?thesis by (simp add: restartFailedTasks_def)
qed

lemma run_fold:
  assumes "\<And>y m. (sys_step x)\<^sup>*\<^sup>* (s\<lparr>sMgr := m\<rparr>) (s\<lparr>sMgr := f y m\<rparr>)"
  shows "(sys_step x)\<^sup>*\<^sup>* (s\<lparr>sMgr := m\<rparr>) (s\<lparr>sMgr := fold f ys m\<rparr>)"
proof (induction ys arbitrary: m)
  case (Cons y ys)
  from rtranclp_trans [OF assms Cons.IH] show ?case by simp
qed simp

lemma run_updateTasks: "(sys_step x)\<^sup>*\<^sup>* s (s\<lparr>sMgr := updateTasks e get (sMgr s)\<rparr>)"
proof -
  have "(sys_step x)\<^sup>*\<^sup>* (s\<lparr>sMgr := m\<rparr>) (s\<lparr>sMgr := update_one e a t m\<rparr>)" for a t m
    using sys_step.report [of x "s\<lparr>sMgr := m\<rparr>" e a t] by (simp add: r_into_rtranclp)
  then have "(sys_step x)\<^sup>*\<^sup>* (s\<lparr>sMgr := m\<rparr>) (s\<lparr>sMgr := update_worker e a got m\<rparr>)" for a got m
    by (simp add: update_worker_def run_fold split: sum.split)
  then have "(sys_step x)\<^sup>*\<^sup>* (s\<lparr>sMgr := sMgr s\<rparr>) (s\<lparr>sMgr := updateTasks e get (sMgr s)\<rparr>)"
    unfolding updateTasks_def by (rule run_fold)
  then show ?thesis by simp
qed

lemma run_checker_tick:
  assumes "checker_tick w retries i failures tk (sMgr s) = (k, m)"
  shows "(sys_step x)\<^sup>*\<^sup>* s (s\<lparr>sMgr := m\<rparr>)"
proof -
  obtain r m1 where g: "getTask i (sMgr s) = (r, m1)" by fastforce
  show ?thesis
  proof (cases "\<exists>t. r = Some t \<and> tState t = Running")
    case False
    then have "sys_step x s (s\<lparr>sMgr := m1\<rparr>)" using g by (auto intro: sys_step.look)
    moreover have "m = m1" using assms g False by (auto simp: checker_tick_def split: option.splits)
    ultimately show ?thesis by (simp add: r_into_rtranclp)
  next
    case True
    then obtain t where t: "r = Some t" "tState t = Running" by blast
    let ?e = "tkEnv tk"
    let ?res = "checkTaskHealth ?e (tkNet tk) t w"
    let ?s = "s\<lparr>sMgr := m1, sThreads := add_mset (Checking t) (sThreads s)\<rparr>"
    have v: "checker_verdict ?e (tkAnswer tk) retries failures ?res t m1 = (k, m)"
      using assms g t by (simp add: checker_tick_def)
    have 1: "sys_step x s ?s" using g t by (auto intro: sys_step.check)
    have th: "sThreads ?s = add_mset (Checking t) (sThreads s)" by simp
    have "(sys_step x)\<^sup>*\<^sup>* ?s (?s\<lparr>sMgr := m, sThreads := sThreads s\<rparr>)"
    proof (cases "?res = None \<or> inc failures < retries
        \<or> \<not> AtRestartCap t (eMaxRestarts ?e) \<and> ShouldRestart (tRestartPolicy t) \<and> eNow ?e < tNextRetryAt t")
      case True
      then have "m = m1" using v by (auto simp: checker_verdict_def Let_def split: option.splits if_splits)
      with sys_step.patient [OF th True] show ?thesis by (simp add: r_into_rtranclp)
    next
      case False
      then obtain err where err: "?res = Some err" "retries \<le> inc failures" by auto
      show ?thesis
      proof (cases "AtRestartCap t (eMaxRestarts ?e) \<or> \<not> ShouldRestart (tRestartPolicy t)")
        case True
        then have "checker_verdict ?e (tkAnswer tk) retries failures (Some err) t (sMgr ?s) = (Exited, m)"
          using v err True by (auto simp: checker_verdict_def Let_def split: if_splits)
        from sys_step.give_up [OF th err(2) True this] show ?thesis by (simp add: r_into_rtranclp)
      next
        case restart: False
        with False err have due: "tNextRetryAt t \<le> eNow ?e" by auto
        have c: "\<not> AtRestartCap t (eMaxRestarts ?e)" "ShouldRestart (tRestartPolicy t)" using restart by auto
        have "(sys_step x)\<^sup>*\<^sup>* ?s (?s\<lparr>sMgr := snd (restartTask ?e (tkAnswer tk) t (sMgr ?s)), sThreads := sThreads s\<rparr>)"
          by (rule run_restart)
            (erule sys_step.replace [OF th err(2) c due] sys_step.replace_fails [OF th err(2) c due])+
        moreover have "m = snd (restartTask ?e (tkAnswer tk) t m1)"
          using v err c due by (auto simp: checker_verdict_def Let_def)
        ultimately show ?thesis by simp
      qed
    qed
    from converse_rtranclp_into_rtranclp [OF 1 this] show ?thesis by simp
  qed
qed

section \<open>Properties\<close>

definition known :: "ext \<Rightarrow> sys \<Rightarrow> task \<Rightarrow> bool" where
  "known x s t \<longleftrightarrow> Validate x t = None \<and> spec_of t \<in> spec_of ` sMade s"

lemma sys_inv_known:
  assumes "sys_inv x s" "spec_of t \<in> spec_of ` sMade s"
  shows "known x s t"
proof -
  obtain u where u: "u \<in> sMade s" "spec_of t = spec_of u" using assms(2) by blast
  have "Validate x u = None" using assms(1) u(1) unfolding sys_inv_def by blast
  then show ?thesis using assms(2) Validate_spec [OF u(2), of x] unfolding known_def by simp
qed

text \<open>
  C1: whatever the order in which users, workers, loops, checkers and crashes act, every record of the
  manager is filed under its own ID, is valid and has the specification of a task whose creation a user
  was told; so is every event in the queue and every request on its way to a worker.
\<close>

theorem manager_types:
  assumes "sys_reach x s"
  shows "(\<forall>i t. task_view (sMgr s) i = Some t \<longrightarrow> tID t = i \<and> known x s t)
    \<and> (\<forall>te\<in>set (q_items (mPending (sMgr s))). known x s (eTask te))
    \<and> (\<forall>fl. Sending fl \<in># sThreads s \<longrightarrow> known x s (eTask (ifEvent fl)))
    \<and> (\<forall>t fl. Restarting t fl \<in># sThreads s \<longrightarrow> known x s (ifTask fl))"
proof (intro conjI allI impI ballI)
  note inv = sys_reach_inv [OF assms]
  fix i t assume t: "task_view (sMgr s) i = Some t"
  have "mgr_wf (sMgr s)" using inv by (simp add: sys_inv_def)
  with t show "tID t = i" by (simp add: mgr_wf_def)
  show "known x s t" using sys_inv_known [OF inv] sys_inv_held [OF inv] held_record [OF t] by blast
next
  note inv = sys_reach_inv [OF assms]
  fix te assume "te \<in> set (q_items (mPending (sMgr s)))"
  then have "eTask te \<in> held (sMgr s)" by (simp add: held_def)
  then show "known x s (eTask te)" using sys_inv_known [OF inv] sys_inv_held [OF inv] by blast
next
  note inv = sys_reach_inv [OF assms]
  fix fl assume "Sending fl \<in># sThreads s"
  from sys_inv_thread [OF inv this] show "known x s (eTask (ifEvent fl))"
    by (intro sys_inv_known [OF inv]) (simp add: carries_def)
next
  note inv = sys_reach_inv [OF assms]
  fix t fl assume "Restarting t fl \<in># sThreads s"
  from sys_inv_thread [OF inv this] show "known x s (ifTask fl)" by (intro sys_inv_known [OF inv]) simp
qed

definition demo_files :: bolt_files where
  "demo_files = \<lparr>bfOpen = None, bfTasks = Inr new_store, bfEvents = Inr new_store, bfAssignments = Inr new_store,
     bfClose = None\<rparr>"

definition demo_boot :: sys where
  "demo_boot = \<lparr>sMgr = demo_manager\<lparr>mNodes := []\<rparr>, sThreads = {#}, sMade = {}\<rparr>"

lemma demo_boots: "sys_reach x demo_boot"
proof -
  have f: "files_hold Map.empty Map.empty demo_files"
    by (simp add: files_hold_def stored_def demo_files_def new_store_def store_view_def store_wf_def al_wf_def)
  have "New demo_env (\<lambda>i. i) (\<lambda>_. None) [] demo_files [] ''roundrobin'' ''memory'' = Inr (sMgr demo_boot)"
    by (simp add: New_def new_scheduler_def open_stores_def reconcileOnStartup_def sweepOrphanedAssignments_def
        demo_boot_def eval_manager Let_def)
  from sys_reach.boot [OF f this] show ?thesis by (simp add: demo_boot_def)
qed

definition demo_request :: mgr_request where
  "demo_request = \<lparr>rqTask = Inr demo_start, rqFresh = 42, rqTail = [], rqImage = Inl (errorf []),
     rqLogs = (\<lambda>_ _. Inl (errorf [])), rqPull = (\<lambda>_ _. (None, False))\<rparr>"

lemma demo_created:
  "\<exists>m. mgr_serve c None demo_env demo_request EpStartTask h (sMgr demo_boot)
       = (\<lparr>rpStatus = 201, rpHeader = [], rpBody = TaskBody demo_task\<rparr>, m) \<and> task_view m 7 = Some demo_task"
proof -
  let ?te = "demo_start\<lparr>eID := 99\<rparr>" and ?m = "sMgr demo_boot"
  have te: "eTask ?te = demo_task" "eState ?te = Scheduled" "tState demo_task = Pending" "tID demo_task = 7"
    by (simp_all add: demo_defs)
  obtain r m where a: "AddTask demo_env ?te ?m = (r, m)" by fastforce
  have "fst (accept_task demo_env demo_task ?m) = None"
    by (simp add: accept_task_def name_check_def isUUIDLike_def taskNameInUseLocked_def demo_boot_def eval_manager)
  moreover have v: "Validate (eExt demo_env) (eTask ?te) = None" using demo_valid by simp
  ultimately have "r = None" using a te by (auto simp: AddTask_def split: option.splits prod.splits)
  with AddTask_view [OF a] te have t: "task_view m 7 = Some (demo_task\<lparr>tState := Pending\<rparr>)" by simp
  have "demo_task\<lparr>tState := Pending\<rparr> = demo_task" by (simp add: demo_defs)
  moreover have "mgr_serve c None demo_env demo_request EpStartTask h ?m
      = (\<lparr>rpStatus = 201, rpHeader = [], rpBody = TaskBody demo_task\<rparr>, m)"
  proof -
    have "eFresh demo_env = 99" by (simp add: demo_env_def)
    then show ?thesis
      using a \<open>r = None\<close> v te
      by (simp add: mgr_serve_def mgr_handler_def StartTaskHandler_def demo_request_def Let_def uuid_Nil_def)
  qed
  ultimately show ?thesis using t by auto
qed

theorem manager_types_witness:
  "\<exists>s. sys_reach (eExt demo_env) s \<and> task_view (sMgr s) 7 = Some demo_task \<and> sMade s = {demo_task}
     \<and> known (eExt demo_env) s demo_task"
proof -
  obtain m where m: "mgr_serve undefined None demo_env demo_request EpStartTask [] (sMgr demo_boot)
       = (\<lparr>rpStatus = 201, rpHeader = [], rpBody = TaskBody demo_task\<rparr>, m)" "task_view m 7 = Some demo_task"
    using demo_created by blast
  let ?s = "demo_boot\<lparr>sMgr := m, sMade := {demo_task}\<rparr>"
  have "sMade demo_boot = {}" by (simp add: demo_boot_def)
  with sys_step.request [OF m(1) refl] have "sys_step (eExt demo_env) demo_boot ?s" by simp
  with demo_boots have r: "sys_reach (eExt demo_env) ?s" by (rule sys_reach.next_step)
  have v: "task_view (sMgr ?s) 7 = Some demo_task" "sMade ?s = {demo_task}" using m(2) by simp_all
  from manager_types [OF r] v(1) have "known (eExt demo_env) ?s demo_task" by blast
  with r v show ?thesis by blast
qed

end
