(* ===== verification/Loops.thy ===== *)
theory Loops
  imports System WorkerApi
begin

text \<open>
  The goroutines a manager and a worker start: \<open>ProcessTasks\<close>, \<open>UpdateTasks\<close>, \<open>DoHealthChecks\<close> and
  \<open>RefreshNodeStats\<close> of \<open>manager/manager.go\<close>, \<open>RunTasks\<close>, \<open>CollectStats\<close> and \<open>UpdateTasks\<close> of
  \<open>worker/worker.go\<close>. All are one loop: a turn, then a wait that a cancellation, a wake or the ticker ends.
\<close>

section \<open>The loop\<close>

text \<open>
  A lap: what the turn meets, what the other goroutines do before the wait is over, and what ends it.
  A list of laps is a run of the loop so far; time itself is not modelled.
\<close>

datatype wakeup = Cancelled | Woken | Ticked

record ('e, 's) lap =
  lapTurn :: 'e
  lapOthers :: "'s \<Rightarrow> 's"
  lapWakeup :: wakeup

fun run_loop :: "('e \<Rightarrow> 's \<Rightarrow> 's) \<Rightarrow> ('s \<Rightarrow> 's) \<Rightarrow> ('e, 's) lap list \<Rightarrow> 's \<Rightarrow> 's" where
  "run_loop turn receive_wake [] s = s"
| "run_loop turn receive_wake (l # ls) s =
     (let s = lapOthers l (turn (lapTurn l) s)
      in case lapWakeup l of
           Cancelled \<Rightarrow> s
         | Woken \<Rightarrow> run_loop turn receive_wake ls (receive_wake s)
         | Ticked \<Rightarrow> run_loop turn receive_wake ls s)"

section \<open>The manager's goroutines\<close>

definition on_mgr :: "(manager \<Rightarrow> manager) \<Rightarrow> sys \<Rightarrow> sys" where
  "on_mgr f s = s\<lparr>sMgr := f (sMgr s)\<rparr>"

definition ProcessTasks :: "(menv \<times> (inflight \<Rightarrow> post_result), sys) lap list \<Rightarrow> sys \<Rightarrow> sys" where
  "ProcessTasks = run_loop (\<lambda>(e, worker). on_mgr (SendWork e worker)) (on_mgr take_dispatch)"

definition UpdateTasks ::
  "(menv \<times> (string \<Rightarrow> gerror + task list http_response), sys) lap list \<Rightarrow> sys \<Rightarrow> sys" where
  "UpdateTasks = run_loop (\<lambda>(e, get). on_mgr (updateTasks e get)) (on_mgr take_update)"

text \<open>Nothing wakes the last two before their ticker does.\<close>

definition DoHealthChecks ::
  "((uuid \<Rightarrow> handle) \<times> gotime \<times> (uuid \<Rightarrow> menv) \<times> (uuid \<Rightarrow> inflight \<Rightarrow> post_result), sys) lap list \<Rightarrow> sys \<Rightarrow> sys" where
  "DoHealthChecks = run_loop (\<lambda>(fresh, now, env, worker) s.
     on_mgr (restartFailedTasks now env worker) (on_mgr (reconcileCheckers fresh) s)) (\<lambda>s. s)"

definition RefreshNodeStats ::
  "((string \<Rightarrow> nat \<Rightarrow> gerror + stats http_response) \<times> int \<times> duration, sys) lap list \<Rightarrow> sys \<Rightarrow> sys" where
  "RefreshNodeStats = run_loop (\<lambda>(get, maxRetries, period). on_mgr (refresh_pass get maxRetries period)) (\<lambda>s. s)"

section \<open>The worker's goroutines\<close>

definition RunTasks :: "('d wenv, 'd worker) lap list \<Rightarrow> 'd worker \<Rightarrow> 'd worker" where
  "RunTasks = run_loop RunTasks_turn (\<lambda>w. w\<lparr>wRunWaker := snd (receive (wRunWaker w))\<rparr>)"

definition CollectStats :: "(fpu \<times> int \<times> stats, 'd worker) lap list \<Rightarrow> 'd worker \<Rightarrow> 'd worker" where
  "CollectStats = run_loop (\<lambda>(F, numCPU, fresh). CollectStats_pass F numCPU fresh) (\<lambda>w. w)"

definition wk_UpdateTasks :: "('d wenv, 'd worker) lap list \<Rightarrow> 'd worker \<Rightarrow> 'd worker" where
  "wk_UpdateTasks = run_loop wk_updateTasks (\<lambda>w. w\<lparr>wUpdateWaker := snd (receive (wUpdateWaker w))\<rparr>)"

section \<open>What every turn keeps, the loop keeps\<close>

lemma run_loop_keeps:
  assumes "\<And>e s. P s \<Longrightarrow> P (turn e s)" "\<And>s. P s \<Longrightarrow> P (receive_wake s)"
    and "\<And>l s. l \<in> set ls \<Longrightarrow> P s \<Longrightarrow> P (lapOthers l s)" and "P s"
  shows "P (run_loop turn receive_wake ls s)"
  using assms(3,4)
proof (induction ls arbitrary: s)
  case (Cons l ls)
  have "P (lapOthers l (turn (lapTurn l) s))" by (rule Cons.prems(1)) (simp_all add: assms(1) Cons.prems(2))
  with Cons.IH Cons.prems(1) assms(2) show ?case by (simp add: Let_def split: wakeup.split)
qed simp

text \<open>A loop that was cancelled makes no further turn.\<close>

lemma run_loop_cancelled:
  "lapWakeup l = Cancelled \<Longrightarrow> run_loop turn rw (ls @ l # rest) s = run_loop turn rw (ls @ [l]) s"
  by (induction ls arbitrary: s) (simp_all add: Let_def split: wakeup.split)

lemma sys_reach_run:
  assumes "(sys_step x)\<^sup>*\<^sup>* s s'" "sys_reach x s"
  shows "sys_reach x s'"
  using assms by (induction rule: rtranclp_induct) (auto intro: sys_reach.next_step)

lemma sys_reach_turn:
  assumes "sys_reach x s"
  shows "sys_reach x (on_mgr (SendWork e worker) s)" "sys_reach x (on_mgr (updateTasks e get) s)"
    "sys_reach x (on_mgr (restartFailedTasks now env answers) s)" "sys_reach x (on_mgr (reconcileCheckers fresh) s)"
    "sys_reach x (on_mgr (refresh_pass g n p) s)" "sys_reach x (on_mgr take_dispatch s)"
    "sys_reach x (on_mgr take_update s)"
  using assms unfolding on_mgr_def
  by (blast intro: sys_reach_run run_SendWork run_updateTasks run_restartFailedTasks sys_reach.next_step
      sys_step.checkers sys_step.refresh sys_step.woken_dispatch sys_step.woken_update)+

text \<open>What the other goroutines do while a loop waits keeps to the system's steps.\<close>

definition well_behaved :: "ext \<Rightarrow> ('e, sys) lap list \<Rightarrow> bool" where
  "well_behaved x ls \<longleftrightarrow> (\<forall>l\<in>set ls. \<forall>s. sys_reach x s \<longrightarrow> sys_reach x (lapOthers l s))"

definition ticks_behave :: "ext \<Rightarrow> watch_tick list \<Rightarrow> bool" where
  "ticks_behave x tks \<longleftrightarrow> (\<forall>tk\<in>set tks. \<forall>s. sys_reach x s \<longrightarrow> sys_reach x (on_mgr (tkOthers tk) s))"

lemma checker_reachable:
  assumes "sys_reach x s" "ticks_behave x tks"
  shows "sys_reach x (on_mgr (\<lambda>m. snd (checker_loop w retries i failures tks m)) s)"
  using assms
proof (induction tks arbitrary: s failures)
  case Nil
  then show ?case by (simp add: on_mgr_def)
next
  case (Cons tk tks)
  let ?s = "on_mgr (tkOthers tk) s"
  obtain k m where t: "checker_tick w retries i failures tk (sMgr ?s) = (k, m)" by fastforce
  have "sys_reach x ?s" using Cons.prems by (simp add: ticks_behave_def)
  from sys_reach_run [OF run_checker_tick [OF t] this] have r: "sys_reach x (?s\<lparr>sMgr := m\<rparr>)" .
  have eq: "?s\<lparr>sMgr := m\<rparr> = s\<lparr>sMgr := m\<rparr>" by (simp add: on_mgr_def)
  have t': "checker_tick w retries i failures tk (tkOthers tk (sMgr s)) = (k, m)" using t by (simp add: on_mgr_def)
  show ?case
  proof (cases k)
    case Exited
    with t' r eq show ?thesis by (simp add: on_mgr_def)
  next
    case (Watching n)
    have "ticks_behave x tks" using Cons.prems(2) by (simp add: ticks_behave_def)
    from Cons.IH [OF r this, of n] Watching t' show ?thesis by (simp add: on_mgr_def)
  qed
qed

text \<open>
  The goroutines of the manager run within the system. Started in a reachable state, and whatever the
  others do meanwhile that is itself a run of the system, each of the four loops and each health checker
  is in a reachable state after every number of turns; so what holds of all reachable states holds
  between their turns.
\<close>

theorem goroutines_reachable:
  assumes "sys_reach x s" "well_behaved x ps" "well_behaved x us" "well_behaved x hs" "well_behaved x rs"
    and "ticks_behave x tks"
  shows "sys_reach x (ProcessTasks ps s) \<and> sys_reach x (UpdateTasks us s)
    \<and> sys_reach x (DoHealthChecks hs s) \<and> sys_reach x (RefreshNodeStats rs s)
    \<and> sys_reach x (on_mgr (\<lambda>m. snd (checker_loop w retries i failures tks m)) s)"
proof -
  have "sys_reach x (ProcessTasks ps s)" unfolding ProcessTasks_def
    by (rule run_loop_keeps) (use assms(1,2) in \<open>auto simp: well_behaved_def intro: sys_reach_turn\<close>)
  moreover have "sys_reach x (UpdateTasks us s)" unfolding UpdateTasks_def
    by (rule run_loop_keeps) (use assms(1,3) in \<open>auto simp: well_behaved_def intro: sys_reach_turn\<close>)
  moreover have "sys_reach x (DoHealthChecks hs s)" unfolding DoHealthChecks_def
    by (rule run_loop_keeps) (use assms(1,4) in \<open>auto simp: well_behaved_def intro: sys_reach_turn\<close>)
  moreover have "sys_reach x (RefreshNodeStats rs s)" unfolding RefreshNodeStats_def
    by (rule run_loop_keeps) (use assms(1,5) in \<open>auto simp: well_behaved_def intro: sys_reach_turn\<close>)
  ultimately show ?thesis using checker_reachable [OF assms(1,6)] by blast
qed

text \<open>A dispatch after a submission, interrupted by a second reader of the snapshot.\<close>

theorem goroutines_reachable_witness:
  "sys_reach std_ext (ProcessTasks
     [\<lparr>lapTurn = (demo_env, \<lambda>_. Inr demo_reply), lapOthers = on_mgr (reconcileCheckers (\<lambda>i. 0)), lapWakeup = Woken\<rparr>,
      \<lparr>lapTurn = (demo_env, \<lambda>_. Inl (errorf ''refused'')), lapOthers = (\<lambda>s. s), lapWakeup = Cancelled\<rparr>] demo_boot)"
  by (rule goroutines_reachable [of _ _ _ "[]" "[]" "[]" "[]", THEN conjunct1])
    (auto simp: well_behaved_def ticks_behave_def demo_boots intro: sys_reach_turn)

end
