(* ===== verification/Servers.thy ===== *)
theory Servers
  imports Commands Loops
begin

text \<open>
  The life of a process: serving the API (\<open>Start\<close> and \<open>Shutdown\<close> of \<open>manager/api.go\<close> and
  \<open>worker/api.go\<close>) and the end of the manager and worker commands (\<open>cmd/manager.go\<close>, \<open>cmd/worker.go\<close>).
\<close>

section \<open>Serving\<close>

text \<open>
  How listening ends: \<open>http.ErrServerClosed\<close> after a shutdown, or another error. \<open>listen a tls\<close> serves
  at address \<open>a\<close>, over TLS or in the clear.
\<close>

datatype serve_end = ServerClosed | ServeError gerror

definition api_Start :: "(string \<Rightarrow> tls_config option \<Rightarrow> serve_end) \<Rightarrow> string \<Rightarrow> int \<Rightarrow> tls_config option \<Rightarrow> gerror option" where
  "api_Start listen address port tls =
     (case listen (JoinHostPort address (itoa port)) tls of
        ServerClosed \<Rightarrow> None
      | ServeError err \<Rightarrow> Some (wrapf ''error raised when starting an http server: '' err))"

text \<open>\<open>shutdown\<close> is what shutting the server down returns; without a server there is nothing to do.\<close>

definition api_Shutdown :: "bool \<Rightarrow> gerror option \<Rightarrow> gerror option" where
  "api_Shutdown serving shutdown = (if serving then shutdown else None)"

text \<open>The worker's API has functions of its own, which do the same.\<close>

definition wk_api_Start :: "(string \<Rightarrow> tls_config option \<Rightarrow> serve_end) \<Rightarrow> string \<Rightarrow> int \<Rightarrow> tls_config option \<Rightarrow> gerror option" where
  "wk_api_Start listen address port tls =
     (case listen (JoinHostPort address (itoa port)) tls of
        ServerClosed \<Rightarrow> None
      | ServeError err \<Rightarrow> Some (wrapf ''error raised when starting an http server: '' err))"

definition wk_api_Shutdown :: "bool \<Rightarrow> gerror option \<Rightarrow> gerror option" where
  "wk_api_Shutdown serving shutdown = (if serving then shutdown else None)"

section \<open>The end of a process\<close>

text \<open>
  A manager or worker runs until its server returns or a signal arrives; then the server is shut down and
  the node closed. \<open>served\<close> is how serving ended when it ended first.
\<close>

definition manager_ends ::
  "gerror option option \<Rightarrow> bool \<Rightarrow> gerror option \<Rightarrow> gerror option \<Rightarrow> manager \<Rightarrow> gerror option \<times> manager" where
  "manager_ends served serving shutdown closed m =
     (case mgr_Close closed m of
        (cerr, m) \<Rightarrow> (run_error served (api_Shutdown serving shutdown) cerr, m))"

definition worker_ends ::
  "gerror option option \<Rightarrow> bool \<Rightarrow> gerror option \<Rightarrow> gerror option \<Rightarrow> 'd worker \<Rightarrow> gerror option \<times> 'd worker" where
  "worker_ends served serving shutdown closed w =
     (case wk_Close closed w of
        (cerr, w) \<Rightarrow> (run_error served (wk_api_Shutdown serving shutdown) cerr, w))"

text \<open>What reading the flags of the command returns, in the order they are read.\<close>

record manager_flags =
  mfHost :: "gerror + string"
  mfPort :: "gerror + int"
  mfWorkers :: "gerror + string list"
  mfScheduler :: "gerror + string"
  mfDbType :: "gerror + string"

definition manager_args :: "manager_flags \<Rightarrow> gerror + string \<times> int \<times> string list \<times> string \<times> string" where
  "manager_args fl =
     (case mfHost fl of Inl err \<Rightarrow> Inl err
      | Inr host \<Rightarrow> (case mfPort fl of Inl err \<Rightarrow> Inl err
      | Inr port \<Rightarrow> (case mfWorkers fl of Inl err \<Rightarrow> Inl err
      | Inr workers \<Rightarrow> (case mfScheduler fl of Inl err \<Rightarrow> Inl err
      | Inr sched \<Rightarrow> (case mfDbType fl of Inl err \<Rightarrow> Inl err
      | Inr dbType \<Rightarrow> Inr (host, port, workers, sched, dbType))))))"

text \<open>
  How a started process runs and ends: what its goroutines and requests make of the node, and how the
  server and the database close. A signal ends it when \<open>lfServed\<close> is \<open>None\<close>.
\<close>

record 'n life =
  lfRun :: "'n \<Rightarrow> 'n"
  lfServed :: "serve_end option"
  lfServing :: bool
  lfShutdown :: "gerror option"
  lfClose :: "gerror option"

definition how_served ::
  "((string \<Rightarrow> tls_config option \<Rightarrow> serve_end) \<Rightarrow> string \<Rightarrow> int \<Rightarrow> tls_config option \<Rightarrow> gerror option)
     \<Rightarrow> 'n life \<Rightarrow> string \<Rightarrow> int \<Rightarrow> tls_config option \<Rightarrow> gerror option option" where
  "how_served start l host port tls = map_option (\<lambda>r. start (\<lambda>_ _. r) host port tls) (lfServed l)"

text \<open>The manager command: the text printed, the error returned, and the manager when one was created.\<close>

definition manager_process ::
  "host_env \<Rightarrow> manager_config option \<Rightarrow> manager_flags
     \<Rightarrow> (string list \<Rightarrow> string \<Rightarrow> string \<Rightarrow> gerror option + manager) \<Rightarrow> manager life \<Rightarrow> tunables
     \<Rightarrow> string \<times> gerror option \<times> manager option \<times> tunables" where
  "manager_process he mc fl new l s =
     (case manager_args fl of
        Inl err \<Rightarrow> ([], Some err, None, s)
      | Inr (host, port, workers, sched, dbType) \<Rightarrow>
          (case managerCmd he mc workers (new workers sched dbType) s of
             (out, Inl err, s) \<Rightarrow> (out, err, None, s)
           | (out, Inr (m, tls, tokens), s) \<Rightarrow>
               (case manager_ends (how_served api_Start l host port tls) (lfServing l) (lfShutdown l) (lfClose l) (lfRun l m) of
                  (err, m) \<Rightarrow> (out, err, Some m, s))))"

record worker_flags =
  wfHost :: "gerror + string"
  wfPort :: "gerror + int"
  wfName :: "gerror + string"
  wfDbType :: "gerror + string"

definition worker_args ::
  "gerror + string \<Rightarrow> string \<Rightarrow> worker_flags \<Rightarrow> gerror + string \<times> int \<times> string \<times> string" where
  "worker_args hostname fresh fl =
     (case wfHost fl of Inl err \<Rightarrow> Inl err
      | Inr host \<Rightarrow> (case wfPort fl of Inl err \<Rightarrow> Inl err
      | Inr port \<Rightarrow> (case wfName fl of Inl err \<Rightarrow> Inl err
      | Inr name \<Rightarrow> (case wfDbType fl of Inl err \<Rightarrow> Inl err
      | Inr dbType \<Rightarrow> Inr (host, port, worker_name hostname fresh name, dbType)))))"

definition worker_process ::
  "host_env \<Rightarrow> worker_config option \<Rightarrow> gerror + string \<Rightarrow> string \<Rightarrow> worker_flags
     \<Rightarrow> (string \<Rightarrow> string \<Rightarrow> gerror option + 'd worker) \<Rightarrow> 'd worker life
     \<Rightarrow> string \<times> gerror option \<times> 'd worker option" where
  "worker_process he wc hostname fresh fl new l =
     (case worker_args hostname fresh fl of
        Inl err \<Rightarrow> ([], Some err, None)
      | Inr (host, port, name, dbType) \<Rightarrow>
          (case workerCmd he wc name (new name dbType) of
             (out, Inl err) \<Rightarrow> (out, err, None)
           | (out, Inr (w, tls)) \<Rightarrow>
               (case worker_ends (how_served wk_api_Start l host port tls) (lfServing l) (lfShutdown l) (lfClose l) (lfRun l w) of
                  (err, w) \<Rightarrow> (out, err, Some w))))"

text \<open>The process succeeds exactly when nothing failed on the way out.\<close>

lemma manager_ends_ok:
  "fst (manager_ends served serving shutdown closed m) = None
     \<longleftrightarrow> served \<in> {None, Some None} \<and> (serving \<longrightarrow> shutdown = None) \<and> (mBoltDb m \<longrightarrow> closed = None)"
  by (cases served) (auto simp: manager_ends_def run_error_def api_Shutdown_def mgr_Close_def first_error_None)

lemma worker_ends_ok:
  "fst (worker_ends served serving shutdown closed w) = None
     \<longleftrightarrow> served \<in> {None, Some None} \<and> (serving \<longrightarrow> shutdown = None) \<and> (wBoltDb w \<longrightarrow> closed = None)"
  by (cases served) (auto simp: worker_ends_def run_error_def wk_api_Shutdown_def wk_Close_def first_error_None)

text \<open>
  A request or a turn that is still running when the manager closes finds no store: it is refused, and
  what the database holds stays as it is.
\<close>

lemma closed_refuses:
  assumes "snd (manager_ends served serving shutdown closed m) = m'" "AddTask e te m' = (r, m'')" "\<not> is_stop te"
  shows "r \<noteq> None \<and> m'' = m'"
proof -
  have "mTaskDb m' = None" using assms(1) by (auto simp: manager_ends_def mgr_Close_def)
  then have "accept_task e (eTask te) m' = (Some (errorf ''task db is nil''), m')" by (simp add: accept_task_def)
  with assms(2,3) show ?thesis
    by (cases "Validate (eExt e) (eTask te)") (simp_all add: AddTask_def is_stop_def, blast+)
qed

text \<open>A process that ended has closed its stores, however it ended.\<close>

lemma manager_process_closes:
  assumes "manager_process he mc fl new l s = (out, err, Some m, s')"
  shows "mTaskDb m = None \<and> mEventDb m = None \<and> mAssignments m = None \<and> \<not> mBoltDb m"
  using assms
  by (auto simp: manager_process_def manager_ends_def mgr_Close_def Let_def split: sum.splits prod.splits)

lemma worker_process_closes:
  assumes "worker_process he wc hostname fresh fl new l = (out, err, Some w)"
  shows "wDb w = None \<and> wLogDb w = None \<and> \<not> wBoltDb w"
  using assms
  by (auto simp: worker_process_def worker_ends_def wk_Close_def Let_def split: sum.splits prod.splits)

end
