(* ===== verification/Threads.thy ===== *)
theory Threads
  imports Containers WorkerApi
begin

text \<open>
  The goroutines of a worker, \<open>worker/worker.go\<close>: the run loop, the update loop and the HTTP handlers share
  the records, the queue and the daemon, and hold the record lock only between two calls to the daemon.
  Here each goroutine is a \<open>job\<close> that takes one step per locked section or call; run alone, a job is the
  operation of \<open>WorkerRuns\<close>, and interleaved, jobs meet what the others did in between. The other handlers
  and the statistics only read.
\<close>

section \<open>Jobs\<close>

text \<open>
  Where a goroutine is. Starting: \<open>JStart\<close> validates, \<open>JClear\<close> removes the previous container, \<open>JRun\<close> runs a
  new one, \<open>JInspect\<close> reads its ports, \<open>JSet\<close> writes the record. Stopping: \<open>JStop\<close> reads the logs, \<open>JStopping\<close>
  stops the container, \<open>JStopped\<close> reads the record, \<open>JStopSet\<close> writes it. Refreshing: \<open>JEach\<close> takes the next
  task of the snapshot and asks the daemon, \<open>JVerdict\<close> and \<open>JTimedOut\<close> judge it under the lock. What only
  concerns the captured logs is done with the step before it.
\<close>

type_synonym read_logs = "gerror + string option"

datatype job =
    JEvent task
  | JStart task
  | JClear task
  | JRun task
  | JInspect task
  | JSet task "gerror option"
  | JStop task
  | JStopping task read_logs
  | JStopped task read_logs DockerResult
  | JStopSet task read_logs DockerResult
  | JForget uuid
  | JDropQueued uuid task
  | JForStop job uuid
  | JForgetRecord uuid
  | JAdd task
  | JEnqueue task
  | JUpdate
  | JEach "task list"
  | JVerdict task "gerror + inspection" "task list"
  | JCapture task "int option" string "task list"
  | JTimeout task read_logs "task list"
  | JTimedOut task "task list"

definition failed_start :: "task \<Rightarrow> string \<Rightarrow> task" where
  "failed_start t reason = t\<lparr>tState := Failed, tFailureReason := reason\<rparr>"

text \<open>The locked part of \<open>AddTask\<close>: the event to queue.\<close>

definition accept_locked :: "'d wenv \<Rightarrow> task \<Rightarrow> 'd worker \<Rightarrow> (gerror + task) \<times> 'd worker" where
  "accept_locked v t w =
     (case wk_Get (tID t) w of
        (Inr persisted, w) \<Rightarrow>
          (let t = (if tState t = Scheduled then adopt t persisted else t) in
           if tState t \<noteq> Scheduled then (Inr t, w)
           else case wk_Put (tID t) t w of
             (Some err, w) \<Rightarrow> (Inl (wrapf (''storing worker task '' @ veIdString v (tID t) @ '': '') err), w)
           | (None, w) \<Rightarrow> (Inr t, w))
      | (Inl err, w) \<Rightarrow>
          (if tState t \<noteq> Scheduled
           then (Inl (if errors_Is err ErrNotFound then unknown_task v (tID t)
                      else wrapf (''getting worker task '' @ veIdString v (tID t) @ '': '') err), w)
           else if \<not> errors_Is err ErrNotFound
           then (Inl (wrapf (''getting worker task '' @ veIdString v (tID t) @ '': '') err), w)
           else case wk_Put (tID t) t w of
             (Some err, w) \<Rightarrow> (Inl (wrapf (''storing worker task '' @ veIdString v (tID t) @ '': '') err), w)
           | (None, w) \<Rightarrow> (Inr t, w)))"

text \<open>The locked part of a refresh, with what it wants captured.\<close>

definition refresh_locked ::
  "'d wenv \<Rightarrow> task \<Rightarrow> gerror + inspection \<Rightarrow> 'd worker \<Rightarrow> (task \<times> int option \<times> string) option \<times> 'd worker" where
  "refresh_locked v running resp w =
     (if wDb w = None then (None, w)
      else case wk_Get (tID running) w of
        (Inl err, w) \<Rightarrow> (None, w)
      | (Inr persisted, w) \<Rightarrow>
          if tState persisted \<noteq> Running then (None, w)
          else case resp of
            Inl err \<Rightarrow> (None, snd (wk_Put (tID running) (lost_container (Some err) persisted) w))
          | Inr r \<Rightarrow>
              (case inState r of
                 None \<Rightarrow> (None, snd (wk_Put (tID running) (lost_container None persisted) w))
               | Some s \<Rightarrow>
                   (case refreshed v r s persisted of
                      (updated, capture) \<Rightarrow>
                        (map_option (\<lambda>(exitCode, source). (updated, exitCode, source)) capture,
                         snd (wk_Put (tID running) updated w)))))"

definition timeout_locked :: "task \<Rightarrow> 'd worker \<Rightarrow> 'd worker" where
  "timeout_locked t w =
     (if wDb w = None then w
      else case wk_Get (tID t) w of
        (Inl err, w) \<Rightarrow> w
      | (Inr persisted, w) \<Rightarrow>
          if tState persisted \<noteq> Running then w
          else snd (wk_Put (tID persisted) (timed_out t persisted) w))"

text \<open>One step: \<open>Inl\<close> the error the goroutine ends with, or \<open>Inr\<close> the job it goes on with.\<close>

fun job_step :: "'d wenv \<Rightarrow> job \<Rightarrow> 'd worker \<Rightarrow> (gerror option + job) \<times> 'd worker" where
  "job_step v (JEvent queued) w =
     (if wDb w = None then (Inl (Some db_is_nil), w)
      else case run_record v queued w of
        (Inl err, w) \<Rightarrow> (Inl (Some err), w)
      | (Inr persisted, w) \<Rightarrow>
          (let t = mergeQueuedWithPersisted queued persisted in
           (if \<not> ValidStateTransition (tState persisted) (tState t)
            then Inl (Some (bad_transition v t (tState persisted)))
            else if tState t = Scheduled then Inr (JStart t)
            else if tState t = Completed then Inr (JStop t)
            else Inl (Some (bad_state v t)), w)))"
| "job_step v (JStart t) w =
     (let w = (if tRestartCount t > 0 \<or> tContainerID t \<noteq> [] then clearStoredLogs (tID t) w else w) in
      case Validate (veExt v) t of
        Some err \<Rightarrow> (Inr (JSet (failed_start (t\<lparr>tHostPorts := []\<rparr>) (err_msg err)) (Some err)), w)
      | None \<Rightarrow>
          (let t = t\<lparr>tStartTime := veNow v, tHostPorts := []\<rparr> in
           case NewDocker (veApi v) of
             Some err \<Rightarrow>
               (Inr (JSet (failed_start t (''could not create docker client: '' @ err_msg err)) (Some err)), w)
           | None \<Rightarrow> (Inr (if tContainerID t = [] then JRun t else JClear t), w)))"
| "job_step v (JClear t) w =
     (case docker_Stop v (tContainerID t) w of
        (stopResult, w) \<Rightarrow>
          (case drError stopResult of
             Some err \<Rightarrow>
               (Inr (JSet (failed_start t (''could not remove previous container: '' @ err_msg err)) (Some err)), w)
           | None \<Rightarrow> (Inr (JRun (t\<lparr>tContainerID := []\<rparr>)), w)))"
| "job_step v (JRun t) w =
     (case docker_Run v t w of
        (result, w) \<Rightarrow>
          (case drError result of
             Some err \<Rightarrow>
               (Inr (JSet (failed_start (if drContainerID result \<noteq> [] then t\<lparr>tContainerID := drContainerID result\<rparr> else t)
                            (''container failed to start: '' @ err_msg err)) (Some err)), w)
           | None \<Rightarrow> (Inr (JInspect (t\<lparr>tContainerID := drContainerID result, tState := Running\<rparr>)), w)))"
| "job_step v (JInspect t) w =
     (case docker_Inspect v (tContainerID t) w of
        (Inl err, w) \<Rightarrow> (Inr (JSet t None), w)
      | (Inr resp, w) \<Rightarrow>
          (Inr (JSet (case inPorts resp of None \<Rightarrow> t | Some ps \<Rightarrow> t\<lparr>tHostPorts := PortMappingsFromPortMap ps\<rparr>) None), w))"
| "job_step v (JSet t err) w = (Inl err, setTask t w)"
| "job_step v (JStop t) w =
     (case NewDocker (veApi v) of
        Some err \<Rightarrow> (Inl (Some err), w)
      | None \<Rightarrow> (case docker_Logs v (tContainerID t) (veLogLines v) w of (logs, w) \<Rightarrow> (Inr (JStopping t logs), w)))"
| "job_step v (JStopping t logs) w =
     (case docker_Stop v (tContainerID t) w of (result, w) \<Rightarrow> (Inr (JStopped t logs result), w))"
| "job_step v (JStopped t logs result) w =
     (case wk_getTask (tID t) w of
        (None, w) \<Rightarrow> (Inl (Some (not_in_db v (tID t))), w)
      | (Some persisted, w) \<Rightarrow> (Inr (JStopSet (stopped_record v t persisted) logs result), w))"
| "job_step v (JStopSet t logs result) w =
     (let w = setTask t w in
      (Inl (drError result),
       case logs of
         Inr (Some l) \<Rightarrow> storeLogsIfAbsent v (tID t) l (drExitCode result) ''stop'' w
       | _ \<Rightarrow> w))"
| "job_step v (JForget i) w =
     (if wDb w = None then (Inl (Some db_is_nil), w)
      else case wk_Get i w of
        (Inl err, w) \<Rightarrow> (Inl (Some err), w)
      | (Inr persisted, w) \<Rightarrow> (Inr (JDropQueued i persisted), w))"
| "job_step v (JDropQueued i persisted) w =
     (Inr (if active persisted \<and> tContainerID persisted \<noteq> [] then JForStop (JStop persisted) i else JForgetRecord i),
      w\<lparr>wQueue := snd (RemoveAllFunc (wQueue w) (\<lambda>t. tID t = i))\<rparr>)"
| "job_step v (JForStop j i) w =
     (case job_step v j w of
        (Inr j, w) \<Rightarrow> (Inr (JForStop j i), w)
      | (Inl (Some err), w) \<Rightarrow>
          (Inl (Some (wrapf (''stopping active task '' @ veIdString v i @ '' before forget: '') err)), w)
      | (Inl None, w) \<Rightarrow> (Inr (JForgetRecord i), w))"
| "job_step v (JForgetRecord i) w = (case forget_record v i w of (err, w) \<Rightarrow> (Inl err, w))"
| "job_step v (JAdd t) w =
     (case Validate (veExt v) t of
        Some err \<Rightarrow> (Inl (Some err), w)
      | None \<Rightarrow>
          if wDb w = None then (Inl (Some db_is_nil), w)
          else case accept_locked v t w of
            (Inl err, w) \<Rightarrow> (Inl (Some err), w)
          | (Inr t, w) \<Rightarrow> (Inr (JEnqueue t), w))"
| "job_step v (JEnqueue t) w = (Inl None, wk_enqueue t w)"
| "job_step v JUpdate w = (case wk_getTasks w of (ts, w) \<Rightarrow> (Inr (JEach (filter (\<lambda>t. tState t = Running) ts)), w))"
| "job_step v (JEach []) w = (Inl None, w)"
| "job_step v (JEach (t # ts)) w =
     (if \<not> taskTimedOut (veNow v) t
      then (case InspectTask v t w of (resp, w) \<Rightarrow> (Inr (JVerdict t resp ts), w))
      else if tContainerID t = [] \<or> NewDocker (veApi v) \<noteq> None then (Inr (JTimedOut t ts), w)
      else case docker_Logs v (tContainerID t) (veLogLines v) w of (logs, w) \<Rightarrow> (Inr (JTimeout t logs ts), w))"
| "job_step v (JVerdict t resp ts) w =
     (case refresh_locked v t resp w of
        (None, w) \<Rightarrow> (Inr (JEach ts), w)
      | (Some (updated, exitCode, source), w) \<Rightarrow> (Inr (JCapture updated exitCode source ts), w))"
| "job_step v (JCapture t exitCode source ts) w = (Inr (JEach ts), captureLogs v t exitCode source w)"
| "job_step v (JTimeout t logs ts) w =
     (Inr (JTimedOut t ts),
      let w = snd (docker_Stop v (tContainerID t) w) in
      case logs of Inr (Some l) \<Rightarrow> storeLogsIfAbsent v (tID t) l None ''timeout'' w | _ \<Rightarrow> w)"
| "job_step v (JTimedOut t ts) w = (Inr (JEach ts), timeout_locked t w)"

section \<open>A job alone\<close>

text \<open>Every job ends: a step goes on with a job of smaller rank, once the update loop has its snapshot.\<close>

fun fresh_pass :: "job \<Rightarrow> nat" where
  "fresh_pass JUpdate = 1"
| "fresh_pass (JForStop j i) = fresh_pass j"
| "fresh_pass _ = 0"

fun rank :: "job \<Rightarrow> nat" where
  "rank (JEvent t) = 5"
| "rank (JStart t) = 4"
| "rank (JClear t) = 3"
| "rank (JRun t) = 2"
| "rank (JInspect t) = 1"
| "rank (JSet t e) = 0"
| "rank (JStop t) = 3"
| "rank (JStopping t l) = 2"
| "rank (JStopped t l r) = 1"
| "rank (JStopSet t l r) = 0"
| "rank (JForget i) = 6"
| "rank (JDropQueued i t) = 5"
| "rank (JForStop j i) = Suc (rank j)"
| "rank (JForgetRecord i) = 0"
| "rank (JAdd t) = 1"
| "rank (JEnqueue t) = 0"
| "rank JUpdate = 0"
| "rank (JEach ts) = 4 * length ts"
| "rank (JVerdict t r ts) = 4 * length ts + 2"
| "rank (JCapture t c s ts) = 4 * length ts + 1"
| "rank (JTimeout t l ts) = 4 * length ts + 2"
| "rank (JTimedOut t ts) = 4 * length ts + 1"

lemma job_step_shrinks:
  "job_step v j w = (Inr j', w') \<Longrightarrow> fresh_pass j' < fresh_pass j \<or> fresh_pass j' = fresh_pass j \<and> rank j' < rank j"
proof (induction j arbitrary: j' w')
  case (JForStop j i)
  obtain r w1 where s: "job_step v j w = (r, w1)" by fastforce
  show ?case
  proof (cases r)
    case (Inr k)
    with JForStop.prems s have "j' = JForStop k i" by simp
    with JForStop.IH [OF s [unfolded Inr]] show ?thesis by simp
  next
    case (Inl e)
    with JForStop.prems s show ?thesis by (cases e; cases "fresh_pass j") auto
  qed
next
  case (JEach ts)
  then show ?case by (cases ts) (auto split: if_splits prod.splits)
qed (auto simp: Let_def split: if_splits prod.splits sum.splits option.splits)

function alone :: "'d wenv \<Rightarrow> job \<Rightarrow> 'd worker \<Rightarrow> gerror option \<times> 'd worker" where
  "alone v j w = (case job_step v j w of (Inl err, w) \<Rightarrow> (err, w) | (Inr j, w) \<Rightarrow> alone v j w)"
  by pat_completeness auto

termination
  by (relation "measures [\<lambda>(v, j, w). fresh_pass j, \<lambda>(v, j, w). rank j]") (auto dest!: job_step_shrinks [OF sym])

declare alone.simps [simp del]


text \<open>Nobody in between: each operation of \<open>WorkerRuns\<close> is its job alone.\<close>

lemma alone_steps [simp]:
  "alone v (JSet t e) w = (e, setTask t w)" "alone v (JForgetRecord i) w = forget_record v i w"
  "alone v (JEnqueue t) w = (None, wk_enqueue t w)" "alone v (JEach []) w = (None, w)"
  by (simp_all add: alone.simps case_prod_beta)

lemma setTask_failed [simp]: "setTask (failed_start t r) w = fail_start t r w"
  by (simp add: failed_start_def fail_start_def)

lemma alone_inspect: "alone v (JInspect (t\<lparr>tContainerID := c, tState := Running\<rparr>)) w = (None, record_started v t c w)"
  by (subst alone.simps) (simp add: record_started_def Let_def case_prod_beta split: sum.split option.split prod.split)

lemma alone_run: "alone v (JRun t) w = map_prod drError id (run_container v t w)"
  by (subst alone.simps)
    (auto simp: run_container_def alone_inspect split: option.split prod.split)

lemma alone_clear:
  "tContainerID t \<noteq> [] \<Longrightarrow> alone v (JClear t) w =
     (case docker_Stop v (tContainerID t) w of
        (stopResult, w) \<Rightarrow>
          (case drError stopResult of
             Some err \<Rightarrow> (Some err, fail_start t (''could not remove previous container: '' @ err_msg err) w)
           | None \<Rightarrow> map_prod drError id (run_container v (t\<lparr>tContainerID := []\<rparr>) w)))"
  by (subst alone.simps) (auto simp: alone_run split: option.split prod.split)

lemma alone_start: "alone v (JStart t) w = map_prod drError id (StartTask v t w)"
proof (cases "Validate (veExt v) t")
  case (Some e)
  then show ?thesis by (subst alone.simps) (simp add: StartTask_def Let_def docker_error_def)
next
  case None
  then show ?thesis
    by (subst alone.simps)
      (auto simp: StartTask_def Let_def alone_run alone_clear docker_error_def
         split: option.split prod.split)
qed

lemma alone_stop: "alone v (JStop t) w = map_prod drError id (StopTask v t w)"
proof -
  have set: "alone v (JStopSet q l r) w = (drError r, case l of
      Inr (Some l) \<Rightarrow> storeLogsIfAbsent v (tID q) l (drExitCode r) ''stop'' (setTask q w) | _ \<Rightarrow> setTask q w)" for q l r w
    by (subst alone.simps) (simp add: Let_def)
  have stopped: "alone v (JStopped t l r) w = (case wk_getTask (tID t) w of
      (None, w) \<Rightarrow> (Some (not_in_db v (tID t)), w)
    | (Some p, w) \<Rightarrow> alone v (JStopSet (stopped_record v t p) l r) w)" for l r w
    by (subst alone.simps) (simp split: option.split prod.split)
  have stopping: "alone v (JStopping t l) w = (case docker_Stop v (tContainerID t) w of
      (r, w) \<Rightarrow> alone v (JStopped t l r) w)" for l w
    by (subst alone.simps) (simp split: prod.split)
  show ?thesis
    by (subst alone.simps)
      (auto simp: StopTask_def Let_def stopping stopped set docker_error_def split: option.split prod.split sum.split)
qed


lemma alone_event: "alone v (JEvent t) w = map_prod drError id (run_event v t w)"
  by (subst alone.simps)
    (auto simp: run_event_def Let_def alone_start alone_stop docker_error_def split: sum.split prod.split)

lemma alone_forget_stop:
  "alone v (JForStop j i) w = (case alone v j w of
     (None, w) \<Rightarrow> forget_record v i w
   | (Some err, w) \<Rightarrow> (Some (wrapf (''stopping active task '' @ veIdString v i @ '' before forget: '') err), w))"
proof (induction v j w rule: alone.induct)
  case (1 v j w)
  obtain r w1 where s: "job_step v j w = (r, w1)" by fastforce
  show ?case
  proof (cases r)
    case (Inr k)
    note 1 [OF s [symmetric] Inr]
    then show ?thesis using s Inr by (subst (1 2) alone.simps) simp
  next
    case (Inl e)
    then show ?thesis using s by (subst (1 2) alone.simps) (simp split: option.split)
  qed
qed

lemma alone_forget: "alone v (JForget i) w = ForgetTask v i w"
proof -
  have dropq: "alone v (JDropQueued i p) w = (let w = w\<lparr>wQueue := snd (RemoveAllFunc (wQueue w) (\<lambda>t. tID t = i))\<rparr> in
      if active p \<and> tContainerID p \<noteq> [] then alone v (JForStop (JStop p) i) w else forget_record v i w)" for p w
    by (subst alone.simps) (simp add: Let_def)
  show ?thesis
    by (subst alone.simps)
      (auto simp: ForgetTask_def Let_def dropq alone_forget_stop alone_stop split: sum.split prod.split option.split)
qed

lemma alone_add: "alone v (JAdd t) w = wk_AddTask v t w"
  by (subst alone.simps)
    (auto simp: wk_AddTask_def accept_start_def accept_locked_def Let_def adopt_def
       split: option.split sum.split prod.split)

lemma refresh_task_split:
  "refresh_task v t w = (case InspectTask v t w of (resp, w) \<Rightarrow> (case refresh_locked v t resp w of
     (None, w) \<Rightarrow> w | (Some (u, c, s), w) \<Rightarrow> captureLogs v u c s w))"
  by (auto simp: refresh_task_def refresh_locked_def Let_def split: sum.split prod.split option.split)

lemma alone_each:
  "alone v (JEach ts) w = (None, fold (\<lambda>t w. if taskTimedOut (veNow v) t then timeoutTask v t w else refresh_task v t w) ts w)"
proof (induction ts arbitrary: w)
  case (Cons t ts)
  have timed: "alone v (JTimedOut t ts) w = alone v (JEach ts) (timeout_locked t w)" for w
    by (subst alone.simps) simp
  have timeout: "alone v (JTimeout t l ts) w = alone v (JTimedOut t ts)
      (let w = snd (docker_Stop v (tContainerID t) w) in
       case l of Inr (Some l) \<Rightarrow> storeLogsIfAbsent v (tID t) l None ''timeout'' w | _ \<Rightarrow> w)" for l w
    by (subst alone.simps) simp
  have capture: "alone v (JCapture u c s ts) w = alone v (JEach ts) (captureLogs v u c s w)" for u c s w
    by (subst alone.simps) simp
  have verdict: "alone v (JVerdict t resp ts) w = (case refresh_locked v t resp w of
      (None, w) \<Rightarrow> alone v (JEach ts) w | (Some (u, c, s), w) \<Rightarrow> alone v (JEach ts) (captureLogs v u c s w))" for resp w
    by (subst alone.simps) (simp add: capture split: prod.split option.split)
  show ?case
    by (subst alone.simps)
      (auto simp: refresh_task_split timeoutTask_def timeout_container_def timeout_locked_def [symmetric]
         verdict timeout timed Cons.IH Let_def split: prod.split option.split)
qed simp

lemma alone_update: "alone v JUpdate w = (None, wk_updateTasks v w)"
  by (subst alone.simps) (simp add: wk_updateTasks_def alone_each split: prod.split)

text \<open>
  The operations of the worker are what their goroutines do when nothing comes between their steps: an
  event that is run, a forget, a submission and an update pass, results included.
\<close>

theorem alone_exact:
  "alone v (JEvent t) w = (drError (fst (run_event v t w)), snd (run_event v t w))
   \<and> alone v (JForget i) w = ForgetTask v i w \<and> alone v (JAdd t) w = wk_AddTask v t w
   \<and> alone v JUpdate w = (None, wk_updateTasks v w)"
  by (simp_all add: alone_event alone_forget alone_add alone_update map_prod_def case_prod_beta)


section \<open>Goroutines in any order\<close>

text \<open>
  The worker, its run loop and update loop when they are in the middle of something, the requests being
  handled, each with where its handler is, and the answers given so far: \<open>None\<close> is success.
\<close>

record 'd site =
  siWorker :: "'d worker"
  siRun :: "job option"
  siUpdate :: "job option"
  siHandlers :: "(job \<times> job) list"
  siAnswers :: "(job \<times> gerror option) list"

definition idle_site :: "'d worker \<Rightarrow> 'd site" where
  "idle_site w = \<lparr>siWorker = w, siRun = None, siUpdate = None, siHandlers = [], siAnswers = []\<rparr>"

text \<open>An event that ran wakes the update loop.\<close>

definition run_ended :: "gerror option + job \<Rightarrow> 'd worker \<Rightarrow> 'd worker" where
  "run_ended r w = (case r of Inl None \<Rightarrow> w\<lparr>wUpdateWaker := Wake (wUpdateWaker w)\<rparr> | _ \<Rightarrow> w)"

definition rest_of :: "gerror option + job \<Rightarrow> job option" where
  "rest_of r = (case r of Inl _ \<Rightarrow> None | Inr j \<Rightarrow> Some j)"

text \<open>
  One step of one goroutine. The daemon is the same throughout; clock and settings are those of the
  moment. \<open>admit w j\<close> says that step \<open>j\<close> may be taken at \<open>w\<close>.
\<close>

inductive site_step :: "'d docker_api \<Rightarrow> ('d worker \<Rightarrow> job \<Rightarrow> bool) \<Rightarrow> 'd site \<Rightarrow> 'd site \<Rightarrow> bool" for api admit where
  run_takes: "siRun s = None \<Longrightarrow> Dequeue (wQueue (siWorker s)) = (Some t, q) \<Longrightarrow>
    site_step api admit s (s\<lparr>siWorker := (siWorker s)\<lparr>wQueue := q\<rparr>, siRun := Some (JEvent t)\<rparr>)"
| run_steps: "siRun s = Some j \<Longrightarrow> admit (siWorker s) j \<Longrightarrow> veApi v = api \<Longrightarrow> job_step v j (siWorker s) = (r, w) \<Longrightarrow>
    site_step api admit s (s\<lparr>siWorker := run_ended r w, siRun := rest_of r\<rparr>)"
| update_begins: "siUpdate s = None \<Longrightarrow> site_step api admit s (s\<lparr>siUpdate := Some JUpdate\<rparr>)"
| update_steps: "siUpdate s = Some j \<Longrightarrow> admit (siWorker s) j \<Longrightarrow> veApi v = api \<Longrightarrow> job_step v j (siWorker s) = (r, w) \<Longrightarrow>
    site_step api admit s (s\<lparr>siWorker := w, siUpdate := rest_of r\<rparr>)"
| request_arrives: "j = JAdd t \<or> j = JForget i \<Longrightarrow> site_step api admit s (s\<lparr>siHandlers := siHandlers s @ [(j, j)]\<rparr>)"
| handler_steps: "siHandlers s = hs @ (request, j) # hs' \<Longrightarrow> admit (siWorker s) j \<Longrightarrow> veApi v = api \<Longrightarrow>
    job_step v j (siWorker s) = (r, w) \<Longrightarrow>
    site_step api admit s (s\<lparr>siWorker := w,
      siHandlers := hs @ (case r of Inl _ \<Rightarrow> hs' | Inr j \<Rightarrow> (request, j) # hs'),
      siAnswers := siAnswers s @ (case r of Inl err \<Rightarrow> [(request, err)] | Inr _ \<Rightarrow> [])\<rparr>)"

inductive site_reach :: "'d docker_api \<Rightarrow> ('d worker \<Rightarrow> job \<Rightarrow> bool) \<Rightarrow> 'd site \<Rightarrow> 'd site \<Rightarrow> bool" for api admit s0 where
  site_start: "site_reach api admit s0 s0"
| site_next: "site_reach api admit s0 s \<Longrightarrow> site_step api admit s s' \<Longrightarrow> site_reach api admit s0 s'"

lemma site_reach_trans:
  assumes "site_reach api admit a b" "site_reach api admit b c"
  shows "site_reach api admit a c"
  using assms(2) by induction (auto intro: assms(1) site_next)

subsection \<open>What the others may do\<close>

text \<open>Every record keeps its container ID, no container appears: all that the update loop and submissions do.\<close>

definition grows :: "('d \<Rightarrow> string set) \<Rightarrow> 'd worker \<Rightarrow> 'd worker \<Rightarrow> bool" where
  "grows live w w' \<longleftrightarrow> wk_ok w' \<and> live (wDocker w') \<subseteq> live (wDocker w)
     \<and> (\<forall>i p. wk_view w i = Some p \<longrightarrow> (\<exists>q. wk_view w' i = Some q \<and> tContainerID q = tContainerID p))"

lemma grows_refl: "wk_ok w \<Longrightarrow> grows live w w"
  by (simp add: grows_def)

lemma keeps_grows:
  assumes "keeps live w w'"
  shows "grows live w w'"
proof -
  have "\<exists>q. wk_view w' i = Some q \<and> tContainerID q = tContainerID p" if "wk_view w i = Some p" for i p
  proof -
    have "map_option tContainerID (wk_view w' i) = Some (tContainerID p)" using assms that by (simp add: keeps_def)
    then show ?thesis by (cases "wk_view w' i") simp_all
  qed
  with assms show ?thesis by (simp add: keeps_def grows_def)
qed

text \<open>The jobs of the update loop.\<close>

fun refreshing :: "job \<Rightarrow> bool" where
  "refreshing JUpdate = True"
| "refreshing (JEach ts) = True"
| "refreshing (JVerdict t r ts) = True"
| "refreshing (JCapture t c s ts) = True"
| "refreshing (JTimeout t l ts) = True"
| "refreshing (JTimedOut t ts) = True"
| "refreshing _ = False"

lemma locked_record:
  assumes "wk_ok w" "wk_Get i w = (r, w')"
  shows "keeps live w w'" "wk_ok w'" "wk_view w' = wk_view w" "r = Inr p \<Longrightarrow> wk_view w' i = Some p \<and> tID p = i"
proof -
  show "keeps live w w'" using keeps_logs(2) [OF assms(1), of live i] assms(2) by simp
  show w': "wk_ok w'" "wk_view w' = wk_view w" using wk_Get_effect(2,3) [OF assms(1), of i] assms(2) by simp_all
  assume "r = Inr p"
  then have "wk_view w i = Some p" using wk_Get_effect(1) [OF assms(1), of i] assms(2) by (auto split: option.splits)
  then show "wk_view w' i = Some p \<and> tID p = i" using w' assms(1) by (simp add: wk_ok_def)
qed

lemma refresh_locked_keeps:
  assumes "wk_ok w"
  shows "keeps live w (snd (refresh_locked v t resp w))"
proof -
  have db: "wDb w \<noteq> None" using assms by (simp add: wk_ok_def)
  obtain r w1 where g: "wk_Get (tID t) w = (r, w1)" by fastforce
  note get = locked_record [OF assms g]
  have put: "keeps live w (snd (wk_Put (tID t) q w1))"
    if "r = Inr p" "tID q = tID p" "tContainerID q = tContainerID p" for p q
    by (rule keeps_trans [OF get(1) keeps_Put [OF get(2), of _ p]]) (use get(4) [OF that(1)] that in auto)
  show ?thesis
  proof (cases r)
    case (Inl e)
    then show ?thesis using db g get(1) by (simp add: refresh_locked_def del: not_None_eq)
  next
    case (Inr p)
    have "keeps live w (snd (wk_Put (tID t) (lost_container e p) w1))" for e
      by (rule put [OF Inr]) (simp_all add: lost_container_def)
    moreover have "keeps live w (snd (case refreshed v x s p of (u, capture) \<Rightarrow>
        (map_option (\<lambda>(c, o'). (u, c, o')) capture, snd (wk_Put (tID t) u w1))))" for x s
      using put [OF Inr refreshed_ids] by (cases "refreshed v x s p") simp
    ultimately show ?thesis using db g get(1) Inr
      by (simp add: refresh_locked_def split: sum.split option.split del: not_None_eq)
  qed
qed

lemma timeout_locked_keeps:
  assumes "wk_ok w"
  shows "keeps live w (timeout_locked t w)"
proof -
  have db: "wDb w \<noteq> None" using assms by (simp add: wk_ok_def)
  obtain r w1 where g: "wk_Get (tID t) w = (r, w1)" by fastforce
  note get = locked_record [OF assms g]
  have "keeps live w (snd (wk_Put (tID p) (timed_out t p) w1))" if "r = Inr p" for p
    by (rule keeps_trans [OF get(1) keeps_Put [OF get(2), of _ p]]) (use get(4) [OF that] in \<open>auto simp: timed_out_def\<close>)
  with db g get(1) show ?thesis by (simp add: timeout_locked_def split: sum.split del: not_None_eq)
qed

lemma refreshing_step:
  assumes "docker_laws live (veApi v)" "wk_ok w" "refreshing j" "job_step v j w = (r, w')"
  shows "keeps live w w'" "r = Inr j' \<Longrightarrow> refreshing j'"
proof -
  have logs: "keeps live w (storeLogsIfAbsent v i l c s (snd (docker_Stop v x w)))" for i l c s x
    by (rule keeps_trans [OF docker_keeps(3) [OF assms(1,2), of x] keeps_logs(1)]) (simp add: assms(2))
  show "keeps live w w'"
  proof (cases j)
    case (JEach ts)
    then show ?thesis using assms(4) docker_keeps(1) [OF assms(1,2)] InspectTask_keeps [OF assms(1,2)] keeps_refl [OF assms(2)]
      by (cases ts) (auto split: if_splits prod.splits dest!: arg_cong [of _ _ snd])
  next
    case (JVerdict t resp ts)
    then have "w' = snd (refresh_locked v t resp w)" using assms(4) by (auto split: prod.splits option.splits)
    then show ?thesis using refresh_locked_keeps [OF assms(2)] by simp
  next
    case (JTimeout t l ts)
    then show ?thesis using assms(4) logs docker_keeps(3) [OF assms(1,2)]
      by (auto simp: Let_def split: sum.splits option.splits)
  qed (use assms captureLogs_keeps timeout_locked_keeps wk_getTasks_keeps [OF assms(2), of live]
      in \<open>auto split: prod.splits\<close>)
  show "r = Inr j' \<Longrightarrow> refreshing j'"
    using assms(3,4) by (cases j) (auto elim!: job_step.elims split: if_splits prod.splits option.splits)
qed


lemma put_grows:
  assumes "wk_ok w" "tID q = i" "\<And>p. wk_view w i = Some p \<Longrightarrow> tContainerID q = tContainerID p"
  shows "grows live w (snd (wk_Put i q w))"
  using wk_Put_effect [OF assms(1,2)] assms(3) by (auto simp: grows_def)

lemma grows_trans:
  assumes "grows live a b" "grows live b c"
  shows "grows live a c"
  using assms unfolding grows_def by (metis (no_types, lifting) subset_trans)

lemma accept_locked_grows:
  assumes "wk_ok w" "event_current w t"
  shows "grows live w (snd (accept_locked v t w))"
proof -
  obtain r w1 where g: "wk_Get (tID t) w = (r, w1)" by fastforce
  note get = locked_record [OF assms(1) g]
  have r: "r = (case wk_view w (tID t) of None \<Rightarrow> Inl not_found | Some p \<Rightarrow> Inr p)"
    using wk_Get_effect(1) [OF assms(1), of "tID t"] g by simp
  note g1 = keeps_grows [OF get(1), of live]
  have put: "grows live w (snd (wk_Put (tID t) q w1))"
    if "tID q = tID t" "\<And>p. wk_view w (tID t) = Some p \<Longrightarrow> tContainerID q = tContainerID p" for q
    by (rule grows_trans [OF g1 put_grows [OF get(2) that(1)]]) (use that(2) get(3) in auto)
  show ?thesis
  proof (cases "wk_view w (tID t)")
    case None
    then show ?thesis using g r g1 put [of t]
      by (auto simp: accept_locked_def not_found_def split: prod.splits option.splits dest!: arg_cong [of _ _ snd])
  next
    case (Some p)
    have "tContainerID (adopt t p) = tContainerID p" "tID (adopt t p) = tID t"
      using assms(2) Some by (auto simp: adopt_ids event_current_def)
    with put [of "adopt t p"] Some g r g1 show ?thesis
      by (auto simp: accept_locked_def Let_def split: prod.splits option.splits dest!: arg_cong [of _ _ snd])
  qed
qed

subsection \<open>No container gets lost\<close>

text \<open>The container a start has made and not yet recorded.\<close>

fun holds :: "job \<Rightarrow> string set" where
  "holds (JInspect t) = {tContainerID t}"
| "holds (JSet t e) = {tContainerID t}"
| "holds _ = {}"

definition covered :: "('d \<Rightarrow> string set) \<Rightarrow> string set \<Rightarrow> string set \<Rightarrow> 'd worker \<Rightarrow> bool" where
  "covered live F held w \<longleftrightarrow>
     (\<forall>c\<in>live (wDocker w). c = [] \<or> c \<in> F \<or> c \<in> held \<or> (\<exists>i t. wk_view w i = Some t \<and> tContainerID t = c))"

lemma covered_known: "covered live F {} w = known live F w"
  by (simp add: covered_def known_def)

text \<open>The record \<open>t\<close> is of has its container, or a container that is gone.\<close>

definition on_record :: "'d worker \<Rightarrow> task \<Rightarrow> bool" where
  "on_record w t \<longleftrightarrow> (\<exists>p. wk_view w (tID t) = Some p \<and> tContainerID p = tContainerID t)"

definition replaces :: "('d \<Rightarrow> string set) \<Rightarrow> 'd worker \<Rightarrow> task \<Rightarrow> bool" where
  "replaces live w t \<longleftrightarrow> (\<exists>p. wk_view w (tID t) = Some p
     \<and> (tContainerID p \<in> {[], tContainerID t} \<or> tContainerID p \<notin> live (wDocker w)))"

lemma on_record_replaces: "on_record w t \<Longrightarrow> replaces live w t"
  by (auto simp: on_record_def replaces_def)

text \<open>The jobs of the run loop.\<close>

fun run_safe :: "('d \<Rightarrow> string set) \<Rightarrow> 'd worker \<Rightarrow> job \<Rightarrow> bool" where
  "run_safe live w (JEvent t) = True"
| "run_safe live w (JStart t) = on_record w t"
| "run_safe live w (JClear t) = on_record w t"
| "run_safe live w (JRun t) = (tContainerID t = [] \<and> replaces live w t)"
| "run_safe live w (JInspect t) = replaces live w t"
| "run_safe live w (JSet t e) = replaces live w t"
| "run_safe live w (JStop t) = on_record w t"
| "run_safe live w (JStopping t l) = on_record w t"
| "run_safe live w (JStopped t l r) = on_record w t"
| "run_safe live w (JStopSet t l r) = on_record w t"
| "run_safe live w _ = False"

lemma grows_covered:
  assumes "grows live w w'" "covered live F h w"
  shows "covered live F h w'"
  unfolding covered_def
proof
  fix c assume "c \<in> live (wDocker w')"
  then have "c \<in> live (wDocker w)" using assms(1) by (auto simp: grows_def)
  then consider "c = [] \<or> c \<in> F \<or> c \<in> h" | i t where "wk_view w i = Some t" "tContainerID t = c"
    using assms(2) unfolding covered_def by blast
  then show "c = [] \<or> c \<in> F \<or> c \<in> h \<or> (\<exists>i t. wk_view w' i = Some t \<and> tContainerID t = c)"
  proof cases
    case 2
    then obtain q where "wk_view w' i = Some q" "tContainerID q = c" using assms(1) unfolding grows_def by blast
    then show ?thesis by blast
  qed blast
qed

lemma grows_safe:
  assumes "grows live w w'" "run_safe live w j"
  shows "run_safe live w' j"
proof -
  have r: "on_record w t \<Longrightarrow> on_record w' t" for t
    using assms(1) unfolding on_record_def grows_def by metis
  have p: "replaces live w t \<Longrightarrow> replaces live w' t" for t
    using assms(1) unfolding replaces_def grows_def by (metis subsetD)
  show ?thesis using assms(2) r p by (cases j) auto
qed

text \<open>Writing a record whose container is gone or is the new one loses nothing.\<close>

lemma set_covered:
  assumes "wk_ok w" "covered live F (insert (tContainerID t) h) w" "replaces live w t"
  shows "covered live F h (setTask t w)"
proof -
  note e = setTask_effect [OF assms(1), of t]
  obtain p where p: "wk_view w (tID t) = Some p"
    "tContainerID p = [] \<or> tContainerID p = tContainerID t \<or> tContainerID p \<notin> live (wDocker w)"
    using assms(3) by (auto simp: replaces_def)
  show ?thesis unfolding covered_def e(3)
  proof
    fix c assume c: "c \<in> live (wDocker w)"
    then consider "c = [] \<or> c \<in> F \<or> c \<in> h" | "c = tContainerID t" | i q where "wk_view w i = Some q" "tContainerID q = c" "c \<noteq> []"
      using assms(2) unfolding covered_def by blast
    then show "c = [] \<or> c \<in> F \<or> c \<in> h \<or> (\<exists>i q. wk_view (setTask t w) i = Some q \<and> tContainerID q = c)"
    proof cases
      case 2
      then show ?thesis using e(1) by auto
    next
      case 3
      then show ?thesis
      proof (cases "i = tID t")
        case True
        with 3 p c have "c = tContainerID t" by auto
        then show ?thesis using e(1) by auto
      next
        case False
        with 3 have "wk_view (setTask t w) i = Some q" by (simp add: e(1))
        with 3(2) show ?thesis by blast
      qed
    qed blast
  qed
qed


text \<open>A step that touches neither the records nor any container.\<close>

lemma quiet_grows: "wk_ok w \<Longrightarrow> wk_quiet w w' \<Longrightarrow> live (wDocker w') \<subseteq> live (wDocker w) \<Longrightarrow> grows live w w'"
  by (rule keeps_grows [OF keeps_quiet])

definition step_safe ::
  "('d \<Rightarrow> string set) \<Rightarrow> string set \<Rightarrow> gerror option + job \<Rightarrow> 'd worker \<Rightarrow> bool" where
  "step_safe live F r w \<longleftrightarrow> wk_ok w
     \<and> (case r of Inl _ \<Rightarrow> known live F w | Inr j \<Rightarrow> covered live F (holds j) w \<and> run_safe live w j)"

lemma on_record_safe:
  assumes "wk_ok w" "covered live F {} w" "on_record w t" "tID q = tID t" "tContainerID q = tContainerID t"
  shows "wk_ok w \<and> covered live F (insert (tContainerID q) {}) w \<and> replaces live w q"
proof -
  have "on_record w q" using assms(3-5) by (simp add: on_record_def)
  with assms(1,2) show ?thesis by (auto simp: on_record_replaces covered_def)
qed

lemma grows_step:
  assumes "grows live w w'" "known live F w"
  shows "wk_ok w'" "known live F w'" "covered live F {} w'" "on_record w t \<Longrightarrow> on_record w' t"
  using assms grows_covered [of live w w' F "{}"] grows_safe [of live w w' "JStart t"]
  by (simp_all add: covered_known) (simp add: grows_def)

lemma run_step_safe:
  assumes "docker_laws live (veApi v)" "wk_ok w" "covered live F (holds j) w" "run_safe live w j"
    and "\<And>t. j = JEvent t \<Longrightarrow> event_current w t" "job_step v j w = (r, w')"
  shows "step_safe live F r w'"
proof (cases j)
  case (JEvent t)
  have k: "known live F w" using assms(3) JEvent by (simp add: covered_known)
  have db: "wDb w \<noteq> None" using assms(2) by (simp add: wk_ok_def)
  obtain x w1 where x: "run_record v t w = (x, w1)" by fastforce
  note rec = run_record_effect [OF assms(2) assms(5) [OF JEvent] k, of v, unfolded x fst_conv snd_conv]
  show ?thesis
  proof (cases x)
    case (Inl e)
    then show ?thesis using rec assms(6) JEvent db x by (auto simp: step_safe_def)
  next
    case (Inr p)
    let ?u = "mergeQueuedWithPersisted t p"
    have p: "wk_ok w1" "known live F w1" "on_record w1 ?u" using rec Inr by (auto simp: on_record_def)
    have w1: "w' = w1" "r = Inr (JStart ?u) \<or> r = Inr (JStop ?u) \<or> (\<exists>e. r = Inl e)"
      using assms(6) JEvent db x Inr by (auto simp: Let_def split: if_splits)
    then show ?thesis using p by (auto simp: step_safe_def covered_known)
  qed
next
  case (JStart t)
  define w1 where "w1 = (if tRestartCount t > 0 \<or> tContainerID t \<noteq> [] then clearStoredLogs (tID t) w else w)"
  have g: "grows live w w1" by (rule quiet_grows [OF assms(2)]) (simp_all add: w1_def)
  have k: "known live F w" "on_record w t" using assms(3,4) JStart by (simp_all add: covered_known)
  note s = grows_step [OF g k(1)]
  have r: "on_record w1 t" using s(4) k(2) .
  have fail: "step_safe live F (Inr (JSet (failed_start q e) err)) w1"
    if "tID q = tID t" "tContainerID q = tContainerID t" for q e err
    using on_record_safe [OF s(1,3) r, of "failed_start q e"] that by (simp add: step_safe_def failed_start_def)
  have go: "step_safe live F (Inr (if tContainerID t = [] then JRun q else JClear q)) w1"
    if "tID q = tID t" "tContainerID q = tContainerID t" for q
  proof -
    have "on_record w1 q" using r that by (simp add: on_record_def)
    then show ?thesis using s(1,3) that(2) by (simp add: step_safe_def on_record_replaces)
  qed
  have w': "w' = w1" using assms(6) JStart by (auto simp: Let_def w1_def split: option.splits)
  show ?thesis
    using assms(6) JStart fail [of "t\<lparr>tHostPorts := []\<rparr>"] fail [of "t\<lparr>tStartTime := veNow v, tHostPorts := []\<rparr>"]
      go [of "t\<lparr>tStartTime := veNow v, tHostPorts := []\<rparr>"]
    unfolding w' by (auto simp: Let_def split: option.splits)
next
  case (JClear t)
  have k: "known live F w" "on_record w t" using assms(3,4) JClear by (simp_all add: covered_known)
  obtain s w1 where s: "docker_Stop v (tContainerID t) w = (s, w1)" by fastforce
  have g: "grows live w w1" using keeps_grows [OF docker_keeps(3) [OF assms(1,2), of "tContainerID t"]] s by simp
  note e = grows_step [OF g k(1)]
  note stop = docker_live(3) [OF assms(1), of "tContainerID t" w, unfolded s fst_conv snd_conv]
  show ?thesis
  proof (cases "drError s")
    case None
    obtain p where "wk_view w1 (tID t) = Some p" "tContainerID p = tContainerID t"
      using e(4) k(2) unfolding on_record_def by blast
    with None stop have "replaces live w1 (t\<lparr>tContainerID := []\<rparr>)" by (auto simp: replaces_def)
    with None s assms(6) JClear e show ?thesis by (auto simp: step_safe_def)
  next
    case (Some err)
    have "on_record w1 t" using e(4) k(2) .
    from on_record_safe [OF e(1,3) this, of "failed_start t x" for x] Some s assms(6) JClear
    show ?thesis by (auto simp: step_safe_def failed_start_def)
  qed
next
  case (JRun t)
  obtain s w1 where s: "docker_Run v t w = (s, w1)" by fastforce
  have q: "wk_quiet w w1" using wk_quiet_docker(4) [of w v t] s by simp
  have w1: "wk_ok w1" "wk_view w1 = wk_view w" using q assms(2) by (simp_all add: wk_quietD)
  have k: "known live F w" "tContainerID t = []" "replaces live w t" using assms(3,4) JRun by (simp_all add: covered_known)
  let ?c = "drContainerID s"
  have l: "live (wDocker w1) \<subseteq> insert ?c (live (wDocker w))" "?c = [] \<or> ?c \<notin> live (wDocker w)"
    using docker_live(4) [OF assms(1), of t w] s by auto
  have cov: "covered live F {?c} w1"
    unfolding covered_def w1(2)
  proof
    fix c assume "c \<in> live (wDocker w1)"
    then have "c = ?c \<or> c \<in> live (wDocker w)" using l(1) by auto
    then show "c = [] \<or> c \<in> F \<or> c \<in> {?c} \<or> (\<exists>i t. wk_view w i = Some t \<and> tContainerID t = c)"
      using k(1) by (auto simp: known_def)
  qed
  have rep: "replaces live w1 q" if "tID q = tID t" "tContainerID q = ?c" for q
  proof -
    obtain p where p: "wk_view w (tID t) = Some p" "tContainerID p = [] \<or> tContainerID p \<notin> live (wDocker w)"
      using k(2,3) by (auto simp: replaces_def)
    then have "tContainerID p = [] \<or> tContainerID p = ?c \<or> tContainerID p \<notin> live (wDocker w1)" using l(1) by auto
    then show ?thesis using p(1) w1(2) that by (auto simp: replaces_def)
  qed
  show ?thesis
  proof (cases "drError s")
    case None
    then show ?thesis using s assms(6) JRun cov w1(1) rep by (auto simp: step_safe_def)
  next
    case (Some err)
    let ?q = "failed_start (if ?c \<noteq> [] then t\<lparr>tContainerID := ?c\<rparr> else t)
      (''container failed to start: '' @ err_msg err)"
    have q: "tID ?q = tID t" "tContainerID ?q = ?c" using k(2) by (simp_all add: failed_start_def)
    have "r = Inr (JSet ?q (Some err)) \<and> w' = w1" using s assms(6) JRun Some by auto
    then show ?thesis using cov w1(1) rep [OF q] q(2) by (simp add: step_safe_def)
  qed
next
  case (JInspect t)
  obtain s w1 where s: "docker_Inspect v (tContainerID t) w = (s, w1)" by fastforce
  have g: "grows live w w1" using keeps_grows [OF docker_keeps(2) [OF assms(1,2), of "tContainerID t"]] s by simp
  have "replaces live w t" "covered live F {tContainerID t} w" using assms(3,4) JInspect by simp_all
  then have "replaces live w1 t" "covered live F {tContainerID t} w1"
    using grows_safe [OF g, of "JInspect t"] grows_covered [OF g] by simp_all
  moreover have "replaces live w1 (t\<lparr>tHostPorts := ps\<rparr>) = replaces live w1 t" for ps by (simp add: replaces_def)
  moreover have "wk_ok w1" using g by (simp add: grows_def)
  ultimately show ?thesis using s assms(6) JInspect by (auto simp: step_safe_def split: sum.splits option.splits)
next
  case (JSet t e)
  have "covered live F {} (setTask t w)" by (rule set_covered) (use assms(2-4) JSet in simp_all)
  then show ?thesis using assms(6) JSet setTask_effect(2) [OF assms(2)] by (auto simp: step_safe_def covered_known)
next
  case (JStop t)
  have k: "known live F w" "on_record w t" using assms(3,4) JStop by (simp_all add: covered_known)
  obtain l w1 where l: "docker_Logs v (tContainerID t) (veLogLines v) w = (l, w1)" by fastforce
  have g: "grows live w w1"
    using keeps_grows [OF docker_keeps(1) [OF assms(1,2), of "tContainerID t" "veLogLines v"]] l by simp
  show ?thesis using grows_step [OF g k(1)] k assms(2,6) l JStop
    by (auto simp: step_safe_def split: option.splits)
next
  case (JStopping t l)
  have k: "known live F w" "on_record w t" using assms(3,4) JStopping by (simp_all add: covered_known)
  obtain x w1 where x: "docker_Stop v (tContainerID t) w = (x, w1)" by fastforce
  have g: "grows live w w1" using keeps_grows [OF docker_keeps(3) [OF assms(1,2), of "tContainerID t"]] x by simp
  show ?thesis using grows_step [OF g k(1)] k assms(6) x JStopping by (auto simp: step_safe_def)
next
  case (JStopped t l x)
  have k: "known live F w" "on_record w t" using assms(3,4) JStopped by (simp_all add: covered_known)
  obtain p w1 where p: "wk_getTask (tID t) w = (p, w1)" by fastforce
  have g: "grows live w w1" using wk_getTask_effect [OF assms(2), of "tID t"] p by (simp add: grows_def)
  note s = grows_step [OF g k(1)]
  have "on_record w1 (stopped_record v t q)" for q using s(4) k(2) by (simp add: on_record_def)
  then show ?thesis using s p assms(6) JStopped by (auto simp: step_safe_def split: option.splits)
next
  case (JStopSet t l x)
  have k: "covered live F (insert (tContainerID t) {}) w" "replaces live w t"
    using assms(3,4) JStopSet by (auto simp: covered_def on_record_replaces)
  let ?w1 = "setTask t w"
  have 1: "wk_ok ?w1" "known live F ?w1"
    using set_covered [OF assms(2) k] setTask_effect(2) [OF assms(2)] by (simp_all add: covered_known)
  have "grows live ?w1 (storeLogsIfAbsent v i y c src ?w1)" for i y c src by (rule quiet_grows [OF 1(1)]) simp_all
  from grows_step [OF this 1(2)] 1 assms(6) JStopSet show ?thesis
    by (auto simp: step_safe_def Let_def split: sum.splits option.splits)
qed (use assms(4) in simp_all)


text \<open>
  Orderly steps: events and submissions are current when the record is read, as in \<open>containers_known\<close>,
  and no forget gets to act.
\<close>

fun orderly :: "'d worker \<Rightarrow> job \<Rightarrow> bool" where
  "orderly w (JEvent t) = event_current w t"
| "orderly w (JAdd t) = event_current w t"
| "orderly w (JForget i) = False"
| "orderly w j = True"

fun submitting :: "job \<Rightarrow> bool" where
  "submitting (JAdd t) = True"
| "submitting (JEnqueue t) = True"
| "submitting (JForget i) = True"
| "submitting j = False"

definition site_ok :: "('d \<Rightarrow> string set) \<Rightarrow> string set \<Rightarrow> 'd site \<Rightarrow> bool" where
  "site_ok live F s \<longleftrightarrow> step_safe live F (case siRun s of None \<Rightarrow> Inl None | Some j \<Rightarrow> Inr j) (siWorker s)
     \<and> (\<forall>j. siUpdate s = Some j \<longrightarrow> refreshing j) \<and> (\<forall>h\<in>set (siHandlers s). submitting (snd h))"

lemma idle_site_ok: "wk_ok w \<Longrightarrow> known live F w \<Longrightarrow> site_ok live F (idle_site w)"
  by (simp add: site_ok_def idle_site_def step_safe_def)

lemma step_safe_covered:
  "step_safe live F r w \<longleftrightarrow> wk_ok w
     \<and> covered live F (case r of Inl _ \<Rightarrow> {} | Inr j \<Rightarrow> holds j) w \<and> (\<forall>j. r = Inr j \<longrightarrow> run_safe live w j)"
  by (auto simp: step_safe_def covered_known split: sum.split)

lemma grows_step_safe:
  assumes "grows live w w'" "step_safe live F r w"
  shows "step_safe live F r w'"
  using assms grows_covered [OF assms(1)] grows_safe [OF assms(1)] unfolding step_safe_covered
  by (auto simp: grows_def)

lemma same_step_safe:
  assumes "wDb w' = wDb w" "wDocker w' = wDocker w"
  shows "step_safe live F r w' = step_safe live F r w"
proof -
  have v: "wk_view w' = wk_view w" "wk_ok w' = wk_ok w" using assms(1) by (simp_all add: wk_view_def wk_ok_def)
  have "run_safe live w' j = run_safe live w j" for j
    by (cases j) (simp_all add: on_record_def replaces_def v assms(2))
  then show ?thesis by (simp add: step_safe_covered covered_def v assms(2))
qed

lemma submitting_step:
  assumes "wk_ok w" "submitting j" "orderly w j" "job_step v j w = (r, w')"
  shows "grows live w w'" "r = Inr j' \<Longrightarrow> submitting j'"
proof -
  have "grows live w (wk_enqueue t w)" for t using assms(1) by (simp add: grows_def)
  moreover have "grows live w (snd (accept_locked v t w))" if "event_current w t" for t
    by (rule accept_locked_grows [OF assms(1) that])
  ultimately show "grows live w w'"
    using assms grows_refl [OF assms(1)] by (cases j) (fastforce split: option.splits prod.splits sum.splits if_splits)+
  show "r = Inr j' \<Longrightarrow> submitting j'"
    using assms(2-4) by (cases j) (auto split: option.splits prod.splits sum.splits if_splits)
qed

lemma site_step_ok:
  assumes "site_step api orderly s s'" "docker_laws live api" "site_ok live F s"
  shows "site_ok live F s'"
  using assms(1)
proof cases
  case (run_takes t q)
  have "step_safe live F (Inl None) (siWorker s)" using assms(3) run_takes by (simp add: site_ok_def)
  then have "step_safe live F (Inr (JEvent t)) (siWorker s)" by (simp add: step_safe_covered)
  then have "step_safe live F (Inr (JEvent t)) ((siWorker s)\<lparr>wQueue := q\<rparr>)" by (subst same_step_safe) simp_all
  then show ?thesis using assms(3) run_takes by (simp add: site_ok_def)
next
  case (run_steps j v r w)
  have "step_safe live F (Inr j) (siWorker s)" using assms(3) run_steps by (simp add: site_ok_def)
  moreover have "event_current (siWorker s) t" if "j = JEvent t" for t using run_steps(3) that by simp
  ultimately have "step_safe live F r w"
    using run_step_safe [of live v "siWorker s" F j r w] assms(2) run_steps by (simp add: step_safe_def)
  then have "step_safe live F r (run_ended r w)"
    by (subst same_step_safe [where w = w]) (simp_all add: run_ended_def split: sum.split option.split)
  then have "step_safe live F (case rest_of r of None \<Rightarrow> Inl None | Some j \<Rightarrow> Inr j) (run_ended r w)"
    by (cases r) (simp_all add: rest_of_def step_safe_def)
  then show ?thesis using assms(3) run_steps by (simp add: site_ok_def)
next
  case update_begins
  then show ?thesis using assms(3) by (simp add: site_ok_def)
next
  case (update_steps j v r w)
  have s: "wk_ok (siWorker s)" "refreshing j" using assms(3) update_steps by (simp_all add: site_ok_def step_safe_def)
  note st = refreshing_step [OF _ s update_steps(5), where live = live]
  have "grows live (siWorker s) w" using st(1) keeps_grows update_steps assms(2) by blast
  moreover have "refreshing j'" if "rest_of r = Some j'" for j'
    using st(2) [of j'] that update_steps assms(2) by (auto simp: rest_of_def split: sum.splits)
  ultimately show ?thesis using assms(3) update_steps grows_step_safe by (auto simp: site_ok_def)
next
  case (request_arrives j t i)
  then show ?thesis using assms(3) by (auto simp: site_ok_def)
next
  case (handler_steps hs request j hs' v r w)
  have s: "wk_ok (siWorker s)" "submitting j" using assms(3) handler_steps by (simp_all add: site_ok_def step_safe_def)
  note st = submitting_step [OF s handler_steps(3,5)]
  have "\<forall>h\<in>set (hs @ (case r of Inl _ \<Rightarrow> hs' | Inr j \<Rightarrow> (request, j) # hs')). submitting (snd h)"
    using assms(3) handler_steps(2) st(2) by (auto simp: site_ok_def split: sum.split)
  then show ?thesis using assms(3) handler_steps(1) grows_step_safe [OF st(1), of live] by (simp add: site_ok_def)
qed

text \<open>
  C10: no container gets lost in an orderly schedule of a worker's goroutines. From an idle worker with a
  working task store, under any interleaving of the run loop, the update loop and submissions in which
  every event and every submission, when the record is read, names no container or the one on record, and
  in which no forget acts, every container of the daemon is foreign, named by a record, or the one the run
  loop has just made and is about to record; whenever the run loop is between two events, every container
  is foreign or named.
\<close>

theorem containers_covered:
  assumes "docker_laws live api" "wk_ok w0" "known live foreign w0" "site_reach api orderly (idle_site w0) s"
  shows "covered live foreign (case siRun s of None \<Rightarrow> {} | Some j \<Rightarrow> holds j) (siWorker s)
    \<and> (siRun s = None \<longrightarrow> known live foreign (siWorker s))"
proof -
  from assms(4) have "site_ok live foreign s"
  proof induction
    case site_start
    show ?case by (rule idle_site_ok [OF assms(2,3)])
  next
    case (site_next s s')
    show ?case by (rule site_step_ok [OF site_next.hyps(2) assms(1) site_next.IH])
  qed
  then show ?thesis by (auto simp: site_ok_def step_safe_covered covered_known split: option.splits)
qed

text \<open>A schedule: the run loop has taken the event of a restart, the update loop begins a pass.\<close>

theorem containers_covered_witness:
  "\<exists>s j. site_reach memory_docker orderly (idle_site demo_restarting) s \<and> siRun s = Some j \<and> siUpdate s = Some JUpdate
     \<and> covered set {''other''} (holds j) (siWorker s)"
proof -
  let ?t = "(contained [])\<lparr>tState := Scheduled\<rparr>" and ?w = demo_restarting
  have q: "Dequeue (wQueue ?w) = (Some ?t, \<lparr>q_items = []\<rparr>)" by (simp add: demo_restarting_def Dequeue_def)
  let ?s1 = "(idle_site ?w)\<lparr>siWorker := ?w\<lparr>wQueue := \<lparr>q_items = []\<rparr>\<rparr>, siRun := Some (JEvent ?t)\<rparr>"
  have "site_step memory_docker orderly (idle_site ?w)
      ((idle_site ?w)\<lparr>siWorker := (siWorker (idle_site ?w))\<lparr>wQueue := \<lparr>q_items = []\<rparr>\<rparr>, siRun := Some (JEvent ?t)\<rparr>)"
    by (rule run_takes) (simp_all add: idle_site_def q)
  then have 1: "site_reach memory_docker orderly (idle_site ?w) ?s1"
    using site_next [OF site_start] by (simp add: idle_site_def)
  let ?s2 = "?s1\<lparr>siUpdate := Some JUpdate\<rparr>"
  have "site_step memory_docker orderly ?s1 ?s2" by (rule update_begins) (simp add: idle_site_def)
  with 1 have 2: "site_reach memory_docker orderly (idle_site ?w) ?s2" by (rule site_next)
  have "known set {''other''} ?w" by (simp add: known_def demo_restarting_ok contained_def)
  from containers_covered [OF memory_docker_laws demo_restarting_ok(1) this 2]
  have "covered set {''other''} (holds (JEvent ?t)) (siWorker ?s2)" by (simp add: idle_site_def)
  with 2 show ?thesis by (intro exI [of _ ?s2] exI [of _ "JEvent ?t"]) (simp add: idle_site_def)
qed

end
