(* ===== verification/Cluster.thy ===== *)
theory Cluster
  imports Loops
begin

text \<open>
  The manager and a worker together: what the manager sends is what the worker's handlers are asked, and
  their replies are the answers the manager meets. A submitted task that can be placed and whose container
  the daemon starts is running, on record on both sides, after one dispatch, one turn of the worker and
  one report.
\<close>

section \<open>The exchanges\<close>

text \<open>JSON encodes and decodes a body faithfully; a body of another type leaves the zero value.\<close>

definition as_post :: "reply \<Rightarrow> post_response" where
  "as_post rep =
     \<lparr>prStatus = rpStatus rep, prTask = (case rpBody rep of TaskBody t \<Rightarrow> t | _ \<Rightarrow> zero_task),
      prMessage = (case rpBody rep of Message s \<Rightarrow> s | _ \<Rightarrow> [])\<rparr>"

definition deliver :: "'d wenv \<Rightarrow> inflight \<Rightarrow> 'd worker \<Rightarrow> post_result \<times> 'd worker" where
  "deliver v fl w = (case wk_StartTaskHandler v (Inr (ifEvent fl)) w of (rep, w) \<Rightarrow> (Inr (as_post rep), w))"

definition as_list :: "reply \<Rightarrow> task list http_response" where
  "as_list rep =
     \<lparr>StatusCode = rpStatus rep, Body = (case rpBody rep of TaskList ts \<Rightarrow> Inr ts | _ \<Rightarrow> Inr [])\<rparr>"

definition report :: "'d worker \<Rightarrow> (gerror + task list http_response) \<times> 'd worker" where
  "report w = (case wk_GetTasksHandler w of (rep, w) \<Rightarrow> (Inr (as_list rep), w))"

section \<open>The manager's half\<close>

definition working :: "manager \<Rightarrow> bool" where
  "working m \<longleftrightarrow> mgr_wf m \<and> db_healthy (mTaskDb m) \<and> db_healthy (mAssignments m)"

lemma workingD: "working m \<Longrightarrow> mgr_wf m" "working m \<Longrightarrow> db_healthy (mTaskDb m)" "working m \<Longrightarrow> db_healthy (mAssignments m)"
  by (simp_all add: working_def)

lemma working_same_stores: "same_stores m m' \<Longrightarrow> working m' = working m"
  by (simp add: working_def same_storesD)

lemma reads_tasks_assignments: "reads_tasks m m' \<Longrightarrow> mAssignments m' = mAssignments m"
  by (auto simp: reads_tasks_def)

lemma accept_task_stores:
  assumes "accept_task e t m = (r, m')"
  shows "mAssignments m' = mAssignments m" "db_healthy (mTaskDb m) \<Longrightarrow> db_healthy (mTaskDb m')"
proof -
  have "mAssignments m' = mAssignments m \<and> (db_healthy (mTaskDb m) \<longrightarrow> db_healthy (mTaskDb m'))"
    using accept_task_cases [OF assms]
  proof (elim disjE conjE exE)
    fix m1 m2
    assume a: "reads_tasks m m1" "name_check e (tName t) m1 = (None, m2)"
      "db_Put (tID t) (t\<lparr>tState := Pending\<rparr>) (mTaskDb m2) = (None, mTaskDb m')" "m' = m2\<lparr>mTaskDb := mTaskDb m'\<rparr>"
    have r: "reads_tasks m m2" using reads_tasks_trans [OF a(1) name_check_reads [of m1 e "tName t"]] a(2) by simp
    have "mAssignments m' = mAssignments m2" by (subst a(4)) simp
    moreover have "db_healthy (mTaskDb m')" if "db_healthy (mTaskDb m)"
      using db_healthy_ops(1) [of "mTaskDb m2" "tID t" "t\<lparr>tState := Pending\<rparr>"] reads_tasksD [OF r] that a(3) by auto
    ultimately show ?thesis using reads_tasks_assignments [OF r] by simp
  qed (auto simp: reads_tasks_assignments reads_tasksD)
  then show "mAssignments m' = mAssignments m" "db_healthy (mTaskDb m) \<Longrightarrow> db_healthy (mTaskDb m')" by simp_all
qed

lemma AddTask_working:
  assumes "AddTask e te m = (r, m')" "working m"
  shows "working m'"
proof -
  have "mAssignments m' = mAssignments m \<and> db_healthy (mTaskDb m')"
    using assms accept_task_stores [of e "eTask te" m]
    by (auto simp: AddTask_def working_def wake_both_def enqueuePending_def
        split: option.splits prod.splits if_splits)
  with assms(2) AddTask_wf [OF assms(1)] show ?thesis by (simp add: working_def)
qed

text \<open>A start of a task that no worker owns, once it is on its way.\<close>

lemma dispatch_start:
  assumes "dispatch_prepare e m = (Some fl, m')" "working m" "q_items (mPending m) = [te]" "\<not> is_stop te"
    and "asg_view m (tID (eTask te)) = None"
  shows "ifEvent fl = outgoing e te" "ifTask fl = eTask (outgoing e te)" "\<not> ifStop fl"
    "working m'" "task_view m' = task_view m" "asg_view m' = asg_view m"
proof -
  let ?i = "tID (eTask te)"
  define m1 where "m1 = snd (dequeuePending m)"
  have m1: "dequeuePending m = (Some te, m1)" using assms(3) by (simp add: m1_def dequeuePending_def Dequeue_def)
  have 1: "same_stores m m1" unfolding m1_def by (rule quiet_queue(4))
  have w1: "working m1" "task_view m1 = task_view m" "asg_view m1 = asg_view m"
    using 1 assms(2) by (simp_all add: working_same_stores same_storesD)
  let ?m2 = "m1\<lparr>mAssignments := snd (readAssignment ?i (mAssignments m1))\<rparr>"
  have owner: "taskWorker ?i m1 = ([], ?m2)"
  proof -
    have "fst (readAssignment ?i (mAssignments m1)) = []"
      using readAssignment_owner [of ?i "mAssignments m1"] assms(5) w1(3) by auto
    then show ?thesis by (simp add: task_io)
  qed
  have w2: "working ?m2" using w1(1) by (simp add: working_def readAssignment_alt)
  have d: "dispatch_unowned_start e te ?m2 = (Some fl, m')"
    using assms(1,4) m1 owner by (simp add: dispatch_prepare_def dispatch_event_def)
  obtain g m3 where g: "getTask ?i ?m2 = (g, m3)" by fastforce
  have 3: "reads_tasks ?m2 m3" using getTask_others [of ?m2 ?i] g by simp
  have w3: "working m3" "task_view m3 = task_view m" "asg_view m3 = asg_view m"
    using w2 w1 reads_tasksD [OF 3] reads_tasks_assignments [OF 3] by (simp_all add: working_def)
  obtain r m4 where s: "selectAndReserveWorker e (eTask te) [] m3 = (r, m4)" by fastforce
  have 4: "same_stores m3 m4" using selectAndReserve_stores [of m3 e "eTask te" "[]"] s by simp
  obtain n where "r = Inr n" "launch e te n True m4 = (Some fl, m')"
    using d g s by (auto simp: dispatch_unowned_start_def split: option.splits sum.splits)
  then have l: "fl = \<lparr>ifWorker = nAddress n, ifTask = eTask (outgoing e te), ifEvent = outgoing e te,
      ifStop = is_stop te, ifReserved = True\<rparr>" "m' = m4"
    using launch_cases(5) by blast+
  then show "ifEvent fl = outgoing e te" "ifTask fl = eTask (outgoing e te)" "\<not> ifStop fl"
    using assms(4) by simp_all
  show "working m'" "task_view m' = task_view m" "asg_view m' = asg_view m"
    using 4 w3 by (simp_all add: l(2) working_same_stores same_storesD)
qed

text \<open>The commit of an accepted start does not fail while the stores work.\<close>

lemma commit_healthy:
  assumes "working m"
  shows "\<exists>old. fst (commit i w t orig m) = Committed old"
    "db_healthy (mTaskDb (snd (commit i w t orig m)))" "db_healthy (mAssignments (snd (commit i w t orig m)))"
proof -
  obtain r1 d1 where ra: "readAssignmentState i (mAssignments m) = (r1, d1)" by fastforce
  have h: "db_healthy (mAssignments m)" "db_healthy (mTaskDb m)" using assms by (simp_all add: working_def)
  have h1: "db_healthy d1" using readAssignmentState_snd [of i "mAssignments m"] ra h(1) by auto
  have "\<exists>old. r1 = Inr old"
    using ra h(1) db_healthy_Get [OF h(1), of i]
    by (auto simp: readAssignmentState_def not_found_def split: option.splits sum.splits if_splits prod.splits)
  then obtain old where r1: "r1 = Inr old" ..
  obtain r2 d2 where sa: "setAssignment i w d1 = (r2, d2)" by fastforce
  have h2: "r2 = None" "db_healthy d2"
  proof -
    have "fst (setAssignment i w d1) = None \<and> db_healthy (snd (setAssignment i w d1))"
      using h1 by (simp add: setAssignment_def)
    with sa show "r2 = None" "db_healthy d2" by simp_all
  qed
  show "\<exists>old. fst (commit i w t orig m) = Committed old"
    "db_healthy (mTaskDb (snd (commit i w t orig m)))" "db_healthy (mAssignments (snd (commit i w t orig m)))"
    using ra r1 sa h h2 by (simp_all add: commit_def task_io)
qed

lemma finish_start:
  assumes "working m" "\<not> ifStop fl" "prStatus resp = 201" "task_view m (tID (ifTask fl)) = Some p"
  shows "task_view (dispatch_finish e fl (Inr resp) m) = (task_view m)(tID (ifTask fl) \<mapsto> ifTask fl)"
    "asg_view (dispatch_finish e fl (Inr resp) m) =
       (asg_view m)(tID (ifTask fl) \<mapsto> \<lparr>asTaskID = tID (ifTask fl), asWorker = ifWorker fl\<rparr>)"
    "db_healthy (mTaskDb (dispatch_finish e fl (Inr resp) m))"
proof -
  let ?i = "tID (ifTask fl)" and ?m0 = "store_event (ifEvent fl) m"
  let ?m1 = "?m0\<lparr>mTaskDb := snd (db_Get ?i (mTaskDb ?m0))\<rparr>"
  have w0: "db_healthy (mTaskDb ?m0)" "mTaskDb ?m0 \<noteq> None" using assms(1) by (simp_all add: working_def)
  have g: "fst (db_Get ?i (mTaskDb ?m0)) = Inr p" using db_healthy_Get [OF w0(1), of ?i] assms(4) by simp
  have m0: "working ?m0" using assms(1) flowsD [OF flows_store_event, of m "ifEvent fl"] by (simp add: working_def)
  have m1: "working ?m1" "task_view ?m1 ?i = Some p"
  proof -
    have "mgr_wf ?m1" by (rule mgr_wf_io(2)) (rule workingD(1) [OF m0])
    then show "working ?m1" using assms(1) by (simp add: working_def)
    show "task_view ?m1 ?i = Some p" using assms(4) by simp
  qed
  obtain old m2 where c: "commit ?i (ifWorker fl) (ifTask fl) p ?m1 = (Committed old, m2)"
    using commit_healthy(1) [OF m1(1)] by (metis prod.collapse)
  have "commit_start fl ?m0 = (Started, m2)"
    using w0(2) g c by (simp add: commit_start_def task_io Let_def del: not_None_eq store_event_frame)
  then have fin: "dispatch_finish e fl (Inr resp) m = wake_update m2"
    using assms(2,3) by (simp add: dispatch_finish_def start_accepted_def StatusCreated_def StatusNotFound_def)
  have "task_view ?m1 = task_view m" "asg_view ?m1 = asg_view m" by simp_all
  with commit_effect [OF c m1(2) refl]
  show "task_view (dispatch_finish e fl (Inr resp) m) = (task_view m)(?i \<mapsto> ifTask fl)"
    "asg_view (dispatch_finish e fl (Inr resp) m) = (asg_view m)(?i \<mapsto> \<lparr>asTaskID = ?i, asWorker = ifWorker fl\<rparr>)"
    by (simp_all add: fin)
  show "db_healthy (mTaskDb (dispatch_finish e fl (Inr resp) m))"
    using commit_healthy(2) [OF m1(1), of ?i "ifWorker fl" "ifTask fl" p] c by (simp add: fin wake_update_def)
qed

text \<open>One report of a worker, and the rest of its list.\<close>

lemma update_one_healthy:
  assumes "db_healthy (mTaskDb m)"
  shows "db_healthy (mTaskDb (update_one e a t m))" "asg_view (update_one e a t m) = asg_view m"
    "i \<noteq> tID t \<Longrightarrow> task_view (update_one e a t m) i = task_view m i"
    "task_view m (tID t) = Some p \<Longrightarrow> tRestartCount t = tRestartCount p
       \<Longrightarrow> task_view (update_one e a t m) (tID t) = Some (merge_report e p t)"
  using assms db_healthy_Get [OF assms, of "tID t"]
  by (auto simp: update_one_def task_io forgetTaskOnWorker_def db_Put_view split: sum.split)

lemma update_list_others:
  assumes "db_healthy (mTaskDb m)" "i \<notin> tID ` set ts"
  shows "db_healthy (mTaskDb (fold (update_one e a) ts m)) \<and> asg_view (fold (update_one e a) ts m) = asg_view m
    \<and> task_view (fold (update_one e a) ts m) i = task_view m i"
  using assms by (induction ts arbitrary: m) (simp_all add: update_one_healthy)

lemma update_list_one:
  assumes "db_healthy (mTaskDb m)" "distinct (map tID ts)" "t \<in> set ts" "task_view m (tID t) = Some p"
    and "tRestartCount t = tRestartCount p"
  shows "task_view (fold (update_one e a) ts m) (tID t) = Some (merge_report e p t)"
    "asg_view (fold (update_one e a) ts m) = asg_view m"
proof -
  obtain xs ys where ts: "ts = xs @ t # ys" using split_list [OF assms(3)] by blast
  have d: "tID t \<notin> tID ` set xs" "tID t \<notin> tID ` set ys" using assms(2) by (auto simp: ts)
  let ?m1 = "fold (update_one e a) xs m"
  note 1 = update_list_others [OF assms(1) d(1), of e a]
  then have p: "task_view ?m1 (tID t) = Some p" using assms(4) by simp
  have h: "db_healthy (mTaskDb ?m1)" using 1 by blast
  let ?m2 = "update_one e a t ?m1"
  have 2: "db_healthy (mTaskDb ?m2)" "asg_view ?m2 = asg_view ?m1" "task_view ?m2 (tID t) = Some (merge_report e p t)"
    using h p assms(5) by (simp_all add: update_one_healthy)
  note 3 = update_list_others [OF 2(1) d(2), of e a]
  show "task_view (fold (update_one e a) ts m) (tID t) = Some (merge_report e p t)"
    using 3 2(3) by (simp add: ts)
  show "asg_view (fold (update_one e a) ts m) = asg_view m" using 1 2(2) 3 by (simp add: ts)
qed

section \<open>The worker's half\<close>

lemma wk_list:
  assumes "wk_ok w" "wk_getTasks w = (ts, w')"
  shows "set ts = ran (wk_view w)" "distinct (map tID ts)" "wk_view w' = wk_view w" "wDocker w' = wDocker w"
    "wk_ok w'" "wQueue w' = wQueue w"
proof -
  have h: "db_healthy (wDb w)" "db_wf (wDb w)" "wDb w \<noteq> None" using assms(1) by (simp_all add: wk_ok_def)
  obtain vs where vs: "fst (db_List (wDb w)) = Inr vs" using db_healthy_List [OF h(1)] ..
  have ts: "ts = vs" "w' = w\<lparr>wDb := snd (db_List (wDb w))\<rparr>"
    using assms(2) h(3) vs by (auto simp: wk_getTasks_def wk_listTasks_def split: prod.splits sum.splits)
  note l = db_List_Inr [OF h(2) vs]
  show "set ts = ran (wk_view w)" using l by (simp add: ts(1) wk_view_def)
  show "wk_view w' = wk_view w" "wDocker w' = wDocker w" "wQueue w' = wQueue w" by (simp_all add: ts(2) wk_view_def)
  show "wk_ok w'" using assms(1) h by (simp add: ts(2) wk_ok_def wk_view_def)
  show "distinct (map tID ts)"
    unfolding ts(1) by (rule db_List_distinct [OF h(2) vs]) (use assms(1) in \<open>simp add: wk_ok_def wk_view_def\<close>)
qed

text \<open>A start of a task that is new to the worker is accepted, on record and in the queue.\<close>

lemma deliver_start:
  assumes "wk_ok w" "wk_view w (tID t) = None" "Validate (veExt v) t = None" "tState t = Scheduled"
    and "ifEvent fl = te" "eTask te = t" "\<not> is_stop te"
  shows "\<exists>resp w'. deliver v fl w = (Inr resp, w') \<and> prStatus resp = 201 \<and> prTask resp = t \<and> wk_ok w'
    \<and> wk_view w' = (wk_view w)(tID t \<mapsto> t) \<and> q_items (wQueue w') = q_items (wQueue w) @ [t] \<and> wDocker w' = wDocker w"
proof -
  obtain r w1 where g: "wk_Get (tID t) w = (r, w1)" by fastforce
  have db: "wDb w \<noteq> None" using assms(1) by (simp add: wk_ok_def)
  note ge = wk_Get_effect [OF assms(1), of "tID t"]
  have r: "r = Inl not_found" using ge(1) g assms(2) by simp
  have w1: "wk_ok w1" "wk_view w1 = wk_view w" "wDocker w1 = wDocker w" "wQueue w1 = wQueue w" using ge g by simp_all
  obtain k w2 where p: "wk_Put (tID t) t w1 = (k, w2)" by fastforce
  note pe = wk_Put_effect [OF w1(1) refl, of t]
  have w2: "k = None" "wk_ok w2" "wk_view w2 = (wk_view w)(tID t \<mapsto> t)" "wDocker w2 = wDocker w" "wQueue w2 = wQueue w"
    using pe p w1 by simp_all
  have add: "wk_AddTask v t w = (None, wk_enqueue t w2)"
    using assms(3,4) db g r p w2(1) by (simp add: wk_AddTask_def accept_start_def not_found_def del: not_None_eq)
  have enq: "wk_ok (wk_enqueue t w2) = wk_ok w2" "wk_view (wk_enqueue t w2) = wk_view w2"
    "wDocker (wk_enqueue t w2) = wDocker w2" "q_items (wQueue (wk_enqueue t w2)) = q_items (wQueue w2) @ [t]"
    by (simp_all add: wk_enqueue_def Enqueue_def wk_ok_def wk_view_def)
  have "deliver v fl w = (Inr \<lparr>prStatus = 201, prTask = t, prMessage = []\<rparr>, wk_enqueue t w2)"
    using assms(5-7) add Validate_ports [OF assms(3)]
    by (simp add: deliver_def wk_StartTaskHandler_def as_post_def is_stop_def)
  with enq w2 show ?thesis by auto
qed

text \<open>The daemon starts every container of this specification.\<close>

definition can_run :: "'d wenv \<Rightarrow> task \<Rightarrow> bool" where
  "can_run v t \<longleftrightarrow> NewDocker (veApi v) = None
     \<and> (\<forall>u d. spec_of u = spec_of t \<longrightarrow> drError (fst (d_Run (veExt v) (veApi v) (veDefaults v) (NewConfig u) d)) = None)"

lemma record_started_effect:
  assumes "wk_ok w" "docker_laws live (veApi v)"
  shows "\<exists>ps. wk_view (record_started v t c w)
        = (wk_view w)(tID t \<mapsto> t\<lparr>tContainerID := c, tState := Running, tHostPorts := ps\<rparr>)
      \<and> wk_ok (record_started v t c w) \<and> live (wDocker (record_started v t c w)) = live (wDocker w)"
proof -
  obtain r w1 where i: "docker_Inspect v c w = (r, w1)" by fastforce
  have q: "wk_quiet w w1" using wk_quiet_docker(2) [of w v c] i by simp
  have l: "live (wDocker w1) = live (wDocker w)" using docker_live(2) [OF assms(2), of c w] i by simp
  have ok: "wk_ok w1" "wk_view w1 = wk_view w" using q assms(1) by (simp_all add: wk_quietD)
  let ?q = "\<lambda>ps. t\<lparr>tContainerID := c, tState := Running, tHostPorts := ps\<rparr>"
  have "record_started v t c w = setTask (?q (case r of Inl err \<Rightarrow> tHostPorts t
      | Inr resp \<Rightarrow> (case inPorts resp of None \<Rightarrow> tHostPorts t | Some ps \<Rightarrow> PortMappingsFromPortMap ps))) w1"
    using i by (simp add: record_started_def Let_def split: sum.split option.split)
  with setTask_effect [OF ok(1), of "?q ps" for ps] ok(2) l show ?thesis by auto
qed

text \<open>A turn with one start in the queue runs it.\<close>

lemma turn_starts:
  assumes "wk_ok w" "q_items (wQueue w) = [t]" "wk_view w (tID t) = Some t" "tState t = Scheduled"
  obtains w2 where "wk_ok w2" "wk_view w2 = wk_view w" "wDocker w2 = wDocker w" "q_items (wQueue w2) = []"
    "\<forall>res w'. StartTask v t w2 = (res, w') \<longrightarrow> drError res = None
       \<longrightarrow> RunTasks_turn v w = w'\<lparr>wUpdateWaker := Wake (wUpdateWaker w')\<rparr>"
proof -
  define rest where "rest = snd (Dequeue (wQueue w))"
  have q: "Dequeue (wQueue w) = (Some t, rest)" "queue_Len (wQueue w) \<noteq> 0" "q_items rest = []"
    using assms(2) by (simp_all add: rest_def Dequeue_def queue_Len_def)
  define w1 where "w1 = w\<lparr>wQueue := rest\<rparr>"
  have w1: "wk_ok w1" "wk_view w1 = wk_view w" "wDocker w1 = wDocker w" "wQueue w1 = rest"
    using assms(1) by (simp_all add: w1_def wk_ok_def wk_view_def)
  have run: "runTask v w = run_event v t w1" using q(1) by (simp add: runTask_def w1_def)
  obtain r w2 where g: "wk_Get (tID t) w1 = (r, w2)" by fastforce
  have w2: "r = Inr t" "wk_ok w2" "wk_view w2 = wk_view w" "wDocker w2 = wDocker w" "wQueue w2 = rest"
    using wk_Get_effect [OF w1(1), of "tID t"] g w1 assms(3) by simp_all
  have "mergeQueuedWithPersisted t t = t" using assms(4) by (simp add: mergeQueuedWithPersisted_def)
  moreover have "wDb w1 \<noteq> None" using w1(1) by (simp add: wk_ok_def)
  ultimately have ev: "run_event v t w1 = StartTask v t w2"
    using g w2(1) assms(4) by (simp add: run_event_def run_record_def ValidStateTransition_def del: not_None_eq)
  show ?thesis by (rule that [of w2]) (use w2 q(2,3) run ev in \<open>simp_all add: RunTasks_turn_def\<close>)
qed

section \<open>The daemon's future\<close>

text \<open>The states a daemon can get to by what its clients ask of it.\<close>

inductive daemon_later :: "'d docker_api \<Rightarrow> 'd \<Rightarrow> 'd \<Rightarrow> bool" for api where
  later_now: "daemon_later api d d"
| later_inspect: "daemon_later api d d1 \<Longrightarrow> dkContainerInspect api i d1 = (r, d2) \<Longrightarrow> daemon_later api d d2"
| later_image: "daemon_later api d d1 \<Longrightarrow> dkImageInspect api i d1 = (r', d2) \<Longrightarrow> daemon_later api d d2"
| later_pull: "daemon_later api d d1 \<Longrightarrow> dkImagePull api i d1 = (p, d2) \<Longrightarrow> daemon_later api d d2"
| later_logs: "daemon_later api d d1 \<Longrightarrow> dkContainerLogs api i n d1 = (l, d2) \<Longrightarrow> daemon_later api d d2"
| later_create: "daemon_later api d d1 \<Longrightarrow> dkContainerCreate api opts d1 = (c, d2) \<Longrightarrow> daemon_later api d d2"
| later_start: "daemon_later api d d1 \<Longrightarrow> dkContainerStart api i d1 = (e, d2) \<Longrightarrow> daemon_later api d d2"
| later_stop: "daemon_later api d d1 \<Longrightarrow> dkContainerStop api i d1 = (e, d2) \<Longrightarrow> daemon_later api d d2"
| later_remove: "daemon_later api d d1 \<Longrightarrow> dkContainerRemove api i d1 = (e, d2) \<Longrightarrow> daemon_later api d d2"

lemma later_trans:
  assumes "daemon_later api b c" "daemon_later api a b"
  shows "daemon_later api a c"
  using assms by (induction rule: daemon_later.induct) (auto intro: daemon_later.intros)

lemmas later_steps = daemon_later.intros(2-9) [OF later_now]

text \<open>The IDs the daemon may yet give to containers.\<close>

definition made_since :: "'d docker_api \<Rightarrow> 'd \<Rightarrow> string \<Rightarrow> bool" where
  "made_since api d c \<longleftrightarrow> (\<exists>d1 opts d2. daemon_later api d d1 \<and> dkContainerCreate api opts d1 = (Inr c, d2))"

lemma made_since_later: "daemon_later api d d1 \<Longrightarrow> made_since api d1 c \<Longrightarrow> made_since api d c"
  unfolding made_since_def by (blast intro: later_trans)

lemma later_Inspect: "d_Inspect api i d = (r, d') \<Longrightarrow> daemon_later api d d'"
  unfolding d_Inspect_def by (rule later_steps(1))

lemma later_Logs: "d_Logs api i n d = (r, d') \<Longrightarrow> daemon_later api d d'"
  by (auto simp: d_Logs_def intro: later_now later_steps split: if_splits prod.splits sum.splits)

lemma later_Pull: "d_Pull api img d = (r, d') \<Longrightarrow> daemon_later api d d'"
  by (auto simp: d_Pull_def intro: later_steps later_pull [OF later_steps(2)]
      split: if_splits prod.splits sum.splits option.splits)

lemma later_Stop:
  assumes "d_Stop api i d = (r, d')"
  shows "daemon_later api d d'"
proof (cases "i = []")
  case True
  then show ?thesis using assms by (simp add: d_Stop_def later_now)
next
  case False
  obtain e1 d1 where 1: "dkContainerStop api i d = (e1, d1)" by fastforce
  obtain e2 d2 where 2: "dkContainerInspect api i d1 = (e2, d2)" by fastforce
  obtain e3 d3 where 3: "dkContainerRemove api i d2 = (e3, d3)" by fastforce
  have "d' = d3" using assms False 1 2 3 by (auto simp: d_Stop_def Let_def split: option.splits if_splits)
  then show ?thesis using later_remove [OF later_inspect [OF later_steps(7) [OF 1] 2] 3] by simp
qed

lemma later_cleanup: "run_cleanup api i err d = (r, d') \<Longrightarrow> daemon_later api d d'"
  by (auto simp: run_cleanup_def intro: later_steps split: prod.splits option.splits)

lemma later_created:
  assumes "run_created api i d = (r, d')"
  shows "daemon_later api d d'"
proof -
  obtain e d1 where s: "dkContainerStart api i d = (e, d1)" by fastforce
  have "daemon_later api d d1" by (rule later_steps(6) [OF s])
  with assms s show ?thesis
    by (auto simp: run_created_def dest!: later_cleanup intro: later_trans later_logs split: option.splits prod.splits sum.splits)
qed

lemma later_Run:
  assumes "d_Run x api hcd c d = (res, d')"
  shows "daemon_later api d d'" "drError res = None \<Longrightarrow> made_since api d (drContainerID res)"
proof -
  obtain p d1 where p: "d_Pull api (cfgImage c) d = (p, d1)" by fastforce
  have 1: "daemon_later api d d1" by (rule later_Pull [OF p])
  have "daemon_later api d d' \<and> (drError res = None \<longrightarrow> made_since api d (drContainerID res))"
  proof (cases "\<exists>opts i d2. dkContainerCreate api opts d1 = (Inr i, d2) \<and> run_created api i d2 = (res, d')")
    case True
    then obtain opts i d2 where c: "dkContainerCreate api opts d1 = (Inr i, d2)" "run_created api i d2 = (res, d')" by blast
    have "daemon_later api d d'" by (rule later_trans [OF later_created [OF c(2)] later_create [OF 1 c(1)]])
    moreover have "drError res = None \<Longrightarrow> drContainerID res = i"
      using c(2) by (auto simp: run_created_def run_cleanup_def docker_error_def split: prod.splits option.splits sum.splits)
    ultimately show ?thesis using 1 c(1) by (auto simp: made_since_def)
  next
    case False
    then show ?thesis using assms p 1
      by (auto simp: d_Run_def docker_error_def intro: later_create split: prod.splits option.splits sum.splits)
  qed
  then show "daemon_later api d d'" "drError res = None \<Longrightarrow> made_since api d (drContainerID res)" by simp_all
qed

text \<open>The same of a worker's calls.\<close>

lemma docker_later:
  "docker_Logs v c n w = (l, w') \<Longrightarrow> daemon_later (veApi v) (wDocker w) (wDocker w')"
  "docker_Inspect v c w = (i, w') \<Longrightarrow> daemon_later (veApi v) (wDocker w) (wDocker w')"
  "docker_Stop v c w = (s, w') \<Longrightarrow> daemon_later (veApi v) (wDocker w) (wDocker w')"
  "docker_Run v t w = (r, w') \<Longrightarrow> daemon_later (veApi v) (wDocker w) (wDocker w')"
  "docker_Run v t w = (r, w') \<Longrightarrow> drError r = None \<Longrightarrow> made_since (veApi v) (wDocker w) (drContainerID r)"
  by (auto simp: docker_Logs_def docker_Inspect_def docker_Stop_def docker_Run_def
      dest: later_Logs later_Inspect later_Stop later_Run split: prod.splits)

lemma container_starts:
  assumes "wk_ok w" "docker_laws live (veApi v)" "can_run v t" "spec_of u = spec_of t"
  obtains res w' ps where "run_container v u w = (res, w')" "drError res = None"
    "made_since (veApi v) (wDocker w) (drContainerID res)" "daemon_later (veApi v) (wDocker w) (wDocker w')"
    "drContainerID res \<notin> live (wDocker w)" "live (wDocker w') = insert (drContainerID res) (live (wDocker w))"
    "wk_ok w'" "wk_view w' = (wk_view w)(tID u \<mapsto>
       u\<lparr>tContainerID := drContainerID res, tState := Running, tHostPorts := ps\<rparr>)"
proof -
  obtain res w4 where d: "docker_Run v u w = (res, w4)" by fastforce
  have "drError (fst (docker_Run v u w)) = None"
    using assms(3,4) unfolding can_run_def docker_Run_def by (simp add: case_prod_beta)
  then have ok: "drError res = None" using d by simp
  have "wk_quiet w w4" using wk_quiet_docker(4) [of w v u] d by simp
  then have w4: "wk_ok w4" "wk_view w4 = wk_view w" using assms(1) by (simp_all add: wk_quietD)
  have l4: "drContainerID res \<notin> live (wDocker w)" "live (wDocker w4) = insert (drContainerID res) (live (wDocker w))"
    using docker_live(4) [OF assms(2), of u w] d ok by auto
  define w5 where "w5 = record_started v u (drContainerID res) w4"
  obtain ps where r5: "wk_view w5 = (wk_view w)(tID u \<mapsto>
        u\<lparr>tContainerID := drContainerID res, tState := Running, tHostPorts := ps\<rparr>)"
      "wk_ok w5" "live (wDocker w5) = live (wDocker w4)"
    using record_started_effect [OF w4(1) assms(2), of u "drContainerID res"] w4(2) by (auto simp: w5_def)
  have rc: "run_container v u w = (res, w5)" using d ok by (simp add: run_container_def w5_def)
  have l5: "live (wDocker w5) = insert (drContainerID res) (live (wDocker w))" using r5(3) l4(2) by simp
  obtain r w6 where i: "docker_Inspect v (drContainerID res) w4 = (r, w6)" by fastforce
  have "wDocker w5 = wDocker w6"
    using i by (simp add: w5_def record_started_def Let_def setTask_def wk_io case_prod_beta split: sum.split option.split)
  then have "daemon_later (veApi v) (wDocker w) (wDocker w5)"
    using later_trans [OF docker_later(2) [OF i] docker_later(4) [OF d]] by simp
  from that [OF rc ok docker_later(5) [OF d ok] this l4(1) l5 r5(2,1)] show ?thesis .
qed

text \<open>
  The start removes the container the event names, if any, and runs a new one.
\<close>

definition can_stop :: "'d wenv \<Rightarrow> bool" where
  "can_stop v \<longleftrightarrow> (\<forall>c d. c \<noteq> [] \<longrightarrow> drError (fst (d_Stop (veApi v) c d)) = None)"

definition removed :: "string \<Rightarrow> string set \<Rightarrow> string set" where
  "removed c cs = (if c = [] then cs else cs - {c})"

lemma removed_simps [simp]: "removed [] cs = cs" "c \<noteq> [] \<Longrightarrow> removed c cs = cs - {c}"
  by (simp_all add: removed_def)

lemma run_start:
  assumes "wk_ok w" "docker_laws live (veApi v)" "can_run v t" "tContainerID t \<noteq> [] \<Longrightarrow> can_stop v"
    and "q_items (wQueue w) = [t]" "wk_view w (tID t) = Some t" "Validate (veExt v) t = None" "tState t = Scheduled"
  shows "\<exists>c ps. wk_view (RunTasks_turn v w) = (wk_view w)(tID t \<mapsto> t\<lparr>tStartTime := veNow v, tContainerID := c,
        tState := Running, tHostPorts := ps\<rparr>)
      \<and> made_since (veApi v) (wDocker w) c \<and> daemon_later (veApi v) (wDocker w) (wDocker (RunTasks_turn v w))
      \<and> c \<notin> removed (tContainerID t) (live (wDocker w))
      \<and> live (wDocker (RunTasks_turn v w)) = insert c (removed (tContainerID t) (live (wDocker w)))
      \<and> wk_ok (RunTasks_turn v w) \<and> q_items (wQueue (RunTasks_turn v w)) = []"
proof -
  obtain w2 where w2: "wk_ok w2" "wk_view w2 = wk_view w" "wDocker w2 = wDocker w" "q_items (wQueue w2) = []"
    and turn: "\<forall>res w'. StartTask v t w2 = (res, w') \<longrightarrow> drError res = None
       \<longrightarrow> RunTasks_turn v w = w'\<lparr>wUpdateWaker := Wake (wUpdateWaker w')\<rparr>"
    by (rule turn_starts [OF assms(1,5,6,8), where v = v])
  define w3 where "w3 = (if tRestartCount t > 0 \<or> tContainerID t \<noteq> [] then clearStoredLogs (tID t) w2 else w2)"
  have q3: "wk_quiet w2 w3" "wDocker w3 = wDocker w" using w2(3) by (simp_all add: w3_def)
  let ?u = "t\<lparr>tStartTime := veNow v, tHostPorts := []\<rparr>"
  define w4 where "w4 = (if tContainerID t = [] then w3 else snd (docker_Stop v (tContainerID t) w3))"
  have q4: "wk_quiet w2 w4" unfolding w4_def using q3(1) wk_quiet_trans [OF q3(1) wk_quiet_docker(3)] by simp
  have stop: "drError (fst (docker_Stop v (tContainerID t) w3)) = None" if "tContainerID t \<noteq> []"
    using assms(4) [OF that] that by (simp add: docker_Stop_def can_stop_def case_prod_beta)
  have l4: "live (wDocker w4) = removed (tContainerID t) (live (wDocker w))"
    using docker_live(3) [OF assms(2), of "tContainerID t" w3] stop q3(2) by (auto simp: w4_def)
  have w4: "wk_ok w4" "wk_view w4 = wk_view w" using q4 w2 by (simp_all add: wk_quietD)
  have d4: "daemon_later (veApi v) (wDocker w) (wDocker w4)"
    using docker_later(3) [of v "tContainerID t" w3] q3(2) by (cases "docker_Stop v (tContainerID t) w3") (auto simp: w4_def later_now)
  let ?u' = "?u\<lparr>tContainerID := []\<rparr>"
  have "spec_of ?u' = spec_of t" by simp
  from container_starts [OF w4(1) assms(2,3) this] obtain res w' ps where r: "run_container v ?u' w4 = (res, w')"
    "drError res = None" "made_since (veApi v) (wDocker w4) (drContainerID res)"
    "daemon_later (veApi v) (wDocker w4) (wDocker w')" "drContainerID res \<notin> live (wDocker w4)"
    "live (wDocker w') = insert (drContainerID res) (live (wDocker w4))" "wk_ok w'"
    "wk_view w' = (wk_view w4)(tID ?u' \<mapsto> ?u'\<lparr>tContainerID := drContainerID res, tState := Running, tHostPorts := ps\<rparr>)"
    by blast
  have st: "StartTask v t w2 = (res, w')"
  proof (cases "tContainerID t = []")
    case True
    then have "?u' = ?u" by (cases t) simp
    with True r(1) have "run_container v ?u w3 = (res, w')" by (simp add: w4_def)
    with True assms(3,7) show ?thesis by (simp add: StartTask_def can_run_def w3_def Let_def)
  next
    case False
    have w3': "w3 = clearStoredLogs (tID t) w2" using False by (simp add: w3_def)
    obtain x where "docker_Stop v (tContainerID t) w3 = (x, w4)" "drError x = None"
      using stop [OF False] False by (simp add: w4_def) (metis prod.collapse)
    with False assms(3,7) r(1) show ?thesis by (simp add: StartTask_def can_run_def w3' Let_def)
  qed
  note eq = turn [rule_format, OF st r(2)]
  have "wQueue w' = wQueue w2"
    using StartTask_replaced [OF assms(2) w2(1) refl, of t] st by (simp add: replaced_def)
  moreover have "?u'\<lparr>tContainerID := drContainerID res, tState := Running, tHostPorts := ps\<rparr>
      = t\<lparr>tStartTime := veNow v, tContainerID := drContainerID res, tState := Running, tHostPorts := ps\<rparr>" by simp
  moreover have "wk_ok (RunTasks_turn v w) = wk_ok w'" "wk_view (RunTasks_turn v w) = wk_view w'"
    "wDocker (RunTasks_turn v w) = wDocker w'" "wQueue (RunTasks_turn v w) = wQueue w'"
    by (simp_all add: eq wk_ok_def wk_view_def)
  moreover have "made_since (veApi v) (wDocker w) (drContainerID res)" "daemon_later (veApi v) (wDocker w) (wDocker w')"
    using made_since_later [OF d4 r(3)] later_trans [OF r(4) d4] by simp_all
  ultimately show ?thesis using r w4(2) w2(4) l4 by (intro exI [of _ "drContainerID res"] exI [of _ ps]) simp
qed

section \<open>From submission to running\<close>

lemma StartTaskHandler_accepts:
  assumes "StartTaskHandler e fresh (Inr te) m = (rep, m')" "rpStatus rep = 201"
  defines "t \<equiv> (if tID (eTask te) = uuid_Nil then (eTask te)\<lparr>tID := fresh\<rparr> else eTask te)"
  shows "AddTask e (te\<lparr>eID := eFresh e, eTask := t\<rparr>) m = (None, m')" "rpBody rep = TaskBody t"
    "Validate (eExt e) t = None"
proof -
  let ?te = "te\<lparr>eID := eFresh e, eTask := t\<rparr>"
  have v: "Validate (eExt e) (eTask te) = None"
    using assms(1,2) by (auto simp: StartTaskHandler_def HttpResponseHelper_def Let_def split: option.splits)
  obtain r m1 where a: "AddTask e ?te m = (r, m1)" by fastforce
  with v have "r = None \<and> m' = m1 \<and> rpBody rep = TaskBody t"
    using assms(1,2)
    by (cases "tID (eTask te) = uuid_Nil"; cases r)
      (simp_all add: StartTaskHandler_def HttpResponseHelper_def Let_def t_def, auto)
  with a show "AddTask e ?te m = (None, m')" "rpBody rep = TaskBody t" by simp_all
  with flows_StartTask [OF assms(1)] show "Validate (eExt e) t = None" by simp
qed

text \<open>The answers along the way, one after the other.\<close>

definition dispatch_round ::
  "menv \<Rightarrow> menv \<Rightarrow> 'd wenv \<Rightarrow> inflight \<Rightarrow> manager \<times> 'd worker \<Rightarrow> manager \<times> 'd worker" where
  "dispatch_round e e' v fl c =
     (let (m, w) = c;
          (post, w) = deliver v fl w;
          m = dispatch_finish e fl post m;
          w = RunTasks_turn v w;
          (got, w) = report w
      in (update_worker e' (ifWorker fl) got m, w))"

lemma submission_sent:
  assumes "StartTaskHandler e fresh (Inr te) m0 = (rep, m1)" "rpStatus rep = 201" "rpBody rep = TaskBody t" "\<not> is_stop te"
    and "working m0" "q_items (mPending m0) = []" "asg_view m0 (tID t) = None"
    and "dispatch_prepare e1 m1 = (Some fl, m2)"
  shows "eTask (ifEvent fl) = t\<lparr>tState := Scheduled\<rparr>" "ifTask fl = t\<lparr>tState := Scheduled\<rparr>"
    "\<not> ifStop fl" "\<not> is_stop (ifEvent fl)" "Validate (eExt e) t = None" "working m2"
    "task_view m2 (tID t) = Some (t\<lparr>tState := Pending\<rparr>)"
proof -
  let ?te = "te\<lparr>eID := eFresh e, eTask := t\<rparr>"
  note acc = StartTaskHandler_accepts [OF assms(1,2)]
  have add: "AddTask e ?te m0 = (None, m1)" and valid: "Validate (eExt e) t = None"
    using acc assms(3) by auto
  have st: "tState t = tState (eTask te)" using acc(2) assms(3) by (auto split: if_splits)
  have start: "\<not> is_stop ?te" "eState te \<noteq> Completed" "tState t \<noteq> Completed"
    using assms(4) st by (simp_all add: is_stop_def)
  have m1: "working m1" "q_items (mPending m1) = [?te]" "asg_view m1 (tID t) = None"
    "task_view m1 (tID t) = Some (t\<lparr>tState := Pending\<rparr>)"
    using AddTask_working [OF add assms(5)] AddTask_view [OF add] assms(6,7) start by simp_all
  note d = dispatch_start [OF assms(8) m1(1,2) start(1)]
  show "eTask (ifEvent fl) = t\<lparr>tState := Scheduled\<rparr>" "ifTask fl = t\<lparr>tState := Scheduled\<rparr>"
    "\<not> ifStop fl" "\<not> is_stop (ifEvent fl)" "Validate (eExt e) t = None" "working m2"
    "task_view m2 (tID t) = Some (t\<lparr>tState := Pending\<rparr>)"
    using d m1(3,4) start(1) valid by (simp_all add: outgoing_def is_stop_def)
qed

text \<open>
  C2: a submitted task gets to run. When a submission is answered with 201, its start can be placed, the
  chosen worker does not know the task yet and its daemon can run the container, then after one dispatch,
  one turn of the worker and one report the manager records the task as running on that worker, with the
  specification the user was told, in a container that is new and that the worker's record names too.
\<close>

theorem submitted_task_runs:
  assumes submitted: "StartTaskHandler e fresh (Inr te) m0 = (rep, m1)" "rpStatus rep = 201" "rpBody rep = TaskBody t"
    and new: "\<not> is_stop te" "tContainerID t = []"
    and manager: "working m0" "q_items (mPending m0) = []" "asg_view m0 (tID t) = None"
    and placed: "dispatch_prepare e1 m1 = (Some fl, m2)"
    and worker: "wk_ok w0" "wk_view w0 (tID t) = None" "q_items (wQueue w0) = []" "veExt v = eExt e"
    and daemon: "docker_laws live (veApi v)" "can_run v t"
    and round: "dispatch_round e2 e3 v fl (m2, w0) = (m', w')"
  shows "\<exists>q p. task_view m' (tID t) = Some q \<and> tState q = Running \<and> spec_of q = spec_of t
    \<and> asg_view m' (tID t) = Some \<lparr>asTaskID = tID t, asWorker = ifWorker fl\<rparr>
    \<and> wk_view w' (tID t) = Some p \<and> tState p = Running \<and> tContainerID p = tContainerID q \<and> tHostPorts p = tHostPorts q
    \<and> live (wDocker w') = insert (tContainerID q) (live (wDocker w0)) \<and> tContainerID q \<notin> live (wDocker w0)"
proof -
  let ?i = "tID t" and ?s = "t\<lparr>tState := Scheduled\<rparr>"
  note sent = submission_sent [OF submitted new(1) manager placed]
  have spec: "spec_of ?s = spec_of t" by simp
  then have valid: "Validate (veExt v) ?s = None" using sent(5) worker(4) Validate_spec [OF spec, of "eExt e"] by simp
  obtain resp w1 where w1: "deliver v fl w0 = (Inr resp, w1)" "prStatus resp = 201" "wk_ok w1"
      "wk_view w1 = (wk_view w0)(?i \<mapsto> ?s)" "q_items (wQueue w1) = [?s]" "wDocker w1 = wDocker w0"
    using deliver_start [OF worker(1), of ?s v fl] worker(2,3) valid sent(1,4) by auto
  let ?m3 = "dispatch_finish e2 fl (Inr resp) m2"
  have "task_view m2 (tID (ifTask fl)) = Some (t\<lparr>tState := Pending\<rparr>)" using sent(2,7) by simp
  note m3 = finish_start [OF sent(6,3) w1(2) this, of e2]
  have m3': "task_view ?m3 ?i = Some ?s" "asg_view ?m3 ?i = Some \<lparr>asTaskID = ?i, asWorker = ifWorker fl\<rparr>"
    using m3(1,2) sent(2) by simp_all
  have run: "can_run v ?s" using daemon(2) by (simp add: can_run_def)
  obtain c ps where w2: "wk_view (RunTasks_turn v w1) = (wk_view w1)(?i \<mapsto> ?s\<lparr>tStartTime := veNow v, tContainerID := c,
        tState := Running, tHostPorts := ps\<rparr>)" "c \<notin> live (wDocker w1)"
      "live (wDocker (RunTasks_turn v w1)) = insert c (live (wDocker w1))" "wk_ok (RunTasks_turn v w1)"
    using run_start [OF w1(3) daemon(1) run] w1(4,5) valid new(2) by auto
  let ?p = "?s\<lparr>tStartTime := veNow v, tContainerID := c, tState := Running, tHostPorts := ps\<rparr>"
  obtain ts w3 where l: "wk_getTasks (RunTasks_turn v w1) = (ts, w3)" by fastforce
  note ls = wk_list [OF w2(4) l]
  have got: "report (RunTasks_turn v w1) = (Inr \<lparr>StatusCode = 200, Body = Inr ts\<rparr>, w3)"
    using l by (simp add: report_def wk_GetTasksHandler_def as_list_def json_reply_def)
  have end_st: "w' = w3" "m' = fold (update_one e3 (ifWorker fl)) ts ?m3"
    using round w1(1) got
    by (simp_all add: dispatch_round_def Let_def update_worker_def fetchTasksFromWorker_def StatusOK_def)
  have "?p \<in> set ts" using ls(1) w2(1) by (auto simp: ran_def)
  moreover have "tID ?p = ?i" "tRestartCount ?p = tRestartCount ?s" by simp_all
  ultimately have m': "task_view m' ?i = Some (merge_report e3 ?s ?p)" "asg_view m' = asg_view ?m3"
    using update_list_one [OF m3(3) ls(2), of ?p ?s e3 "ifWorker fl"] m3'(1) end_st(2) by simp_all
  have q: "tState (merge_report e3 ?s ?p) = Running" "spec_of (merge_report e3 ?s ?p) = spec_of t"
    "tContainerID (merge_report e3 ?s ?p) = c" "tHostPorts (merge_report e3 ?s ?p) = ps"
    by (simp_all add: merge_report_def Let_def IsTerminal_def)
  have w': "wk_view w' ?i = Some ?p" "live (wDocker w') = insert c (live (wDocker w0))" "c \<notin> live (wDocker w0)"
    using ls(3,4) w2(1-3) w1(6) end_st(1) by simp_all
  show ?thesis
    by (intro exI [of _ "merge_report e3 ?s ?p"] exI [of _ ?p]) (use m' q w' m3'(2) in simp)
qed

section \<open>A round on a small cluster\<close>

text \<open>A task that asks for no host port finds a place on the one node of the demo manager.\<close>

definition small_cluster :: "manager \<Rightarrow> bool" where
  "small_cluster m \<longleftrightarrow> mNodes m = mNodes demo_manager \<and> mScheduler m = mScheduler demo_manager
     \<and> mReservations m = mReservations demo_manager"

lemma small_cluster_reads: "reads_tasks m m' \<Longrightarrow> small_cluster m' = small_cluster m"
  by (auto simp: reads_tasks_def small_cluster_def)

lemma small_cluster_places:
  assumes "small_cluster m" "tPorts t = []" "tID t \<noteq> uuid_Nil"
  shows "\<exists>n m'. selectAndReserveWorker demo_env t [] m = (Inr n, m')"
proof -
  have valid: "ValidatePortMappings (eExt demo_env) (tPorts t) = None"
    by (simp add: ValidatePortMappings_None [OF std_ext_ok] demo_env_def ports_ok_def assms(2))
  have adm: "admits demo_env t [] NewReservationTable (blank_node ''w1:80'')"
    by (simp add: admits_def hasPinnedHostPorts_def assms(2) conflictsLocked_def requestedPortKeys_def)
  have m: "mNodes m = [blank_node ''w1:80'']" "mScheduler m = RoundRobin NewRoundRobin"
    "mReservations m = NewReservationTable"
    using assms(1) by (simp_all add: small_cluster_def demo_manager_def)
  have c: "SelectCandidateNodes (mScheduler m) t (mNodes m) = [blank_node ''w1:80'']"
    by (simp add: SelectCandidateNodes_def m rr_SelectCandidateNodes_def)
  obtain m1 where sw: "selectWorkerLocked demo_env t [] m = (Inr (blank_node ''w1:80''), m1)"
      "mReservations m1 = NewReservationTable"
    using adm unfolding selectWorkerLocked_def valid c
    by (simp add: Let_def m Score_def rr_Score_def Pick_def rr_Pick_def)
  have "fst (tryReserveLocked a t NewReservationTable)" for a
    by (simp add: tryReserveLocked_def conflictsLocked_def requestedPortKeys_def assms(2) Let_def)
  then show ?thesis
    unfolding selectAndReserveWorker_def valid select_and_reserve_def
    by (simp add: reserve_owner_def sw case_prod_beta)
qed

lemma accept_task_small_cluster:
  assumes "accept_task e t m = (r, m')"
  shows "small_cluster m' = small_cluster m"
  using accept_task_cases [OF assms]
proof (elim disjE conjE exE)
  fix m1 m2
  assume a: "reads_tasks m m1" "name_check e (tName t) m1 = (None, m2)" "m' = m2\<lparr>mTaskDb := mTaskDb m'\<rparr>"
  have r: "reads_tasks m m2" using reads_tasks_trans [OF a(1) name_check_reads [of m1 e "tName t"]] a(2) by simp
  have "small_cluster m' = small_cluster m2" by (subst a(3)) (simp add: small_cluster_def)
  with small_cluster_reads [OF r] show ?thesis by simp
qed (auto dest: small_cluster_reads)

lemma AddTask_small_cluster:
  assumes "AddTask e te m = (r, m')"
  shows "small_cluster m' = small_cluster m"
  using assms accept_task_small_cluster [of e "eTask te" m]
  by (auto simp: AddTask_def wake_both_def enqueuePending_def small_cluster_def
      split: option.splits prod.splits if_splits)

lemma dispatch_sends:
  assumes "small_cluster m" "working m" "q_items (mPending m) = [te]" "\<not> is_stop te"
    and "asg_view m (tID (eTask te)) = None" "task_view m (tID (eTask te)) = Some p"
    and "tPorts (eTask te) = []" "tID (eTask te) \<noteq> uuid_Nil"
  shows "\<exists>fl m'. dispatch_prepare demo_env m = (Some fl, m')"
proof -
  let ?i = "tID (eTask te)"
  define m1 where "m1 = snd (dequeuePending m)"
  have m1: "dequeuePending m = (Some te, m1)" using assms(3) by (simp add: m1_def dequeuePending_def Dequeue_def)
  have 1: "same_stores m m1" unfolding m1_def by (rule quiet_queue(4))
  have c1: "small_cluster m1" using assms(1)
    by (simp add: m1_def dequeuePending_def small_cluster_def split: prod.split option.split)
  let ?m2 = "m1\<lparr>mAssignments := snd (readAssignment ?i (mAssignments m1))\<rparr>"
  have owner: "taskWorker ?i m1 = ([], ?m2)"
  proof -
    have "fst (readAssignment ?i (mAssignments m1)) = []"
      using readAssignment_owner [of ?i "mAssignments m1"] assms(5) same_storesD(2) [OF 1] by auto
    then show ?thesis by (simp add: task_io)
  qed
  have h: "db_healthy (mTaskDb ?m2)" "task_view ?m2 ?i = Some p"
    using assms(2,6) same_storesD(1,4) [OF 1] by (simp_all add: working_def)
  obtain m3 where g: "getTask ?i ?m2 = (Some p, m3)"
    using h db_healthy_Get [OF h(1), of ?i] by (simp add: getTask_alt)
  have "small_cluster m3"
    using small_cluster_reads [OF getTask_others [of ?m2 ?i]] g c1 by (simp add: small_cluster_def)
  from small_cluster_places [OF this assms(7,8)] obtain n m4 where
    s: "selectAndReserveWorker demo_env (eTask te) [] m3 = (Inr n, m4)" by blast
  have "eMarshal demo_env x = None" for x by (simp add: demo_env_def)
  then show ?thesis
    using m1 owner g s assms(4)
    by (simp add: dispatch_prepare_def dispatch_event_def dispatch_unowned_start_def launch_def Let_def)
qed

lemma memory_docker_runs:
  assumes "tPorts t = []"
  shows "can_run demo_wenv t"
proof -
  have p: "cfgPorts (NewConfig u) = []" if "spec_of u = spec_of t" for u
    using arg_cong [OF that, of tPorts] assms by (simp add: NewConfig_def spec_of_def)
  have v: "ValidatePortMappings std_ext [] = None" by (simp add: ValidatePortMappings_None [OF std_ext_ok] ports_ok_def)
  show ?thesis
    by (auto simp: can_run_def demo_wenv_def NewDocker_def memory_docker_def d_Run_def d_Pull_def dockerPorts_def p v
        run_created_def Let_def)
qed

theorem submitted_task_runs_witness:
  "\<exists>rep m1 fl m2 m' w' q. StartTaskHandler demo_env 42 (Inr demo_start) demo_manager = (rep, m1)
     \<and> dispatch_prepare demo_env m1 = (Some fl, m2)
     \<and> dispatch_round demo_env demo_env demo_wenv fl (m2, demo_worker [''other''] []) = (m', w')
     \<and> task_view m' 7 = Some q \<and> tState q = Running \<and> set (wDocker w') = {tContainerID q, ''other''}"
proof -
  let ?e = demo_env and ?te = "demo_start\<lparr>eID := eFresh demo_env\<rparr>" and ?w = "demo_worker [''other''] []"
  have te: "eTask demo_start = demo_task" "eTask ?te = demo_task" "tID demo_task = 7" "tPorts demo_task = []"
    "tContainerID demo_task = []" "\<not> is_stop demo_start" "\<not> is_stop ?te" "eState ?te = Scheduled"
    "tState demo_task = Pending" "(7 :: uuid) \<noteq> uuid_Nil"
    by (simp_all add: demo_defs is_stop_def uuid_Nil_def)
  have v: "Validate (eExt ?e) demo_task = None" using demo_valid te(1) by simp
  obtain r m1 where a: "AddTask ?e ?te demo_manager = (r, m1)" by fastforce
  have "fst (accept_task ?e demo_task demo_manager) = None"
    by (simp add: accept_task_def name_check_def isUUIDLike_def taskNameInUseLocked_def eval_manager)
  then have "r = None" using a v by (simp add: AddTask_def te case_prod_beta split: option.splits)
  with a have add: "AddTask ?e ?te demo_manager = (None, m1)" by simp
  have h: "StartTaskHandler ?e 42 (Inr demo_start) demo_manager
      = (\<lparr>rpStatus = 201, rpHeader = [], rpBody = TaskBody demo_task\<rparr>, m1)"
    using add v te by (simp add: StartTaskHandler_def Let_def)
  have w0: "working demo_manager" "q_items (mPending demo_manager) = []" "asg_view demo_manager 7 = None"
    "small_cluster demo_manager"
    using demo_manager_ok(1,2)
    by (simp_all add: working_def small_cluster_def demo_manager_def queue_New_def db_healthy_def asg_view_def
        new_store_def store_view_def del: db_view_asg)
  note av = AddTask_view [OF add]
  have m1: "small_cluster m1" "working m1" "q_items (mPending m1) = [?te]" "asg_view m1 7 = None"
    "task_view m1 7 = Some (demo_task\<lparr>tState := Pending\<rparr>)"
    using AddTask_small_cluster [OF add] AddTask_working [OF add w0(1)] av w0 te by simp_all
  obtain fl m2 where d: "dispatch_prepare ?e m1 = (Some fl, m2)"
    using dispatch_sends [OF m1(1-3)] m1(4,5) te by auto
  obtain m' w' where f: "dispatch_round ?e ?e demo_wenv fl (m2, ?w) = (m', w')" by fastforce
  have wk: "veExt demo_wenv = eExt ?e" "q_items (wQueue ?w) = []" "docker_laws set (veApi demo_wenv)"
    by (simp_all add: demo_wenv_def demo_env_def demo_worker_def queue_New_def memory_docker_laws)
  have "wk_view ?w (tID demo_task) = None" by (simp add: demo_worker_ok)
  from submitted_task_runs [OF h _ _ te(6,5) w0(1,2) _ d demo_worker_ok(1) this wk(2,1,3)
      memory_docker_runs [OF te(4)] f] w0(3) te(3)
  have "\<exists>q. task_view m' 7 = Some q \<and> tState q = Running \<and> set (wDocker w') = {tContainerID q, ''other''}"
    by (auto simp: demo_worker_ok)
  with h d f show ?thesis by blast
qed

end
