(* ===== verification/Recovery.thy ===== *)
theory Recovery
  imports Cluster
begin

text \<open>
  Stops and restarts, from the manager's decision to the daemon and back: a stopped task's container is
  gone, a failed task runs again in a new container, and what becomes of a restart whose reply is lost.
\<close>

lemma owner_read:
  assumes "working m" "asg_view m i = Some a"
  defines "m1 \<equiv> m\<lparr>mAssignments := snd (readAssignment i (mAssignments m))\<rparr>"
  shows "taskWorker i m = (asWorker a, m1)" "working m1" "task_view m1 = task_view m" "asg_view m1 = asg_view m"
    "mPending m1 = mPending m"
proof -
  have "fst (readAssignment i (mAssignments m)) = asWorker a"
    using db_healthy_Get [OF workingD(3) [OF assms(1)], of i] assms(2) by (simp add: readAssignment_alt)
  then show "taskWorker i m = (asWorker a, m1)" by (simp add: task_io m1_def)
  show "working m1" using assms(1) by (simp add: m1_def working_def readAssignment_alt)
  show "task_view m1 = task_view m" "asg_view m1 = asg_view m" "mPending m1 = mPending m" by (simp_all add: m1_def)
qed

section \<open>Stopping\<close>

subsection \<open>The manager's half\<close>

lemma working_markStop:
  assumes "working m"
  shows "working (snd (markStopRequested e i m))" "asg_view (snd (markStopRequested e i m)) = asg_view m"
proof -
  have h: "db_healthy (mTaskDb m)" "mgr_wf m" "db_healthy (mAssignments m)" using assms by (simp_all add: working_def)
  have "mAssignments (snd (markStopRequested e i m)) = mAssignments m"
    "db_healthy (mTaskDb (snd (markStopRequested e i m)))"
    using h(1) by (auto simp: markStopRequested_def task_io split: sum.split option.split)
  with h flowsD [OF flows_markStop h(2)] show "working (snd (markStopRequested e i m))"
    by (simp add: working_def)
  show "asg_view (snd (markStopRequested e i m)) = asg_view m"
    by (simp add: markStopRequested_def task_io split: sum.split option.split)
qed

text \<open>The stop of a task that a worker owns, from the user's request to the event on its way.\<close>

lemma stop_recorded:
  assumes "StopTaskHandler e ref m0 = (rep, m1)" "rpStatus rep = 204" "working m0"
    and "resolveTask e ref m0 = ((t, True, amb), m)" "tState t = Running" "asg_view m0 (tID t) = Some a" "asWorker a \<noteq> []"
  shows "working m1" "q_items (mPending m1) = q_items (mPending m0) @ [stop_request e t]"
    "task_view m1 (tID t) = Some (t\<lparr>tManuallyStopped := True\<rparr>)" "asg_view m1 = asg_view m0" "Validate (eExt e) t = None"
    "mNodes m1 = mNodes m0"
proof -
  note res = resolveTask_found [OF assms(4) workingD(1) [OF assms(3)]]
  have "db_healthy (mTaskDb m)" using res(2) assms(3) by (auto simp: reads_tasks_def working_def)
  then have wm: "working m" using assms(3) reads_tasksD [OF res(2)] by (simp add: working_def)
  have am: "asg_view m (tID t) = Some a" using reads_tasksD(2) [OF res(2)] assms(6) by simp
  let ?m2 = "m\<lparr>mAssignments := snd (readAssignment (tID t) (mAssignments m))\<rparr>"
  note own = owner_read [OF wm am]
  have run: "stop_running e t ?m2 = (rep, m1)"
    using assms(1,2,4,5,7) own(1)
    by (auto simp: StopTaskHandler_def stop_deletes_def plain_def HttpResponseHelper_def split: if_splits)
  obtain r3 m3 where k: "markStopRequested e (tID t) ?m2 = (r3, m3)" by fastforce
  obtain r4 m4 where ad: "AddTask e (stop_request e t) m3 = (r4, m4)" by fastforce
  have ok: "r3 = None" "r4 = None" "m1 = m4"
    using run assms(2) k ad by (auto simp: stop_running_def plain_def HttpResponseHelper_def split: option.splits if_splits)
  have m3: "working m3" "asg_view m3 = asg_view m0"
    using working_markStop [OF own(2), of e "tID t"] k own(4) reads_tasksD(2) [OF res(2)] by simp_all
  show "working m1" using AddTask_working [OF ad m3(1)] ok(3) by simp
  have v: "task_view m4 = task_view m3" "asg_view m4 = asg_view m3"
    using AddTask_view [OF ad] ok(2) by (simp_all add: stop_request_def)
  show "asg_view m1 = asg_view m0" using v(2) m3(2) ok(3) by simp
  show "q_items (mPending m1) = q_items (mPending m0) @ [stop_request e t]"
    using stop_running_204(2) [OF run assms(2)] own(5) reads_tasksD(4) [OF res(2)] by simp
  have "task_view m (tID t) = Some t" using res(1) reads_tasksD(1) [OF res(2)] by simp
  with stop_running_204(1) [OF run assms(2)] own(3) show "task_view m1 (tID t) = Some (t\<lparr>tManuallyStopped := True\<rparr>)" by auto
  have "Validate (eExt e) (eTask (stop_request e t)) = None"
    using ad ok(2) by (auto simp: AddTask_def split: option.splits)
  moreover have "spec_of (eTask (stop_request e t)) = spec_of t" by (simp add: stop_request_def)
  ultimately show "Validate (eExt e) t = None" using Validate_spec by metis
  have "mNodes m4 = mNodes m3"
    using ad by (auto simp: AddTask_def stop_request_def wake_both_def enqueuePending_def split: option.splits)
  moreover have "mNodes m3 = mNodes m"
    using k by (auto simp: markStopRequested_def task_io split: if_splits sum.splits option.splits)
  moreover have "mNodes m = mNodes m0" using res(2) by (auto simp: reads_tasks_def)
  ultimately show "mNodes m1 = mNodes m0" using ok(3) by simp
qed

text \<open>And the API does answer 204.\<close>

lemma stop_accepted:
  assumes "working m0" "resolveTask e ref m0 = ((t, True, False), m)" "ref \<noteq> []" "tState t = Running"
    and "asg_view m0 (tID t) = Some a" "asWorker a \<noteq> []" "Validate (eExt e) t = None"
  shows "rpStatus (fst (StopTaskHandler e ref m0)) = 204"
proof -
  note res = resolveTask_found [OF assms(2) workingD(1) [OF assms(1)]]
  have "db_healthy (mTaskDb m)" using res(2) assms(1) by (auto simp: reads_tasks_def working_def)
  then have wm: "working m" using assms(1) reads_tasksD [OF res(2)] by (simp add: working_def)
  have am: "asg_view m (tID t) = Some a" using reads_tasksD(2) [OF res(2)] assms(5) by simp
  let ?m2 = "m\<lparr>mAssignments := snd (readAssignment (tID t) (mAssignments m))\<rparr>"
  note own = owner_read [OF wm am]
  have h: "db_healthy (mTaskDb ?m2)" "mTaskDb ?m2 \<noteq> None" using own(2) by (simp_all add: working_def)
  have "task_view ?m2 (tID t) = Some t" using res(1) reads_tasksD(1) [OF res(2)] own(3) by simp
  then have "fst (db_Get (tID t) (mTaskDb ?m2)) = Inr t" using db_healthy_Get [OF h(1), of "tID t"] by simp
  then have "fst (markStopRequested e (tID t) ?m2) = None"
    using h by (simp add: markStopRequested_def task_io del: not_None_eq)
  moreover have "spec_of (eTask (stop_request e t)) = spec_of t" by (simp add: stop_request_def)
  then have "Validate (eExt e) (eTask (stop_request e t)) = None" using assms(7) Validate_spec by metis
  then have "fst (AddTask e (stop_request e t) m') = None" for m' by (simp add: AddTask_def stop_request_def)
  ultimately have "rpStatus (fst (stop_running e t ?m2)) = 204"
    by (simp add: stop_running_def case_prod_beta plain_def)
  then show ?thesis
    using assms(2-4,6) own(1) by (simp add: StopTaskHandler_def stop_deletes_def)
qed

lemma dispatch_stop:
  assumes "dispatch_prepare e m = (Some fl, m')" "working m" "q_items (mPending m) = [te]" "is_stop te"
    and "asg_view m (tID (eTask te)) = Some a" "asWorker a \<noteq> []"
  shows "ifEvent fl = te" "ifWorker fl = asWorker a" "ifStop fl" "working m'" "task_view m' = task_view m"
proof -
  define m1 where "m1 = snd (dequeuePending m)"
  have m1: "dequeuePending m = (Some te, m1)" using assms(3) by (simp add: m1_def dequeuePending_def Dequeue_def)
  have 1: "same_stores m m1" unfolding m1_def by (rule quiet_queue(4))
  have w1: "working m1" "task_view m1 = task_view m" "asg_view m1 (tID (eTask te)) = Some a"
    using 1 assms(2,5) by (simp_all add: working_same_stores same_storesD)
  let ?m2 = "m1\<lparr>mAssignments := snd (readAssignment (tID (eTask te)) (mAssignments m1))\<rparr>"
  note own = owner_read [OF w1(1,3)]
  have "dispatch_owned e te (asWorker a) ?m2 = (Some fl, m')"
    using assms(1,6) m1 own(1) by (simp add: dispatch_prepare_def dispatch_event_def)
  then obtain n where n: "workerByAddress (asWorker a) ?m2 = Some n" "launch e te n False ?m2 = (Some fl, m')"
    using assms(4) by (auto simp: dispatch_owned_def split: option.splits)
  have "outgoing e te = te" using assms(4) by (simp add: outgoing_def)
  then have "fl = \<lparr>ifWorker = nAddress n, ifTask = eTask te, ifEvent = te, ifStop = True, ifReserved = False\<rparr>" "m' = ?m2"
    using launch_cases(5) [OF n(2) refl] assms(4) by simp_all
  moreover have "nAddress n = asWorker a" using workerByAddress_Some [OF n(1)] by simp
  ultimately show "ifEvent fl = te" "ifWorker fl = asWorker a" "ifStop fl" "working m'" "task_view m' = task_view m"
    using own w1(2) by simp_all
qed

lemma finish_stop:
  assumes "working m" "ifStop fl" "prStatus resp = 201"
  shows "task_view (dispatch_finish e fl (Inr resp) m) = task_view m"
    "db_healthy (mTaskDb (dispatch_finish e fl (Inr resp) m))"
  using assms by (simp_all add: dispatch_finish_def StatusCreated_def StatusNotFound_def working_def wake_update_def
      release_ports_def)

subsection \<open>The worker's half\<close>

lemma deliver_stop:
  assumes "wk_ok w" "wk_view w (tID t) = Some p" "Validate (veExt v) t = None" "tState t = Completed"
    and "eTask (ifEvent fl) = t"
  shows "\<exists>resp w'. deliver v fl w = (Inr resp, w') \<and> prStatus resp = 201 \<and> wk_ok w'
    \<and> wk_view w' = wk_view w \<and> q_items (wQueue w') = q_items (wQueue w) @ [t] \<and> wDocker w' = wDocker w"
proof -
  obtain r w1 where g: "wk_Get (tID t) w = (r, w1)" by fastforce
  have db: "wDb w \<noteq> None" using assms(1) by (simp add: wk_ok_def)
  have w1: "r = Inr p" "wk_ok w1" "wk_view w1 = wk_view w" "wDocker w1 = wDocker w" "wQueue w1 = wQueue w"
    using wk_Get_effect [OF assms(1), of "tID t"] g assms(2) by simp_all
  have "deliver v fl w = (Inr \<lparr>prStatus = 201, prTask = t, prMessage = []\<rparr>, wk_enqueue t w1)"
    using assms(3-5) db g w1(1)
    by (simp add: deliver_def wk_StartTaskHandler_def as_post_def wk_AddTask_def del: not_None_eq)
  with w1 show ?thesis by (auto simp: wk_enqueue_def Enqueue_def wk_ok_def wk_view_def)
qed

lemma StopTask_succeeds:
  assumes "wk_ok w" "wk_view w (tID t) = Some p" "NewDocker (veApi v) = None" "can_stop v" "tContainerID t \<noteq> []"
  shows "drError (fst (StopTask v t w)) = None"
proof -
  obtain l w1 where l: "docker_Logs v (tContainerID t) (veLogLines v) w = (l, w1)" by fastforce
  obtain s w2 where s: "docker_Stop v (tContainerID t) w1 = (s, w2)" by fastforce
  have "drError (fst (docker_Stop v (tContainerID t) w1)) = None"
    using assms(4,5) by (simp add: docker_Stop_def can_stop_def case_prod_beta)
  then have ok: "drError s = None" using s by simp
  have "wk_quiet w w2" using wk_quiet_trans [OF wk_quiet_docker(1) wk_quiet_docker(3)] l s by (metis snd_conv)
  then have w2: "wk_ok w2" "wk_view w2 (tID t) = Some p" using assms(1,2) by (simp_all add: wk_quietD)
  obtain w3 where "wk_getTask (tID t) w2 = (Some p, w3)"
    using wk_getTask_effect(1) [OF w2(1), of "tID t"] w2(2) by (cases "wk_getTask (tID t) w2") auto
  then show ?thesis using ok by (simp add: StopTask_def assms(3) l s Let_def)
qed

lemma run_stop:
  assumes "wk_ok w" "docker_laws live (veApi v)" "NewDocker (veApi v) = None" "can_stop v"
    and "q_items (wQueue w) = [u]" "tState u = Completed"
    and "wk_view w (tID u) = Some p" "tState p = Running" "tContainerID p \<noteq> []"
  shows "wk_view (RunTasks_turn v w) =
      (wk_view w)(tID u \<mapsto> stopped_record v (u\<lparr>tContainerID := tContainerID p\<rparr>) p)"
    "live (wDocker (RunTasks_turn v w)) = live (wDocker w) - {tContainerID p}" "wk_ok (RunTasks_turn v w)"
proof -
  define rest where "rest = snd (Dequeue (wQueue w))"
  have q: "Dequeue (wQueue w) = (Some u, rest)" "queue_Len (wQueue w) \<noteq> 0"
    using assms(5) by (simp_all add: rest_def Dequeue_def queue_Len_def)
  define w1 where "w1 = w\<lparr>wQueue := rest\<rparr>"
  have w1: "wk_ok w1" "wk_view w1 = wk_view w" "wDocker w1 = wDocker w" "wDb w1 \<noteq> None"
    using assms(1) by (simp_all add: w1_def wk_ok_def wk_view_def)
  have run: "runTask v w = run_event v u w1" using q(1) by (simp add: runTask_def w1_def)
  obtain r w2 where g: "wk_Get (tID u) w1 = (r, w2)" by fastforce
  have w2: "r = Inr p" "wk_ok w2" "wk_view w2 = wk_view w" "wDocker w2 = wDocker w"
    using wk_Get_effect [OF w1(1), of "tID u"] g w1 assms(7) by simp_all
  let ?u = "u\<lparr>tContainerID := tContainerID p\<rparr>"
  have "mergeQueuedWithPersisted u p = ?u" using assms(6,9) by (simp add: mergeQueuedWithPersisted_def Let_def)
  then have ev: "run_event v u w1 = StopTask v ?u w2"
    using g w2(1) assms(6,8) w1(4) by (simp add: run_event_def run_record_def ValidStateTransition_def del: not_None_eq)
  have view: "wk_view w2 (tID ?u) = Some p" using w2(3) assms(7) by simp
  have ok: "drError (fst (StopTask v ?u w2)) = None"
    by (rule StopTask_succeeds [OF w2(2) view assms(3,4)]) (simp add: assms(9))
  note st = StopTask_effect [OF assms(2) w2(2) view assms(3)]
  let ?w3 = "snd (StopTask v ?u w2)"
  have turn: "RunTasks_turn v w = ?w3\<lparr>wUpdateWaker := Wake (wUpdateWaker ?w3)\<rparr>"
    using q(2) run ev ok by (simp add: RunTasks_turn_def case_prod_beta)
  have "wk_view (RunTasks_turn v w) = wk_view ?w3" "wDocker (RunTasks_turn v w) = wDocker ?w3"
    "wk_ok (RunTasks_turn v w) = wk_ok ?w3"
    unfolding turn by (simp_all add: wk_view_def wk_ok_def)
  with st(1,3,4) ok w2(3,4) show "wk_view (RunTasks_turn v w) =
      (wk_view w)(tID u \<mapsto> stopped_record v (u\<lparr>tContainerID := tContainerID p\<rparr>) p)"
    "live (wDocker (RunTasks_turn v w)) = live (wDocker w) - {tContainerID p}" "wk_ok (RunTasks_turn v w)"
    by simp_all
qed

subsection \<open>A stopped task ends\<close>

text \<open>
  C3: a stop reaches the container. When the API answers 204 to the stop of a running task that its worker
  runs too, both with nothing else queued and with working stores, and Docker answers the worker and stops
  containers, then after one dispatch, one turn of the worker and one report the task's container is gone,
  no other container is touched, and no pass of the manager will start the task again. Both records say
  Completed, or Failed when the record still carried the reason of an earlier failure.
\<close>

theorem stopped_task_ends:
  assumes stopped: "StopTaskHandler e ref m0 = (rep, m1)" "rpStatus rep = 204" "resolveTask e ref m0 = ((t, True, amb), m)"
    and manager: "working m0" "q_items (mPending m0) = []" "tState t = Running"
      "asg_view m0 (tID t) = Some a" "asWorker a \<noteq> []"
    and sent: "dispatch_prepare e1 m1 = (Some fl, m2)"
    and worker: "wk_ok w0" "wk_view w0 (tID t) = Some p" "tState p = Running" "tContainerID p \<noteq> []"
      "q_items (wQueue w0) = []" "veExt v = eExt e"
    and daemon: "docker_laws live (veApi v)" "NewDocker (veApi v) = None" "can_stop v"
    and round: "dispatch_round e2 e3 v fl (m2, w0) = (m', w')"
  shows "ifWorker fl = asWorker a \<and> live (wDocker w') = live (wDocker w0) - {tContainerID p}
    \<and> (\<exists>q r. task_view m' (tID t) = Some q \<and> tState q = (if tFailureReason t = [] then Completed else Failed)
        \<and> spec_of q = spec_of t \<and> restart_decision e' now q = Skip
        \<and> wk_view w' = (wk_view w0)(tID t \<mapsto> r) \<and> tState r = tState q)"
proof -
  let ?u = "eTask (stop_request e t)"
  have u: "tID ?u = tID t" "tState ?u = Completed" "tFailureReason ?u = tFailureReason t" "is_stop (stop_request e t)"
    "tRestartCount ?u = tRestartCount t" "spec_of ?u = spec_of t"
    by (simp_all add: stop_request_def is_stop_def)
  note rec = stop_recorded [OF stopped(1,2) manager(1) stopped(3) manager(3-5)]
  have d: "ifEvent fl = stop_request e t" "ifWorker fl = asWorker a" "ifStop fl" "working m2" "task_view m2 = task_view m1"
    using dispatch_stop [OF sent rec(1) _ u(4), of a] rec(2,4) manager(2,4,5) u(1) by simp_all
  have valid: "Validate (veExt v) ?u = None" using rec(5) worker(6) Validate_spec [OF u(6)] by simp
  obtain resp w1 where w1: "deliver v fl w0 = (Inr resp, w1)" "prStatus resp = 201" "wk_ok w1" "wk_view w1 = wk_view w0"
      "q_items (wQueue w1) = [?u]" "wDocker w1 = wDocker w0"
    using deliver_stop [OF worker(1) _ valid u(2), of p fl] worker(2,5) d(1) u(1) by auto
  let ?m3 = "dispatch_finish e2 fl (Inr resp) m2"
  note fin = finish_stop [OF d(4,3) w1(2), of e2]
  let ?r = "stopped_record v (?u\<lparr>tContainerID := tContainerID p\<rparr>) p"
  have r: "tID ?r = tID t" "tState ?r = (if tFailureReason t = [] then Completed else Failed)" "tRestartCount ?r = tRestartCount t"
    using u worker(3) by (simp_all add: stopped_record_def Let_def)
  have w2: "wk_view (RunTasks_turn v w1) = (wk_view w0)(tID t \<mapsto> ?r)"
    "live (wDocker (RunTasks_turn v w1)) = live (wDocker w0) - {tContainerID p}" "wk_ok (RunTasks_turn v w1)"
    using run_stop [OF w1(3) daemon w1(5) u(2), of p] worker(2-4) w1(4,6) u(1) by simp_all
  obtain ts w3 where l: "wk_getTasks (RunTasks_turn v w1) = (ts, w3)" by fastforce
  note ls = wk_list [OF w2(3) l]
  have "report (RunTasks_turn v w1) = (Inr \<lparr>StatusCode = 200, Body = Inr ts\<rparr>, w3)"
    using l by (simp add: report_def wk_GetTasksHandler_def as_list_def json_reply_def)
  then have out: "w' = w3" "m' = fold (update_one e3 (ifWorker fl)) ts ?m3"
    using round w1(1)
    by (simp_all add: dispatch_round_def Let_def update_worker_def fetchTasksFromWorker_def StatusOK_def)
  let ?p = "t\<lparr>tManuallyStopped := True\<rparr>"
  have "?r \<in> set ts" using ls(1) w2(1) by (auto simp: ran_def)
  moreover have "task_view ?m3 (tID ?r) = Some ?p" using fin(1) d(5) rec(3) r(1) by simp
  ultimately have m': "task_view m' (tID t) = Some (merge_report e3 ?p ?r)"
    using update_list_one(1) [OF fin(2) ls(2), of ?r ?p e3 "ifWorker fl"] r(1,3) out(2) by simp
  have q: "tState (merge_report e3 ?p ?r) = tState ?r" "spec_of (merge_report e3 ?p ?r) = spec_of t"
    "tManuallyStopped (merge_report e3 ?p ?r)"
    using r(2) manager(3) by (simp_all add: merge_report_def Let_def IsTerminal_def)
  have skip: "restart_decision e' now (merge_report e3 ?p ?r) = Skip" using q(3) by (rule stopped_is_final)
  show ?thesis using d(2) ls(3,4) w2(1,2) out(1) m' q(1,2) r(2) skip by auto
qed

section \<open>Restarting\<close>

subsection \<open>The manager's half\<close>

lemma selectAndReserve_nodes: "mNodes (snd (selectAndReserveWorker e t owner m)) = mNodes m"
proof -
  obtain r m' where s: "select_and_reserve e t owner m = (r, m')" by fastforce
  have "mNodes m' = mNodes m"
  proof (cases "reserve_owner e t owner m")
    case (Some p)
    with s have "reserve_owner e t owner m = Some (fst (projr r, m'), m')" by (cases p) (simp add: select_and_reserve_def, auto)
    from reserve_owner_Some(4) [OF this] show ?thesis by simp
  next
    case None
    obtain r1 m1 where sw: "selectWorkerLocked e t [] m = (r1, m1)" by fastforce
    then have "mNodes m1 = mNodes m" using selectWorkerLocked_frame [of e t "[]" m] by auto
    with s sw None show ?thesis
      by (auto simp: select_and_reserve_def split: sum.splits prod.splits if_splits)
  qed
  with s show ?thesis by (auto simp: selectAndReserveWorker_def split: option.split sum.split)
qed

text \<open>A restart on the worker that owns the task sends the record, reset.\<close>

lemma restart_sent:
  assumes "restart_prepare e t m = (Inr fl, m')" "working m" "asg_view m (tID t) = Some a"
    and "ifWorker fl = asWorker a" "asWorker a \<noteq> []"
  shows "ifTask fl = restarted t" "eTask (ifEvent fl) = restarted t" "\<not> is_stop (ifEvent fl)"
    "working m'" "task_view m' = task_view m" "asg_view m' = asg_view m" "mNodes m' = mNodes m"
proof -
  let ?m1 = "m\<lparr>mAssignments := snd (readAssignment (tID t) (mAssignments m))\<rparr>"
  note owner = owner_read [OF assms(2,3)]
  obtain r m2 where s: "selectAndReserveWorker e (restarted t) (asWorker a) ?m1 = (r, m2)" by fastforce
  have 2: "same_stores ?m1 m2" using selectAndReserve_stores [of ?m1 e "restarted t" "asWorker a"] s by simp
  obtain n where n: "r = Inr n" using assms(1) owner(1) s
    by (auto simp: restart_prepare_def Let_def split: sum.splits if_splits)
  have "ifTask fl = restarted t \<and> eTask (ifEvent fl) = restarted t \<and> eState (ifEvent fl) = Scheduled \<and> m' = m2"
    using assms(1,4,5) owner(1) s n
    by (auto simp: restart_prepare_def Let_def split: option.splits if_splits)
  then show "ifTask fl = restarted t" "eTask (ifEvent fl) = restarted t" "\<not> is_stop (ifEvent fl)" "working m'"
    "task_view m' = task_view m" "asg_view m' = asg_view m" "mNodes m' = mNodes m"
    using 2 owner selectAndReserve_nodes [of e "restarted t" "asWorker a" ?m1] s
    by (simp_all add: working_same_stores same_storesD is_stop_def restarted_def)
qed

lemma finish_restart:
  assumes "working m" "task_view m (tID t) = Some p" "\<not> tManuallyStopped p" "tID (ifTask fl) = tID t"
    and "prStatus resp = 201"
  shows "task_view (snd (restart_finish e fl t (Inr resp) m)) = (task_view m)(tID t \<mapsto> ifTask fl)"
    "asg_view (snd (restart_finish e fl t (Inr resp) m)) =
       (asg_view m)(tID t \<mapsto> \<lparr>asTaskID = tID t, asWorker = ifWorker fl\<rparr>)"
    "db_healthy (mTaskDb (snd (restart_finish e fl t (Inr resp) m)))"
proof -
  let ?m1 = "m\<lparr>mTaskDb := snd (db_Get (tID t) (mTaskDb m))\<rparr>"
  have h: "db_healthy (mTaskDb m)" "mTaskDb m \<noteq> None" using assms(1) by (simp_all add: working_def)
  have "fst (db_Get (tID t) (mTaskDb m)) = Inr p" using db_healthy_Get [OF h(1), of "tID t"] assms(2) by simp
  then have chk: "restart_check e t m = (Inr p, ?m1)"
    using h(2) assms(3) by (simp add: restart_check_def task_io Let_def del: not_None_eq)
  have m1: "working ?m1" "task_view ?m1 (tID t) = Some p"
    using assms(1,2) mgr_wf_io(2) [OF workingD(1) [OF assms(1)]] by (simp_all add: working_def)
  obtain old m2 where c: "commit (tID t) (ifWorker fl) (ifTask fl) p ?m1 = (Committed old, m2)"
    using commit_healthy(1) [OF m1(1)] by (metis prod.collapse)
  have eff: "task_view m2 = (task_view m)(tID t \<mapsto> ifTask fl)"
    "asg_view m2 = (asg_view m)(tID t \<mapsto> \<lparr>asTaskID = tID t, asWorker = ifWorker fl\<rparr>)"
    using commit_effect [OF c m1(2) assms(4)] by simp_all
  have h2: "db_healthy (mTaskDb m2)"
    using commit_healthy(2) [OF m1(1), of "tID t" "ifWorker fl" "ifTask fl" p] c by simp
  obtain m3 where fin: "restart_finish e fl t (Inr resp) m = (None, m3\<lparr>mUpdateWaker := Wake (mUpdateWaker m3)\<rparr>)"
    and 3: "same_stores m2 m3"
  proof
    let ?w = "former_owner (Committed old)"
    let ?m3 = "if ?w \<noteq> [] \<and> ?w \<noteq> ifWorker fl
      then bestEffortStopOldContainer e ?w t (release_ports ?w t m2) else m2"
    show "restart_finish e fl t (Inr resp) m = (None, ?m3\<lparr>mUpdateWaker := Wake (mUpdateWaker ?m3)\<rparr>)"
      using chk c assms(5) by (simp add: restart_finish_def StatusCreated_def restart_commit_def Let_def)
    show "same_stores m2 ?m3" by (simp add: same_stores_def)
  qed
  show "task_view (snd (restart_finish e fl t (Inr resp) m)) = (task_view m)(tID t \<mapsto> ifTask fl)"
    "asg_view (snd (restart_finish e fl t (Inr resp) m)) =
       (asg_view m)(tID t \<mapsto> \<lparr>asTaskID = tID t, asWorker = ifWorker fl\<rparr>)"
    "db_healthy (mTaskDb (snd (restart_finish e fl t (Inr resp) m)))"
    using eff h2 same_storesD [OF 3] by (simp_all add: fin)
qed

text \<open>Without an answer the record is Failed again, as it was otherwise.\<close>

definition unanswered :: "menv \<Rightarrow> string \<Rightarrow> task \<Rightarrow> task" where
  "unanswered e reason t = t\<lparr>tState := Failed, tFailureReason := reason, tFinishTime := 0,
     tNextRetryAt := eNow e + restartBackoff e (tRestartCount t)\<rparr>"

lemma unanswered_simps [simp]:
  "tID (unanswered e r t) = tID t" "tState (unanswered e r t) = Failed" "tRestartCount (unanswered e r t) = tRestartCount t"
  "tContainerID (unanswered e r t) = tContainerID t" "spec_of (unanswered e r t) = spec_of t"
  "tManuallyStopped (unanswered e r t) = tManuallyStopped t"
  by (simp_all add: unanswered_def)

lemma restart_lost:
  assumes "working m" "task_view m (tID t) = Some t"
  obtains reason where
    "task_view (snd (restart_finish e fl t (Inl err) m)) = (task_view m)(tID t \<mapsto> unanswered e reason t)"
    "asg_view (snd (restart_finish e fl t (Inl err) m)) = asg_view m"
    "working (snd (restart_finish e fl t (Inl err) m))" "mNodes (snd (restart_finish e fl t (Inl err) m)) = mNodes m"
proof -
  let ?m1 = "release_ports (ifWorker fl) (ifTask fl) m"
  let ?r = "''could not reach worker '' @ ifWorker fl @ '' to restart: '' @ err_msg err"
  let ?m2 = "markFailed e (tID t) (tRestartCount t) ?r ?m1"
  have fin: "snd (restart_finish e fl t (Inl err) m) = ?m2" by (simp add: restart_finish_def Let_def)
  have h: "db_healthy (mTaskDb ?m1)" "task_view ?m1 (tID t) = Some t" "mgr_wf ?m1"
    using assms by (simp_all add: working_def)
  have v: "task_view ?m2 = (task_view m)(tID t \<mapsto> unanswered e ?r t)"
    using markFailed_healthy [OF h(1,2)] by (simp add: unanswered_def)
  have "db_healthy (mTaskDb ?m2)"
    using h(1) by (simp add: markFailed_def task_io Let_def split: sum.split)
  then have w: "working ?m2" using h(3) assms(1) by (simp add: working_def markFailed_frame)
  have "mNodes ?m2 = mNodes m"
    by (simp add: markFailed_def task_io Let_def release_ports_def split: sum.split)
  with v w show ?thesis by (intro that [of ?r]) (simp_all add: fin markFailed_frame)
qed

text \<open>A report of another attempt is ignored.\<close>

lemma update_one_stale:
  assumes "db_healthy (mTaskDb m)" "task_view m (tID t) = Some p" "tRestartCount t \<noteq> tRestartCount p"
  shows "task_view (update_one e a t m) = task_view m"
proof -
  have "fst (db_Get (tID t) (mTaskDb m)) = Inr p" using db_healthy_Get [OF assms(1), of "tID t"] assms(2) by simp
  then show ?thesis using assms(3) by (simp add: update_one_def task_io)
qed

lemma update_list_stale:
  assumes "db_healthy (mTaskDb m)" "distinct (map tID ts)" "t \<in> set ts" "task_view m (tID t) = Some p"
    and "tRestartCount t \<noteq> tRestartCount p"
  shows "task_view (fold (update_one e a) ts m) (tID t) = Some p"
proof -
  obtain xs ys where ts: "ts = xs @ t # ys" using split_list [OF assms(3)] by blast
  have d: "tID t \<notin> tID ` set xs" "tID t \<notin> tID ` set ys" using assms(2) by (auto simp: ts)
  let ?m1 = "fold (update_one e a) xs m"
  have 1: "db_healthy (mTaskDb ?m1)" "task_view ?m1 (tID t) = Some p"
    using update_list_others [OF assms(1) d(1), of e a] assms(4) by simp_all
  let ?m2 = "update_one e a t ?m1"
  have 2: "db_healthy (mTaskDb ?m2)" "task_view ?m2 (tID t) = Some p"
    using update_one_healthy(1) [OF 1(1)] update_one_stale [OF 1 assms(5)] 1(2) by simp_all
  show ?thesis using update_list_others [OF 2(1) d(2), of e a] 2(2) by (simp add: ts)
qed

subsection \<open>The worker's half\<close>

lemma adopt_fields [simp]:
  "tID (adopt t p) = tID t" "tState (adopt t p) = tState t" "tRestartCount (adopt t p) = tRestartCount t"
  "spec_of (adopt t p) = spec_of t" "tFailureReason (adopt t p) = tFailureReason t" "tFinishTime (adopt t p) = tFinishTime t"
  by (simp_all add: adopt_def Let_def)

lemma restart_accepted:
  assumes "wk_ok w" "wk_view w (tID t) = Some p" "Validate (veExt v) t = None" "tState t = Scheduled"
  obtains w' where "wk_AddTask v t w = (None, w')" "wk_ok w'" "wk_view w' = (wk_view w)(tID t \<mapsto> adopt t p)"
    "q_items (wQueue w') = q_items (wQueue w) @ [adopt t p]" "wDocker w' = wDocker w"
proof -
  obtain r w1 where g: "wk_Get (tID t) w = (r, w1)" by fastforce
  have db: "wDb w \<noteq> None" using assms(1) by (simp add: wk_ok_def)
  have w1: "r = Inr p" "wk_ok w1" "wk_view w1 = wk_view w" "wDocker w1 = wDocker w" "wQueue w1 = wQueue w"
    using wk_Get_effect [OF assms(1), of "tID t"] g assms(2) by simp_all
  obtain k w2 where put: "wk_Put (tID t) (adopt t p) w1 = (k, w2)" by fastforce
  have w2: "k = None" "wk_ok w2" "wk_view w2 = (wk_view w)(tID t \<mapsto> adopt t p)" "wDocker w2 = wDocker w"
    "wQueue w2 = wQueue w"
    using wk_Put_effect [OF w1(2), of "adopt t p" "tID t"] put w1 by simp_all
  have add: "wk_AddTask v t w = (None, wk_enqueue (adopt t p) w2)"
    using assms(3,4) db g w1(1) put w2(1) by (simp add: wk_AddTask_def accept_start_def Let_def del: not_None_eq)
  have "wk_ok (wk_enqueue u w2) = wk_ok w2" "wk_view (wk_enqueue u w2) = wk_view w2"
    "wDocker (wk_enqueue u w2) = wDocker w2" "q_items (wQueue (wk_enqueue u w2)) = q_items (wQueue w2) @ [u]" for u
    by (simp_all add: wk_enqueue_def Enqueue_def wk_ok_def wk_view_def)
  with add w2 that show ?thesis by simp
qed

lemma deliver_restart:
  assumes "wk_ok w" "wk_view w (tID t) = Some p" "Validate (veExt v) t = None" "tState t = Scheduled"
    and "eTask (ifEvent fl) = t" "\<not> is_stop (ifEvent fl)"
  shows "\<exists>resp w'. deliver v fl w = (Inr resp, w') \<and> prStatus resp = 201 \<and> wk_ok w'
    \<and> wk_view w' = (wk_view w)(tID t \<mapsto> adopt t p) \<and> q_items (wQueue w') = q_items (wQueue w) @ [adopt t p]
    \<and> wDocker w' = wDocker w"
proof -
  obtain w' where w': "wk_AddTask v t w = (None, w')" "wk_ok w'" "wk_view w' = (wk_view w)(tID t \<mapsto> adopt t p)"
    "q_items (wQueue w') = q_items (wQueue w) @ [adopt t p]" "wDocker w' = wDocker w"
    by (rule restart_accepted [OF assms(1-4)])
  have "deliver v fl w = (Inr \<lparr>prStatus = 201, prTask = t, prMessage = []\<rparr>, w')"
    using assms(5,6) w'(1) Validate_ports [OF assms(3)]
    by (simp add: deliver_def wk_StartTaskHandler_def as_post_def is_stop_def)
  with w' show ?thesis by simp
qed

text \<open>The worker's record once the restart ran: \<open>c\<close> is the new container.\<close>

definition running_again :: "'d wenv \<Rightarrow> task \<Rightarrow> task \<Rightarrow> string \<Rightarrow> port_mapping list \<Rightarrow> task" where
  "running_again v t p c ps =
     (adopt t p)\<lparr>tStartTime := veNow v, tContainerID := c, tState := Running, tHostPorts := ps\<rparr>"

lemma running_again_simps [simp]:
  "tID (running_again v t p c ps) = tID t" "tState (running_again v t p c ps) = Running"
  "tContainerID (running_again v t p c ps) = c" "tHostPorts (running_again v t p c ps) = ps"
  "tRestartCount (running_again v t p c ps) = tRestartCount t"
  by (simp_all add: running_again_def)

lemma worker_restarts:
  assumes "wk_ok w" "wk_view w (tID t) = Some p" "q_items (wQueue w) = []" "Validate (veExt v) t = None" "tState t = Scheduled"
    and "eTask (ifEvent fl) = t" "\<not> is_stop (ifEvent fl)"
    and "docker_laws live (veApi v)" "can_run v t" "can_stop v"
  obtains resp w1 ts w3 c ps where "deliver v fl w = (Inr resp, w1)" "prStatus resp = 201"
    "report (RunTasks_turn v w1) = (Inr \<lparr>StatusCode = 200, Body = Inr ts\<rparr>, w3)"
    "running_again v t p c ps \<in> set ts" "distinct (map tID ts)"
    "wk_ok w3" "q_items (wQueue w3) = []" "wk_view w3 = (wk_view w)(tID t \<mapsto> running_again v t p c ps)"
    "made_since (veApi v) (wDocker w) c" "c \<notin> removed (tContainerID (adopt t p)) (live (wDocker w))"
    "live (wDocker w3) = insert c (removed (tContainerID (adopt t p)) (live (wDocker w)))"
proof -
  let ?u = "adopt t p"
  obtain resp w1 where w1: "deliver v fl w = (Inr resp, w1)" "prStatus resp = 201" "wk_ok w1"
      "wk_view w1 = (wk_view w)(tID t \<mapsto> ?u)" "q_items (wQueue w1) = [?u]" "wDocker w1 = wDocker w"
    using deliver_restart [OF assms(1,2,4-7)] assms(3) by auto
  have u: "can_run v ?u" "Validate (veExt v) ?u = None" "wk_view w1 (tID ?u) = Some ?u" "tState ?u = Scheduled"
    using assms(4,5,9) w1(4) Validate_spec [of ?u t "veExt v"] by (simp_all add: can_run_def)
  obtain c ps where w2: "wk_view (RunTasks_turn v w1) = (wk_view w1)(tID t \<mapsto> running_again v t p c ps)"
      "made_since (veApi v) (wDocker w1) c" "c \<notin> removed (tContainerID ?u) (live (wDocker w1))"
      "live (wDocker (RunTasks_turn v w1)) = insert c (removed (tContainerID ?u) (live (wDocker w1)))"
      "wk_ok (RunTasks_turn v w1)" "q_items (wQueue (RunTasks_turn v w1)) = []"
    using run_start [OF w1(3) assms(8) u(1) assms(10) w1(5) u(3,2,4)] by (auto simp: running_again_def)
  obtain ts w3 where l: "wk_getTasks (RunTasks_turn v w1) = (ts, w3)" by fastforce
  note ls = wk_list [OF w2(5) l]
  show ?thesis
  proof (rule that [OF w1(1,2)])
    show "report (RunTasks_turn v w1) = (Inr \<lparr>StatusCode = 200, Body = Inr ts\<rparr>, w3)"
      using l by (simp add: report_def wk_GetTasksHandler_def as_list_def json_reply_def)
    show "running_again v t p c ps \<in> set ts" using ls(1) w2(1) by (auto simp: ran_def)
  qed (use ls w1 w2 in simp_all)
qed

subsection \<open>A failed task runs again\<close>

text \<open>
  One restart: the request reaches the worker, its answer passes \<open>net\<close>, the worker takes a turn and
  reports.
\<close>

definition restart_round ::
  "(post_result \<Rightarrow> post_result) \<Rightarrow> menv \<Rightarrow> menv \<Rightarrow> 'd wenv \<Rightarrow> task \<Rightarrow> inflight \<Rightarrow> manager \<times> 'd worker \<Rightarrow> manager \<times> 'd worker" where
  "restart_round net e e' v t fl s =
     (let (m, w) = s;
          (post, w) = deliver v fl w;
          m = snd (restart_finish e fl t (net post) m);
          w = RunTasks_turn v w;
          (got, w) = report w
      in (update_worker e' (ifWorker fl) got m, w))"

lemma merge_running:
  assumes "tState p = Scheduled" "tState r = Running"
  shows "tState (merge_report e p r) = Running" "tContainerID (merge_report e p r) = tContainerID r"
    "tHostPorts (merge_report e p r) = tHostPorts r" "tRestartCount (merge_report e p r) = tRestartCount p"
    "tFailureReason (merge_report e p r) = tFailureReason p" "spec_of (merge_report e p r) = spec_of p"
  using assms by (simp_all add: merge_report_def Let_def IsTerminal_def)

lemma answered_round:
  assumes judged: "\<not> tManuallyStopped t" "task_view m0 (tID t) = Some t" "working m0"
    and owned: "asg_view m0 (tID t) = Some a" "asWorker a \<noteq> []"
    and placed: "restart_prepare e1 t m0 = (Inr fl, m1)" "ifWorker fl = asWorker a"
    and worker: "wk_ok w0" "wk_view w0 (tID t) = Some p" "q_items (wQueue w0) = []"
    and daemon: "docker_laws live (veApi v)" "can_run v t" "can_stop v" "Validate (veExt v) t = None"
    and round: "restart_round id e2 e3 v t fl (m1, w0) = (m', w')"
  obtains q r where "task_view m' (tID t) = Some q" "tState q = Running" "spec_of q = spec_of t"
    "tRestartCount q = inc (tRestartCount t)" "tFailureReason q = []"
    "wk_view w' (tID t) = Some r" "tState r = Running" "tContainerID r = tContainerID q" "tHostPorts r = tHostPorts q"
    "made_since (veApi v) (wDocker w0) (tContainerID q)" "tContainerID q \<notin> removed (tContainerID (adopt t p)) (live (wDocker w0))"
    "live (wDocker w') = insert (tContainerID q) (removed (tContainerID (adopt t p)) (live (wDocker w0)))"
proof -
  let ?s = "restarted t"
  note sent = restart_sent [OF placed(1) judged(3) owned(1) placed(2) owned(2)]
  have s: "tID ?s = tID t" "tState ?s = Scheduled" "tRestartCount ?s = inc (tRestartCount t)" "tFailureReason ?s = []"
    "tContainerID ?s = tContainerID t" "Validate (veExt v) ?s = None" "can_run v ?s"
    using daemon(2,4) Validate_spec [of ?s t "veExt v"] by (simp_all add: restarted_def can_run_def)
  have ad: "tContainerID (adopt ?s p) = tContainerID (adopt t p)" using s(5) by (simp add: adopt_ids)
  have view: "wk_view w0 (tID ?s) = Some p" using worker(2) s(1) by simp
  obtain resp w1 ts w3 c ps where w: "deliver v fl w0 = (Inr resp, w1)" "prStatus resp = 201"
    "report (RunTasks_turn v w1) = (Inr \<lparr>StatusCode = 200, Body = Inr ts\<rparr>, w3)"
    "running_again v ?s p c ps \<in> set ts" "distinct (map tID ts)" "wk_ok w3" "q_items (wQueue w3) = []"
    "wk_view w3 = (wk_view w0)(tID ?s \<mapsto> running_again v ?s p c ps)"
    "made_since (veApi v) (wDocker w0) c" "c \<notin> removed (tContainerID (adopt t p)) (live (wDocker w0))"
    "live (wDocker w3) = insert c (removed (tContainerID (adopt t p)) (live (wDocker w0)))"
    by (rule worker_restarts [OF worker(1) view worker(3) s(6,2) sent(2,3) daemon(1) s(7) daemon(3), unfolded ad])
  let ?m2 = "snd (restart_finish e2 fl t (Inr resp) m1)"
  have "task_view m1 (tID t) = Some t" "tID (ifTask fl) = tID t" using sent(1,5) judged(2) s(1) by simp_all
  note fin = finish_restart [OF sent(4) this(1) judged(1) this(2) w(2), of e2]
  have out: "w' = w3" "m' = fold (update_one e3 (ifWorker fl)) ts ?m2"
    using round w(1,3)
    by (simp_all add: restart_round_def Let_def update_worker_def fetchTasksFromWorker_def StatusOK_def)
  have "task_view ?m2 (tID (running_again v ?s p c ps)) = Some ?s" using fin(1) sent(1) s(1) by simp
  from update_list_one(1) [OF fin(3) w(5,4) this, of e3 "ifWorker fl"]
  have m': "task_view m' (tID t) = Some (merge_report e3 ?s (running_again v ?s p c ps))"
    using out(2) s(1) by simp
  have "spec_of ?s = spec_of t" by simp
  with merge_running [OF s(2), of "running_again v ?s p c ps" e3] w(8-11) out(1) s show ?thesis
    by (intro that [OF m', of "running_again v ?s p c ps"]) simp_all
qed

text \<open>
  C4: a failed task recovers. When the manager decides to restart a task and places it on the worker that
  still has it on record with the container the manager knows, with working stores, nothing else queued
  there, and a daemon that stops containers, runs this specification and never gives the ID of that
  container again, then after one exchange, one turn of the worker and one report the task is recorded as
  running with its restart counted and its failure cleared. It runs in a container the daemon did not have
  before, which both records name; the old container is gone, and no other container is touched.
\<close>

theorem failed_task_recovers:
  assumes judged: "restart_decision e1 now t = Restart" "task_view m0 (tID t) = Some t" "working m0"
    and owned: "asg_view m0 (tID t) = Some a" "asWorker a \<noteq> []"
    and placed: "restart_prepare e1 t m0 = (Inr fl, m1)" "ifWorker fl = asWorker a"
    and worker: "wk_ok w0" "wk_view w0 (tID t) = Some p" "tContainerID p = tContainerID t" "q_items (wQueue w0) = []"
    and daemon: "docker_laws live (veApi v)" "can_run v t" "can_stop v" "Validate (veExt v) t = None"
      "\<not> made_since (veApi v) (wDocker w0) (tContainerID t)"
    and round: "restart_round id e2 e3 v t fl (m1, w0) = (m', w')"
  shows "\<exists>q r. task_view m' (tID t) = Some q \<and> tState q = Running \<and> spec_of q = spec_of t
    \<and> tRestartCount q = inc (tRestartCount t) \<and> tFailureReason q = []
    \<and> wk_view w' (tID t) = Some r \<and> tState r = Running \<and> tContainerID r = tContainerID q \<and> tHostPorts r = tHostPorts q
    \<and> tContainerID q \<noteq> tContainerID t \<and> tContainerID q \<notin> live (wDocker w0)
    \<and> (tContainerID t \<noteq> [] \<longrightarrow> tContainerID t \<notin> live (wDocker w'))
    \<and> live (wDocker w') = insert (tContainerID q) (removed (tContainerID t) (live (wDocker w0)))"
proof -
  have "\<not> tManuallyStopped t" using judged(1) by (auto simp: restart_decision_def split: if_splits)
  note answered = answered_round [OF this judged(2,3) owned placed worker(1,2,4) daemon(1-4) round]
  have "tContainerID (adopt t p) = tContainerID t" using worker(3) by (simp add: adopt_ids)
  note answered = answered [unfolded this]
  obtain q r where q: "task_view m' (tID t) = Some q" "tState q = Running" "spec_of q = spec_of t"
    "tRestartCount q = inc (tRestartCount t)" "tFailureReason q = []"
    "wk_view w' (tID t) = Some r" "tState r = Running" "tContainerID r = tContainerID q" "tHostPorts r = tHostPorts q"
    "made_since (veApi v) (wDocker w0) (tContainerID q)" "tContainerID q \<notin> removed (tContainerID t) (live (wDocker w0))"
    "live (wDocker w') = insert (tContainerID q) (removed (tContainerID t) (live (wDocker w0)))"
    by (rule answered)
  have new: "tContainerID q \<noteq> tContainerID t" using q(10) daemon(5) by auto
  have gone: "tContainerID q \<notin> live (wDocker w0)" "tContainerID t \<noteq> [] \<longrightarrow> tContainerID t \<notin> live (wDocker w')"
    using new q(11) unfolding q(12) by (auto simp: removed_def split: if_splits)
  show ?thesis using q(1-9,12) new gone by blast
qed

section \<open>A restart whose reply is lost\<close>

lemma working_update_list:
  assumes "working m"
  shows "working (fold (update_one e a) ts m) \<and> asg_view (fold (update_one e a) ts m) = asg_view m
    \<and> mNodes (fold (update_one e a) ts m) = mNodes m"
  using assms
proof (induction ts arbitrary: m)
  case (Cons t ts)
  have h: "db_healthy (mTaskDb m)" "mgr_wf m" "db_healthy (mAssignments m)" using Cons.prems by (simp_all add: working_def)
  have same: "mAssignments (update_one e a t m) = mAssignments m" "mNodes (update_one e a t m) = mNodes m"
    by (simp_all add: update_one_def task_io forgetTaskOnWorker_def split: sum.split)
  then have "working (update_one e a t m)"
    using h same(1) update_one_healthy(1) [OF h(1)] flowsD [OF flows_update_one h(2)] by (simp add: working_def)
  from Cons.IH [OF this] update_one_healthy(2) [OF h(1)] same(2) show ?case by simp
qed simp

lemma inc_neq: "inc n \<noteq> n"
proof
  assume "inc n = n"
  then have "(n + 1 + 2 ^ 63) mod 2 ^ 64 = n + (2 ^ 63 :: int)" by (simp add: inc_def wrap64_def)
  then have "(n + 1 + 2 ^ 63) mod 2 ^ 64 = (n + 2 ^ 63) mod (2 ^ 64 :: int)"
    by (metis mod_mod_trivial)
  then show False by (simp add: mod_eq_dvd_iff)
qed

lemma lost_round:
  assumes judged: "task_view m0 (tID t) = Some t" "working m0"
    and owned: "asg_view m0 (tID t) = Some a" "asWorker a \<noteq> []"
    and placed: "restart_prepare e1 t m0 = (Inr fl, m1)" "ifWorker fl = asWorker a"
    and worker: "wk_ok w0" "wk_view w0 (tID t) = Some p" "q_items (wQueue w0) = []"
    and daemon: "docker_laws live (veApi v)" "can_run v t" "can_stop v" "Validate (veExt v) t = None"
    and round: "restart_round (\<lambda>_. Inl err) e2 e3 v t fl (m1, w0) = (m', w')"
  obtains reason r where "task_view m' (tID t) = Some (unanswered e2 reason t)" "asg_view m' (tID t) = Some a" "working m'" "mNodes m' = mNodes m0"
    "wk_ok w'" "q_items (wQueue w') = []" "wk_view w' (tID t) = Some r" "tState r = Running"
    "made_since (veApi v) (wDocker w0) (tContainerID r)" "tContainerID r \<notin> removed (tContainerID (adopt t p)) (live (wDocker w0))"
    "live (wDocker w') = insert (tContainerID r) (removed (tContainerID (adopt t p)) (live (wDocker w0)))"
proof -
  let ?s = "restarted t"
  note sent = restart_sent [OF placed(1) judged(2) owned(1) placed(2) owned(2)]
  have s: "tID ?s = tID t" "tState ?s = Scheduled" "tRestartCount ?s = inc (tRestartCount t)"
    "tContainerID ?s = tContainerID t" "Validate (veExt v) ?s = None" "can_run v ?s"
    using daemon(2,4) Validate_spec [of ?s t "veExt v"] by (simp_all add: restarted_def can_run_def)
  have ad: "tContainerID (adopt ?s p) = tContainerID (adopt t p)" using s(4) by (simp add: adopt_ids)
  have view: "wk_view w0 (tID ?s) = Some p" using worker(2) s(1) by simp
  obtain resp w1 ts w3 c ps where w: "deliver v fl w0 = (Inr resp, w1)" "prStatus resp = 201"
    "report (RunTasks_turn v w1) = (Inr \<lparr>StatusCode = 200, Body = Inr ts\<rparr>, w3)"
    "running_again v ?s p c ps \<in> set ts" "distinct (map tID ts)" "wk_ok w3" "q_items (wQueue w3) = []"
    "wk_view w3 = (wk_view w0)(tID ?s \<mapsto> running_again v ?s p c ps)"
    "made_since (veApi v) (wDocker w0) c" "c \<notin> removed (tContainerID (adopt t p)) (live (wDocker w0))"
    "live (wDocker w3) = insert c (removed (tContainerID (adopt t p)) (live (wDocker w0)))"
    by (rule worker_restarts [OF worker(1) view worker(3) s(5,2) sent(2,3) daemon(1) s(6) daemon(3), unfolded ad])
  let ?m2 = "snd (restart_finish e2 fl t (Inl err) m1)"
  have m1: "task_view m1 (tID t) = Some t" using sent(5) judged(1) by simp
  obtain reason where lost: "task_view ?m2 = (task_view m1)(tID t \<mapsto> unanswered e2 reason t)"
    "asg_view ?m2 = asg_view m1" "working ?m2" "mNodes ?m2 = mNodes m1"
    by (rule restart_lost [OF sent(4) m1])
  have out: "w' = w3" "m' = fold (update_one e3 (ifWorker fl)) ts ?m2"
    using round w(1,3)
    by (simp_all add: restart_round_def Let_def update_worker_def fetchTasksFromWorker_def StatusOK_def)
  have "task_view m' (tID (running_again v ?s p c ps)) = Some (unanswered e2 reason t)"
    unfolding out(2)
    by (rule update_list_stale [OF workingD(2) [OF lost(3)] w(5,4)])
      (use lost(1) s(1,3) inc_neq in simp_all)
  moreover have "working m'" "asg_view m' (tID t) = Some a" "mNodes m' = mNodes m0"
    using working_update_list [OF lost(3)] lost(2,4) sent(6,7) owned(1) by (simp_all add: out(2))
  ultimately show ?thesis
    using w(6-11) out(1) s(1) by (intro that [of reason "running_again v ?s p c ps"]) simp_all
qed

text \<open>
  C27: a lost reply costs a container. A worker accepts and runs a restart, but its reply does not reach the
  manager. The manager records the failure without counting a restart, ignores the worker's reports,
  which belong to another attempt, and decides to restart again, still naming the container of the failed
  run. The worker believes it: although the daemon does not give the ID of that container a second time, the
  container that the first restart made keeps running, while the records of the task, at the manager and at
  the worker, name another one.
\<close>

theorem lost_reply_orphans:
  assumes judged: "restart_decision e1 now t = Restart" "tState t = Failed" "task_view m0 (tID t) = Some t" "working m0"
    and owned: "asg_view m0 (tID t) = Some a" "asWorker a \<noteq> []"
    and placed: "restart_prepare e1 t m0 = (Inr fl, m1)" "ifWorker fl = asWorker a"
    and worker: "wk_ok w0" "wk_view w0 (tID t) = Some p" "tContainerID p = tContainerID t" "tContainerID t \<noteq> []"
      "q_items (wQueue w0) = []"
    and daemon: "docker_laws live (veApi v)" "can_run v t" "can_stop v" "Validate (veExt v) t = None"
      "\<not> made_since (veApi v) (wDocker w0) (tContainerID t)"
    and lost: "restart_round (\<lambda>_. Inl err) e2 e3 v t fl (m1, w0) = (m2, w2)"
    and again: "task_view m2 (tID t) = Some t2" "restart_prepare e4 t2 m2 = (Inr fl2, m3)" "ifWorker fl2 = asWorker a"
    and answered: "restart_round id e5 e6 v t2 fl2 (m3, w2) = (m', w')"
  shows "(tNextRetryAt t2 \<le> later \<longrightarrow> restart_decision e1 later t2 = Restart)
    \<and> (\<exists>r q r'. wk_view w2 (tID t) = Some r \<and> tState r = Running
        \<and> task_view m' (tID t) = Some q \<and> wk_view w' (tID t) = Some r' \<and> tContainerID r' = tContainerID q
        \<and> tContainerID r \<noteq> tContainerID q \<and> {tContainerID r, tContainerID q} \<subseteq> live (wDocker w'))"
proof -
  have ad: "tContainerID (adopt t p) = tContainerID t" using worker(3) by (simp add: adopt_ids)
  obtain reason r where 1: "task_view m2 (tID t) = Some (unanswered e2 reason t)" "asg_view m2 (tID t) = Some a" "working m2" "mNodes m2 = mNodes m0"
    "wk_ok w2" "q_items (wQueue w2) = []" "wk_view w2 (tID t) = Some r" "tState r = Running"
    "made_since (veApi v) (wDocker w0) (tContainerID r)" "tContainerID r \<notin> removed (tContainerID t) (live (wDocker w0))"
    "live (wDocker w2) = insert (tContainerID r) (removed (tContainerID t) (live (wDocker w0)))"
    by (rule lost_round [OF judged(3,4) owned placed worker(1,2,5) daemon(1-4) lost, unfolded ad])
  have t2: "t2 = unanswered e2 reason t" using again(1) 1(1) by simp
  have unstopped: "\<not> tManuallyStopped t2"
    using judged(1) by (auto simp: t2 restart_decision_def split: if_splits)
  have ad2: "tContainerID (adopt t2 r) = tContainerID t" using worker(4) by (simp add: adopt_ids t2)
  have same: "can_run v t2" "Validate (veExt v) t2 = None"
    using daemon(2,4) Validate_spec [of t2 t "veExt v"] by (simp_all add: can_run_def t2)
  have views: "task_view m2 (tID t2) = Some t2" "asg_view m2 (tID t2) = Some a" "wk_view w2 (tID t2) = Some r"
    using again(1) 1(2,7) by (simp_all add: t2)
  obtain q r' where 2: "task_view m' (tID t2) = Some q" "wk_view w' (tID t2) = Some r'" "tContainerID r' = tContainerID q"
    "tContainerID q \<notin> removed (tContainerID t) (live (wDocker w2))"
    "live (wDocker w') = insert (tContainerID q) (removed (tContainerID t) (live (wDocker w2)))"
    by (rule answered_round [OF unstopped views(1) 1(3) views(2) owned(2) again(2,3) 1(5) views(3) 1(6)
        daemon(1) same(1) daemon(3) same(2) answered, unfolded ad2])
  have "restart_decision e1 later t2 = Restart" if "tNextRetryAt t2 \<le> later"
    using judged(1,2) that
    by (auto simp: restart_decision_def t2 unanswered_def IsTerminal_def AtRestartCap_def EffectiveMaxRestarts_def
        time_IsZero_def split: if_splits)
  moreover have "tContainerID r \<noteq> tContainerID t" using 1(9) daemon(5) by auto
  then have "tContainerID r \<noteq> tContainerID q" "{tContainerID r, tContainerID q} \<subseteq> live (wDocker w')"
    using 1(11) 2(4,5) worker(4) by auto
  ultimately show ?thesis using 1(7,8) 2(1-3) by (auto simp: t2)
qed

section \<open>A clean exit whose restart cannot be sent\<close>

text \<open>
  C29: a clean exit can end the retries of a task that its policy restarts, though all stores work. The
  record says Completed, with
  a finish time, and the manager decides to restart it; the worker that owns it cannot be reached, and the
  record becomes Failed with a retry due. But the worker still has the exit on record: its next report of
  it, of the same attempt, stamps the finish time on the Failed record and makes it a terminal failure,
  which no later pass restarts.
\<close>

theorem sync_ends_retry:
  assumes exited: "tState t = Completed" "restart_decision e1 now t = Restart" "task_view m0 (tID t) = Some t" "working m0"
    and owned: "asg_view m0 (tID t) = Some a" "asWorker a \<noteq> []"
    and placed: "restart_prepare e1 t m0 = (Inr fl, m1)" "ifWorker fl = asWorker a"
    and unreachable: "restart_finish e2 fl t (Inl err) m1 = (failure, m2)"
    and report: "r \<in> set ts" "distinct (map tID ts)" "tID r = tID t" "tState r = Completed"
      "\<not> time_IsZero (tFinishTime r)" "tRestartCount r = tRestartCount t"
    and pass: "m3 = update_worker e3 (asWorker a) (Inr \<lparr>StatusCode = 200, Body = Inr ts\<rparr>) m2"
  shows "\<exists>f q. task_view m2 (tID t) = Some f \<and> tState f = Failed \<and> tRestartCount f = tRestartCount t
    \<and> (tNextRetryAt f \<le> later \<longrightarrow> restart_decision e1 later f = Restart)
    \<and> task_view m3 (tID t) = Some q \<and> tState q = Failed \<and> tRestartCount q = tRestartCount t
    \<and> spec_of q = spec_of t \<and> \<not> tManuallyStopped q \<and> (\<forall>e' now'. restart_decision e' now' q = Skip)"
proof -
  note sent = restart_sent [OF placed(1) exited(4) owned(1) placed(2) owned(2)]
  have m1: "task_view m1 (tID t) = Some t" using sent(5) exited(3) by simp
  obtain reason where lost: "task_view m2 = (task_view m1)(tID t \<mapsto> unanswered e2 reason t)" "working m2"
    using restart_lost [OF sent(4) m1, of e2 fl err] unreachable by auto
  let ?f = "unanswered e2 reason t"
  have "restart_decision e1 later ?f = Restart" if "tNextRetryAt ?f \<le> later"
    using exited(1,2) that restart_on_success_imp
    by (auto simp: restart_decision_def unanswered_def IsTerminal_def AtRestartCap_def EffectiveMaxRestarts_def
        time_IsZero_def split: if_splits)
  moreover have "task_view m3 (tID t) = Some (merge_report e3 ?f r)"
  proof -
    have "m3 = fold (update_one e3 (asWorker a)) ts m2"
      by (simp add: pass update_worker_def fetchTasksFromWorker_def StatusOK_def)
    moreover have "task_view m2 (tID r) = Some ?f" using lost(1) report(3) by simp
    ultimately show ?thesis
      using update_list_one(1) [OF workingD(2) [OF lost(2)] report(2,1), of ?f e3 "asWorker a"] report(3,6) by simp
  qed
  moreover have "tManuallyStopped t = False" using exited(1,2) by (auto simp: restart_decision_def split: if_splits)
  then have "tState (merge_report e3 ?f r) = Failed" "tRestartCount (merge_report e3 ?f r) = tRestartCount t"
    "spec_of (merge_report e3 ?f r) = spec_of t" "\<not> tManuallyStopped (merge_report e3 ?f r)"
    "restart_decision e' now' (merge_report e3 ?f r) = Skip" for e' now'
    using report(4,5) by (simp_all add: merge_report_def Let_def IsTerminal_def restart_decision_def)
  ultimately show ?thesis using lost(1) by (intro exI [of _ ?f] exI [of _ "merge_report e3 ?f r"]) simp
qed

section \<open>Rounds on a small cluster\<close>

text \<open>A manager whose one record is owned by its one node.\<close>

definition owning_manager :: "task \<Rightarrow> manager" where
  "owning_manager t = demo_manager\<lparr>mTaskDb := snd (db_Put (tID t) t (mTaskDb demo_manager)),
     mAssignments := snd (setAssignment (tID t) ''w1:80'' (mAssignments demo_manager))\<rparr>"

lemma owning_manager_ok:
  "working (owning_manager t)" "task_view (owning_manager t) (tID t) = Some t"
  "asg_view (owning_manager t) (tID t) = Some \<lparr>asTaskID = tID t, asWorker = ''w1:80''\<rparr>"
  "mNodes (owning_manager t) = [blank_node ''w1:80'']" "q_items (mPending (owning_manager t)) = []"
  by (auto simp: owning_manager_def working_def setAssignment_def db_healthy_def mgr_wf_def task_view_def
      asg_view_def eval_manager store_wf_def al_wf_def queue_New_def simp del: db_view_task db_view_asg)

lemma small_node: "mNodes m = [blank_node ''w1:80''] \<Longrightarrow> workerByAddress ''w1:80'' m = Some (blank_node ''w1:80'')"
  by (simp add: workerByAddress_def blank_node_def)

lemma restart_places:
  assumes "working m" "mNodes m = [blank_node ''w1:80'']" "tPorts t = []"
    and "asg_view m (tID t) = Some a" "asWorker a = ''w1:80''"
  shows "\<exists>fl m'. restart_prepare demo_env t m = (Inr fl, m') \<and> ifWorker fl = asWorker a"
proof -
  note own = owner_read [OF assms(1,4)]
  let ?m1 = "m\<lparr>mAssignments := snd (readAssignment (tID t) (mAssignments m))\<rparr>"
  have n: "workerByAddress ''w1:80'' ?m1 = Some (blank_node ''w1:80'')" using assms(2) by (intro small_node) simp
  have p: "tPorts (restarted t) = []" using assms(3) by (simp add: restarted_def)
  have "reserve_owner demo_env (restarted t) ''w1:80'' ?m1 = Some (blank_node ''w1:80'', ?m1)"
    unfolding reserve_owner_def n by (simp add: conflictsLocked_def requestedPortKeys_def hasPinnedHostPorts_def p)
  moreover have "ValidatePortMappings (eExt demo_env) [] = None"
    by (simp add: ValidatePortMappings_None [OF std_ext_ok] demo_env_def ports_ok_def)
  ultimately have "selectAndReserveWorker demo_env (restarted t) ''w1:80'' ?m1 = (Inr (blank_node ''w1:80''), ?m1)"
    by (simp add: selectAndReserveWorker_def select_and_reserve_def p)
  moreover have "eMarshal demo_env x = None" for x by (simp add: demo_env_def)
  moreover have "nAddress (blank_node ''w1:80'') = ''w1:80''" by (simp add: blank_node_def)
  ultimately show ?thesis using own(1) assms(5) by (simp add: restart_prepare_def Let_def)
qed

lemma stop_sends:
  assumes "working m" "mNodes m = [blank_node ''w1:80'']" "q_items (mPending m) = [te]" "is_stop te"
    and "asg_view m (tID (eTask te)) = Some a" "asWorker a = ''w1:80''"
  shows "\<exists>fl m'. dispatch_prepare demo_env m = (Some fl, m')"
proof -
  define m1 where "m1 = snd (dequeuePending m)"
  have m1: "dequeuePending m = (Some te, m1)" using assms(3) by (simp add: m1_def dequeuePending_def Dequeue_def)
  have 1: "same_stores m m1" unfolding m1_def by (rule quiet_queue(4))
  have w1: "working m1" "asg_view m1 (tID (eTask te)) = Some a" "mNodes m1 = mNodes m"
    using 1 assms(1,5) by (simp_all add: working_same_stores same_storesD m1_def dequeuePending_def
        split: prod.split option.split)
  let ?m2 = "m1\<lparr>mAssignments := snd (readAssignment (tID (eTask te)) (mAssignments m1))\<rparr>"
  have n: "workerByAddress ''w1:80'' ?m2 = Some (blank_node ''w1:80'')"
    using assms(2) w1(3) by (intro small_node) simp
  have "eMarshal demo_env x = None" for x by (simp add: demo_env_def)
  then show ?thesis
    using m1 owner_read(1) [OF w1(1,2)] assms(4,6) n
    by (simp add: dispatch_prepare_def dispatch_event_def dispatch_owned_def launch_def Let_def)
qed

text \<open>The daemon of the witnesses removes a container whether or not it is there.\<close>

lemma memory_docker_stops: "can_stop demo_wenv"
  by (auto simp: can_stop_def demo_wenv_def memory_docker_def d_Stop_def Let_def errors_Is_def)

definition stopping_task :: task where
  "stopping_task = demo_task\<lparr>tState := Running, tContainerID := ''c''\<rparr>"

definition failing_task :: task where
  "failing_task = demo_task\<lparr>tState := Failed, tContainerID := ''old'', tRestartPolicy := ''always''\<rparr>"

lemma demo_round_tasks:
  "Validate std_ext stopping_task = None" "Validate std_ext failing_task = None"
  "restart_decision demo_env now failing_task = Restart \<longleftrightarrow> 0 \<le> now" "tPorts failing_task = []" "tID failing_task = 7"
  "tID stopping_task = 7" "tContainerID failing_task = ''old''" "tContainerID stopping_task = ''c''"
  "tState failing_task = Failed" "tState stopping_task = Running" "tFailureReason stopping_task = []"
  using Validate_None [OF std_ext_ok, of stopping_task] Validate_None [OF std_ext_ok, of failing_task]
  by (simp_all add: stopping_task_def failing_task_def demo_task_def zero_task_def task_ok_def ports_ok_def
      restart_decision_def IsTerminal_def AtRestartCap_def EffectiveMaxRestarts_def ShouldRestart_def demo_env_def
      linorder_not_less RestartPolicyAlways_def RestartPolicyOnFailure_def RestartPolicyUnlessStopped_def
      time_IsZero_def)

theorem stopped_task_ends_witness:
  "\<exists>rep m1 fl m2 m' w' q. StopTaskHandler demo_env ''web'' (owning_manager stopping_task) = (rep, m1) \<and> rpStatus rep = 204
     \<and> dispatch_prepare demo_env m1 = (Some fl, m2)
     \<and> dispatch_round demo_env demo_env demo_wenv fl (m2, demo_worker [''c'', ''other''] [stopping_task]) = (m', w')
     \<and> task_view m' 7 = Some q \<and> tState q = Completed \<and> set (wDocker w') = {''other''}"
proof -
  let ?t = stopping_task and ?m = "owning_manager stopping_task" and ?w = "demo_worker [''c'', ''other''] [stopping_task]"
  have u: "uuid_Parse (eExt demo_env) s = None" for s by (simp add: demo_defs)
  have "fst (getTasks ?m) = [?t]"
    by (simp add: getTasks_alt owning_manager_def setAssignment_def eval_manager)
  moreover have "ResolveRef (eExt demo_env) [?t] ''web'' = (?t, True, False)"
    by (simp add: ResolveRef_def u name_matches_eq stopping_task_def demo_task_def)
  ultimately obtain m where r: "resolveTask demo_env ''web'' ?m = ((?t, True, False), m)"
    by (cases "getTasks ?m") (simp add: resolveTask_def)
  obtain rep m1 where s: "StopTaskHandler demo_env ''web'' ?m = (rep, m1)" by fastforce
  have valid: "Validate (eExt demo_env) ?t = None" by (simp add: demo_env_def demo_round_tasks)
  have "rpStatus rep = 204"
    using stop_accepted [OF owning_manager_ok(1) r _ demo_round_tasks(10) owning_manager_ok(3) _ valid] s by simp
  note rec = stop_recorded [OF s this owning_manager_ok(1) r demo_round_tasks(10) owning_manager_ok(3)]
  have te: "is_stop (stop_request demo_env ?t)" "tID (eTask (stop_request demo_env ?t)) = tID ?t"
    by (simp_all add: stop_request_def is_stop_def)
  have q: "working m1" "mNodes m1 = [blank_node ''w1:80'']" "q_items (mPending m1) = [stop_request demo_env ?t]"
    "asg_view m1 (tID (eTask (stop_request demo_env ?t))) = Some \<lparr>asTaskID = tID ?t, asWorker = ''w1:80''\<rparr>"
    using rec(1,2,4,6) owning_manager_ok(3-5) [of ?t] te(2) by simp_all
  have "\<exists>fl m2. dispatch_prepare demo_env m1 = (Some fl, m2)"
    by (rule stop_sends [OF q(1-3) te(1) q(4)]) simp
  then obtain fl m2 where d: "dispatch_prepare demo_env m1 = (Some fl, m2)" by blast
  obtain m' w' where f: "dispatch_round demo_env demo_env demo_wenv fl (m2, ?w) = (m', w')" by fastforce
  have wk: "wk_view ?w (tID ?t) = Some ?t" "q_items (wQueue ?w) = []" "veExt demo_wenv = eExt demo_env"
    "docker_laws set (veApi demo_wenv)" "tContainerID ?t \<noteq> []"
    by (simp_all add: demo_worker_ok demo_round_tasks)
      (simp_all add: demo_wenv_def demo_env_def demo_worker_def queue_New_def memory_docker_laws)
  have new: "NewDocker (veApi demo_wenv) = None" by (simp add: demo_wenv_def NewDocker_def memory_docker_def)
  have "asWorker \<lparr>asTaskID = tID ?t, asWorker = ''w1:80''\<rparr> \<noteq> []" by simp
  from stopped_task_ends [OF s \<open>rpStatus rep = 204\<close> r owning_manager_ok(1,5) demo_round_tasks(10) owning_manager_ok(3)
      this d demo_worker_ok(2) wk(1) demo_round_tasks(10) wk(5,2-4) new memory_docker_stops f, of demo_env 0]
  have "\<exists>q. task_view m' 7 = Some q \<and> tState q = Completed" "set (wDocker w') = {''other''}"
    by (auto simp: demo_round_tasks demo_worker_ok)
  with s \<open>rpStatus rep = 204\<close> d f show ?thesis by blast
qed

lemma failing_setup:
  "wk_view (demo_worker cs [failing_task]) (tID failing_task) = Some failing_task"
  "q_items (wQueue (demo_worker cs ts)) = []" "docker_laws set (veApi demo_wenv)"
  "Validate (veExt demo_wenv) failing_task = None" "restart_decision demo_env 0 failing_task = Restart"
  "tContainerID failing_task \<noteq> []" "asWorker \<lparr>asTaskID = tID failing_task, asWorker = ''w1:80''\<rparr> \<noteq> []"
  by (simp_all add: demo_worker_ok demo_round_tasks)
    (simp_all add: demo_wenv_def demo_worker_def queue_New_def memory_docker_laws demo_round_tasks)

lemma failing_made: "\<not> made_since (veApi demo_wenv) d (tContainerID failing_task)"
  by (simp add: made_since_def demo_wenv_def memory_docker_def demo_round_tasks Let_def)

theorem failed_task_recovers_witness:
  "\<exists>fl m1 m' w' q. restart_prepare demo_env failing_task (owning_manager failing_task) = (Inr fl, m1)
     \<and> restart_round id demo_env demo_env demo_wenv failing_task fl (m1, demo_worker [''old'', ''other''] [failing_task]) = (m', w')
     \<and> task_view m' 7 = Some q \<and> tState q = Running \<and> tContainerID q \<noteq> ''old'' \<and> set (wDocker w') = {tContainerID q, ''other''}"
proof -
  let ?t = failing_task and ?m = "owning_manager failing_task" and ?w = "demo_worker [''old'', ''other''] [failing_task]"
  obtain fl m1 where p: "restart_prepare demo_env ?t ?m = (Inr fl, m1)"
      "ifWorker fl = asWorker \<lparr>asTaskID = tID ?t, asWorker = ''w1:80''\<rparr>"
    using restart_places [OF owning_manager_ok(1,4) demo_round_tasks(4) owning_manager_ok(3)] by auto
  obtain m' w' where f: "restart_round id demo_env demo_env demo_wenv ?t fl (m1, ?w) = (m', w')" by fastforce
  from failed_task_recovers [OF failing_setup(5) owning_manager_ok(2,1,3) failing_setup(7) p demo_worker_ok(2) failing_setup(1)
      refl failing_setup(2,3) memory_docker_runs [OF demo_round_tasks(4)] memory_docker_stops failing_setup(4) failing_made f]
  have "\<exists>q. task_view m' 7 = Some q \<and> tState q = Running \<and> tContainerID q \<noteq> ''old'' \<and> set (wDocker w') = {tContainerID q, ''other''}"
    by (auto simp: demo_round_tasks demo_worker_ok)
  with p(1) f show ?thesis by blast
qed

theorem lost_reply_orphans_witness:
  "\<exists>fl m1 m2 w2 t2 fl2 m3 m' w' r q. restart_prepare demo_env failing_task (owning_manager failing_task) = (Inr fl, m1)
     \<and> restart_round (\<lambda>_. Inl (errorf ''timeout'')) demo_env demo_env demo_wenv failing_task fl
          (m1, demo_worker [''old''] [failing_task]) = (m2, w2)
     \<and> task_view m2 7 = Some t2 \<and> wk_view w2 7 = Some r \<and> tState r = Running
     \<and> restart_prepare demo_env t2 m2 = (Inr fl2, m3)
     \<and> restart_round id demo_env demo_env demo_wenv t2 fl2 (m3, w2) = (m', w')
     \<and> task_view m' 7 = Some q \<and> tContainerID q \<noteq> tContainerID r \<and> tContainerID r \<in> set (wDocker w')"
proof -
  let ?t = failing_task and ?m = "owning_manager failing_task" and ?w = "demo_worker [''old''] [failing_task]"
  let ?net = "\<lambda>_. Inl (errorf ''timeout'')"
  obtain fl m1 where p: "restart_prepare demo_env ?t ?m = (Inr fl, m1)"
      "ifWorker fl = asWorker \<lparr>asTaskID = tID ?t, asWorker = ''w1:80''\<rparr>"
    using restart_places [OF owning_manager_ok(1,4) demo_round_tasks(4) owning_manager_ok(3)] by auto
  obtain m2 w2 where l: "restart_round ?net demo_env demo_env demo_wenv ?t fl (m1, ?w) = (m2, w2)" by fastforce
  obtain reason where 2: "task_view m2 (tID ?t) = Some (unanswered demo_env reason ?t)"
      "asg_view m2 (tID ?t) = Some \<lparr>asTaskID = tID ?t, asWorker = ''w1:80''\<rparr>" "working m2" "mNodes m2 = mNodes ?m"
    by (rule lost_round [OF owning_manager_ok(2,1,3) failing_setup(7) p demo_worker_ok(2) failing_setup(1-3)
        memory_docker_runs [OF demo_round_tasks(4)] memory_docker_stops failing_setup(4) l])
  let ?t2 = "unanswered demo_env reason ?t"
  have "tPorts ?t2 = []" by (simp add: unanswered_def demo_round_tasks)
  then obtain fl2 m3 where p2: "restart_prepare demo_env ?t2 m2 = (Inr fl2, m3)"
      "ifWorker fl2 = asWorker \<lparr>asTaskID = tID ?t, asWorker = ''w1:80''\<rparr>"
    using restart_places [OF 2(3), of ?t2] 2(2,4) owning_manager_ok(4) by auto
  obtain m' w' where f: "restart_round id demo_env demo_env demo_wenv ?t2 fl2 (m3, w2) = (m', w')" by fastforce
  from lost_reply_orphans [OF failing_setup(5) demo_round_tasks(9) owning_manager_ok(2,1,3) failing_setup(7) p
      demo_worker_ok(2) failing_setup(1) refl failing_setup(6,2,3) memory_docker_runs [OF demo_round_tasks(4)]
      memory_docker_stops failing_setup(4) failing_made l 2(1) p2 f, of 0]
  obtain r q where "wk_view w2 7 = Some r" "tState r = Running" "task_view m' 7 = Some q"
      "tContainerID q \<noteq> tContainerID r" "tContainerID r \<in> set (wDocker w')"
    by (auto simp: demo_round_tasks)
  moreover have "task_view m2 7 = Some ?t2" using 2(1) by (simp add: demo_round_tasks)
  ultimately show ?thesis using p(1) l p2(1) f by blast
qed

definition exited_task :: task where
  "exited_task = demo_task\<lparr>tState := Completed, tContainerID := ''old'', tFinishTime := 50, tRestartPolicy := ''always''\<rparr>"

lemma exited_task_fields:
  "tID exited_task = 7" "tState exited_task = Completed" "tPorts exited_task = []" "tFinishTime exited_task = 50"
  "restart_decision demo_env 60 exited_task = Restart"
  by (simp_all add: exited_task_def demo_task_def zero_task_def restart_decision_def AtRestartCap_def
      EffectiveMaxRestarts_def ShouldRestartOnSuccess_def demo_env_def RestartPolicyAlways_def
      RestartPolicyUnlessStopped_def)

theorem sync_ends_retry_witness:
  "\<exists>fl m1 m2 f m3 q. restart_prepare demo_env exited_task (owning_manager exited_task) = (Inr fl, m1)
     \<and> m2 = snd (restart_finish demo_env fl exited_task (Inl (errorf ''unreachable'')) m1)
     \<and> task_view m2 7 = Some f \<and> restart_decision demo_env (tNextRetryAt f) f = Restart
     \<and> m3 = update_worker demo_env ''w1:80'' (Inr \<lparr>StatusCode = 200, Body = Inr [exited_task]\<rparr>) m2
     \<and> task_view m3 7 = Some q \<and> (\<forall>now. restart_decision demo_env now q = Skip)"
proof -
  let ?t = exited_task and ?m = "owning_manager exited_task" and ?a = "\<lparr>asTaskID = 7, asWorker = ''w1:80''\<rparr>"
  note ok = owning_manager_ok [of ?t, unfolded exited_task_fields(1)]
  note own = owning_manager_ok(2,3) [of ?t]
  obtain fl m1 where p: "restart_prepare demo_env ?t ?m = (Inr fl, m1)"
      "ifWorker fl = asWorker \<lparr>asTaskID = tID ?t, asWorker = ''w1:80''\<rparr>"
    using restart_places [OF ok(1,4) exited_task_fields(3) own(2)] by auto
  obtain x m2 where f: "restart_finish demo_env fl ?t (Inl (errorf ''unreachable'')) m1 = (x, m2)" by fastforce
  have nz: "\<not> time_IsZero (tFinishTime ?t)" by (simp add: exited_task_fields time_IsZero_def)
  have a: "asWorker \<lparr>asTaskID = tID ?t, asWorker = ''w1:80''\<rparr> \<noteq> []" by simp
  have ends: "\<exists>f q. task_view m2 7 = Some f \<and> (tNextRetryAt f \<le> later \<longrightarrow> restart_decision demo_env later f = Restart)
      \<and> task_view (update_worker demo_env ''w1:80'' (Inr \<lparr>StatusCode = 200, Body = Inr [?t]\<rparr>) m2) 7 = Some q
      \<and> (\<forall>now. restart_decision demo_env now q = Skip)" for later
    using sync_ends_retry [OF exited_task_fields(2,5) own(1) ok(1) own(2) a p f _ _ refl exited_task_fields(2) nz refl refl,
        of "[?t]" later demo_env] by (auto simp: exited_task_fields)
  then obtain f0 where f0: "task_view m2 7 = Some f0" by blast
  from ends [of "tNextRetryAt f0"] f0 p(1) f show ?thesis by auto
qed

end
