(* ===== verification/Races.thy ===== *)
theory Races
  imports Threads Recovery
begin

text \<open>
  What can happen between the goroutines of a worker that \<open>containers_covered\<close> leaves out: a forget that
  overlaps a restart, and an inspection that overlaps one.
\<close>

section \<open>Schedules\<close>

text \<open>Every step may be taken.\<close>

abbreviation anytime :: "'d worker \<Rightarrow> job \<Rightarrow> bool" where
  "anytime w j \<equiv> True"

text \<open>A goroutine that is left alone gets where its job alone gets.\<close>

lemma run_alone:
  "site_reach (veApi v) anytime (s\<lparr>siWorker := w, siRun := Some j\<rparr>)
     (s\<lparr>siWorker := run_ended (Inl (fst (alone v j w))) (snd (alone v j w)), siRun := None\<rparr>)"
proof (induction v j w rule: alone.induct)
  case (1 v j w)
  let ?s = "s\<lparr>siWorker := w, siRun := Some j\<rparr>"
  obtain r w1 where st: "job_step v j w = (r, w1)" by fastforce
  have "site_step (veApi v) anytime ?s (?s\<lparr>siWorker := run_ended r w1, siRun := rest_of r\<rparr>)"
    by (rule run_steps [of _ j]) (use st in simp_all)
  then have one: "site_reach (veApi v) anytime ?s (s\<lparr>siWorker := run_ended r w1, siRun := rest_of r\<rparr>)"
    using site_next [OF site_start] by simp
  show ?case
  proof (cases r)
    case (Inl e)
    then have "alone v j w = (e, w1)" using st by (subst alone.simps) simp
    then show ?thesis using one Inl by (simp add: rest_of_def)
  next
    case (Inr k)
    have a: "alone v j w = alone v k w1" using st Inr by (subst alone.simps) simp
    from one Inr have "site_reach (veApi v) anytime ?s (s\<lparr>siWorker := w1, siRun := Some k\<rparr>)"
      by (simp add: rest_of_def run_ended_def)
    from site_reach_trans [OF this 1 [OF st [symmetric] Inr]] show ?thesis by (simp add: a)
  qed
qed

lemma handler_step:
  assumes "job_step v j w = (Inr k, w')"
  shows "site_reach (veApi v) anytime (s\<lparr>siWorker := w, siHandlers := hs @ (rq, j) # hs'\<rparr>)
     (s\<lparr>siWorker := w', siHandlers := hs @ (rq, k) # hs'\<rparr>)"
proof -
  let ?s = "s\<lparr>siWorker := w, siHandlers := hs @ (rq, j) # hs'\<rparr>" and ?r = "Inr k :: gerror option + job"
  have "site_step (veApi v) anytime ?s
      (?s\<lparr>siWorker := w', siHandlers := hs @ (case ?r of Inl _ \<Rightarrow> hs' | Inr j \<Rightarrow> (rq, j) # hs'),
        siAnswers := siAnswers ?s @ (case ?r of Inl err \<Rightarrow> [(rq, err)] | Inr _ \<Rightarrow> [])\<rparr>)"
    by (rule handler_steps [where j = j and r = ?r and v = v and w = w' and hs = hs and hs' = hs' and request = rq])
      (use assms in simp_all)
  then show ?thesis using site_next [OF site_start] by simp
qed

lemma handler_alone:
  "site_reach (veApi v) anytime (s\<lparr>siWorker := w, siHandlers := hs @ (rq, j) # hs'\<rparr>)
     (s\<lparr>siWorker := snd (alone v j w), siHandlers := hs @ hs', siAnswers := siAnswers s @ [(rq, fst (alone v j w))]\<rparr>)"
proof (induction v j w rule: alone.induct)
  case (1 v j w)
  let ?s = "s\<lparr>siWorker := w, siHandlers := hs @ (rq, j) # hs'\<rparr>"
  obtain r w1 where st: "job_step v j w = (r, w1)" by fastforce
  show ?case
  proof (cases r)
    case (Inl e)
    have "site_step (veApi v) anytime ?s
        (?s\<lparr>siWorker := w1, siHandlers := hs @ (case r of Inl _ \<Rightarrow> hs' | Inr j \<Rightarrow> (rq, j) # hs'),
          siAnswers := siAnswers ?s @ (case r of Inl err \<Rightarrow> [(rq, err)] | Inr _ \<Rightarrow> [])\<rparr>)"
      by (rule handler_steps [of _ _ _ j]) (use st in simp_all)
    moreover have "alone v j w = (e, w1)" using st Inl by (subst alone.simps) simp
    ultimately show ?thesis using site_next [OF site_start] Inl by simp
  next
    case (Inr k)
    have a: "alone v j w = alone v k w1" using st Inr by (subst alone.simps) simp
    from site_reach_trans [OF handler_step [OF st [unfolded Inr]] 1 [OF st [symmetric] Inr]] show ?thesis by (simp add: a)
  qed
qed

text \<open>The run loop starts a restart that it has taken from the queue.\<close>

lemma start_alone:
  assumes "wk_ok w" "docker_laws live (veApi v)" "can_run v t" "can_stop v" "q_items (wQueue w) = []"
    and "wk_view w (tID t) = Some t" "Validate (veExt v) t = None" "tState t = Scheduled"
  obtains w' c ps where "snd (alone v (JEvent t) w) = w'" "wk_ok w'" "q_items (wQueue w') = []"
    "wk_view w' = (wk_view w)(tID t \<mapsto> t\<lparr>tStartTime := veNow v, tContainerID := c, tState := Running, tHostPorts := ps\<rparr>)"
    "made_since (veApi v) (wDocker w) c" "live (wDocker w') = insert c (removed (tContainerID t) (live (wDocker w)))"
proof -
  let ?w = "w\<lparr>wQueue := \<lparr>q_items = [t]\<rparr>\<rparr>"
  have wok: "wk_ok ?w" "wk_view ?w = wk_view w" using assms(1) by (simp_all add: wk_ok_def wk_view_def)
  have q: "Dequeue (wQueue ?w) = (Some t, wQueue w)" "queue_Len (wQueue ?w) \<noteq> 0"
    using assms(5) by (simp_all add: Dequeue_def queue_Len_def)
  obtain res w' where e: "run_event v t w = (res, w')" by fastforce
  have turn: "RunTasks_turn v ?w = (if drError res \<noteq> None then w' else w'\<lparr>wUpdateWaker := Wake (wUpdateWaker w')\<rparr>)"
    using q e by (simp add: RunTasks_turn_def runTask_def)
  have same: "wk_view (RunTasks_turn v ?w) = wk_view w'" "wDocker (RunTasks_turn v ?w) = wDocker w'"
    "wk_ok (RunTasks_turn v ?w) = wk_ok w'" "wQueue (RunTasks_turn v ?w) = wQueue w'"
    unfolding turn by (simp_all add: wk_view_def wk_ok_def)
  have start: "\<exists>c ps. wk_view (RunTasks_turn v ?w) = (wk_view ?w)(tID t \<mapsto> t\<lparr>tStartTime := veNow v, tContainerID := c,
        tState := Running, tHostPorts := ps\<rparr>)
      \<and> made_since (veApi v) (wDocker ?w) c \<and> daemon_later (veApi v) (wDocker ?w) (wDocker (RunTasks_turn v ?w))
      \<and> c \<notin> removed (tContainerID t) (live (wDocker ?w))
      \<and> live (wDocker (RunTasks_turn v ?w)) = insert c (removed (tContainerID t) (live (wDocker ?w)))
      \<and> wk_ok (RunTasks_turn v ?w) \<and> q_items (wQueue (RunTasks_turn v ?w)) = []"
    by (rule run_start [OF wok(1) assms(2-4)]) (use assms(6-8) wok(2) in simp_all)
  have "snd (alone v (JEvent t) w) = w'" by (simp add: alone_event e)
  with start that show ?thesis unfolding same wok(2) by auto
qed


section \<open>A forget that overlaps a restart\<close>

lemma forget_finds:
  assumes "wk_ok w" "wk_view w i = Some t"
  obtains w' where "job_step v (JForget i) w = (Inr (JDropQueued i t), w')" "wk_ok w'" "wk_view w' = wk_view w"
    "wDocker w' = wDocker w" "wQueue w' = wQueue w"
proof -
  obtain r w' where g: "wk_Get i w = (r, w')" by fastforce
  have w': "r = Inr t" "wk_view w' = wk_view w" "wk_ok w'" "wDocker w' = wDocker w" "wQueue w' = wQueue w"
    using wk_Get_effect [OF assms(1), of i] g assms(2) by simp_all
  have "wDb w \<noteq> None" using assms(1) by (simp add: wk_ok_def)
  then show ?thesis using g w' by (intro that [of w']) (simp_all del: not_None_eq)
qed

text \<open>A forget whose stop of an earlier container is over writes the old record back and deletes it.\<close>

lemma stopped_forget:
  assumes "wk_ok w" "wk_view w (tID t) = Some q" "drError res = None"
  shows "fst (alone v (JForStop (JStopped t logs res) (tID t)) w) = None"
    "wk_view (snd (alone v (JForStop (JStopped t logs res) (tID t)) w)) = (wk_view w)(tID t := None)"
    "wDocker (snd (alone v (JForStop (JStopped t logs res) (tID t)) w)) = wDocker w"
proof -
  let ?i = "tID t"
  obtain w1 where g: "wk_getTask ?i w = (Some q, w1)"
    using wk_getTask_effect(1) [OF assms(1), of ?i] assms(2) by (cases "wk_getTask ?i w") auto
  have w1: "wk_ok w1" "wk_view w1 = wk_view w" "wDocker w1 = wDocker w"
    using wk_getTask_effect [OF assms(1), of ?i] g by simp_all
  let ?r = "stopped_record v t q"
  define w2 where "w2 = (case logs of
      Inr (Some l) \<Rightarrow> storeLogsIfAbsent v (tID ?r) l (drExitCode res) ''stop'' (setTask ?r w1) | _ \<Rightarrow> setTask ?r w1)"
  note e = setTask_effect [OF w1(1), of ?r]
  have "wk_quiet (setTask ?r w1) w2" "wDocker w2 = wDocker (setTask ?r w1)"
    by (simp_all add: w2_def split: sum.split option.split)
  then have w2: "wk_ok w2" "wk_view w2 = (wk_view w)(?i \<mapsto> ?r)" "wDocker w2 = wDocker w"
    using wk_quietD [of "setTask ?r w1" w2] e w1 by simp_all
  have "alone v (JStopped t logs res) w = alone v (JStopSet ?r logs res) w1"
    by (subst alone.simps) (simp add: g)
  also have "\<dots> = (None, w2)"
    by (subst alone.simps) (simp add: assms(3) w2_def Let_def split: sum.split option.split)
  finally have a: "alone v (JForStop (JStopped t logs res) ?i) w = forget_record v ?i w2"
    by (simp add: alone_forget_stop)
  have "case wk_view w2 ?i of None \<Rightarrow> True | Some p \<Rightarrow> \<not> active p \<or> tContainerID p = []"
    by (simp add: w2(2) active_def stopped_record_inactive)
  from forget_record_effect [OF w2(1) this, of v]
  show "fst (alone v (JForStop (JStopped t logs res) ?i) w) = None"
    "wk_view (snd (alone v (JForStop (JStopped t logs res) ?i) w)) = (wk_view w)(?i := None)"
    "wDocker (snd (alone v (JForStop (JStopped t logs res) ?i) w)) = wDocker w"
    using w2 by (simp_all add: a)
qed

text \<open>
  The first half of the race: the run loop takes the event of the restart, the forget reads the record
  and stops the old container, and has not yet written what it did.
\<close>

lemma forget_stops_first:
  assumes worker: "wk_ok w" "wk_view w (tID t) = Some t" "q_items (wQueue w) = [t]"
    and restart: "tState t = Scheduled" "tContainerID t \<noteq> []"
    and daemon: "docker_laws live (veApi v)" "NewDocker (veApi v) = None" "can_stop v"
  obtains w5 logs res where
    "site_reach (veApi v) anytime (idle_site w) \<lparr>siWorker = w5, siRun = Some (JEvent t), siUpdate = None,
      siHandlers = [(JForget (tID t), JForStop (JStopped t logs res) (tID t))], siAnswers = []\<rparr>"
    "drError res = None" "wk_ok w5" "wk_view w5 = wk_view w" "q_items (wQueue w5) = []"
    "live (wDocker w5) = live (wDocker w) - {tContainerID t}" "daemon_later (veApi v) (wDocker w) (wDocker w5)"
proof -
  let ?i = "tID t" and ?reach = "site_reach (veApi v) anytime"
  let ?at = "\<lambda>w run hs. \<lparr>siWorker = w, siRun = run, siUpdate = None, siHandlers = hs, siAnswers = []\<rparr>"
  let ?q = "JForget ?i"
  define q where "q = snd (Dequeue (wQueue w))"
  have q: "Dequeue (wQueue w) = (Some t, q)" "q_items q = []" using worker(3) by (simp_all add: q_def Dequeue_def)
  define w1 where "w1 = w\<lparr>wQueue := q\<rparr>"
  have w1: "wk_ok w1" "wk_view w1 = wk_view w" "wDocker w1 = wDocker w" "q_items (wQueue w1) = []"
    using worker(1) q(2) by (simp_all add: w1_def wk_ok_def wk_view_def)
  have 1: "?reach (idle_site w) (?at w1 (Some (JEvent t)) [(?q, ?q)])"
  proof -
    have "site_step (veApi v) anytime (idle_site w) ((idle_site w)\<lparr>siHandlers := siHandlers (idle_site w) @ [(?q, ?q)]\<rparr>)"
      by (rule request_arrives) simp
    then have a: "?reach (idle_site w) (?at w None [(?q, ?q)])" using site_next [OF site_start] by (simp add: idle_site_def)
    let ?s = "?at w None [(?q, ?q)]"
    have "site_step (veApi v) anytime ?s (?s\<lparr>siWorker := (siWorker ?s)\<lparr>wQueue := q\<rparr>, siRun := Some (JEvent t)\<rparr>)"
      by (rule run_takes) (simp_all add: q)
    then show ?thesis using site_next [OF a] by (simp add: w1_def)
  qed
  have forget: "?reach (?at x (Some (JEvent t)) [(?q, j)]) (?at x' (Some (JEvent t)) [(?q, k)])"
    if "job_step v j x = (Inr k, x')" for j k x x'
    using handler_step [OF that, where s = "?at x (Some (JEvent t)) []" and hs = "[]" and hs' = "[]" and rq = ?q] by simp
  obtain w2 where w2: "job_step v (JForget ?i) w1 = (Inr (JDropQueued ?i t), w2)" "wk_ok w2" "wk_view w2 = wk_view w1"
      "wDocker w2 = wDocker w1" "wQueue w2 = wQueue w1"
    by (rule forget_finds [OF w1(1)]) (use worker(2) w1(2) in auto)
  define w3 where "w3 = w2\<lparr>wQueue := snd (RemoveAllFunc (wQueue w2) (\<lambda>t. tID t = ?i))\<rparr>"
  have w3: "wk_ok w3" "wk_view w3 = wk_view w" "wDocker w3 = wDocker w" "q_items (wQueue w3) = []"
    using w1 w2 by (simp_all add: w3_def wk_ok_def wk_view_def RemoveAllFunc_eq)
  have 3: "job_step v (JDropQueued ?i t) w2 = (Inr (JForStop (JStop t) ?i), w3)"
    using restart(1,2) by (simp add: w3_def active_def)
  obtain logs w4 where l: "docker_Logs v (tContainerID t) (veLogLines v) w3 = (logs, w4)" by fastforce
  obtain res w5 where s: "docker_Stop v (tContainerID t) w4 = (res, w5)" by fastforce
  have 4: "job_step v (JForStop (JStop t) ?i) w3 = (Inr (JForStop (JStopping t logs) ?i), w4)"
    "job_step v (JForStop (JStopping t logs) ?i) w4 = (Inr (JForStop (JStopped t logs res) ?i), w5)"
    using daemon(2) l s by simp_all
  have "drError (fst (docker_Stop v (tContainerID t) w4)) = None"
    using daemon(3) restart(2) by (simp add: docker_Stop_def can_stop_def case_prod_beta)
  then have ok: "drError res = None" using s by simp
  have "wk_quiet w3 w5" using wk_quiet_trans [OF wk_quiet_docker(1) wk_quiet_docker(3)] l s by (metis snd_conv)
  then have w5: "wk_ok w5" "wk_view w5 = wk_view w" "q_items (wQueue w5) = []"
    using w3 by (simp_all add: wk_quietD) (simp add: wk_quiet_def)
  have l5: "live (wDocker w5) = live (wDocker w) - {tContainerID t}"
    using docker_live(1) [OF daemon(1), of "tContainerID t" "veLogLines v" w3]
      docker_live(3) [OF daemon(1), of "tContainerID t" w4] l s ok w3(3) by simp
  have later: "daemon_later (veApi v) (wDocker w) (wDocker w5)"
    using later_trans [OF docker_later(3) [OF s] docker_later(1) [OF l]] w3(3) by simp
  have "?reach (idle_site w) (?at w5 (Some (JEvent t)) [(?q, JForStop (JStopped t logs res) ?i)])"
    using site_reach_trans [OF site_reach_trans [OF site_reach_trans [OF site_reach_trans [OF
      1 forget [OF w2(1)]] forget [OF 3]] forget [OF 4(1)]] forget [OF 4(2)]] .
  from that [OF this ok w5 l5 later] show thesis .
qed

text \<open>
  C11: a forget can orphan a container. The worker has accepted the restart of a task and takes it from its
  queue; the request to forget the task comes in before the run loop looks at the record, and stops the
  old container. The run loop then starts the new container and records it; the forget, which checks for
  such a reactivation only after it has written the record of its stop, overwrites that record, finds the
  task inactive, deletes it and answers with success. So there is a schedule that ends with the forget
  answered, nothing in progress, and a container that was not there before, that runs, and that no record
  names. The daemon runs and stops containers and gives no ID again that a container or a record has.
\<close>

theorem forget_race_orphans:
  assumes worker: "wk_ok w" "wk_view w (tID t) = Some t" "q_items (wQueue w) = [t]"
    and restart: "tState t = Scheduled" "tContainerID t \<noteq> []" "Validate (veExt v) t = None"
    and daemon: "docker_laws live (veApi v)" "can_run v t" "can_stop v"
      "\<forall>c. c \<in> live (wDocker w) \<or> (\<exists>p\<in>ran (wk_view w). tContainerID p = c) \<longrightarrow> \<not> made_since (veApi v) (wDocker w) c"
  shows "\<exists>s c. site_reach (veApi v) anytime (idle_site w) s \<and> siRun s = None \<and> siUpdate s = None \<and> siHandlers s = []
    \<and> siAnswers s = [(JForget (tID t), None)]
    \<and> wk_view (siWorker s) = (wk_view w)(tID t := None)
    \<and> live (wDocker (siWorker s)) = insert c (live (wDocker w) - {tContainerID t})
    \<and> c \<notin> live (wDocker w) \<and> (\<forall>p\<in>ran (wk_view (siWorker s)). tContainerID p \<noteq> c)"
proof -
  let ?i = "tID t" and ?reach = "site_reach (veApi v) anytime"
  let ?at = "\<lambda>w run hs. \<lparr>siWorker = w, siRun = run, siUpdate = None, siHandlers = hs, siAnswers = []\<rparr>"
  let ?q = "JForget ?i"
  have new: "NewDocker (veApi v) = None" using daemon(2) by (simp add: can_run_def)
  obtain w5 logs res where first: "?reach (idle_site w) (?at w5 (Some (JEvent t)) [(?q, JForStop (JStopped t logs res) ?i)])"
      and ok: "drError res = None" and w5: "wk_ok w5" "wk_view w5 = wk_view w" "q_items (wQueue w5) = []"
      and l5: "live (wDocker w5) = live (wDocker w) - {tContainerID t}"
      and later: "daemon_later (veApi v) (wDocker w) (wDocker w5)"
    by (rule forget_stops_first [OF worker restart(1,2) daemon(1) new daemon(3)])
  obtain w6 c ps where w6: "snd (alone v (JEvent t) w5) = w6" "wk_ok w6" "q_items (wQueue w6) = []"
      "wk_view w6 = (wk_view w5)(?i \<mapsto> t\<lparr>tStartTime := veNow v, tContainerID := c, tState := Running, tHostPorts := ps\<rparr>)"
      "made_since (veApi v) (wDocker w5) c" "live (wDocker w6) = insert c (removed (tContainerID t) (live (wDocker w5)))"
    by (rule start_alone [OF w5(1) daemon(1-3) w5(3)]) (use worker(2) w5(2) restart in auto)
  define w7 where "w7 = run_ended (Inl (fst (alone v (JEvent t) w5))) w6"
  have w7: "wk_ok w7" "wk_view w7 = wk_view w6" "wDocker w7 = wDocker w6"
    using w6(2) by (simp_all add: w7_def run_ended_def wk_ok_def wk_view_def split: option.split)
  let ?j = "JForStop (JStopped t logs res) ?i"
  have run: "?reach (?at w5 (Some (JEvent t)) [(?q, ?j)]) (?at w7 None [(?q, ?j)])"
    using run_alone [where s = "?at w5 None [(?q, ?j)]" and v = v and w = w5 and j = "JEvent t"] by (simp add: w6(1) w7_def)
  have q7: "wk_view w7 ?i = Some (t\<lparr>tStartTime := veNow v, tContainerID := c, tState := Running, tHostPorts := ps\<rparr>)"
    by (simp add: w7(2) w6(4))
  note end_st = stopped_forget [OF w7(1) q7 ok, of v logs]
  let ?w8 = "snd (alone v ?j w7)"
  let ?fin = "(?at ?w8 None [])\<lparr>siAnswers := [(?q, None)]\<rparr>"
  have fin: "?reach (?at w7 None [(?q, ?j)]) ?fin"
    using handler_alone [where s = "?at w7 None []" and v = v and w = w7 and j = ?j and rq = ?q and hs = "[]" and hs' = "[]"]
      end_st(1) by simp
  have reach: "?reach (idle_site w) ?fin"
    using site_reach_trans [OF site_reach_trans [OF first run] fin] .
  have view: "wk_view (snd (alone v ?j w7)) = (wk_view w)(?i := None)"
    using end_st(2) w7(2) w6(4) w5(2) by simp
  have docker: "live (wDocker (snd (alone v ?j w7))) = insert c (live (wDocker w) - {tContainerID t})"
    using end_st(3) w7(3) w6(6) l5 restart(2) by simp
  from later have "made_since (veApi v) (wDocker w) c" using w6(5) by (rule made_since_later)
  then have new: "c \<notin> live (wDocker w)" "\<forall>p\<in>ran (wk_view w). tContainerID p \<noteq> c" using daemon(4) by blast+
  have "ran ((wk_view w)(?i := None)) \<subseteq> ran (wk_view w)" by (auto simp: ran_def)
  then have "\<forall>p\<in>ran (wk_view ?w8). tContainerID p \<noteq> c" unfolding view using new(2) by blast
  then show ?thesis
    by (intro exI [of _ ?fin] exI [of _ c]) (use reach view docker new(1) in simp)
qed


text \<open>A daemon and a worker with one task, for concrete schedules.\<close>

definition racing :: "task_state \<Rightarrow> task" where
  "racing st = (contained ''old'')\<lparr>tState := st\<rparr>"

lemma racing_simps [simp]:
  "tID (racing st) = 1" "tState (racing st) = st" "tContainerID (racing st) = ''old''" "tPorts (racing st) = []"
  by (simp_all add: racing_def contained_def zero_task_def)

lemma racing_env:
  "docker_laws set (veApi demo_wenv)" "can_run demo_wenv (racing st)" "Validate (veExt demo_wenv) (racing st) = None"
  "\<not> made_since (veApi demo_wenv) d ''old''" "\<not> made_since (veApi demo_wenv) d ''other''"
  "\<not> made_since (veApi demo_wenv) d []"
  "veApi demo_wenv = memory_docker"
proof -
  show "docker_laws set (veApi demo_wenv)" by (simp add: demo_wenv_def memory_docker_laws)
  show "can_run demo_wenv (racing st)" by (rule memory_docker_runs) simp
  have "task_ok (racing st)" by (simp add: racing_def contained_def zero_task_def task_ok_def ports_ok_def)
  then show "Validate (veExt demo_wenv) (racing st) = None"
    using Validate_None [OF std_ext_ok, of "racing st"] by (simp add: demo_wenv_def)
  show "\<not> made_since (veApi demo_wenv) d ''old''" "\<not> made_since (veApi demo_wenv) d ''other''"
    "\<not> made_since (veApi demo_wenv) d []"
    by (simp_all add: made_since_def demo_wenv_def memory_docker_def Let_def)
  show "veApi demo_wenv = memory_docker" by (simp add: demo_wenv_def)
qed

definition racing_worker :: "string list worker" where
  "racing_worker = (demo_worker [''old'', ''other''] [racing Scheduled])\<lparr>wQueue := \<lparr>q_items = [racing Scheduled]\<rparr>\<rparr>"

lemma racing_worker_ok:
  "wk_ok racing_worker" "wk_view racing_worker = [1 \<mapsto> racing Scheduled]" "q_items (wQueue racing_worker) = [racing Scheduled]"
  "wDocker racing_worker = [''old'', ''other'']"
proof -
  let ?w = "demo_worker [''old'', ''other''] [racing Scheduled]"
  have same: "wk_ok (w\<lparr>wQueue := q\<rparr>) = wk_ok w" "wk_view (w\<lparr>wQueue := q\<rparr>) = wk_view w" for w :: "string list worker" and q
    by (simp_all add: wk_ok_def wk_view_def)
  show "wk_ok racing_worker" unfolding racing_worker_def same by (rule demo_worker_ok)
  show "wk_view racing_worker = [1 \<mapsto> racing Scheduled]" unfolding racing_worker_def same by (simp add: demo_worker_ok)
  show "q_items (wQueue racing_worker) = [racing Scheduled]" "wDocker racing_worker = [''old'', ''other'']"
    by (simp_all add: racing_worker_def demo_worker_ok)
qed

theorem forget_race_orphans_witness:
  "\<exists>s c. site_reach memory_docker anytime (idle_site racing_worker) s \<and> siRun s = None \<and> siHandlers s = []
     \<and> siAnswers s = [(JForget 1, None)] \<and> wk_view (siWorker s) = Map.empty
     \<and> set (wDocker (siWorker s)) = {c, ''other''} \<and> c \<notin> {''old'', ''other''}"
proof -
  have view: "wk_view racing_worker (tID (racing Scheduled)) = Some (racing Scheduled)" by (simp add: racing_worker_ok)
  have c: "tContainerID (racing Scheduled) \<noteq> []" "tState (racing Scheduled) = Scheduled" by simp_all
  have "\<forall>c. c \<in> set (wDocker racing_worker) \<or> (\<exists>p\<in>ran (wk_view racing_worker). tContainerID p = c)
      \<longrightarrow> \<not> made_since (veApi demo_wenv) (wDocker racing_worker) c"
    using racing_env(4,5) by (auto simp: racing_worker_ok)
  from forget_race_orphans [OF racing_worker_ok(1) view racing_worker_ok(3) c(2,1) racing_env(3,1,2) memory_docker_stops this]
  obtain s c where s: "site_reach memory_docker anytime (idle_site racing_worker) s" "siRun s = None" "siHandlers s = []"
      "siAnswers s = [(JForget 1, None)]" "wk_view (siWorker s) = Map.empty"
      "set (wDocker (siWorker s)) = {c, ''other''}" "c \<notin> {''old'', ''other''}"
    by (auto simp: racing_env(7) racing_worker_ok)
  then show ?thesis by blast
qed

section \<open>An inspection that overlaps a restart\<close>

text \<open>The daemon does not find a container that is gone.\<close>

definition gone_not_found :: "('d \<Rightarrow> string set) \<Rightarrow> 'd docker_api \<Rightarrow> bool" where
  "gone_not_found live api \<longleftrightarrow> (\<forall>c d. c \<notin> live d \<longrightarrow> isl (fst (dkContainerInspect api c d)))"

lemma inspect_gone:
  assumes "docker_laws live (veApi v)" "gone_not_found live (veApi v)" "NewDocker (veApi v) = None"
    and "wk_ok w" "tContainerID t \<notin> live (wDocker w)"
  obtains err w' where "InspectTask v t w = (Inl err, w')" "wk_ok w'" "wk_view w' = wk_view w"
    "live (wDocker w') = live (wDocker w)"
proof -
  obtain r w' where i: "docker_Inspect v (tContainerID t) w = (r, w')" by fastforce
  have "isl (fst (docker_Inspect v (tContainerID t) w))"
    using assms(2,5) by (simp add: gone_not_found_def docker_Inspect_def d_Inspect_def case_prod_beta)
  then obtain err where "r = Inl err" using i by (cases r) auto
  moreover have "wk_quiet w w'" using wk_quiet_docker(2) [of w v "tContainerID t"] i by simp
  moreover have "live (wDocker w') = live (wDocker w)" using docker_live(2) [OF assms(1), of "tContainerID t" w] i by simp
  ultimately show ?thesis using assms(3,4) i by (intro that [of err w']) (simp_all add: InspectTask_def wk_quietD)
qed

lemma verdict_lost:
  assumes "wk_ok w" "wk_view w (tID t) = Some q" "tState q = Running"
  shows "\<exists>w'. refresh_locked v t (Inl err) w = (None, w') \<and> wk_view w' = (wk_view w)(tID t \<mapsto> lost_container (Some err) q)
    \<and> wDocker w' = wDocker w"
proof -
  obtain r w1 where g: "wk_Get (tID t) w = (r, w1)" by fastforce
  have w1: "r = Inr q" "wk_view w1 = wk_view w" "wk_ok w1" "wDocker w1 = wDocker w"
    using wk_Get_effect [OF assms(1), of "tID t"] g assms(2) by simp_all
  have id: "tID (lost_container (Some err) q) = tID t" using assms(1,2) by (simp add: wk_ok_def lost_container_def)
  have "wDb w \<noteq> None" using assms(1) by (simp add: wk_ok_def)
  then have "refresh_locked v t (Inl err) w = (None, snd (wk_Put (tID t) (lost_container (Some err) q) w1))"
    using g w1(1) assms(3) by (simp add: refresh_locked_def del: not_None_eq)
  with wk_Put_effect [OF w1(3) id] w1 show ?thesis by simp
qed

text \<open>A restart that arrives and is carried out between two steps of an update pass.\<close>

lemma restart_meanwhile:
  assumes pass: "siWorker s = w" "siRun s = None" "siUpdate s = Some j" "siHandlers s = []"
    and worker: "wk_ok w" "wk_view w (tID t) = Some t" "q_items (wQueue w) = []" "tContainerID t \<noteq> []"
    and restart: "tID u = tID t" "tState u = Scheduled" "tContainerID u = tContainerID t" "Validate (veExt v) u = None"
    and daemon: "docker_laws live (veApi v)" "can_run v u" "can_stop v"
      "\<not> made_since (veApi v) (wDocker w) (tContainerID t)"
  obtains w4 q where
    "site_reach (veApi v) anytime s \<lparr>siWorker = w4, siRun = None, siUpdate = Some j, siHandlers = [],
      siAnswers = siAnswers s @ [(JAdd u, None)]\<rparr>"
    "wk_ok w4" "wk_view w4 (tID t) = Some q" "tState q = Running" "tContainerID q \<noteq> tContainerID t"
    "live (wDocker w4) = insert (tContainerID q) (live (wDocker w) - {tContainerID t})"
proof -
  let ?i = "tID t" and ?reach = "site_reach (veApi v) anytime"
  let ?at = "\<lambda>w run up hs an. \<lparr>siWorker = w, siRun = run, siUpdate = Some up, siHandlers = hs, siAnswers = an\<rparr>"
  let ?up = j and ?a = "adopt u t"
  define an where "an = siAnswers s"
  define an' where "an' = an @ [(JAdd u, None :: gerror option)]"
  have s: "s = ?at w None ?up [] an" using pass by (cases s) (simp add: an_def)
  obtain w1 where w1: "wk_AddTask v u w = (None, w1)" "wk_ok w1" "wk_view w1 = (wk_view w)(tID u \<mapsto> ?a)"
      "q_items (wQueue w1) = q_items (wQueue w) @ [?a]" "wDocker w1 = wDocker w"
    by (rule restart_accepted [OF worker(1) _ restart(4,2)]) (use worker(2) restart(1) in auto)
  have 1: "?reach s (?at w1 None ?up [] an')"
  proof -
    have "site_step (veApi v) anytime s (s\<lparr>siHandlers := siHandlers s @ [(JAdd u, JAdd u)]\<rparr>)" by (rule request_arrives) simp
    then have a: "?reach s (?at w None ?up [(JAdd u, JAdd u)] an)" using site_next [OF site_start] by (simp add: s)
    have "?reach (?at w None ?up [(JAdd u, JAdd u)] an) (?at w1 None ?up [] an')"
      using handler_alone [where s = "?at w None ?up [] an" and v = v and w = w and j = "JAdd u" and rq = "JAdd u"
          and hs = "[]" and hs' = "[]"]
      by (simp add: alone_add w1(1) an'_def)
    from site_reach_trans [OF a this] show ?thesis .
  qed
  define q where "q = snd (Dequeue (wQueue w1))"
  have q: "Dequeue (wQueue w1) = (Some ?a, q)" "q_items q = []"
    using w1(4) worker(3) by (simp_all add: q_def Dequeue_def)
  define w2 where "w2 = w1\<lparr>wQueue := q\<rparr>"
  have w2: "wk_ok w2" "wk_view w2 = wk_view w1" "wDocker w2 = wDocker w" "q_items (wQueue w2) = []"
    using w1(2,5) q(2) by (simp_all add: w2_def wk_ok_def wk_view_def)
  have 2: "?reach (?at w1 None ?up [] an') (?at w2 (Some (JEvent ?a)) ?up [] an')"
  proof -
    let ?s = "?at w1 None ?up [] an'"
    have "site_step (veApi v) anytime ?s (?s\<lparr>siWorker := (siWorker ?s)\<lparr>wQueue := q\<rparr>, siRun := Some (JEvent ?a)\<rparr>)"
      by (rule run_takes) (simp_all add: q)
    then show ?thesis using site_next [OF site_start] by (simp add: w2_def)
  qed
  have a: "tID ?a = ?i" "tContainerID ?a = tContainerID t" "tState ?a = Scheduled"
    using restart(1-3) worker(4) by (simp_all add: adopt_ids)
  have spec: "spec_of ?a = spec_of u" by simp
  have run: "can_run v ?a" "Validate (veExt v) ?a = None"
    using daemon(2) restart(4) Validate_spec [OF spec] unfolding can_run_def spec by simp_all
  obtain w3 c ps where w3: "snd (alone v (JEvent ?a) w2) = w3" "wk_ok w3" "q_items (wQueue w3) = []"
      "wk_view w3 = (wk_view w2)(tID ?a \<mapsto> ?a\<lparr>tStartTime := veNow v, tContainerID := c, tState := Running, tHostPorts := ps\<rparr>)"
      "made_since (veApi v) (wDocker w2) c" "live (wDocker w3) = insert c (removed (tContainerID ?a) (live (wDocker w2)))"
    by (rule start_alone [OF w2(1) daemon(1) run(1) daemon(3) w2(4) _ run(2) a(3)]) (use w1(3) w2(2) a(1) restart(1) in auto)
  define w4 where "w4 = run_ended (Inl (fst (alone v (JEvent ?a) w2))) w3"
  let ?q = "?a\<lparr>tStartTime := veNow v, tContainerID := c, tState := Running, tHostPorts := ps\<rparr>"
  have same: "wk_ok w4 = wk_ok w3" "wk_view w4 = wk_view w3" "wDocker w4 = wDocker w3"
    by (simp_all add: w4_def run_ended_def wk_ok_def wk_view_def split: option.split)
  then have w4: "wk_ok w4" "wk_view w4 ?i = Some ?q" "wDocker w4 = wDocker w3"
    using w3(2) unfolding same w3(4) a(1) by simp_all
  have 3: "?reach (?at w2 (Some (JEvent ?a)) ?up [] an') (?at w4 None ?up [] an')"
    using run_alone [where s = "?at w2 None ?up [] an'" and v = v and w = w2 and j = "JEvent ?a"] by (simp add: w3(1) w4_def)
  have l4: "live (wDocker w4) = insert c (live (wDocker w) - {tContainerID t})" "c \<noteq> tContainerID t"
    using w3(5,6) w4(3) a(2) w2(3) worker(4) daemon(4) by auto
  have reach: "?reach s (?at w4 None ?up [] an')" using site_reach_trans [OF site_reach_trans [OF 1 2] 3] .
  show thesis
    by (rule that [OF reach [unfolded an'_def an_def] w4(1,2)]) (use l4 in simp_all)
qed

text \<open>
  C12: an inspection can fail a healthy task. The update loop works on the records it read at the start of
  its pass. When a task of that list is restarted before its turn comes, the daemon is asked about the old
  container, and the answer that it is gone is written to the record of the new one: the record says
  Failed, with the container that is running. The daemon runs and stops containers, does not find one that
  is gone, and does not give its ID again; the task store works.
\<close>

theorem stale_inspection_fails:
  assumes pass: "siWorker s = w" "siRun s = None" "siUpdate s = Some (JEach (t # ts))" "siHandlers s = []"
    and worker: "wk_ok w" "wk_view w (tID t) = Some t" "q_items (wQueue w) = []" "tContainerID t \<noteq> []"
      "\<not> taskTimedOut (veNow v) t"
    and restart: "tID u = tID t" "tState u = Scheduled" "tContainerID u = tContainerID t" "Validate (veExt v) u = None"
    and daemon: "docker_laws live (veApi v)" "gone_not_found live (veApi v)" "can_run v u" "can_stop v"
      "\<not> made_since (veApi v) (wDocker w) (tContainerID t)"
  shows "\<exists>s' r. site_reach (veApi v) anytime s s' \<and> siRun s' = None \<and> siUpdate s' = Some (JEach ts) \<and> siHandlers s' = []
    \<and> wk_view (siWorker s') (tID t) = Some r \<and> tState r = Failed
    \<and> tContainerID r \<noteq> tContainerID t \<and> tContainerID r \<in> live (wDocker (siWorker s'))"
proof -
  let ?i = "tID t" and ?reach = "site_reach (veApi v) anytime"
  let ?at = "\<lambda>w up. \<lparr>siWorker = w, siRun = None, siUpdate = Some up, siHandlers = [], siAnswers = siAnswers s @ [(JAdd u, None)]\<rparr>"
  let ?up = "JEach (t # ts)"
  obtain w4 q where first: "?reach s (?at w4 ?up)" and w4: "wk_ok w4" "wk_view w4 ?i = Some q" "tState q = Running"
      and c: "tContainerID q \<noteq> tContainerID t" "live (wDocker w4) = insert (tContainerID q) (live (wDocker w) - {tContainerID t})"
    by (rule restart_meanwhile [OF pass worker(1-4) restart daemon(1,3-5)])
  have new: "NewDocker (veApi v) = None" using daemon(3) by (simp add: can_run_def)
  obtain err w5 where w5: "InspectTask v t w4 = (Inl err, w5)" "wk_ok w5" "wk_view w5 = wk_view w4"
      "live (wDocker w5) = live (wDocker w4)"
    by (rule inspect_gone [OF daemon(1,2) new w4(1)]) (use c in auto)
  obtain w6 where w6: "refresh_locked v t (Inl err) w5 = (None, w6)"
      "wk_view w6 = (wk_view w5)(?i \<mapsto> lost_container (Some err) q)" "wDocker w6 = wDocker w5"
    using verdict_lost [OF w5(2), of t q v err] w4(2,3) w5(3) by auto
  have update: "?reach (?at x j) (?at x' k)" if "job_step v j x = (Inr k, x')" for j k x x'
  proof -
    let ?s = "?at x j"
    have "site_step (veApi v) anytime ?s (?s\<lparr>siWorker := x', siUpdate := rest_of (Inr k)\<rparr>)"
      by (rule update_steps [of _ j]) (use that in simp_all)
    then show ?thesis using site_next [OF site_start] by (simp add: rest_of_def)
  qed
  have 4: "job_step v ?up w4 = (Inr (JVerdict t (Inl err) ts), w5)"
    "job_step v (JVerdict t (Inl err) ts) w5 = (Inr (JEach ts), w6)"
    using worker(5) w5(1) w6(1) by simp_all
  have reach: "?reach s (?at w6 (JEach ts))"
    using site_reach_trans [OF site_reach_trans [OF first update [OF 4(1)]] update [OF 4(2)]] .
  have "wk_view w6 ?i = Some (lost_container (Some err) q)" "tContainerID q \<in> live (wDocker w6)"
    using w6(2,3) w5(4) c(2) by simp_all
  then show ?thesis
    by (intro exI [of _ "?at w6 (JEach ts)"] exI [of _ "lost_container (Some err) q"])
      (use reach c(1) in \<open>simp add: lost_container_def\<close>)
qed


theorem stale_inspection_fails_witness:
  "\<exists>s r. site_reach memory_docker anytime (idle_site (demo_worker [''old''] [racing Running])) s \<and> siRun s = None
     \<and> wk_view (siWorker s) 1 = Some r \<and> tState r = Failed \<and> tContainerID r \<noteq> ''old''
     \<and> tContainerID r \<in> set (wDocker (siWorker s))"
proof -
  let ?w = "demo_worker [''old''] [racing Running]" and ?t = "racing Running" and ?u = "racing Scheduled"
  let ?reach = "site_reach (veApi demo_wenv) anytime"
  obtain ts w where l: "wk_getTasks ?w = (ts, w)" by fastforce
  have q0: "q_items (wQueue ?w) = []" by (simp add: demo_worker_def queue_New_def)
  note ls = wk_list [OF demo_worker_ok(2) l]
  have "set ts = {?t}" "distinct ts" using ls(1,2) by (auto simp: demo_worker_ok distinct_map)
  then have ts: "ts = [?t]" by (cases ts; cases "tl ts") auto
  let ?s = "(idle_site ?w)\<lparr>siWorker := w, siUpdate := Some (JEach [?t])\<rparr>"
  have "site_step (veApi demo_wenv) anytime (idle_site ?w) ((idle_site ?w)\<lparr>siUpdate := Some JUpdate\<rparr>)"
    by (rule update_begins) (simp add: idle_site_def)
  then have 1: "?reach (idle_site ?w) ((idle_site ?w)\<lparr>siUpdate := Some JUpdate\<rparr>)" by (rule site_next [OF site_start])
  let ?s1 = "(idle_site ?w)\<lparr>siUpdate := Some JUpdate\<rparr>"
  have "site_step (veApi demo_wenv) anytime ?s1 (?s1\<lparr>siWorker := w, siUpdate := rest_of (Inr (JEach [?t]))\<rparr>)"
    by (rule update_steps [of _ JUpdate _ demo_wenv]) (use l ts in \<open>simp_all add: idle_site_def\<close>)
  then have 2: "?reach (idle_site ?w) ?s" using site_next [OF 1] by (simp add: rest_of_def)
  have s: "siWorker ?s = w" "siRun ?s = None" "siUpdate ?s = Some (JEach [?t])" "siHandlers ?s = []"
    by (simp_all add: idle_site_def)
  have w: "wk_ok w" "wk_view w (tID ?t) = Some ?t" "q_items (wQueue w) = []" using ls q0 by (simp_all add: demo_worker_ok)
  have t: "tContainerID ?t \<noteq> []" "tState ?u = Scheduled" "tContainerID ?u = tContainerID ?t" "tID ?u = tID ?t"
    "\<not> made_since (veApi demo_wenv) (wDocker w) (tContainerID ?t)" using racing_env(4) by simp_all
  have timed: "\<not> taskTimedOut (veNow demo_wenv) ?t" by (simp add: taskTimedOut_def racing_def contained_def zero_task_def)
  have gone: "gone_not_found set (veApi demo_wenv)" by (simp add: gone_not_found_def demo_wenv_def memory_docker_def)
  from stale_inspection_fails [OF s w t(1) timed t(4,2,3) racing_env(3,1) gone racing_env(2) memory_docker_stops t(5)]
  obtain s' r where "?reach ?s s'" "siRun s' = None" "wk_view (siWorker s') 1 = Some r" "tState r = Failed"
      "tContainerID r \<noteq> ''old''" "tContainerID r \<in> set (wDocker (siWorker s'))"
    by auto
  with site_reach_trans [OF 2] show ?thesis unfolding racing_env(7) by blast
qed

end
